(* ===== verification/Prelude.thy ===== *)
theory Prelude
  imports Main "HOL-Library.Multiset"
begin

text \<open>
  Shared vocabulary of the development: C++ exceptions as values, the result type of code
  that may throw, the sequencing combinator, and the generic list lemmas several components use.

  A C++ function that may throw is a function into \<open>'a result\<close>: \<open>Inl e\<close> is the thrown
  exception (with the text of \<open>what()\<close> where the source builds one), \<open>Inr v\<close> the returned value.
  Logging calls have no effect on any modelled state and are left out everywhere.
  \<open>UndefinedBehaviour\<close> and \<open>NeverResumes\<close> are not exceptions and no handler catches them: the second is the
  outcome of a coroutine that waits for something nobody else is running to do.
\<close>

section \<open>Exceptions and results\<close>

datatype exn =
    RuntimeError string
  | InvalidArgument string
  | OutOfRange string
  | BadOptionalAccess
  | JsonError string
  | FilesystemError string
  | UndefinedBehaviour
  | NeverResumes

type_synonym 'a result = "exn + 'a"

fun rbind :: "'e + 'a \<Rightarrow> ('a \<Rightarrow> 'e + 'b) \<Rightarrow> 'e + 'b" where
  "rbind (Inl e) f = Inl e"
| "rbind (Inr x) f = f x"

fun is_ok :: "'e + 'a \<Rightarrow> bool" where
  "is_ok (Inl e) = False"
| "is_ok (Inr x) = True"

lemma rbind_eq_Inr: "rbind m f = Inr y \<longleftrightarrow> (\<exists>x. m = Inr x \<and> f x = Inr y)"
  by (cases m) auto

lemma rbind_eq_Inl: "rbind m f = Inl e \<longleftrightarrow> m = Inl e \<or> (\<exists>x. m = Inr x \<and> f x = Inl e)"
  by (cases m) auto

lemma rbind_assoc: "rbind (rbind m f) g = rbind m (\<lambda>x. rbind (f x) g)"
  by (cases m) auto

lemma is_ok_iff: "is_ok m \<longleftrightarrow> (\<exists>x. m = Inr x)"
  by (cases m) auto

named_theorems result_simps \<open>how results are taken apart\<close>

lemmas [result_simps] = rbind_eq_Inr rbind_eq_Inl rbind_assoc

text \<open>The message of \<open>what()\<close>, and the statuses the gRPC handlers answer with.\<close>

fun what :: "exn \<Rightarrow> string" where
  "what (RuntimeError m) = m"
| "what (InvalidArgument m) = m"
| "what (OutOfRange m) = m"
| "what BadOptionalAccess = ''bad optional access''"
| "what (JsonError m) = m"
| "what (FilesystemError m) = m"
| "what UndefinedBehaviour = []"
| "what NeverResumes = []"

datatype status =
    StatusOK
  | StatusInvalidArgument string
  | StatusNotFound string
  | StatusAlreadyExists string
  | StatusInternal string
  | StatusUnauthenticated string
  | StatusCancelled

fun error_message :: "status \<Rightarrow> string" where
  "error_message (StatusInvalidArgument m) = m"
| "error_message (StatusNotFound m) = m"
| "error_message (StatusAlreadyExists m) = m"
| "error_message (StatusInternal m) = m"
| "error_message (StatusUnauthenticated m) = m"
| "error_message _ = []"

section \<open>Effects\<close>

text \<open>
  Code with effects on a world of type \<open>'w\<close> (a database, files, the commands run so far): the
  result, thrown or returned, and the world afterwards.  An exception keeps the effects made before.
\<close>

type_synonym ('w, 'a) io = "'w \<Rightarrow> (exn + 'a) \<times> 'w"

definition io_return :: "'a \<Rightarrow> ('w, 'a) io" where
  "io_return x w = (Inr x, w)"

definition io_lift :: "'a result \<Rightarrow> ('w, 'a) io" where
  "io_lift r w = (r, w)"

definition io_bind :: "('w, 'a) io \<Rightarrow> ('a \<Rightarrow> ('w, 'b) io) \<Rightarrow> ('w, 'b) io" where
  "io_bind m f w = (case m w of (Inl e, w') \<Rightarrow> (Inl e, w') | (Inr x, w') \<Rightarrow> f x w')"

definition io_do :: "('w \<Rightarrow> 'w) \<Rightarrow> ('w, unit) io" where
  "io_do f w = (Inr (), f w)"

definition io_get :: "('w \<Rightarrow> 'a) \<Rightarrow> ('w, 'a) io" where
  "io_get f w = (Inr (f w), w)"

definition io_run :: "('w \<Rightarrow> 'a \<times> 'w) \<Rightarrow> ('w, 'a) io" where
  "io_run f w = (case f w of (x, w') \<Rightarrow> (Inr x, w'))"

named_theorems io_simps \<open>running effects\<close>

lemma io_bind_Inr [io_simps]: "m w = (Inr x, w') \<Longrightarrow> io_bind m f w = f x w'"
  by (simp add: io_bind_def)

lemma io_bind_Inl [io_simps]: "m w = (Inl e, w') \<Longrightarrow> io_bind m f w = (Inl e, w')"
  by (simp add: io_bind_def)

lemma io_basics [io_simps]:
  "io_return x w = (Inr x, w)"
  "io_lift r w = (r, w)"
  "io_do f w = (Inr (), f w)"
  "io_get g w = (Inr (g w), w)"
  by (simp_all add: io_return_def io_lift_def io_do_def io_get_def)

lemma io_bind_basics [io_simps]:
  "io_bind (io_return x) f w = f x w"
  "io_bind (io_lift (Inr x)) f w = f x w"
  "io_bind (io_lift (Inl e)) f w = (Inl e, w)"
  "io_bind (io_do g) h w = h () (g w)"
  "io_bind (io_get k) f w = f (k w) w"
  "io_bind (io_run r) f w = (case r w of (y, w') \<Rightarrow> f y w')"
  by (simp_all add: io_bind_def io_basics io_run_def split: prod.splits)

text \<open>A \<open>try\<close> block whose \<open>catch (...)\<close> yields a value.\<close>

fun catchable :: "exn \<Rightarrow> bool" where
  "catchable UndefinedBehaviour = False"
| "catchable NeverResumes = False"
| "catchable _ = True"

definition io_catch :: "('w, 'a) io \<Rightarrow> 'a \<Rightarrow> ('w, 'a) io" where
  "io_catch m x w = (case m w of (Inl e, w') \<Rightarrow> (if catchable e then Inr x else Inl e, w') | (Inr y, w') \<Rightarrow> (Inr y, w'))"

lemma io_catch_simps [io_simps]:
  "m w = (Inr y, w') \<Longrightarrow> io_catch m x w = (Inr y, w')"
  "m w = (Inl e, w') \<Longrightarrow> catchable e \<Longrightarrow> io_catch m x w = (Inr x, w')"
  by (simp_all add: io_catch_def)

lemma io_bind_assoc: "io_bind (io_bind m f) g = io_bind m (\<lambda>x. io_bind (f x) g)"
  by (rule ext) (simp add: io_bind_def split: prod.splits sum.splits)

lemma io_bind_read: "io_bind (\<lambda>w. (g w, w)) h w = (case g w of Inl e \<Rightarrow> (Inl e, w) | Inr x \<Rightarrow> h x w)"
  by (simp add: io_bind_def)

lemma io_bind_return: "snd (io_bind m (\<lambda>_. io_return x) w) = snd (m w)"
  by (simp add: io_bind_def io_return_def split: prod.split sum.split)

lemma io_bind_eq_Inr:
  "io_bind m f w = (Inr y, w') \<longleftrightarrow> (\<exists>x v. m w = (Inr x, v) \<and> f x v = (Inr y, w'))"
  by (auto simp: io_bind_def split: prod.splits sum.splits)

lemma io_bind_InrE:
  assumes "io_bind m f w = (Inr y, w')"
  obtains x v where "m w = (Inr x, v)" "f x v = (Inr y, w')"
  using assms that unfolding io_bind_eq_Inr by blast

lemma io_bind_cong [fundef_cong]:
  "m w = m' w' \<Longrightarrow> (\<And>x v. m' w' = (Inr x, v) \<Longrightarrow> f x v = f' x v) \<Longrightarrow> io_bind m f w = io_bind m' f' w'"
  by (auto simp: io_bind_def split: prod.splits sum.splits)

section \<open>Searching lists by index\<close>

text \<open>
  The index loops \<open>for (i = 0; i < n; i++) if (p(xs[i])) ...\<close> of the sources: the first index
  whose element satisfies the predicate.
\<close>

fun first_index :: "('a \<Rightarrow> bool) \<Rightarrow> 'a list \<Rightarrow> nat option" where
  "first_index p [] = None"
| "first_index p (x # xs) = (if p x then Some 0 else map_option Suc (first_index p xs))"

lemma first_index_None: "first_index p xs = None \<longleftrightarrow> (\<forall>x\<in>set xs. \<not> p x)"
  by (induction xs) auto

lemma first_index_Some:
  "first_index p xs = Some i \<longleftrightarrow> i < length xs \<and> p (xs ! i) \<and> (\<forall>j<i. \<not> p (xs ! j))"
proof (induction xs arbitrary: i)
  case Nil
  then show ?case by simp
next
  case (Cons x xs)
  show ?case
    by (cases i) (auto simp: Cons.IH less_Suc_eq_0_disj)
qed

lemma first_index_SomeD:
  "first_index p xs = Some i \<Longrightarrow> i < length xs \<and> p (xs ! i)"
  by (simp add: first_index_Some)

lemma first_index_unique:
  "i < length xs \<Longrightarrow> distinct (map f xs) \<Longrightarrow> first_index (\<lambda>x. f x = f (xs ! i)) xs = Some i"
  by (auto simp: first_index_Some distinct_conv_nth)

section \<open>Removing and replacing one element\<close>

definition erase_at :: "nat \<Rightarrow> 'a list \<Rightarrow> 'a list" where
  "erase_at i xs = take i xs @ drop (Suc i) xs"

lemma erase_at_simps [simp]:
  "erase_at i [] = []"
  "erase_at 0 (x # xs) = xs"
  "erase_at (Suc i) (x # xs) = x # erase_at i xs"
  by (simp_all add: erase_at_def)

lemma mset_erase_at: "i < length xs \<Longrightarrow> mset xs = add_mset (xs ! i) (mset (erase_at i xs))"
proof (induction xs arbitrary: i)
  case Nil
  then show ?case by simp
next
  case (Cons x xs)
  then show ?case by (cases i) auto
qed

lemma set_erase_at_subset: "set (erase_at i xs) \<subseteq> set xs"
  by (auto simp: erase_at_def dest: in_set_takeD in_set_dropD)

lemma map_erase_at: "map f (erase_at i xs) = erase_at i (map f xs)"
  by (simp add: erase_at_def take_map drop_map)

lemma distinct_erase_at: "distinct xs \<Longrightarrow> distinct (erase_at i xs)"
  by (auto simp: erase_at_def distinct_append dest: in_set_takeD in_set_dropD)
     (metis append_take_drop_id disjoint_iff distinct_append drop_Suc in_set_dropD
       set_drop_subset_set_drop le_SucI order_refl subset_iff)

lemma set_erase_at:
  assumes "distinct xs" and "i < length xs"
  shows "set (erase_at i xs) = set xs - {xs ! i}"
proof -
  have "distinct (xs ! i # erase_at i xs)"
    by (rule mset_eq_imp_distinct_iff [THEN iffD1, OF _ assms(1)]) (simp add: mset_erase_at [OF assms(2)])
  moreover have "set xs = insert (xs ! i) (set (erase_at i xs))"
    using mset_erase_at [OF assms(2)] by (metis list.set(2) mset.simps(2) mset_eq_setD)
  ultimately show ?thesis by simp
qed

lemma mset_list_update:
  "i < length xs \<Longrightarrow> add_mset (xs ! i) (mset (xs[i := y])) = add_mset y (mset xs)"
proof (induction xs arbitrary: i)
  case Nil
  then show ?case by simp
next
  case (Cons x xs)
  show ?case
  proof (cases i)
    case 0
    then show ?thesis by simp
  next
    case (Suc k)
    with Cons show ?thesis by (simp add: add_mset_commute)
  qed
qed

lemma sum_list_update:
  fixes f :: "'a \<Rightarrow> 'b::comm_monoid_add"
  shows "i < length xs \<Longrightarrow>
    sum_list (map f (xs[i := y])) + f (xs ! i) = sum_list (map f xs) + f y"
proof (induction xs arbitrary: i)
  case Nil
  then show ?case by simp
next
  case (Cons x xs)
  then show ?case by (cases i) (auto simp: ac_simps)
qed

lemma sum_list_erase_at:
  fixes f :: "'a \<Rightarrow> 'b::comm_monoid_add"
  shows "i < length xs \<Longrightarrow> sum_list (map f (erase_at i xs)) + f (xs ! i) = sum_list (map f xs)"
proof (induction xs arbitrary: i)
  case Nil
  then show ?case by simp
next
  case (Cons x xs)
  then show ?case by (cases i) (auto simp: ac_simps)
qed

lemma length_erase_at: "i < length xs \<Longrightarrow> length (erase_at i xs) = length xs - 1"
  by (simp add: erase_at_def)

lemma map_list_update_same:
  "i < length xs \<Longrightarrow> f y = f (xs ! i) \<Longrightarrow> map f (xs[i := y]) = map f xs"
  by (simp add: map_update list_update_same_conv)

section \<open>Running a list of operations\<close>

text \<open>
  A client that performs a list of operations one after the other, each of which may throw.
  \<open>trace_ok\<close> says that every operation is performed in a state where its caller is allowed to
  (\<open>ok\<close>); \<open>trace_sum\<close> adds up what the operations bring in or take out.
\<close>

fun run_ops :: "('s \<Rightarrow> 'o \<Rightarrow> 'e + 's) \<Rightarrow> 's \<Rightarrow> 'o list \<Rightarrow> 'e + 's" where
  "run_ops step s [] = Inr s"
| "run_ops step s (a # as) = rbind (step s a) (\<lambda>s'. run_ops step s' as)"

fun trace_ok :: "('s \<Rightarrow> 'o \<Rightarrow> 'e + 's) \<Rightarrow> ('s \<Rightarrow> 'o \<Rightarrow> bool) \<Rightarrow> 's \<Rightarrow> 'o list \<Rightarrow> bool" where
  "trace_ok step ok s [] = True"
| "trace_ok step ok s (a # as) =
     (ok s a \<and> (case step s a of Inl e \<Rightarrow> True | Inr s' \<Rightarrow> trace_ok step ok s' as))"

fun trace_sum :: "('s \<Rightarrow> 'o \<Rightarrow> 'e + 's) \<Rightarrow> ('s \<Rightarrow> 'o \<Rightarrow> 'x multiset) \<Rightarrow> 's \<Rightarrow> 'o list \<Rightarrow> 'x multiset" where
  "trace_sum step f s [] = {#}"
| "trace_sum step f s (a # as) =
     f s a + (case step s a of Inl e \<Rightarrow> {#} | Inr s' \<Rightarrow> trace_sum step f s' as)"

text \<open>
  The contract of a component that holds items: an operation its caller may perform does not throw,
  keeps the invariant, and the items held afterwards with those it gave away are the items held
  before with those it took in.
\<close>

locale conserving =
  fixes step :: "'s \<Rightarrow> 'o \<Rightarrow> 'e + 's"
    and ok :: "'s \<Rightarrow> 'o \<Rightarrow> bool"
    and inv :: "'s \<Rightarrow> bool"
    and items :: "'s \<Rightarrow> 'x multiset"
    and gain :: "'s \<Rightarrow> 'o \<Rightarrow> 'x multiset"
    and loss :: "'s \<Rightarrow> 'o \<Rightarrow> 'x multiset"
  assumes step_conserves:
    "inv s \<Longrightarrow> ok s a \<Longrightarrow>
       \<exists>s'. step s a = Inr s' \<and> inv s' \<and> items s' + loss s a = items s + gain s a"
begin

lemma run_conserves:
  "inv s \<Longrightarrow> trace_ok step ok s as \<Longrightarrow>
     \<exists>s'. run_ops step s as = Inr s' \<and> inv s'
        \<and> items s' + trace_sum step loss s as = items s + trace_sum step gain s as"
proof (induction as arbitrary: s)
  case Nil
  then show ?case by simp
next
  case (Cons a as)
  from Cons.prems have "ok s a" by simp
  with step_conserves [OF Cons.prems(1)] obtain t where
    t: "step s a = Inr t" "inv t" "items t + loss s a = items s + gain s a" by blast
  with Cons.prems have "trace_ok step ok t as" by simp
  with Cons.IH [OF t(2)] obtain s' where
    s': "run_ops step t as = Inr s'" "inv s'"
      "items s' + trace_sum step loss t as = items t + trace_sum step gain t as" by blast
  have "items s' + (loss s a + trace_sum step loss t as) =
      (items s' + trace_sum step loss t as) + loss s a" by (simp add: ac_simps)
  also have "\<dots> = (items t + loss s a) + trace_sum step gain t as"
    by (simp only: s'(3)) (simp add: ac_simps)
  also have "\<dots> = items s + (gain s a + trace_sum step gain t as)"
    by (simp only: t(3)) (simp add: ac_simps)
  finally show ?case using t s' by simp
qed

end

end
