(* ===== verification/Text.thy ===== *)
theory Text
  imports Prelude Complex_Main "HOL-Library.Char_ord" "HOL-Library.List_Lexorder"
    "HOL-Library.Word"
begin

text \<open>
  The text functions of the C++ standard library the services use: \<open>std::stoi\<close>, \<open>std::stod\<close>,
  \<open>std::to_string\<close>, \<open>std::format("{:02}", n)\<close>, and splitting at a character.

  A \<open>double\<close> is an exact rational in this development: rounding, infinities and NaN are outside
  the model.  \<open>stoi\<close> keeps the range check of a 32-bit \<open>int\<close>; \<open>stod\<close> reads decimal notation with an
  optional fraction and exponent (not hexadecimal notation, \<open>inf\<close> or \<open>nan\<close>) and has no range check.
\<close>

section \<open>Numbers to text\<close>

definition digit_char :: "nat \<Rightarrow> char" where
  "digit_char d = char_of (48 + d)"

fun nat_to_string :: "nat \<Rightarrow> string" where
  "nat_to_string n =
     (if n < 10 then [digit_char n] else nat_to_string (n div 10) @ [digit_char (n mod 10)])"

declare nat_to_string.simps [simp del]

definition int_to_string :: "int \<Rightarrow> string" where
  "int_to_string i = (if i < 0 then ''-'' @ nat_to_string (nat (- i)) else nat_to_string (nat i))"

text \<open>\<open>std::format("{:02}", n)\<close>: at least two places, padded with zeros after the sign.\<close>

definition format_02 :: "int \<Rightarrow> string" where
  "format_02 i = (let s = int_to_string i in if length s < 2 then ''0'' @ s else s)"

text \<open>\<open>std::to_string(double)\<close> is \<open>%f\<close>: six decimal places, ties to even.\<close>

definition round_half_even :: "rat \<Rightarrow> int" where
  "round_half_even x =
     (let f = floor x; r = x - of_int f in
      if r < 1 / 2 then f else if r > 1 / 2 then f + 1 else if even f then f else f + 1)"

definition pad_zeros :: "nat \<Rightarrow> string \<Rightarrow> string" where
  "pad_zeros n s = replicate (n - length s) (CHR ''0'') @ s"

definition double_to_string :: "rat \<Rightarrow> string" where
  "double_to_string x =
     (let n = nat (round_half_even (\<bar>x\<bar> * 1000000)) in
      (if x < 0 then ''-'' else []) @ nat_to_string (n div 1000000) @ ''.'' @
      pad_zeros 6 (nat_to_string (n mod 1000000)))"

section \<open>Text to numbers\<close>

definition digit_of :: "char \<Rightarrow> nat option" where
  "digit_of c = (let n = of_char c :: nat in if 48 \<le> n \<and> n < 58 then Some (n - 48) else None)"

text \<open>The value of the longest prefix of digits, how many there are, and the rest.\<close>

fun read_digits :: "nat \<Rightarrow> nat \<Rightarrow> string \<Rightarrow> nat \<times> nat \<times> string" where
  "read_digits acc n [] = (acc, n, [])"
| "read_digits acc n (c # cs) =
     (case digit_of c of Some d \<Rightarrow> read_digits (10 * acc + d) (Suc n) cs | None \<Rightarrow> (acc, n, c # cs))"

definition is_blank :: "char \<Rightarrow> bool" where
  "is_blank c \<longleftrightarrow> c \<in> set [CHR '' '', CHR 0x09, CHR 0x0A, CHR 0x0B, CHR 0x0C, CHR 0x0D]"

fun read_sign :: "string \<Rightarrow> int \<times> string" where
  "read_sign (c # cs) =
     (if c = CHR ''-'' then (- 1, cs) else if c = CHR ''+'' then (1, cs) else (1, c # cs))"
| "read_sign [] = (1, [])"

definition stoi :: "string \<Rightarrow> int result" where
  "stoi s =
     (case read_sign (dropWhile is_blank s) of (sg, t) \<Rightarrow>
      (case read_digits 0 0 t of (v, n, _) \<Rightarrow>
         if n = 0 then Inl (InvalidArgument ''stoi'')
         else if sg * int v < - 2147483648 \<or> sg * int v > 2147483647 then Inl (OutOfRange ''stoi'')
         else Inr (sg * int v)))"

definition read_exponent :: "string \<Rightarrow> int" where
  "read_exponent s =
     (case s of
        [] \<Rightarrow> 0
      | c # cs \<Rightarrow>
          if c = CHR ''e'' \<or> c = CHR ''E'' then
            (case read_sign cs of (sg, t) \<Rightarrow>
             (case read_digits 0 0 t of (v, n, _) \<Rightarrow> if n = 0 then 0 else sg * int v))
          else 0)"

definition ten_to :: "int \<Rightarrow> rat" where
  "ten_to e = (if e < 0 then 1 / 10 ^ nat (- e) else 10 ^ nat e)"

definition stod :: "string \<Rightarrow> rat result" where
  "stod s =
     (case read_sign (dropWhile is_blank s) of (sg, t) \<Rightarrow>
      (case read_digits 0 0 t of (v, n, r) \<Rightarrow>
      (case (case r of
               c # cs \<Rightarrow> if c = CHR ''.'' then read_digits v 0 cs else (v, 0, r)
             | [] \<Rightarrow> (v, 0, r)) of (w, k, r') \<Rightarrow>
         if n + k = 0 then Inl (InvalidArgument ''stod'')
         else Inr (of_int sg * of_nat w / 10 ^ k * ten_to (read_exponent r')))))"

section \<open>Splitting\<close>

text \<open>\<open>std::getline(stream, piece, d)\<close> until it fails: no piece after a final delimiter.\<close>

fun getlines :: "char \<Rightarrow> string \<Rightarrow> string list" where
  "getlines d [] = []"
| "getlines d (c # cs) =
     (if c = d then [] # getlines d cs
      else (case getlines d cs of
              [] \<Rightarrow> [[c]]
            | p # ps \<Rightarrow> (c # p) # ps))"

section \<open>Paths\<close>

text \<open>
  \<open>operator/\<close> of \<open>std::filesystem::path\<close> on the text of the paths: an absolute right-hand side
  replaces the left one, otherwise a separator goes between them unless the left one is empty or
  ends in one.
\<close>

definition path_append :: "string \<Rightarrow> string \<Rightarrow> string" where
  "path_append p q =
     (if q \<noteq> [] \<and> hd q = CHR ''/'' then q
      else if p = [] \<or> last p = CHR ''/'' then p @ q
      else p @ ''/'' @ q)"

section \<open>Reading back what was printed\<close>

lemma of_char_digit: "d < 10 \<Longrightarrow> (of_char (digit_char d) :: nat) = 48 + d"
  by (simp add: digit_char_def of_char_of)

lemma digit_of_digit_char: "d < 10 \<Longrightarrow> digit_of (digit_char d) = Some d"
  by (simp add: digit_of_def of_char_digit)

definition digits_value :: "nat \<Rightarrow> nat list \<Rightarrow> nat" where
  "digits_value acc ds = foldl (\<lambda>a d. 10 * a + d) acc ds"

lemma read_digits_string:
  "(\<forall>d\<in>set ds. d < 10) \<Longrightarrow> (case r of [] \<Rightarrow> True | c # cs \<Rightarrow> digit_of c = None) \<Longrightarrow>
     read_digits acc n (map digit_char ds @ r) = (digits_value acc ds, n + length ds, r)"
proof (induction ds arbitrary: acc n)
  case Nil
  then show ?case by (cases r) (simp_all add: digits_value_def)
next
  case (Cons d ds)
  then show ?case by (simp add: digit_of_digit_char digits_value_def)
qed

fun digits :: "nat \<Rightarrow> nat list" where
  "digits n = (if n < 10 then [n] else digits (n div 10) @ [n mod 10])"

declare digits.simps [simp del]

lemma nat_to_string_digits: "nat_to_string n = map digit_char (digits n)"
  by (induction n rule: digits.induct) (simp add: nat_to_string.simps [of n for n] digits.simps [of n for n])

lemma digits_less: "\<forall>d\<in>set (digits n). d < 10"
proof (induction n rule: digits.induct)
  case (1 n)
  then show ?case by (subst digits.simps) auto
qed

lemma digits_value_digits: "digits_value 0 (digits n) = n"
proof (induction n rule: digits.induct)
  case (1 n)
  then show ?case by (subst digits.simps) (simp add: digits_value_def)
qed

lemma digits_nonempty: "digits n \<noteq> []"
  by (subst digits.simps) simp

lemma read_digits_nat:
  "(case r of [] \<Rightarrow> True | c # cs \<Rightarrow> digit_of c = None) \<Longrightarrow>
     read_digits 0 0 (nat_to_string n @ r) = (n, length (digits n), r)"
  using read_digits_string [OF digits_less, of r 0 0 n]
  by (simp add: nat_to_string_digits digits_value_digits)

lemma nat_to_string_Cons:
  obtains d t where "d < 10" and "nat_to_string n = digit_char d # t"
  using digits_less [of n] digits_nonempty [of n]
  by (cases "digits n") (auto simp: nat_to_string_digits)

lemma digit_char_plain:
  assumes "d < 10"
  shows "\<not> is_blank (digit_char d)" and "digit_char d \<noteq> CHR ''-''" and "digit_char d \<noteq> CHR ''+''"
proof -
  have n: "(of_char (digit_char d) :: nat) = 48 + d" by (rule of_char_digit [OF assms])
  show "digit_char d \<noteq> CHR ''-''" using n by (auto simp: of_char_def)
  show "digit_char d \<noteq> CHR ''+''" using n by (auto simp: of_char_def)
  show "\<not> is_blank (digit_char d)" using n by (auto simp: is_blank_def of_char_def)
qed

lemma read_sign_nat: "read_sign (dropWhile is_blank (nat_to_string n @ r)) = (1, nat_to_string n @ r)"
  by (rule nat_to_string_Cons [of n]) (simp add: digit_char_plain)

lemma stoi_int_to_string:
  assumes "- 2147483648 \<le> i" and "i \<le> 2147483647"
  shows "stoi (int_to_string i) = Inr i"
proof -
  have pos: "0 < length (digits n)" for n using digits_nonempty by simp
  show ?thesis
  proof (cases "i < 0")
    case True
    have "\<not> is_blank (CHR ''-'')" by (simp add: is_blank_def)
    with True assms pos read_digits_nat [of "[]" "nat (- i)"] show ?thesis
      by (simp add: stoi_def int_to_string_def)
  next
    case False
    with assms pos read_digits_nat [of "[]" "nat i"] read_sign_nat [of "nat i" "[]"] show ?thesis
      by (simp add: stoi_def int_to_string_def)
  qed
qed

end
