(* ===== verification/Json.thy ===== *)
theory Json
  imports Text
begin

text \<open>
  The JSON values of nlohmann::json as the services use them: the value kinds, objects ordered by
  key, and the accessors.  Parsing and printing belong to that library and are parameters where a
  component uses them.  An object is its list of members in the order of the keys (\<open>std::map\<close>);
  messages of json exceptions are shortened to the kind of the error.
\<close>

section \<open>Values\<close>

datatype json =
    JNull
  | JBoolean bool
  | JInteger int
  | JUnsigned nat
  | JFloat rat
  | JString string
  | JArray "json list"
  | JObject "(string \<times> json) list"

datatype value_t =
    null_t | object_t | array_t | string_t | boolean_t | number_integer_t | number_unsigned_t
  | number_float_t | binary_t | discarded_t

fun json_type :: "json \<Rightarrow> value_t" where
  "json_type JNull = null_t"
| "json_type (JBoolean b) = boolean_t"
| "json_type (JInteger i) = number_integer_t"
| "json_type (JUnsigned n) = number_unsigned_t"
| "json_type (JFloat x) = number_float_t"
| "json_type (JString s) = string_t"
| "json_type (JArray xs) = array_t"
| "json_type (JObject m) = object_t"

abbreviation is_object :: "json \<Rightarrow> bool" where "is_object j \<equiv> json_type j = object_t"
abbreviation is_array :: "json \<Rightarrow> bool" where "is_array j \<equiv> json_type j = array_t"
abbreviation is_string :: "json \<Rightarrow> bool" where "is_string j \<equiv> json_type j = string_t"
abbreviation is_number_unsigned :: "json \<Rightarrow> bool" where
  "is_number_unsigned j \<equiv> json_type j = number_unsigned_t"

definition is_number_integer :: "json \<Rightarrow> bool" where
  "is_number_integer j \<longleftrightarrow> json_type j \<in> {number_integer_t, number_unsigned_t}"

definition is_number :: "json \<Rightarrow> bool" where
  "is_number j \<longleftrightarrow> json_type j \<in> {number_integer_t, number_unsigned_t, number_float_t}"

definition is_primitive :: "json \<Rightarrow> bool" where
  "is_primitive j \<longleftrightarrow> json_type j \<notin> {object_t, array_t, discarded_t}"

section \<open>Accessors\<close>

fun members :: "json \<Rightarrow> (string \<times> json) list" where
  "members (JObject m) = m"
| "members _ = []"

definition jcontains :: "json \<Rightarrow> string \<Rightarrow> bool" where
  "jcontains j k \<longleftrightarrow> map_of (members j) k \<noteq> None"

text \<open>\<open>j.at(k)\<close> throws on a missing key; \<open>j[k]\<close> on a constant object is undefined there.\<close>

definition jat :: "json \<Rightarrow> string \<Rightarrow> json result" where
  "jat j k =
     (if is_object j then (case map_of (members j) k of Some v \<Rightarrow> Inr v | None \<Rightarrow> Inl (JsonError ''out_of_range''))
      else Inl (JsonError ''type_error''))"

definition jidx :: "json \<Rightarrow> string \<Rightarrow> json result" where
  "jidx j k =
     (if is_object j then (case map_of (members j) k of Some v \<Rightarrow> Inr v | None \<Rightarrow> Inl UndefinedBehaviour)
      else Inl (JsonError ''type_error''))"

text \<open>
  \<open>put_member\<close> is assignment in any \<open>std::map\<close> with string keys, kept in the order of the keys.
  \<open>j[k] = v\<close>: null becomes an object, any other kind throws.
\<close>

fun put_member :: "string \<Rightarrow> 'v \<Rightarrow> (string \<times> 'v) list \<Rightarrow> (string \<times> 'v) list" where
  "put_member k v [] = [(k, v)]"
| "put_member k v ((l, w) # m) =
     (if k = l then (k, v) # m else if k < l then (k, v) # (l, w) # m else (l, w) # put_member k v m)"

fun jput :: "json \<Rightarrow> string \<Rightarrow> json \<Rightarrow> json result" where
  "jput JNull k v = Inr (JObject [(k, v)])"
| "jput (JObject m) k v = Inr (JObject (put_member k v m))"
| "jput _ k v = Inl (JsonError ''type_error'')"

fun get_string :: "json \<Rightarrow> string result" where
  "get_string (JString s) = Inr s"
| "get_string _ = Inl (JsonError ''type_error'')"

fun get_bool :: "json \<Rightarrow> bool result" where
  "get_bool (JBoolean b) = Inr b"
| "get_bool _ = Inl (JsonError ''type_error'')"

text \<open>The number behind any numeric kind; \<open>get<int>\<close> and \<open>get<uint32_t>\<close> convert it by a cast.\<close>

definition wrap_int :: "int \<Rightarrow> int" where
  "wrap_int i = (i + 2147483648) mod 4294967296 - 2147483648"

type_synonym uint32 = "32 word"

definition truncate_rat :: "rat \<Rightarrow> int" where
  "truncate_rat x = (if x < 0 then - floor (- x) else floor x)"

fun get_int :: "json \<Rightarrow> int result" where
  "get_int (JInteger i) = Inr (wrap_int i)"
| "get_int (JUnsigned n) = Inr (wrap_int (int n))"
| "get_int (JFloat x) = Inr (wrap_int (truncate_rat x))"
| "get_int (JBoolean b) = Inr (if b then 1 else 0)"
| "get_int _ = Inl (JsonError ''type_error'')"

fun get_uint32 :: "json \<Rightarrow> uint32 result" where
  "get_uint32 (JInteger i) = Inr (word_of_int i)"
| "get_uint32 (JUnsigned n) = Inr (of_nat n)"
| "get_uint32 (JFloat x) = Inr (word_of_int (truncate_rat x))"
| "get_uint32 (JBoolean b) = Inr (if b then 1 else 0)"
| "get_uint32 _ = Inl (JsonError ''type_error'')"

fun get_double :: "json \<Rightarrow> rat result" where
  "get_double (JInteger i) = Inr (of_int i)"
| "get_double (JUnsigned n) = Inr (of_nat n)"
| "get_double (JFloat x) = Inr x"
| "get_double (JBoolean b) = Inr (if b then 1 else 0)"
| "get_double _ = Inl (JsonError ''type_error'')"

section \<open>Facts\<close>

named_theorems json_simps \<open>evaluation of json accessors\<close>

lemma map_of_put_member: "map_of (put_member k v m) = (map_of m)(k \<mapsto> v)"
  by (induction k v m rule: put_member.induct) auto

lemma fst_put_member: "fst ` set (put_member k v m) = insert k (fst ` set m)"
  by (induction k v m rule: put_member.induct) auto

lemma sorted_put_member:
  "sorted_wrt (<) (map fst m) \<Longrightarrow> sorted_wrt (<) (map fst (put_member k v m))"
proof (induction k v m rule: put_member.induct)
  case (1 k v)
  then show ?case by simp
next
  case (2 k v l w m)
  then show ?case using fst_put_member [of k v m] by (auto simp: image_image [symmetric] neq_iff)
qed

lemma json_type_object: "is_object j \<longleftrightarrow> (\<exists>m. j = JObject m)"
  by (cases j) auto

lemma json_type_string: "is_string j \<longleftrightarrow> (\<exists>s. j = JString s)"
  by (cases j) auto

lemma jcontains_iff: "jcontains j k \<longleftrightarrow> (\<exists>m v. j = JObject m \<and> map_of m k = Some v)"
  by (cases j) (auto simp: jcontains_def)

lemma jat_eq_Inr [json_simps]: "jat j k = Inr v \<longleftrightarrow> (\<exists>m. j = JObject m \<and> map_of m k = Some v)"
  by (cases j) (auto simp: jat_def split: option.splits)

lemma jidx_eq_Inr [json_simps]: "jidx j k = Inr v \<longleftrightarrow> (\<exists>m. j = JObject m \<and> map_of m k = Some v)"
  by (cases j) (auto simp: jidx_def split: option.splits)

lemma jput_lookup:
  "jput j k v = Inr j' \<Longrightarrow> map_of (members j') = (map_of (members j))(k \<mapsto> v)"
  by (cases j) (auto simp: map_of_put_member)

end
