(* ===== verification/Factory.thy ===== *)
theory Factory
  imports Prelude
begin

text \<open>
  The factories that build objects from configuration strings:
  \<open>modules/shared/factory/include/oink_judge/factory/{type_factory,parameterized_type_factory}.inl\<close>.

  A factory is the map from registered names to creation functions.  A parameterised factory splits
  a string \<open>Name(params)\<close> with \<open>parseName\<close> first.  Iterators into the string are offsets from its
  beginning; \<open>findFirstSymbol\<close> returns the length of the string where the source returns \<open>end\<close>.
  The balance is an \<open>int\<close> of the source; it stays within the length of the string and is modelled
  unbounded.
\<close>

section \<open>Scanning\<close>

abbreviation backslash :: char where "backslash \<equiv> CHR 0x5C"

fun findFirstSymbol :: "string \<Rightarrow> int \<Rightarrow> string \<Rightarrow> nat" where
  "findFirstSymbol syms bal [] = 0"
| "findFirstSymbol syms bal (c # cs) =
     (if c = backslash then
        (case cs of [] \<Rightarrow> 1 | _ # ds \<Rightarrow> 2 + findFirstSymbol syms bal ds)
      else
        (let b = (if c = CHR '')'' then bal - 1 else bal) in
         if c \<in> set syms \<and> b = 0 then 0
         else Suc (findFirstSymbol syms (if c = CHR ''('' then b + 1 else b) cs)))"

definition isspace :: "char \<Rightarrow> bool" where
  "isspace c \<longleftrightarrow> c \<in> set [CHR '' '', CHR 0x09, CHR 0x0A, CHR 0x0B, CHR 0x0C, CHR 0x0D]"

fun normalize_from :: "bool \<Rightarrow> int \<Rightarrow> string \<Rightarrow> string" where
  "normalize_from rm bal [] = []"
| "normalize_from rm bal (c # cs) =
     (if c = backslash \<and> bal = 0 then
        (case cs of [] \<Rightarrow> [c] | d # ds \<Rightarrow> c # d # normalize_from rm bal ds)
      else
        (let b = (if c = CHR ''('' then bal + 1 else if c = CHR '')'' then bal - 1 else bal) in
         (if (\<not> isspace c \<or> b > 0) \<and> rm then [c] else []) @ normalize_from rm b cs))"

definition normalizeArgument :: "string \<Rightarrow> bool \<Rightarrow> string" where
  "normalizeArgument name remove_whitespaces = normalize_from remove_whitespaces 0 name"

definition parseName :: "string \<Rightarrow> (string \<times> string) result" where
  "parseName name =
     (let normalized = normalizeArgument name True in
      if normalized = [] then Inr ([], [])
      else
        (let left = findFirstSymbol ''('' 0 normalized;
             right = findFirstSymbol '')'' 0 normalized;
             size = length normalized in
         if left = right \<and> left = size then Inr (normalized, [])
         else if left = size \<or> right \<noteq> size - 1 \<or> left > right
           then Inl (RuntimeError (''Invalid type name: '' @ normalized))
         else Inr (take left normalized, take (right - left - 1) (drop (left + 1) normalized))))"

function parseParameters :: "string \<Rightarrow> string \<Rightarrow> string list" where
  "parseParameters params delimiters =
     (if params = [] then []
      else
        (let k = findFirstSymbol delimiters 0 params in
         if k \<ge> length params then [params]
         else take k params # parseParameters (drop (k + 1) params) delimiters))"
  by pat_completeness auto
termination
  by (relation "measure (\<lambda>(params, delimiters). length params)") auto

declare parseParameters.simps [simp del]

section \<open>Factories\<close>

type_synonym 'f factory = "string \<rightharpoonup> 'f"

definition registerType :: "'f factory \<Rightarrow> string \<Rightarrow> 'f \<Rightarrow> 'f factory" where
  "registerType registered name func = registered(name \<mapsto> func)"

definition create :: "('a \<Rightarrow> 'b result) factory \<Rightarrow> string \<Rightarrow> 'a \<Rightarrow> 'b result" where
  "create registered name args =
     (case registered name of
        None \<Rightarrow> Inl (RuntimeError (''Unknown type: '' @ name))
      | Some func \<Rightarrow> func args)"

definition create_parameterized ::
    "(string \<Rightarrow> 'a \<Rightarrow> 'b result) factory \<Rightarrow> string \<Rightarrow> 'a \<Rightarrow> 'b result" where
  "create_parameterized registered name args =
     rbind (parseName name) (\<lambda>(real_name, params).
       case registered real_name of
         None \<Rightarrow> Inl (RuntimeError (''Unknown type: '' @ real_name))
       | Some func \<Rightarrow> func params args)"

section \<open>Positions found by the scanner\<close>

lemma findFirstSymbol_le: "findFirstSymbol syms bal s \<le> length s"
  by (induction syms bal s rule: findFirstSymbol.induct) (auto simp: Let_def split: list.splits)

lemma findFirstSymbol_hit:
  "findFirstSymbol syms bal s < length s \<Longrightarrow> s ! findFirstSymbol syms bal s \<in> set syms"
proof (induction syms bal s rule: findFirstSymbol.induct)
  case (1 syms bal)
  then show ?case by simp
next
  case (2 syms bal c cs)
  show ?case
  proof (cases "c = backslash")
    case True
    with 2 show ?thesis by (cases cs) simp_all
  next
    case False
    with 2(2-) show ?thesis by (auto simp: Let_def split: if_splits)
  qed
qed

lemma parseName_sound_aux:
  assumes "left < length s" and "right = length s - 1" and "left < right"
    and "s ! left = CHR ''(''" and "s ! right = CHR '')''"
  shows "s = take left s @ ''('' @ take (right - left - 1) (drop (left + 1) s) @ '')''"
proof -
  have "s = take left s @ s ! left # drop (left + 1) s"
    using assms(1) by (simp add: id_take_nth_drop)
  moreover have "drop (left + 1) s = take (right - left - 1) (drop (left + 1) s) @ [s ! right]"
  proof -
    have "length (drop (left + 1) s) = Suc (right - left - 1)" using assms(1-3) by simp
    then have "drop (left + 1) s =
        take (right - left - 1) (drop (left + 1) s) @ [drop (left + 1) s ! (right - left - 1)]"
      by (metis lessI order_refl take_Suc_conv_app_nth take_all)
    moreover have "drop (left + 1) s ! (right - left - 1) = s ! right"
    proof -
      have "left + 1 + (right - left - 1) = right" and "left + 1 \<le> length s"
        using assms(1-3) by simp_all
      then show ?thesis by (metis nth_drop)
    qed
    ultimately show ?thesis by simp
  qed
  ultimately show ?thesis using assms(4,5) by (metis append_Cons append_Nil)
qed

text \<open>
  The scanner runs over a text without stopping: \<open>scan\<close> is the balance it ends with, or nothing
  when it stops at a symbol or the text ends in an open escape.
\<close>

fun scan :: "string \<Rightarrow> int \<Rightarrow> string \<Rightarrow> int option" where
  "scan syms bal [] = Some bal"
| "scan syms bal (c # cs) =
     (if c = backslash then (case cs of [] \<Rightarrow> None | _ # ds \<Rightarrow> scan syms bal ds)
      else
        (let b = (if c = CHR '')'' then bal - 1 else bal) in
         if c \<in> set syms \<and> b = 0 then None
         else scan syms (if c = CHR ''('' then b + 1 else b) cs))"

lemma findFirstSymbol_append:
  "scan syms bal s = Some b \<Longrightarrow>
     findFirstSymbol syms bal (s @ t) = length s + findFirstSymbol syms b t"
proof (induction syms bal s rule: scan.induct)
  case (1 syms bal)
  then show ?case by simp
next
  case (2 syms bal c cs)
  show ?case
  proof (cases "c = backslash")
    case True
    with 2 show ?thesis by (cases cs) simp_all
  next
    case False
    with 2(2-) show ?thesis by (simp add: Let_def split: if_splits)
  qed
qed

section \<open>Normalisation\<close>

lemma normalize_idem: "normalize_from True bal (normalize_from True bal s) = normalize_from True bal s"
proof (induction True bal s rule: normalize_from.induct)
  case (1 bal)
  then show ?case by simp
next
  case (2 bal c cs)
  show ?case
  proof (cases "c = backslash \<and> bal = 0")
    case True
    with 2 show ?thesis by (cases cs) simp_all
  next
    case False
    show ?thesis
    proof (cases "c = backslash")
      case True
      with False 2(2) [OF False refl] show ?thesis by (simp add: Let_def isspace_def)
    next
      case c: False
      with 2(2) [OF False refl] show ?thesis by (auto simp: Let_def isspace_def)
    qed
  qed
qed

lemma normalize_drops: "backslash \<notin> set s \<Longrightarrow> normalize_from False bal s = []"
  by (induction s arbitrary: bal) (auto simp: Let_def)

text \<open>
  Text without blanks, parentheses and escapes (\<open>plain\<close>), and text whose parentheses match, with
  the depth counted from the left (\<open>nesting\<close>).
\<close>

definition plain :: "string \<Rightarrow> bool" where
  "plain s \<longleftrightarrow> (\<forall>c\<in>set s. \<not> isspace c \<and> c \<noteq> backslash \<and> c \<noteq> CHR ''('' \<and> c \<noteq> CHR '')'')"

fun nesting :: "nat \<Rightarrow> string \<Rightarrow> nat option" where
  "nesting d [] = Some d"
| "nesting d (c # cs) =
     (if c = backslash then None
      else if c = CHR ''('' then nesting (Suc d) cs
      else if c = CHR '')'' then (case d of 0 \<Rightarrow> None | Suc e \<Rightarrow> nesting e cs)
      else nesting d cs)"

definition nested :: "string \<Rightarrow> bool" where
  "nested s \<longleftrightarrow> nesting 0 s = Some 0"

lemma normalize_plain: "plain s \<Longrightarrow> normalize_from True bal (s @ t) = s @ normalize_from True bal t"
  by (induction s) (simp_all add: plain_def Let_def)

lemma normalize_nested:
  "nesting d s = Some e \<Longrightarrow>
     normalize_from True (1 + int d) (s @ t) = s @ normalize_from True (1 + int e) t"
proof (induction d s rule: nesting.induct)
  case (1 d)
  then show ?case by simp
next
  case (2 d c cs)
  then have nb: "c \<noteq> backslash" by auto
  consider "c = CHR ''(''" | "c = CHR '')''" | "c \<noteq> CHR ''(''" "c \<noteq> CHR '')''" by blast
  then show ?case
  proof cases
    case 1
    with 2 show ?thesis by (simp add: Let_def algebra_simps)
  next
    case c: 2
    then obtain f where "d = Suc f" using 2(4) by (cases d) simp_all
    with c 2 show ?thesis by (simp add: Let_def isspace_def)
  next
    case 3
    with 2 nb show ?thesis by (simp add: Let_def)
  qed
qed

lemma scan_plain: "plain s \<Longrightarrow> set s \<inter> set syms = {} \<Longrightarrow> scan syms b s = Some b"
  by (induction s) (simp_all add: plain_def Let_def)

lemma scan_nested:
  "set syms \<subseteq> {CHR ''('', CHR '')''} \<Longrightarrow> nesting d s = Some e \<Longrightarrow>
     scan syms (1 + int d) s = Some (1 + int e)"
proof (induction d s rule: nesting.induct)
  case (1 d)
  then show ?case by simp
next
  case (2 d c cs)
  then have nb: "c \<noteq> backslash" by auto
  consider "c = CHR ''(''" | "c = CHR '')''" | "c \<noteq> CHR ''(''" "c \<noteq> CHR '')''" by blast
  then show ?case
  proof cases
    case 1
    with 2 show ?thesis by (simp add: Let_def algebra_simps)
  next
    case c: 2
    then obtain f where "d = Suc f" using 2(5) by (cases d) simp_all
    with c 2 show ?thesis by (simp add: Let_def)
  next
    case 3
    with 2(4) have "c \<notin> set syms" by blast
    with 3 2 nb show ?thesis by (simp add: Let_def)
  qed
qed

section \<open>Properties\<close>

text \<open>
  what \<open>parseName\<close> returns is a decomposition of the normalised text: either all of it is the
  name and there are no parameters, or the text is the name, an opening parenthesis, the parameters
  and a closing parenthesis.  The only failure is the \<open>runtime_error\<close> that quotes the text.
\<close>

theorem parseName_sound:
  "case parseName s of
     Inl e \<Rightarrow> e = RuntimeError (''Invalid type name: '' @ normalizeArgument s True)
   | Inr (n, p) \<Rightarrow> n = normalizeArgument s True \<and> p = []
       \<or> normalizeArgument s True = n @ ''('' @ p @ '')''"
proof -
  define t where "t = normalizeArgument s True"
  define l where "l = findFirstSymbol ''('' 0 t"
  define r where "r = findFirstSymbol '')'' 0 t"
  have le: "l \<le> length t" "r \<le> length t"
    by (simp_all add: l_def r_def findFirstSymbol_le)
  have hit: "l < length t \<Longrightarrow> t ! l = CHR ''(''" "r < length t \<Longrightarrow> t ! r = CHR '')''"
    using findFirstSymbol_hit [of "''(''" 0 t] findFirstSymbol_hit [of "'')''" 0 t]
    by (simp_all add: l_def r_def)
  have eq: "parseName s =
      (if t = [] then Inr ([], [])
       else if l = r \<and> l = length t then Inr (t, [])
       else if l = length t \<or> r \<noteq> length t - 1 \<or> l > r then Inl (RuntimeError (''Invalid type name: '' @ t))
       else Inr (take l t, take (r - l - 1) (drop (l + 1) t)))"
    by (simp add: parseName_def t_def l_def r_def Let_def)
  show ?thesis
  proof (cases "t = [] \<or> (l = r \<and> l = length t) \<or> l = length t \<or> r \<noteq> length t - 1 \<or> l > r")
    case True
    then show ?thesis by (auto simp: eq t_def [symmetric])
  next
    case False
    have "l \<noteq> r"
    proof
      assume "l = r"
      moreover from this False le have "l < length t" by auto
      ultimately show False using hit by simp
    qed
    have pos: "l < length t" "r = length t - 1" "l < r" "r < length t"
      using False \<open>l \<noteq> r\<close> le by auto
    have dec: "t = take l t @ ''('' @ take (r - l - 1) (drop (l + 1) t) @ '')''"
      by (rule parseName_sound_aux [OF pos(1-3) hit(1) [OF pos(1)] hit(2) [OF pos(4)]])
    have "parseName s = Inr (take l t, take (r - l - 1) (drop (l + 1) t))"
      using False \<open>l \<noteq> r\<close> by (simp add: eq)
    then show ?thesis
      by (simp only: t_def [symmetric] sum.case prod.case) (rule disjI2, rule dec)
  qed
qed

text \<open>
  C32: \<open>parseName\<close> reads back \<open>Name(params)\<close> for a name without blanks, parentheses and escapes
  and parameters whose parentheses match, blanks and nested descriptions included; the name alone
  reads back with no parameters.
\<close>

theorem parseName_roundtrip:
  assumes "plain n" and "nested p"
  shows "parseName (n @ ''('' @ p @ '')'') = Inr (n, p) \<and> parseName n = Inr (n, [])"
proof
  define t where "t = n @ ''('' @ p @ '')''"
  have p: "nesting 0 p = Some 0" using assms(2) by (simp add: nested_def)
  have norm: "normalizeArgument t True = t"
    using normalize_plain [OF assms(1), of 0 "''('' @ p @ '')''"] normalize_nested [OF p, of "'')''"]
    by (simp add: normalizeArgument_def t_def Let_def isspace_def)
  have "\<forall>c\<in>set n. c \<noteq> CHR ''('' \<and> c \<noteq> CHR '')''" using assms(1) by (auto simp: plain_def)
  then have n: "scan syms 0 n = Some 0" if "set syms \<subseteq> {CHR ''('', CHR '')''}" for syms
    using that by (intro scan_plain [OF assms(1)]) blast
  have l: "findFirstSymbol ''('' 0 t = length n"
    using findFirstSymbol_append [OF n, of "''(''"] by (simp add: t_def)
  have "findFirstSymbol '')'' 0 t = length n + (1 + findFirstSymbol '')'' 1 (p @ '')''))"
    using findFirstSymbol_append [OF n, of "'')''"] by (simp add: t_def)
  also have "findFirstSymbol '')'' 1 (p @ '')'') = length p"
    using findFirstSymbol_append [OF scan_nested [OF _ p], of "'')''"] by simp
  finally have r: "findFirstSymbol '')'' 0 t = length n + 1 + length p" by simp
  have sz: "length t = length n + length p + 2" by (simp add: t_def)
  have "parseName t = Inr (take (length n) t, take (length p) (drop (length n + 1) t))"
    using sz by (auto simp: parseName_def norm l r Let_def)
  then have "parseName t = Inr (n, p)" by (simp add: t_def)
  then show "parseName (n @ ''('' @ p @ '')'') = Inr (n, p)" by (simp only: t_def)
  have "normalizeArgument n True = n"
    using normalize_plain [OF assms(1), of 0 "[]"] by (simp add: normalizeArgument_def)
  moreover have "findFirstSymbol ''('' 0 n = length n" "findFirstSymbol '')'' 0 n = length n"
    using findFirstSymbol_append [OF n, of "''(''" "[]"] findFirstSymbol_append [OF n, of "'')''" "[]"]
    by simp_all
  ultimately show "parseName n = Inr (n, [])" by (simp add: parseName_def Let_def)
qed

theorem parseName_roundtrip_witness:
  "parseName (''Stub'' @ ''('' @ ''Channel(host: 1), x'' @ '')'') = Inr (''Stub'', ''Channel(host: 1), x'')
   \<and> parseName ''Stub'' = Inr (''Stub'', [])"
  by (rule parseName_roundtrip) (simp_all add: plain_def nested_def isspace_def)

fun join :: "char \<Rightarrow> string list \<Rightarrow> string" where
  "join d [] = []"
| "join d [p] = p"
| "join d (p # q # ps) = p @ d # join d (q # ps)"

lemma parseParameters_last:
  "scan ds 0 p = Some b \<Longrightarrow> parseParameters p ds = (if p = [] then [] else [p])"
  using findFirstSymbol_append [of ds 0 p b "[]"] by (simp add: parseParameters.simps [of p])

lemma parseParameters_Cons:
  assumes "scan [d] 0 p = Some 0" and "d \<notin> {backslash, CHR ''('', CHR '')''}"
  shows "parseParameters (p @ d # rest) [d] = p # parseParameters rest [d]"
proof -
  have "findFirstSymbol [d] 0 (p @ d # rest) = length p"
    using findFirstSymbol_append [OF assms(1), of "d # rest"] assms(2) by simp
  then show ?thesis by (simp add: parseParameters.simps [of "p @ d # rest"] Let_def)
qed

text \<open>
  splitting the parameters at a delimiter undoes joining them, for parameters in which the
  delimiter occurs only escaped or inside matching parentheses, unless the last one is empty: the
  code has no empty last parameter.
\<close>

theorem parseParameters_join:
  assumes "\<forall>p\<in>set ps. scan [d] 0 p = Some 0" and "d \<notin> {backslash, CHR ''('', CHR '')''}"
  shows "parseParameters (join d ps) [d] =
    (if ps \<noteq> [] \<and> last ps = [] then butlast ps else ps)"
  using assms
proof (induction d ps rule: join.induct)
  case (1 d)
  then show ?case by (simp add: parseParameters.simps)
next
  case (2 d p)
  then show ?case by (simp add: parseParameters_last)
next
  case (3 d p q ps)
  then show ?case by (simp add: parseParameters_Cons)
qed

theorem parseParameters_join_witness:
  "parseParameters (join CHR '','' [''a'', ''F(b,c)'', [], ''d'']) '','' =
     (if [''a'', ''F(b,c)'', [], ''d''] \<noteq> [] \<and> last [''a'', ''F(b,c)'', [], ''d''] = []
      then butlast [''a'', ''F(b,c)'', [], ''d''] else [''a'', ''F(b,c)'', [], ''d''])"
  by (rule parseParameters_join) simp_all

text \<open>
  normalising is idempotent; with \<open>remove_whitespaces\<close> left at its default \<open>false\<close> it does
  not keep the text but drops every unescaped character.
\<close>

theorem normalizeArgument_laws:
  "normalizeArgument (normalizeArgument s True) True = normalizeArgument s True
   \<and> (backslash \<in> set s \<or> normalizeArgument s False = [])"
  using normalize_idem normalize_drops by (auto simp: normalizeArgument_def)

text \<open>
  after a registration the factory runs the registered function for that name, on the
  parameters \<open>parseName\<close> cuts out, and every other name as before; a name that was never registered
  is the \<open>runtime_error\<close> naming it.
\<close>

theorem create_parameterized_registered:
  assumes "parseName s = Inr (n, p)"
  shows "create_parameterized (registerType reg m f) s a =
    (if n = m then f p a
     else case reg n of None \<Rightarrow> Inl (RuntimeError (''Unknown type: '' @ n)) | Some g \<Rightarrow> g p a)"
  using assms by (simp add: create_parameterized_def registerType_def)

theorem create_parameterized_registered_witness:
  "create_parameterized (registerType [''A'' \<mapsto> \<lambda>p a. Inr (a @ p)] ''B'' (\<lambda>p a. Inr (p @ a))) ''B (x)'' ''y'' =
     (if ''B'' = ''B'' then Inr (''x'' @ ''y'')
      else case [''A'' \<mapsto> \<lambda>p a. Inr (a @ p)] ''B'' of
          None \<Rightarrow> Inl (RuntimeError (''Unknown type: '' @ ''B'')) | Some g \<Rightarrow> g ''x'' ''y'')"
  by (rule create_parameterized_registered)
     (simp add: parseName_def normalizeArgument_def isspace_def Let_def)

end
