(* ===== verification/Config.thy ===== *)
theory Config
  imports Json Factory
begin

text \<open>
  Reading the configuration: \<open>modules/config/src/{config,common_utils,logger_utils,server_utils}.cpp\<close>
  and the readers of the services (\<open>config_utils.cpp\<close> of \<open>database\<close>, \<open>content_service\<close>, \<open>dispatcher\<close>,
  \<open>test_node\<close>, \<open>shared/utils/grpc\<close>).

  A reader takes the parsed configuration (\<open>Config::config()\<close>, \<open>Config::credentials()\<close>) as an
  argument; its result is \<open>Inl\<close> where the source throws or has undefined behaviour, and otherwise the
  \<open>std::optional\<close> it returns.  Paths are their text.
\<close>

section \<open>The configuration singleton\<close>

record config_state =
  config_file_path :: string
  credentials_file_path :: string
  config_instance :: "json option"
  credentials_instance :: "json option"

text \<open>
  \<open>open_file\<close> is the file's text, or \<open>None\<close> when it cannot be opened; \<open>parse\<close> is the json library's
  parser.
\<close>

definition Config_load ::
    "(string \<Rightarrow> string option) \<Rightarrow> (string \<Rightarrow> json result) \<Rightarrow> string \<Rightarrow> json result" where
  "Config_load open_file parse path =
     (case open_file path of
        None \<Rightarrow> Inl (RuntimeError (''Could not open config file: '' @ path))
      | Some text \<Rightarrow> parse text)"

definition Config_config ::
    "(string \<Rightarrow> string option) \<Rightarrow> (string \<Rightarrow> json result) \<Rightarrow> config_state \<Rightarrow> (json \<times> config_state) result" where
  "Config_config open_file parse c =
     (case config_instance c of
        Some j \<Rightarrow> Inr (j, c)
      | None \<Rightarrow> rbind (Config_load open_file parse (config_file_path c)) (\<lambda>j.
          Inr (j, c\<lparr>config_instance := Some j\<rparr>)))"

definition Config_credentials ::
    "(string \<Rightarrow> string option) \<Rightarrow> (string \<Rightarrow> json result) \<Rightarrow> config_state \<Rightarrow> (json \<times> config_state) result" where
  "Config_credentials open_file parse c =
     (case credentials_instance c of
        Some j \<Rightarrow> Inr (j, c)
      | None \<Rightarrow> rbind (Config_load open_file parse (credentials_file_path c)) (\<lambda>j.
          Inr (j, c\<lparr>credentials_instance := Some j\<rparr>)))"

definition setConfigFilePath :: "config_state \<Rightarrow> string \<Rightarrow> config_state" where
  "setConfigFilePath c path = c\<lparr>config_file_path := path\<rparr>"

definition setCredentialsFilePath :: "config_state \<Rightarrow> string \<Rightarrow> config_state" where
  "setCredentialsFilePath c path = c\<lparr>credentials_file_path := path\<rparr>"

text \<open>
  \<open>reloadData\<close> loads one file after the other; the first is kept when the second fails.
\<close>

definition reloadData ::
    "(string \<Rightarrow> string option) \<Rightarrow> (string \<Rightarrow> json result) \<Rightarrow> config_state \<Rightarrow> exn option \<times> config_state" where
  "reloadData open_file parse c =
     (case Config_load open_file parse (config_file_path c) of
        Inl e \<Rightarrow> (Some e, c)
      | Inr j \<Rightarrow>
          (case Config_load open_file parse (credentials_file_path c) of
             Inl e \<Rightarrow> (Some e, c\<lparr>config_instance := Some j\<rparr>)
           | Inr k \<Rightarrow> (None, c\<lparr>config_instance := Some j, credentials_instance := Some k\<rparr>)))"

section \<open>Checking a path\<close>

fun checkPathWith :: "json \<Rightarrow> string list \<Rightarrow> (json \<Rightarrow> bool) \<Rightarrow> bool" where
  "checkPathWith current [] predicate = predicate current"
| "checkPathWith current (key # path) predicate =
     (if \<not> is_object current then False
      else if \<not> jcontains current key then False
      else (case jat current key of Inl e \<Rightarrow> False | Inr v \<Rightarrow> checkPathWith v path predicate))"

definition checkPath :: "json \<Rightarrow> string list \<Rightarrow> value_t \<Rightarrow> bool" where
  "checkPath j path type = checkPathWith j path (\<lambda>j. json_type j = type)"

definition checkObjectIsArray :: "json \<Rightarrow> string list \<Rightarrow> bool" where
  "checkObjectIsArray j path = checkPath j path array_t"

definition checkObjectIsBinary :: "json \<Rightarrow> string list \<Rightarrow> bool" where
  "checkObjectIsBinary j path = checkPath j path binary_t"

definition checkObjectIsBoolean :: "json \<Rightarrow> string list \<Rightarrow> bool" where
  "checkObjectIsBoolean j path = checkPath j path boolean_t"

definition checkObjectIsDiscarded :: "json \<Rightarrow> string list \<Rightarrow> bool" where
  "checkObjectIsDiscarded j path = checkPath j path discarded_t"

definition checkObjectIsNull :: "json \<Rightarrow> string list \<Rightarrow> bool" where
  "checkObjectIsNull j path = checkPath j path null_t"

definition checkObjectIsNumber :: "json \<Rightarrow> string list \<Rightarrow> bool" where
  "checkObjectIsNumber j path = checkPathWith j path is_number"

definition checkObjectIsNumberFloat :: "json \<Rightarrow> string list \<Rightarrow> bool" where
  "checkObjectIsNumberFloat j path = checkPath j path number_float_t"

definition checkObjectIsNumberInteger :: "json \<Rightarrow> string list \<Rightarrow> bool" where
  "checkObjectIsNumberInteger j path = checkPathWith j path is_number_integer"

definition checkObjectIsNumberUnsigned :: "json \<Rightarrow> string list \<Rightarrow> bool" where
  "checkObjectIsNumberUnsigned j path = checkPath j path number_unsigned_t"

definition checkObjectIsObject :: "json \<Rightarrow> string list \<Rightarrow> bool" where
  "checkObjectIsObject j path = checkPath j path object_t"

definition checkObjectIsPrimitive :: "json \<Rightarrow> string list \<Rightarrow> bool" where
  "checkObjectIsPrimitive j path = checkPathWith j path is_primitive"

definition checkObjectIsString :: "json \<Rightarrow> string list \<Rightarrow> bool" where
  "checkObjectIsString j path = checkPath j path string_t"

section \<open>Common readers\<close>

text \<open>\<open>config["a"]["b"]...\<close> followed by a conversion.\<close>

fun jpath :: "json \<Rightarrow> string list \<Rightarrow> json result" where
  "jpath j [] = Inr j"
| "jpath j (k # ks) = rbind (jidx j k) (\<lambda>v. jpath v ks)"

definition requireHasValue :: "string \<Rightarrow> 'a option \<Rightarrow> 'a result" where
  "requireHasValue message opt =
     (case opt of None \<Rightarrow> Inl (RuntimeError message) | Some x \<Rightarrow> Inr x)"

abbreviation required :: "'a option \<Rightarrow> 'a result" where
  "required \<equiv> requireHasValue ''optional expected with value''"

definition getDirectoryPath :: "json \<Rightarrow> string \<Rightarrow> string option result" where
  "getDirectoryPath config_data key =
     (if \<not> checkObjectIsString config_data [''directories'', key] then Inr None
      else rbind (jpath config_data [''directories'', key]) (\<lambda>v. rbind (get_string v) (\<lambda>s. Inr (Some s))))"

definition getTiming :: "json \<Rightarrow> string \<Rightarrow> rat option result" where
  "getTiming config_data timing_name =
     (if \<not> checkObjectIsNumber config_data [''timings'', timing_name] then Inr None
      else rbind (jpath config_data [''timings'', timing_name]) (\<lambda>v. rbind (get_double v) (\<lambda>x. Inr (Some x))))"

fun token_walk :: "json \<Rightarrow> string \<Rightarrow> string \<Rightarrow> string option result" where
  "token_walk now_part now_transition [] =
     (if \<not> is_object now_part \<or> \<not> jcontains now_part now_transition then Inr None
      else rbind (jidx now_part now_transition) (\<lambda>v.
             if \<not> is_string v then Inr None else rbind (get_string v) (\<lambda>s. Inr (Some s))))"
| "token_walk now_part now_transition (c # cs) =
     (if c = CHR ''.'' then
        (if \<not> is_object now_part \<or> \<not> jcontains now_part now_transition then Inr None
         else rbind (jidx now_part now_transition) (\<lambda>v. token_walk v [] cs))
      else token_walk now_part (now_transition @ [c]) cs)"

definition getTokenFromCredentials :: "json \<Rightarrow> string \<Rightarrow> string option result" where
  "getTokenFromCredentials credentials path_to_token = token_walk credentials [] path_to_token"

definition getMyPort :: "json \<Rightarrow> int option result" where
  "getMyPort config_data =
     (if \<not> checkObjectIsNumberInteger config_data [''my_port''] then Inr None
      else rbind (jpath config_data [''my_port'']) (\<lambda>v. rbind (get_int v) (\<lambda>i. Inr (Some i))))"

text \<open>The readers of one string under a fixed path.\<close>

definition read_string :: "json \<Rightarrow> string list \<Rightarrow> string option result" where
  "read_string config_data path =
     (if \<not> checkObjectIsString config_data path then Inr None
      else rbind (jpath config_data path) (\<lambda>v. rbind (get_string v) (\<lambda>s. Inr (Some s))))"

definition getDispatcherStubType :: "json \<Rightarrow> string option result" where
  "getDispatcherStubType config = read_string config [''dispatcher'', ''stub_type'']"

definition getContentStorageStubType :: "json \<Rightarrow> string option result" where
  "getContentStorageStubType config = read_string config [''content_storage'', ''stub_type'']"

definition getContentDirectory :: "json \<Rightarrow> string \<Rightarrow> string option result" where
  "getContentDirectory config content_type = getDirectoryPath config (content_type @ ''s'')"

definition getMyTestNodeId :: "json \<Rightarrow> string option result" where
  "getMyTestNodeId config_data = read_string config_data [''my_id'']"

definition getMyTestNodeType :: "json \<Rightarrow> string option result" where
  "getMyTestNodeType config_data = read_string config_data [''my_type'']"

definition getTestingLogFilePath :: "json \<Rightarrow> string \<Rightarrow> string option result" where
  "getTestingLogFilePath config_data key = read_string config_data [''testing'', key]"

definition getQueueManagerServiceStubType :: "json \<Rightarrow> string option result" where
  "getQueueManagerServiceStubType config_data = read_string config_data [''queue_manager_service'', ''stub_type'']"

definition getMyEndpoint :: "json \<Rightarrow> string option result" where
  "getMyEndpoint config_data = read_string config_data [''grpc'', ''my_endpoint'']"

definition getServerCredentialsType :: "json \<Rightarrow> string option result" where
  "getServerCredentialsType config_data = read_string config_data [''grpc'', ''server_credentials'']"

section \<open>Logger settings\<close>

record LoggerConfig =
  output_stream :: string
  cfg_log_levels :: "(string \<times> uint32) list"
  cfg_color_map :: "(string \<times> string) list option"
  cfg_min_location_length :: "uint32 option"
  cfg_min_module_length :: "uint32 option"

definition getLoggerOutputStream :: "json \<Rightarrow> string option result" where
  "getLoggerOutputStream config_data =
     (if \<not> checkObjectIsObject config_data [''logger''] then Inr None
      else if \<not> checkObjectIsString config_data [''logger'', ''output_stream''] then Inr (Some ''stderr'')
      else rbind (jpath config_data [''logger'', ''output_stream'']) (\<lambda>v.
             rbind (get_string v) (\<lambda>s. Inr (Some s))))"

fun collect_levels :: "(string \<times> json) list \<Rightarrow> (string \<times> uint32) list \<Rightarrow> (string \<times> uint32) list result" where
  "collect_levels [] levels = Inr levels"
| "collect_levels ((k, v) # m) levels =
     (if is_number_unsigned v then rbind (get_uint32 v) (\<lambda>n. collect_levels m (put_member k n levels))
      else collect_levels m levels)"

definition getAllLoggerLogLevels :: "json \<Rightarrow> (string \<times> uint32) list option result" where
  "getAllLoggerLogLevels config_data =
     (if \<not> checkObjectIsObject config_data [''logger''] then Inr None
      else rbind (jidx config_data ''logger'') (\<lambda>logger.
        if \<not> checkObjectIsObject logger [''log_levels''] then Inr None
        else rbind (jidx logger ''log_levels'') (\<lambda>ls.
          rbind (collect_levels (members ls) []) (\<lambda>levels. Inr (Some levels)))))"

fun collect_colors :: "(string \<times> json) list \<Rightarrow> (string \<times> string) list \<Rightarrow> (string \<times> string) list result" where
  "collect_colors [] cmap = Inr cmap"
| "collect_colors ((k, v) # m) cmap =
     (if is_string v then rbind (get_string v) (\<lambda>s. collect_colors m (put_member k s cmap))
      else collect_colors m cmap)"

definition getLoggerColorMap :: "json \<Rightarrow> (string \<times> string) list option result" where
  "getLoggerColorMap config_data =
     (if \<not> checkObjectIsObject config_data [''logger''] then Inr None
      else rbind (jidx config_data ''logger'') (\<lambda>logger.
        if \<not> checkObjectIsObject logger [''color_map''] then Inr None
        else rbind (jidx logger ''color_map'') (\<lambda>cs.
          rbind (collect_colors (members cs) []) (\<lambda>cmap. Inr (Some cmap)))))"

definition logger_number :: "string \<Rightarrow> json \<Rightarrow> uint32 option result" where
  "logger_number key config_data =
     (if \<not> checkObjectIsObject config_data [''logger''] then Inr None
      else rbind (jidx config_data ''logger'') (\<lambda>logger.
        if checkObjectIsNumberUnsigned logger [key]
        then rbind (jidx logger key) (\<lambda>v. rbind (get_uint32 v) (\<lambda>n. Inr (Some n)))
        else Inr None))"

definition getLoggerMinLocationLength :: "json \<Rightarrow> uint32 option result" where
  "getLoggerMinLocationLength = logger_number ''min_location_length''"

definition getLoggerMinModuleLength :: "json \<Rightarrow> uint32 option result" where
  "getLoggerMinModuleLength = logger_number ''min_module_length''"

definition getLoggerLogLevel :: "json \<Rightarrow> string \<Rightarrow> uint32 option result" where
  "getLoggerLogLevel config_data modname =
     rbind (getAllLoggerLogLevels config_data) (\<lambda>levels_opt.
       case levels_opt of None \<Rightarrow> Inr None | Some levels \<Rightarrow> Inr (map_of levels modname))"

definition getLoggerConfig :: "json \<Rightarrow> LoggerConfig option result" where
  "getLoggerConfig config_data =
     rbind (getLoggerOutputStream config_data) (\<lambda>out.
     rbind (getAllLoggerLogLevels config_data) (\<lambda>levels.
     rbind (getLoggerColorMap config_data) (\<lambda>cmap.
     rbind (getLoggerMinLocationLength config_data) (\<lambda>min_loc.
     rbind (getLoggerMinModuleLength config_data) (\<lambda>min_mod.
       (case (out, levels) of
          (Some o', Some l) \<Rightarrow>
            Inr (Some \<lparr>output_stream = o', cfg_log_levels = l, cfg_color_map = cmap,
                       cfg_min_location_length = min_loc, cfg_min_module_length = min_mod\<rparr>)
        | _ \<Rightarrow> Inr None))))))"

section \<open>Database settings\<close>

record DatabaseConfig =
  host :: string
  port :: int
  username :: string
  password :: string
  database_name :: string
  pool_min :: int
  pool_max :: int
  connect_timeout_sec :: int
  query_read_only_default :: "bool option"
  query_timeout_sec :: "int option"
  query_retries :: "int option"
  default_executor :: "string option"

text \<open>An optional integer member: \<open>None\<close> leaves the default.\<close>

definition optional_int :: "json \<Rightarrow> string \<Rightarrow> int option result" where
  "optional_int db_config key =
     (if checkObjectIsNumberInteger db_config [key]
      then rbind (jidx db_config key) (\<lambda>v. rbind (get_int v) (\<lambda>i. Inr (Some i)))
      else Inr None)"

definition optional_bool :: "json \<Rightarrow> string \<Rightarrow> bool option result" where
  "optional_bool db_config key =
     (if checkObjectIsBoolean db_config [key]
      then rbind (jidx db_config key) (\<lambda>v. rbind (get_bool v) (\<lambda>b. Inr (Some b)))
      else Inr None)"

definition optional_string :: "json \<Rightarrow> string \<Rightarrow> string option result" where
  "optional_string db_config key =
     (if checkObjectIsString db_config [key]
      then rbind (jidx db_config key) (\<lambda>v. rbind (get_string v) (\<lambda>s. Inr (Some s)))
      else Inr None)"

definition or_default :: "'a \<Rightarrow> 'a option \<Rightarrow> 'a" where
  "or_default d x = (case x of None \<Rightarrow> d | Some v \<Rightarrow> v)"

definition pool_bounds_ok :: "DatabaseConfig \<Rightarrow> bool" where
  "pool_bounds_ok r \<longleftrightarrow> \<not> (pool_min r < 0 \<or> pool_max r < 1 \<or> pool_min r > pool_max r)"

definition read_database_config :: "json \<Rightarrow> json \<Rightarrow> DatabaseConfig result" where
  "read_database_config credentials_data db_config =
     rbind (rbind (jidx db_config ''host'') get_string) (\<lambda>h.
     rbind (rbind (jidx db_config ''port'') get_int) (\<lambda>p.
     rbind (rbind (jidx db_config ''username'') get_string) (\<lambda>u.
     rbind (rbind (jpath credentials_data [''database'', ''password'']) get_string) (\<lambda>pw.
     rbind (rbind (jidx db_config ''dbname'') get_string) (\<lambda>n.
     rbind (optional_int db_config ''pool_min'') (\<lambda>pmin.
     rbind (optional_int db_config ''pool_max'') (\<lambda>pmax.
     rbind (optional_int db_config ''connect_timeout_sec'') (\<lambda>ct.
     rbind (optional_bool db_config ''query_read_only_default'') (\<lambda>ro.
     rbind (optional_int db_config ''query_timeout_sec'') (\<lambda>qt.
     rbind (optional_int db_config ''query_retries'') (\<lambda>qr.
     rbind (optional_string db_config ''default_executor'') (\<lambda>ex.
       Inr \<lparr>host = h, port = p, username = u, password = pw, database_name = n,
            pool_min = or_default 2 pmin, pool_max = or_default 10 pmax,
            connect_timeout_sec = or_default 10 ct, query_read_only_default = ro,
            query_timeout_sec = qt, query_retries = qr, default_executor = ex\<rparr>))))))))))))"

definition getDatabaseConfig :: "json \<Rightarrow> json \<Rightarrow> DatabaseConfig option result" where
  "getDatabaseConfig config_data credentials_data =
     (if \<not> checkObjectIsString credentials_data [''database'', ''password''] then Inr None
      else if \<not> checkObjectIsObject config_data [''database''] then Inr None
      else rbind (jidx config_data ''database'') (\<lambda>db_config.
        if \<not> checkObjectIsString db_config [''host''] \<or> \<not> checkObjectIsNumberInteger db_config [''port'']
           \<or> \<not> checkObjectIsString db_config [''username''] \<or> \<not> checkObjectIsString db_config [''dbname'']
        then Inr None
        else rbind (read_database_config credentials_data db_config) (\<lambda>r.
          if pool_bounds_ok r then Inr (Some r) else Inr None)))"

definition getDefaultExecutorName :: "json \<Rightarrow> json \<Rightarrow> string result" where
  "getDefaultExecutorName config_data credentials_data =
     rbind (getDatabaseConfig config_data credentials_data) (\<lambda>c.
     rbind (required c) (\<lambda>r. Inr (or_default ''connection_pool'' (default_executor r))))"

definition buildConnectionString :: "DatabaseConfig \<Rightarrow> string" where
  "buildConnectionString c =
     ''host='' @ host c @ '' port='' @ int_to_string (port c) @ '' dbname='' @ database_name c @
     '' user='' @ username c @ '' password='' @ password c @
     '' keepalives=1 keepalives_idle=30 keepalives_interval=10 keepalives_count=5 connect_timeout='' @
     int_to_string (connect_timeout_sec c) @ '' sslmode=require''"

section \<open>gRPC settings\<close>

fun collect_strings :: "json list \<Rightarrow> string list \<Rightarrow> string list result" where
  "collect_strings [] acc = Inr acc"
| "collect_strings (x # xs) acc =
     (if \<not> is_string x then Inl (RuntimeError ''Invalid interceptor type: expected string'')
      else rbind (get_string x) (\<lambda>s. collect_strings xs (acc @ [s])))"

fun elements :: "json \<Rightarrow> json list" where
  "elements (JArray xs) = xs"
| "elements _ = []"

definition getServerInterceptorTypes :: "json \<Rightarrow> string list result" where
  "getServerInterceptorTypes config_data =
     (if \<not> checkObjectIsArray config_data [''grpc'', ''server_interceptors''] then Inr []
      else rbind (jpath config_data [''grpc'', ''server_interceptors'']) (\<lambda>v.
             collect_strings (elements v) []))"

datatype channel_argument = ArgString string | ArgInt int

fun collect_arguments ::
    "(string \<times> json) list \<Rightarrow> (string \<times> channel_argument) list \<Rightarrow> (string \<times> channel_argument) list result" where
  "collect_arguments [] acc = Inr acc"
| "collect_arguments ((key, v) # m) acc =
     (if is_string v then rbind (get_string v) (\<lambda>s. collect_arguments m (acc @ [(key, ArgString s)]))
      else if is_number v then rbind (get_int v) (\<lambda>i. collect_arguments m (acc @ [(key, ArgInt i)]))
      else Inl (RuntimeError ''Invalid argument type: expected string or number''))"

definition getChannelArgumentsList :: "json \<Rightarrow> string \<Rightarrow> (string \<times> channel_argument) list option result" where
  "getChannelArgumentsList config_data configuration_name =
     (if \<not> checkObjectIsObject config_data [''grpc'', ''channel_arguments_configurations'', configuration_name]
      then Inr None
      else rbind (jpath config_data [''grpc'', ''channel_arguments_configurations'', configuration_name]) (\<lambda>v.
        rbind (collect_arguments (members v) []) (\<lambda>as. Inr (Some as))))"

definition getServerChannelArguments :: "json \<Rightarrow> (string \<times> channel_argument) list option result" where
  "getServerChannelArguments config_data =
     (if \<not> checkObjectIsString config_data [''grpc'', ''server_channel_configuration''] then Inr None
      else rbind (jpath config_data [''grpc'', ''server_channel_configuration'']) (\<lambda>v.
        rbind (get_string v) (getChannelArgumentsList config_data)))"

section \<open>Paths as lookups\<close>

fun jlookup :: "json \<Rightarrow> string list \<Rightarrow> json option" where
  "jlookup j [] = Some j"
| "jlookup j (k # ks) = (case map_of (members j) k of None \<Rightarrow> None | Some v \<Rightarrow> jlookup v ks)"

fun split_dots :: "string \<Rightarrow> string list" where
  "split_dots [] = [[]]"
| "split_dots (c # cs) =
     (if c = CHR ''.'' then [] # split_dots cs
      else (case split_dots cs of [] \<Rightarrow> [[c]] | p # ps \<Rightarrow> (c # p) # ps))"

lemma split_dots_nonempty: "split_dots s \<noteq> []"
  by (cases s) (auto split: list.splits)

lemma jidx_lookup:
  "jidx j k = (case map_of (members j) k of
      Some v \<Rightarrow> Inr v | None \<Rightarrow> Inl (if is_object j then UndefinedBehaviour else JsonError ''type_error''))"
  by (cases j) (auto simp: jidx_def split: option.splits)

lemma checkPathWith_iff:
  "checkPathWith j path P \<longleftrightarrow> (case jlookup j path of None \<Rightarrow> False | Some v \<Rightarrow> P v)"
proof (induction j path P rule: checkPathWith.induct)
  case (1 current P)
  then show ?case by simp
next
  case (2 current key path P)
  show ?case
  proof (cases "map_of (members current) key")
    case None
    then show ?thesis by (simp add: jcontains_def)
  next
    case (Some v)
    then obtain m where m: "current = JObject m" by (cases current) auto
    have "jat current key = Inr v" using Some m by (simp add: jat_def)
    moreover have "jcontains current key" using Some by (simp add: jcontains_def)
    ultimately show ?thesis using 2 [of v] Some m by simp
  qed
qed

lemma jpath_lookup: "jlookup j path = Some v \<Longrightarrow> jpath j path = Inr v"
  by (induction path arbitrary: j) (auto simp: jidx_lookup split: option.splits)

lemma jlookup_append: "jlookup j (p @ q) = (case jlookup j p of None \<Rightarrow> None | Some v \<Rightarrow> jlookup v q)"
  by (induction p arbitrary: j) (auto split: option.splits)

definition lookup_string :: "json \<Rightarrow> string list \<Rightarrow> string option" where
  "lookup_string j path = (case jlookup j path of Some (JString s) \<Rightarrow> Some s | _ \<Rightarrow> None)"

lemma checkObjectIsString_iff:
  "checkObjectIsString j path \<longleftrightarrow> (\<exists>s. jlookup j path = Some (JString s))"
  by (auto simp: checkObjectIsString_def checkPath_def checkPathWith_iff json_type_string split: option.splits)

lemma read_string_eq: "read_string j path = Inr (lookup_string j path)"
proof (cases "checkObjectIsString j path")
  case True
  then obtain s where "jlookup j path = Some (JString s)" by (auto simp: checkObjectIsString_iff)
  with True jpath_lookup [OF this] show ?thesis by (simp add: read_string_def lookup_string_def)
next
  case False
  then show ?thesis
    by (auto simp: read_string_def lookup_string_def checkObjectIsString_iff split: option.splits json.splits)
qed

lemma getDirectoryPath_read: "getDirectoryPath j key = read_string j [''directories'', key]"
  by (simp add: getDirectoryPath_def read_string_def)

lemma getDirectoryPath_eq: "getDirectoryPath j key = Inr (lookup_string j [''directories'', key])"
  by (simp add: getDirectoryPath_read read_string_eq)

lemma checkObjectIsObject_iff:
  "checkObjectIsObject j path \<longleftrightarrow> (\<exists>m. jlookup j path = Some (JObject m))"
  by (auto simp: checkObjectIsObject_def checkPath_def checkPathWith_iff json_type_object split: option.splits)

lemma checkObjectIsInteger_iff:
  "checkObjectIsNumberInteger j path \<longleftrightarrow>
     (\<exists>v. jlookup j path = Some v \<and> is_number_integer v)"
  by (auto simp: checkObjectIsNumberInteger_def checkPathWith_iff split: option.splits)

lemma is_number_integer_get: "is_number_integer v \<Longrightarrow> \<exists>i. get_int v = Inr i"
  by (cases v) (auto simp: is_number_integer_def)

lemma jidx_singleton: "jlookup j [k] = Some v \<Longrightarrow> jidx j k = Inr v"
  by (auto simp: jidx_lookup split: option.splits)

lemma optional_int_total: "\<exists>r. optional_int j k = Inr r"
proof (cases "checkObjectIsNumberInteger j [k]")
  case True
  then obtain v where v: "jlookup j [k] = Some v" "is_number_integer v"
    by (auto simp only: checkObjectIsInteger_iff)
  with True jidx_singleton [OF v(1)] is_number_integer_get [OF v(2)] show ?thesis
    by (auto simp: optional_int_def)
qed (simp add: optional_int_def)

lemma optional_bool_total: "\<exists>r. optional_bool j k = Inr r"
proof (cases "checkObjectIsBoolean j [k]")
  case True
  then obtain v where v: "jlookup j [k] = Some v" "json_type v = boolean_t"
    unfolding checkObjectIsBoolean_def checkPath_def checkPathWith_iff by (auto split: option.splits)
  then obtain b where "v = JBoolean b" by (cases v) auto
  with True jidx_singleton [OF v(1)] show ?thesis by (auto simp: optional_bool_def)
qed (simp add: optional_bool_def)

lemma optional_string_total: "\<exists>r. optional_string j k = Inr r"
proof (cases "checkObjectIsString j [k]")
  case True
  then obtain s where v: "jlookup j [k] = Some (JString s)" by (auto simp only: checkObjectIsString_iff)
  with True jidx_singleton [OF v(1)] show ?thesis by (auto simp: optional_string_def)
qed (simp add: optional_string_def)

lemma read_database_config_total:
  assumes "checkObjectIsString cred [''database'', ''password'']"
    and "checkObjectIsString db [''host'']" and "checkObjectIsNumberInteger db [''port'']"
    and "checkObjectIsString db [''username'']" and "checkObjectIsString db [''dbname'']"
  shows "\<exists>r. read_database_config cred db = Inr r"
proof -
  from assms(1) obtain pw where "jlookup cred [''database'', ''password''] = Some (JString pw)"
    unfolding checkObjectIsString_iff by blast
  note pw = jpath_lookup [OF this]
  from assms(2) obtain h where "jlookup db [''host''] = Some (JString h)" unfolding checkObjectIsString_iff by blast
  note h = jidx_singleton [OF this]
  from assms(4) obtain u where "jlookup db [''username''] = Some (JString u)" unfolding checkObjectIsString_iff by blast
  note u = jidx_singleton [OF this]
  from assms(5) obtain n where "jlookup db [''dbname''] = Some (JString n)" unfolding checkObjectIsString_iff by blast
  note n = jidx_singleton [OF this]
  from assms(3) obtain v where v: "jlookup db [''port''] = Some v" "is_number_integer v"
    unfolding checkObjectIsInteger_iff by blast
  note p = jidx_singleton [OF v(1)]
  from is_number_integer_get [OF v(2)] obtain i where i: "get_int v = Inr i" by blast
  from optional_int_total obtain a where a: "optional_int db ''pool_min'' = Inr a" by blast
  from optional_int_total obtain b where b: "optional_int db ''pool_max'' = Inr b" by blast
  from optional_int_total obtain c where c: "optional_int db ''connect_timeout_sec'' = Inr c" by blast
  from optional_bool_total obtain d where d: "optional_bool db ''query_read_only_default'' = Inr d" by blast
  from optional_int_total obtain e where e: "optional_int db ''query_timeout_sec'' = Inr e" by blast
  from optional_int_total obtain f where f: "optional_int db ''query_retries'' = Inr f" by blast
  from optional_string_total obtain g where g: "optional_string db ''default_executor'' = Inr g" by blast
  show ?thesis
    unfolding read_database_config_def h p u pw n a b c d e f g rbind.simps get_string.simps i by blast
qed

section \<open>Properties\<close>

text \<open>
  checking a path is looking it up: the check holds exactly when every key of the path exists
  and the value found satisfies the predicate; it never throws on values of the wrong kind.
\<close>

theorem checkPathWith_lookup:
  "checkPathWith j path P \<longleftrightarrow> (\<exists>v. jlookup j path = Some v \<and> P v)"
  by (auto simp: checkPathWith_iff split: option.splits)

text \<open>
  the token path is split at every dot and looked up key by key; the result is the string found
  there, and nothing when a key is missing or the value is not a string.  The reader never throws.
\<close>

theorem getTokenFromCredentials_lookup:
  "getTokenFromCredentials j path = Inr (lookup_string j (split_dots path))"
proof -
  have "token_walk j acc path =
      Inr (lookup_string j (case split_dots path of [] \<Rightarrow> [acc] | p # ps \<Rightarrow> (acc @ p) # ps))" for acc
  proof (induction path arbitrary: j acc)
    case Nil
    show ?case
      by (cases j) (auto simp: jcontains_def jidx_def lookup_string_def json_type_string
          split: option.splits json.splits)
  next
    case (Cons c cs)
    obtain p ps where split: "split_dots cs = p # ps"
      using split_dots_nonempty [of cs] by (cases "split_dots cs") auto
    show ?case
    proof (cases "c = CHR ''.''")
      case True
      then show ?thesis
        using Cons.IH [where acc = "[]"] split
        by (cases "map_of (members j) acc"; cases j)
           (auto simp: jcontains_def jidx_def lookup_string_def)
    next
      case False
      then show ?thesis using Cons.IH [where acc = "acc @ [c]"] split by simp
    qed
  qed
  moreover obtain p ps where "split_dots path = p # ps"
    using split_dots_nonempty [of path] by (cases "split_dots path") auto
  ultimately show ?thesis by (simp add: getTokenFromCredentials_def)
qed

text \<open>
  reading the database settings never throws, whatever the two documents hold, and a
  configuration it returns has a usable pool: \<open>0 \<le> pool_min \<le> pool_max\<close> and \<open>1 \<le> pool_max\<close>.
\<close>

theorem getDatabaseConfig_bounds:
  "\<exists>r. getDatabaseConfig config cred = Inr r
    \<and> (case r of None \<Rightarrow> True
       | Some d \<Rightarrow> 0 \<le> pool_min d \<and> pool_min d \<le> pool_max d \<and> 1 \<le> pool_max d)"
proof (cases "checkObjectIsString cred [''database'', ''password''] \<and> checkObjectIsObject config [''database'']")
  case False
  then show ?thesis by (auto simp: getDatabaseConfig_def)
next
  case True
  then obtain m where db: "jidx config ''database'' = Inr (JObject m)"
    using jidx_singleton unfolding checkObjectIsObject_iff by blast
  show ?thesis
  proof (cases "checkObjectIsString (JObject m) [''host''] \<and> checkObjectIsNumberInteger (JObject m) [''port'']
      \<and> checkObjectIsString (JObject m) [''username''] \<and> checkObjectIsString (JObject m) [''dbname'']")
    case False
    with True db show ?thesis by (auto simp: getDatabaseConfig_def)
  next
    case ok: True
    with True read_database_config_total obtain r where "read_database_config cred (JObject m) = Inr r" by blast
    with True ok db show ?thesis by (auto simp: getDatabaseConfig_def pool_bounds_ok_def)
  qed
qed

text \<open>
  the readers of single settings never throw and return what is found under their fixed path,
  when it is a string.
\<close>

theorem string_readers_lookup:
  "getDirectoryPath j key = Inr (lookup_string j [''directories'', key])
   \<and> getContentDirectory j key = Inr (lookup_string j [''directories'', key @ ''s''])
   \<and> getMyTestNodeId j = Inr (lookup_string j [''my_id''])
   \<and> getMyTestNodeType j = Inr (lookup_string j [''my_type''])
   \<and> getTestingLogFilePath j key = Inr (lookup_string j [''testing'', key])
   \<and> getQueueManagerServiceStubType j = Inr (lookup_string j [''queue_manager_service'', ''stub_type''])
   \<and> getDispatcherStubType j = Inr (lookup_string j [''dispatcher'', ''stub_type''])
   \<and> getContentStorageStubType j = Inr (lookup_string j [''content_storage'', ''stub_type''])
   \<and> getMyEndpoint j = Inr (lookup_string j [''grpc'', ''my_endpoint''])
   \<and> getServerCredentialsType j = Inr (lookup_string j [''grpc'', ''server_credentials''])"
  by (simp add: getDirectoryPath_eq read_string_eq getContentDirectory_def getMyTestNodeId_def
      getMyTestNodeType_def getTestingLogFilePath_def getQueueManagerServiceStubType_def
      getDispatcherStubType_def getContentStorageStubType_def getMyEndpoint_def
      getServerCredentialsType_def)

text \<open>
  a configuration that was read is cached: whatever happens to the file afterwards, and to the
  configured path, the same document is returned until \<open>reloadData\<close>.
\<close>

theorem config_is_cached:
  assumes "Config_config open1 parse1 c = Inr (j, c')"
  shows "Config_config open2 parse2 (setConfigFilePath c' path) = Inr (j, setConfigFilePath c' path)"
  using assms
  by (auto simp: Config_config_def setConfigFilePath_def rbind_eq_Inr split: option.splits)

theorem config_is_cached_witness:
  "Config_config (\<lambda>_. None) (\<lambda>_. Inl UndefinedBehaviour)
     (setConfigFilePath \<lparr>config_file_path = ''a'', credentials_file_path = ''b'',
        config_instance = Some JNull, credentials_instance = None\<rparr> ''c'') =
   Inr (JNull, setConfigFilePath \<lparr>config_file_path = ''a'', credentials_file_path = ''b'',
        config_instance = Some JNull, credentials_instance = None\<rparr> ''c'')"
proof (rule config_is_cached)
  show "Config_config (\<lambda>p. Some ''null'') (\<lambda>t. Inr JNull)
      \<lparr>config_file_path = ''a'', credentials_file_path = ''b'', config_instance = None,
       credentials_instance = None\<rparr> =
    Inr (JNull, \<lparr>config_file_path = ''a'', credentials_file_path = ''b'',
       config_instance = Some JNull, credentials_instance = None\<rparr>)"
    by (simp add: Config_config_def Config_load_def)
qed

end
