(* ===== verification/Problem_Config.thy ===== *)
theory Problem_Config
  imports Config
begin

text \<open>
  The configuration of a problem: \<open>modules/config/src/problem_config_utils.cpp\<close>, over the nodes of
  pugixml.  A node handle is an option (\<open>None\<close> the null node): navigation from the null node gives
  the null node, and its attributes read as empty, as that library documents.  Numbers in texts are
  decimal.  Loading a file is a parameter: the children of the document, or \<open>None\<close> when it cannot
  be read or parsed.
\<close>

section \<open>XML nodes\<close>

datatype xml =
    Element (tag: string) (attributes: "(string \<times> string) list") (kids: "xml list")
  | CData string

fun is_element :: "string \<Rightarrow> xml \<Rightarrow> bool" where
  "is_element t (Element u as ks) = (t = u)"
| "is_element t (CData s) = False"

fun node_kids :: "xml option \<Rightarrow> xml list" where
  "node_kids (Some (Element t as ks)) = ks"
| "node_kids _ = []"

definition children :: "xml option \<Rightarrow> string \<Rightarrow> xml list" where
  "children n t = filter (is_element t) (node_kids n)"

definition child :: "xml option \<Rightarrow> string \<Rightarrow> xml option" where
  "child n t = find (is_element t) (node_kids n)"

fun attribute_string :: "xml option \<Rightarrow> string \<Rightarrow> string" where
  "attribute_string (Some (Element t as ks)) a = (case map_of as a of Some v \<Rightarrow> v | None \<Rightarrow> [])"
| "attribute_string _ a = []"

fun first_text :: "xml list \<Rightarrow> string option" where
  "first_text [] = None"
| "first_text (CData s # ks) = Some s"
| "first_text (Element t as cs # ks) = first_text ks"

definition text_double :: "xml option \<Rightarrow> rat \<Rightarrow> rat" where
  "text_double n deflt =
     (case first_text (node_kids n) of
        None \<Rightarrow> deflt
      | Some s \<Rightarrow> (case stod s of Inl e \<Rightarrow> 0 | Inr x \<Rightarrow> x))"

text \<open>
  \<open>as_ullong\<close>: blanks of XML, an optional sign, then hexadecimal digits after \<open>0x\<close> or decimal ones, up to
  the first character that is none.  A number that does not fit is brought to the nearest that does: zero
  for a negative one, \<open>2 ^ 64 - 1\<close> for one that is too large.
\<close>

definition is_xml_blank :: "char \<Rightarrow> bool" where
  "is_xml_blank c \<longleftrightarrow> c = CHR '' '' \<or> c = CHR 0x09 \<or> c = CHR 0x0A \<or> c = CHR 0x0D"

definition hex_digit_of :: "char \<Rightarrow> nat option" where
  "hex_digit_of c =
     (let n = of_char c :: nat in
      if 48 \<le> n \<and> n \<le> 57 then Some (n - 48)
      else if 97 \<le> n \<and> n \<le> 102 then Some (n - 87)
      else if 65 \<le> n \<and> n \<le> 70 then Some (n - 55) else None)"

fun read_hex :: "nat \<Rightarrow> string \<Rightarrow> nat" where
  "read_hex v [] = v"
| "read_hex v (c # cs) = (case hex_digit_of c of None \<Rightarrow> v | Some d \<Rightarrow> read_hex (16 * v + d) cs)"

definition read_unsigned :: "string \<Rightarrow> nat" where
  "read_unsigned s =
     (if take 2 s = ''0x'' \<or> take 2 s = ''0X'' then read_hex 0 (drop 2 s) else fst (read_digits 0 0 s))"

definition string_to_ullong :: "string \<Rightarrow> nat" where
  "string_to_ullong s =
     (case dropWhile is_xml_blank s of
        [] \<Rightarrow> 0
      | c # t \<Rightarrow>
          if c = CHR ''-'' then 0
          else min (read_unsigned (if c = CHR ''+'' then t else c # t)) (2 ^ 64 - 1))"

definition text_ullong :: "xml option \<Rightarrow> nat" where
  "text_ullong n = (case first_text (node_kids n) of None \<Rightarrow> 0 | Some s \<Rightarrow> string_to_ullong s)"

lemma text_ullong_bound: "text_ullong n < 2 ^ 64"
  by (simp add: text_ullong_def string_to_ullong_def min_less_iff_disj split: option.split list.split)

section \<open>Readers\<close>

type_synonym xml_loader = "string \<Rightarrow> xml list option"

definition getFullProblemConfig :: "json \<Rightarrow> xml_loader \<Rightarrow> string \<Rightarrow> xml list result" where
  "getFullProblemConfig config load_file problem_id =
     rbind (rbind (getDirectoryPath config ''problems'') required) (\<lambda>problems_dir.
       let path = path_append (path_append problems_dir problem_id) ''problem.xml'' in
       case load_file path of
         None \<Rightarrow> Inl (RuntimeError (''Failed to load problem config from '' @ path))
       | Some doc \<Rightarrow> Inr doc)"

fun is_runtime_error :: "exn \<Rightarrow> bool" where
  "is_runtime_error (RuntimeError m) = True"
| "is_runtime_error (FilesystemError m) = True"
| "is_runtime_error _ = False"

definition getProblemConfig :: "json \<Rightarrow> xml_loader \<Rightarrow> string \<Rightarrow> xml option result" where
  "getProblemConfig config load_file problem_id =
     (case getFullProblemConfig config load_file problem_id of
        Inr doc \<Rightarrow> Inr (find (is_element ''problem'') doc)
      | Inl e \<Rightarrow> if is_runtime_error e then Inr None else Inl e)"

definition getProblemBuilderName :: "json \<Rightarrow> xml_loader \<Rightarrow> string \<Rightarrow> string option result" where
  "getProblemBuilderName config load_file problem_id =
     rbind (getProblemConfig config load_file problem_id) (\<lambda>problem_opt.
       case problem_opt of
         None \<Rightarrow> Inr None
       | Some problem \<Rightarrow>
           (let builder_type = attribute_string (child (Some problem) ''problem_builder'') ''type''
            in Inr (if builder_type = [] then None else Some builder_type)))"

definition getTestConfig :: "json \<Rightarrow> xml_loader \<Rightarrow> string \<Rightarrow> string \<Rightarrow> xml option result" where
  "getTestConfig config load_file problem_id test_name =
     rbind (getProblemConfig config load_file problem_id) (\<lambda>problem_opt.
       case problem_opt of
         None \<Rightarrow> Inr None
       | Some problem \<Rightarrow>
           Inr (find (\<lambda>t. attribute_string (Some t) ''name'' = test_name)
                  (children (child (Some problem) ''tests'') ''test'')))"

definition getAllTestNames :: "json \<Rightarrow> xml_loader \<Rightarrow> string \<Rightarrow> string list option result" where
  "getAllTestNames config load_file problem_id =
     rbind (getProblemConfig config load_file problem_id) (\<lambda>problem_opt.
       case problem_opt of
         None \<Rightarrow> Inr None
       | Some problem \<Rightarrow>
           (case child (Some problem) ''tests'' of
              None \<Rightarrow> Inr None
            | Some tests_node \<Rightarrow>
                Inr (Some (filter (\<lambda>n. n \<noteq> [])
                       (map (\<lambda>t. attribute_string (Some t) ''name'') (children (Some tests_node) ''test''))))))"

definition getPathToProblemStatements ::
    "json \<Rightarrow> xml_loader \<Rightarrow> (string \<Rightarrow> bool) \<Rightarrow> string \<Rightarrow> string \<Rightarrow> string \<Rightarrow> string option result" where
  "getPathToProblemStatements config load_file is_regular_file problem_id language ty =
     rbind (getProblemConfig config load_file problem_id) (\<lambda>problem_opt.
       case problem_opt of
         None \<Rightarrow> Inr None
       | Some problem \<Rightarrow>
           rbind (getDirectoryPath config ''problems'') (\<lambda>problem_dir_opt.
             case problem_dir_opt of
               None \<Rightarrow> Inr None
             | Some problems_dir \<Rightarrow>
                 Inr (find is_regular_file
                   (map (\<lambda>s. path_append (path_append problems_dir problem_id) (attribute_string (Some s) ''path''))
                     (filter (\<lambda>s. attribute_string (Some s) ''language'' = language
                                \<and> attribute_string (Some s) ''type'' = ty
                                \<and> attribute_string (Some s) ''path'' \<noteq> [])
                       (children (child (Some problem) ''statements'') ''statement''))))))"

definition getProblemStatements ::
    "json \<Rightarrow> xml_loader \<Rightarrow> (string \<Rightarrow> bool) \<Rightarrow> (string \<Rightarrow> string result) \<Rightarrow>
     string \<Rightarrow> string \<Rightarrow> string \<Rightarrow> string option result" where
  "getProblemStatements config load_file is_regular_file loadFile problem_id language ty =
     rbind (getPathToProblemStatements config load_file is_regular_file problem_id language ty) (\<lambda>path_opt.
       case path_opt of
         None \<Rightarrow> Inr None
       | Some path \<Rightarrow> rbind (loadFile path) (\<lambda>s. Inr (Some s)))"

section \<open>Facts\<close>

lemma getProblemConfig_total: "\<exists>r. getProblemConfig config load_file pid = Inr r"
  by (auto simp: getProblemConfig_def getFullProblemConfig_def getDirectoryPath_eq requireHasValue_def Let_def
      split: sum.splits option.splits)

text \<open>The problem element of a problem whose directory is configured and whose file loads.\<close>

lemma getProblemConfig_loaded:
  assumes "lookup_string config [''directories'', ''problems''] = Some dir"
    and "load_file (path_append (path_append dir pid) ''problem.xml'') = Some doc"
    and "find (is_element ''problem'') doc = Some problem"
  shows "getProblemConfig config load_file pid = Inr (Some problem)"
  using assms by (simp add: getProblemConfig_def getFullProblemConfig_def getDirectoryPath_eq requireHasValue_def)

lemma find_filter: "find P xs = (case filter P xs of [] \<Rightarrow> None | y # ys \<Rightarrow> Some y)"
  by (induction xs) auto

lemma children_child: "child n t = (case children n t of [] \<Rightarrow> None | c # cs \<Rightarrow> Some c)"
  by (simp add: child_def children_def find_filter)

end
