(* ===== verification/Verdicts.thy ===== *)
theory Verdicts
  imports Json Factory
begin

text \<open>
  Verdicts and the builders that combine them:
  \<open>modules/test_node/include/oink_judge/test_node/verdict_type.hpp\<close>,
  \<open>src/verdicts/verdict_base.cpp\<close> and \<open>src/verdict_builders/{verdict_builder_min,verdict_builder_sum}.cpp\<close>.

  A verdict object is a record; a builder is the value of its fields, the class being the
  constructor, so that the virtual calls of \<open>Testset\<close> are functions by cases.  Scores and times are
  exact rationals.
\<close>

section \<open>Verdict types\<close>

datatype verdict_kind = ACCEPTED_T | PARTIAL_T | SKIPPED_T | WRONG_T | FAILED_T

text \<open>The enumeration carries the order of its declaration.\<close>

fun kind_rank :: "verdict_kind \<Rightarrow> nat" where
  "kind_rank ACCEPTED_T = 0"
| "kind_rank PARTIAL_T = 1"
| "kind_rank SKIPPED_T = 2"
| "kind_rank WRONG_T = 3"
| "kind_rank FAILED_T = 4"

lemma kind_rank_inject: "kind_rank a = kind_rank b \<longleftrightarrow> a = b"
  by (cases a; cases b) simp_all

instantiation verdict_kind :: linorder
begin

definition less_eq_verdict_kind :: "verdict_kind \<Rightarrow> verdict_kind \<Rightarrow> bool" where
  "less_eq_verdict_kind a b \<longleftrightarrow> kind_rank a \<le> kind_rank b"

definition less_verdict_kind :: "verdict_kind \<Rightarrow> verdict_kind \<Rightarrow> bool" where
  "less_verdict_kind a b \<longleftrightarrow> kind_rank a < kind_rank b"

instance
  by standard (auto simp: less_eq_verdict_kind_def less_verdict_kind_def kind_rank_inject)

end

record verdict_type =
  kind :: verdict_kind
  full_name :: string
  short_name :: string

definition ACCEPTED :: verdict_type where
  "ACCEPTED = \<lparr>kind = ACCEPTED_T, full_name = ''Accepted'', short_name = ''AC''\<rparr>"
definition VERDICT_OK :: verdict_type where
  "VERDICT_OK = \<lparr>kind = ACCEPTED_T, full_name = ''OK'', short_name = ''OK''\<rparr>"
definition WRONG_ANSWER :: verdict_type where
  "WRONG_ANSWER = \<lparr>kind = WRONG_T, full_name = ''Wrong Answer'', short_name = ''WA''\<rparr>"
definition TIME_LIMIT_EXCEEDED :: verdict_type where
  "TIME_LIMIT_EXCEEDED = \<lparr>kind = WRONG_T, full_name = ''Time Limit Exceeded'', short_name = ''TL''\<rparr>"
definition MEMORY_LIMIT_EXCEEDED :: verdict_type where
  "MEMORY_LIMIT_EXCEEDED = \<lparr>kind = WRONG_T, full_name = ''Memory Limit Exceeded'', short_name = ''ML''\<rparr>"
definition RUNTIME_ERROR :: verdict_type where
  "RUNTIME_ERROR = \<lparr>kind = WRONG_T, full_name = ''Runtime Error'', short_name = ''RE''\<rparr>"
definition PRESENTATION_ERROR :: verdict_type where
  "PRESENTATION_ERROR = \<lparr>kind = WRONG_T, full_name = ''Presentation Error'', short_name = ''PE''\<rparr>"
definition COMPILATION_ERROR :: verdict_type where
  "COMPILATION_ERROR = \<lparr>kind = WRONG_T, full_name = ''Compilation Error'', short_name = ''CE''\<rparr>"
definition IDLE_LIMIT_EXCEEDED :: verdict_type where
  "IDLE_LIMIT_EXCEEDED = \<lparr>kind = WRONG_T, full_name = ''Idle Limit Exceeded'', short_name = ''IL''\<rparr>"
definition PARTIAL :: verdict_type where
  "PARTIAL = \<lparr>kind = PARTIAL_T, full_name = ''Partial'', short_name = ''PT''\<rparr>"
definition SKIPPED :: verdict_type where
  "SKIPPED = \<lparr>kind = SKIPPED_T, full_name = ''Skipped'', short_name = ''SK''\<rparr>"
definition SECURITY_VIOLATION :: verdict_type where
  "SECURITY_VIOLATION = \<lparr>kind = WRONG_T, full_name = ''Security Violation'', short_name = ''SV''\<rparr>"
definition FAILED :: verdict_type where
  "FAILED = \<lparr>kind = FAILED_T, full_name = ''Failed'', short_name = ''FAIL''\<rparr>"

lemmas verdict_constants =
  ACCEPTED_def VERDICT_OK_def WRONG_ANSWER_def TIME_LIMIT_EXCEEDED_def MEMORY_LIMIT_EXCEEDED_def
  RUNTIME_ERROR_def PRESENTATION_ERROR_def COMPILATION_ERROR_def IDLE_LIMIT_EXCEEDED_def
  PARTIAL_def SKIPPED_def SECURITY_VIOLATION_def FAILED_def

section \<open>Verdicts\<close>

record verdict_info =
  vtype :: verdict_type
  score :: rat
  time_used :: rat
  memory_used :: rat
  real_time_used :: rat

record verdict =
  test_name :: string
  info :: verdict_info
  additional_info :: "(string \<times> json) list"

definition make_verdict :: "string \<Rightarrow> verdict" where
  "make_verdict name =
     \<lparr>test_name = name,
      info = \<lparr>vtype = \<lparr>kind = WRONG_T, full_name = ''Empty'', short_name = ''EM''\<rparr>,
              score = 0, time_used = 0, memory_used = 0, real_time_used = 0\<rparr>,
      additional_info = []\<rparr>"

definition setInfo :: "verdict \<Rightarrow> verdict_info \<Rightarrow> verdict" where
  "setInfo v i = v\<lparr>info := i\<rparr>"

definition addToAdditionalInfo :: "verdict \<Rightarrow> string \<Rightarrow> json \<Rightarrow> verdict" where
  "addToAdditionalInfo v key j = v\<lparr>additional_info := put_member key j (additional_info v)\<rparr>"

definition clearAdditionalInfo :: "verdict \<Rightarrow> verdict" where
  "clearAdditionalInfo v = v\<lparr>additional_info := []\<rparr>"

definition toJson :: "verdict \<Rightarrow> int \<Rightarrow> json" where
  "toJson v verbose =
     (let i = info v;
          m = put_member ''verdict'' (JObject [(''full_name'', JString (full_name (vtype i))),
                                               (''short_name'', JString (short_name (vtype i)))]) [];
          m = put_member ''score'' (JFloat (score i)) m;
          m = (if verbose \<ge> 1
               then put_member ''real_time_used'' (JFloat (real_time_used i))
                      (put_member ''memory_used'' (JFloat (memory_used i))
                        (put_member ''time_used'' (JFloat (time_used i)) m))
               else m);
          m = (if verbose \<ge> 2 then put_member ''additional_info'' (JObject (additional_info v)) m else m)
      in JObject m)"

section \<open>The builders\<close>

datatype verdict_builder =
    VerdictBuilderMin (builder_name: string) (current_verdict: verdict)
  | VerdictBuilderSum (builder_name: string) (current_verdict: verdict)

definition fresh_info :: "rat \<Rightarrow> verdict_info" where
  "fresh_info s = \<lparr>vtype = ACCEPTED, score = s, time_used = 0, memory_used = 0, real_time_used = 0\<rparr>"

fun clear :: "verdict_builder \<Rightarrow> verdict_builder" where
  "clear (VerdictBuilderMin n v) = VerdictBuilderMin n (setInfo (make_verdict n) (fresh_info 100))"
| "clear (VerdictBuilderSum n v) = VerdictBuilderSum n (setInfo (make_verdict n) (fresh_info 0))"

definition make_builder_min :: "string \<Rightarrow> verdict_builder" where
  "make_builder_min n = clear (VerdictBuilderMin n (make_verdict n))"

definition make_builder_sum :: "string \<Rightarrow> verdict_builder" where
  "make_builder_sum n = clear (VerdictBuilderSum n (make_verdict n))"

definition min_type :: "verdict_type \<Rightarrow> verdict_type \<Rightarrow> verdict_type" where
  "min_type current new =
     (if kind current = ACCEPTED_T then new
      else if kind current = PARTIAL_T then
        (if kind new = ACCEPTED_T then current else new)
      else if kind current = SKIPPED_T then
        (if kind new = FAILED_T \<or> kind new = WRONG_T \<or> kind new = PARTIAL_T then new else current)
      else if kind current = WRONG_T then
        (if kind new = FAILED_T then new else current)
      else current)"

definition sum_type :: "verdict_type \<Rightarrow> verdict_type \<Rightarrow> verdict_type" where
  "sum_type current new =
     (if kind current = ACCEPTED_T then
        (if kind new = WRONG_T \<or> kind new = SKIPPED_T then PARTIAL else new)
      else if kind current = PARTIAL_T then
        (if kind new = FAILED_T then new else current)
      else if kind current = SKIPPED_T then
        (if kind new = SKIPPED_T then current else new)
      else if kind current = WRONG_T then
        (if kind new = FAILED_T \<or> kind new = PARTIAL_T then new
         else if kind new = ACCEPTED_T then PARTIAL
         else current)
      else current)"

definition min_info :: "verdict_info \<Rightarrow> verdict_info \<Rightarrow> verdict_info" where
  "min_info c i =
     \<lparr>vtype = min_type (vtype c) (vtype i), score = min (score c) (score i),
      time_used = max (time_used c) (time_used i), memory_used = max (memory_used c) (memory_used i),
      real_time_used = max (real_time_used c) (real_time_used i)\<rparr>"

definition sum_info :: "verdict_info \<Rightarrow> verdict_info \<Rightarrow> verdict_info" where
  "sum_info c i =
     \<lparr>vtype = sum_type (vtype c) (vtype i), score = score c + score i,
      time_used = max (time_used c) (time_used i), memory_used = max (memory_used c) (memory_used i),
      real_time_used = max (real_time_used c) (real_time_used i)\<rparr>"

fun addVerdict :: "verdict_builder \<Rightarrow> verdict \<Rightarrow> verdict_builder" where
  "addVerdict (VerdictBuilderMin n c) v =
     (let c' = addToAdditionalInfo c (test_name v) (toJson v 2)
      in VerdictBuilderMin n (setInfo c' (min_info (info c') (info v))))"
| "addVerdict (VerdictBuilderSum n c) v =
     (let c' = addToAdditionalInfo c (test_name v) (toJson v 2)
      in VerdictBuilderSum n (setInfo c' (sum_info (info c') (info v))))"

fun canScoreChange :: "verdict_builder \<Rightarrow> bool" where
  "canScoreChange (VerdictBuilderMin n c) = (score (info c) \<noteq> 0)"
| "canScoreChange (VerdictBuilderSum n c) = (score (info c) \<noteq> 0)"

definition finalize :: "verdict_builder \<Rightarrow> verdict" where
  "finalize b = current_verdict b"

text \<open>The types registered with \<open>VerdictBuilderFactory\<close>; both ignore their parameters.\<close>

definition verdict_builder_factory :: "(string \<Rightarrow> string \<Rightarrow> verdict_builder result) factory" where
  "verdict_builder_factory =
     registerType
       (registerType Map.empty ''min'' (\<lambda>params n. Inr (make_builder_min n)))
       ''sum'' (\<lambda>params n. Inr (make_builder_sum n))"

section \<open>What a builder computes\<close>

abbreviation vkind :: "verdict \<Rightarrow> verdict_kind" where "vkind v \<equiv> kind (vtype (info v))"
abbreviation vscore :: "verdict \<Rightarrow> rat" where "vscore v \<equiv> score (info v)"

text \<open>
  The kind the minimum builder ends with: any failure, else any wrong answer, else the kind of the
  last child that was not accepted.
\<close>

definition min_kind :: "verdict_kind list \<Rightarrow> verdict_kind" where
  "min_kind ks =
     (if FAILED_T \<in> set ks then FAILED_T
      else if WRONG_T \<in> set ks then WRONG_T
      else (case rev (filter (\<lambda>k. k \<noteq> ACCEPTED_T) ks) of [] \<Rightarrow> ACCEPTED_T | k # _ \<Rightarrow> k))"

definition sum_kind :: "verdict_kind list \<Rightarrow> verdict_kind" where
  "sum_kind ks =
     (if FAILED_T \<in> set ks then FAILED_T
      else if set ks \<subseteq> {ACCEPTED_T} then ACCEPTED_T else PARTIAL_T)"

definition add_all :: "verdict_builder \<Rightarrow> verdict list \<Rightarrow> verdict_builder" where
  "add_all b vs = foldl addVerdict b vs"

lemma add_all_simps [simp]:
  "add_all b [] = b"
  "add_all b (vs @ [v]) = addVerdict (add_all b vs) v"
  by (simp_all add: add_all_def)

lemma addVerdict_min:
  "addVerdict (VerdictBuilderMin n c) v =
     VerdictBuilderMin n (c\<lparr>info := min_info (info c) (info v),
       additional_info := put_member (test_name v) (toJson v 2) (additional_info c)\<rparr>)"
  by (simp add: addToAdditionalInfo_def setInfo_def Let_def)

lemma addVerdict_sum:
  "addVerdict (VerdictBuilderSum n c) v =
     VerdictBuilderSum n (c\<lparr>info := sum_info (info c) (info v),
       additional_info := put_member (test_name v) (toJson v 2) (additional_info c)\<rparr>)"
  by (simp add: addToAdditionalInfo_def setInfo_def Let_def)

lemmas builder_simps = addVerdict_min addVerdict_sum finalize_def setInfo_def make_verdict_def fresh_info_def

lemma add_all_min:
  "\<exists>c. add_all (clear (VerdictBuilderMin n c0)) vs = VerdictBuilderMin n c \<and> test_name c = n \<and>
     info c = foldl min_info (fresh_info 100) (map info vs) \<and>
     map_of (additional_info c) = map_of (rev (map (\<lambda>v. (test_name v, toJson v 2)) vs))"
  by (induction vs rule: rev_induct)
     (auto simp del: addVerdict.simps simp add: builder_simps map_of_put_member)

lemma add_all_sum:
  "\<exists>c. add_all (clear (VerdictBuilderSum n c0)) vs = VerdictBuilderSum n c \<and> test_name c = n \<and>
     info c = foldl sum_info (fresh_info 0) (map info vs) \<and>
     map_of (additional_info c) = map_of (rev (map (\<lambda>v. (test_name v, toJson v 2)) vs))"
  by (induction vs rule: rev_induct)
     (auto simp del: addVerdict.simps simp add: builder_simps map_of_put_member)

lemma kind_min_type: "kind (min_type a b) = min_kind [kind a, kind b]"
  by (cases "kind a"; cases "kind b") (simp_all add: min_type_def min_kind_def)

lemma min_kind_snoc: "min_kind (ks @ [k]) = min_kind [min_kind ks, k]"
  by (cases k) (auto simp: min_kind_def split: list.splits dest!: arg_cong [where f = set])

lemma kind_sum_type:
  "kind a \<in> {ACCEPTED_T, PARTIAL_T, FAILED_T} \<Longrightarrow> kind (sum_type a b) = sum_kind [kind a, kind b]"
  by (cases "kind a"; cases "kind b") (simp_all add: sum_type_def sum_kind_def PARTIAL_def)

lemma sum_kind_snoc: "sum_kind (ks @ [k]) = sum_kind [sum_kind ks, k]"
  by (cases k) (auto simp: sum_kind_def)

lemma sum_kind_range: "sum_kind ks \<in> {ACCEPTED_T, PARTIAL_T, FAILED_T}"
  by (simp add: sum_kind_def)

lemma foldl_min_info:
  "foldl min_info (fresh_info 100) is = r \<Longrightarrow>
     kind (vtype r) = min_kind (map (kind \<circ> vtype) is) \<and>
     score r = Min (insert 100 (score ` set is)) \<and>
     time_used r = Max (insert 0 (time_used ` set is)) \<and>
     memory_used r = Max (insert 0 (memory_used ` set is)) \<and>
     real_time_used r = Max (insert 0 (real_time_used ` set is))"
proof (induction "is" arbitrary: r rule: rev_induct)
  case Nil
  then show ?case by (auto simp: fresh_info_def min_kind_def ACCEPTED_def)
next
  case (snoc i "is")
  define s where "s = foldl min_info (fresh_info 100) is"
  note IH = snoc.IH [OF s_def [symmetric]]
  have r: "r = min_info s i" using snoc.prems by (simp add: s_def)
  have M: "Min (insert (100::rat) (insert x (score ` set is))) = min (Min (insert 100 (score ` set is))) x" for x
    by (subst insert_commute) (simp add: min.commute)
  have X: "Max (insert (0::rat) (insert x (f ` set is))) = max (Max (insert 0 (f ` set is))) x"
    for x and f :: "verdict_info \<Rightarrow> rat"
    by (subst insert_commute) (simp add: max.commute)
  show ?case
    using IH by (simp add: r min_info_def kind_min_type min_kind_snoc M X)
qed

lemma foldl_sum_info:
  "foldl sum_info (fresh_info 0) is = r \<Longrightarrow>
     kind (vtype r) = sum_kind (map (kind \<circ> vtype) is) \<and> score r = sum_list (map score is)"
proof (induction "is" arbitrary: r rule: rev_induct)
  case Nil
  then show ?case by (auto simp: fresh_info_def sum_kind_def ACCEPTED_def)
next
  case (snoc i "is")
  define s where "s = foldl sum_info (fresh_info 0) is"
  note IH = snoc.IH [OF s_def [symmetric]]
  have r: "r = sum_info s i" using snoc.prems by (simp add: s_def)
  have "kind (sum_type (vtype s) (vtype i)) = sum_kind [kind (vtype s), kind (vtype i)]"
    by (rule kind_sum_type) (use IH sum_kind_range in simp)
  then show ?case
    using IH by (simp add: r sum_info_def sum_kind_snoc)
qed

text \<open>
  the minimum builder, cleared and given the verdicts of its children, ends with the minimum of
  100 and their scores, the maximum of their times and memory, any failure or else any wrong answer
  among their kinds or else the last kind that is not accepted, and one entry per child in the
  additional information.
\<close>

theorem min_builder_result:
  "let r = finalize (add_all (clear (VerdictBuilderMin n c)) vs) in
     vscore r = Min (insert 100 (vscore ` set vs))
     \<and> vkind r = min_kind (map vkind vs)
     \<and> time_used (info r) = Max (insert 0 ((time_used \<circ> info) ` set vs))
     \<and> memory_used (info r) = Max (insert 0 ((memory_used \<circ> info) ` set vs))
     \<and> map_of (additional_info r) = map_of (rev (map (\<lambda>v. (test_name v, toJson v 2)) vs))"
proof -
  from add_all_min [of n c vs] obtain d where
    d: "add_all (clear (VerdictBuilderMin n c)) vs = VerdictBuilderMin n d"
      "info d = foldl min_info (fresh_info 100) (map info vs)"
      "map_of (additional_info d) = map_of (rev (map (\<lambda>v. (test_name v, toJson v 2)) vs))" by blast
  from foldl_min_info [OF d(2) [symmetric]] show ?thesis
    using d(1,3) by (simp add: Let_def finalize_def image_comp comp_def)
qed

text \<open>
  the sum builder ends with the sum of the scores of the children, and is failed when a child
  failed, accepted when all were accepted, partial otherwise: it is never wrong or skipped, even when
  every child is.
\<close>

theorem sum_builder_result:
  "let r = finalize (add_all (clear (VerdictBuilderSum n c)) vs) in
     vscore r = sum_list (map vscore vs) \<and> vkind r = sum_kind (map vkind vs)
     \<and> map_of (additional_info r) = map_of (rev (map (\<lambda>v. (test_name v, toJson v 2)) vs))"
proof -
  from add_all_sum [of n c vs] obtain d where
    d: "add_all (clear (VerdictBuilderSum n c)) vs = VerdictBuilderSum n d"
      "info d = foldl sum_info (fresh_info 0) (map info vs)"
      "map_of (additional_info d) = map_of (rev (map (\<lambda>v. (test_name v, toJson v 2)) vs))" by blast
  from foldl_sum_info [OF d(2) [symmetric]] show ?thesis
    using d(1,3) by (simp add: Let_def finalize_def comp_def)
qed

section \<open>Stopping early\<close>

text \<open>
  The contract a testset relies on when it skips the children that follow: once the builder reports
  that the score cannot change, no acceptable verdict changes it.  \<open>pick_run\<close> is the verdicts' side of
  that loop: every child offers the verdict of running and the verdict of skipping it.
\<close>

fun pick_run :: "('b \<Rightarrow> 'v \<Rightarrow> 'b) \<Rightarrow> ('b \<Rightarrow> bool) \<Rightarrow> 'b \<Rightarrow> ('v \<times> 'v) list \<Rightarrow> 'b" where
  "pick_run add can b [] = b"
| "pick_run add can b ((rv, sv) # cs) = pick_run add can (add b (if can b then rv else sv)) cs"

locale early_stop =
  fixes add :: "'b \<Rightarrow> 'v \<Rightarrow> 'b"
    and can :: "'b \<Rightarrow> bool"
    and total :: "'b \<Rightarrow> 'x"
    and inv :: "'b \<Rightarrow> bool"
    and acceptable :: "'v \<Rightarrow> bool"
  assumes inv_add: "inv b \<Longrightarrow> acceptable v \<Longrightarrow> inv (add b v)"
    and stopped: "inv b \<Longrightarrow> acceptable v \<Longrightarrow> \<not> can b \<Longrightarrow> total (add b v) = total b \<and> \<not> can (add b v)"
begin

lemma total_stopped:
  "inv b \<Longrightarrow> \<forall>v\<in>set vs. acceptable v \<Longrightarrow> \<not> can b \<Longrightarrow> total (foldl add b vs) = total b"
  by (induction vs arbitrary: b) (simp_all add: inv_add stopped)

lemma pick_stopped:
  "inv b \<Longrightarrow> \<forall>(rv, sv)\<in>set cs. acceptable sv \<Longrightarrow> \<not> can b \<Longrightarrow>
     total (pick_run add can b cs) = total b"
proof (induction cs arbitrary: b)
  case Nil
  then show ?case by simp
next
  case (Cons c cs)
  obtain rv sv where c: "c = (rv, sv)" by (cases c)
  with Cons.prems have "inv (add b sv)" "total (add b sv) = total b" "\<not> can (add b sv)"
    using inv_add stopped by auto
  with Cons.IH [of "add b sv"] Cons.prems c show ?case by simp
qed

lemma pick_total:
  "inv b \<Longrightarrow> \<forall>(rv, sv)\<in>set cs. acceptable rv \<and> acceptable sv \<Longrightarrow>
     total (pick_run add can b cs) = total (foldl add b (map fst cs))"
proof (induction cs arbitrary: b)
  case Nil
  then show ?case by simp
next
  case (Cons c cs)
  obtain rv sv where c: "c = (rv, sv)" by (cases c)
  show ?case
  proof (cases "can b")
    case True
    with Cons.prems c have "inv (add b rv)" using inv_add by auto
    with Cons.IH [of "add b rv"] Cons.prems True c show ?thesis by simp
  next
    case False
    have "total (pick_run add can b (c # cs)) = total b"
      by (rule pick_stopped) (use Cons.prems False in auto)
    moreover have "total (foldl add b (map fst (c # cs))) = total b"
      by (rule total_stopped) (use Cons.prems False in auto)
    ultimately show ?thesis by simp
  qed
qed

end

definition min_ready :: "verdict_builder \<Rightarrow> bool" where
  "min_ready b \<longleftrightarrow> is_VerdictBuilderMin b \<and> 0 \<le> vscore (current_verdict b)"

lemma min_ready_iff: "min_ready b \<longleftrightarrow> (\<exists>n c. b = VerdictBuilderMin n c \<and> 0 \<le> vscore c)"
  by (cases b) (auto simp: min_ready_def)

interpretation min_stop:
  early_stop addVerdict canScoreChange "\<lambda>b. vscore (current_verdict b)" min_ready "\<lambda>v. 0 \<le> vscore v"
  by unfold_locales
     (auto simp del: addVerdict.simps simp add: min_ready_iff addVerdict_min min_info_def)

end
