(* ===== verification/Verdict_Utils.thy ===== *)
theory Verdict_Utils
  imports Verdicts
begin

text \<open>
  Reading a verdict from the sandbox's meta file and from the checker's output:
  \<open>modules/test_node/src/verdict_utils.cpp\<close>.  A file is the list of its lines; a file that cannot be
  opened has none.  Checker output without any line leaves the verdict's type uninitialised, which is
  the undefined behaviour of the model.
\<close>

record MetaInfo =
  status :: string
  meta_time :: "rat option"
  max_rss :: "int option"
  exit_code :: "int option"
  exit_signal :: "int option"

definition is_space_or_tab :: "char \<Rightarrow> bool" where
  "is_space_or_tab c \<longleftrightarrow> c = CHR '' '' \<or> c = CHR 0x09"

definition split_key :: "string \<Rightarrow> (string \<times> string) option" where
  "split_key line =
     (if line = [] then None
      else Some (takeWhile (\<lambda>c. c \<noteq> CHR '':'') line,
                 dropWhile is_space_or_tab (drop 1 (dropWhile (\<lambda>c. c \<noteq> CHR '':'') line))))"

definition meta_line :: "MetaInfo \<Rightarrow> string \<Rightarrow> MetaInfo result" where
  "meta_line m line =
     (case split_key line of
        None \<Rightarrow> Inr m
      | Some (key, v) \<Rightarrow>
          if key = ''status'' then Inr (m\<lparr>status := v\<rparr>)
          else if key = ''time'' then rbind (stod v) (\<lambda>x. Inr (m\<lparr>meta_time := Some x\<rparr>))
          else if key = ''max-rss'' then rbind (stoi v) (\<lambda>i. Inr (m\<lparr>max_rss := Some i\<rparr>))
          else if key = ''exitcode'' then rbind (stoi v) (\<lambda>i. Inr (m\<lparr>exit_code := Some i\<rparr>))
          else if key = ''exitsig'' then rbind (stoi v) (\<lambda>i. Inr (m\<lparr>exit_signal := Some i\<rparr>))
          else Inr m)"

fun meta_lines :: "MetaInfo \<Rightarrow> string list \<Rightarrow> MetaInfo result" where
  "meta_lines m [] = Inr m"
| "meta_lines m (l # ls) = rbind (meta_line m l) (\<lambda>m'. meta_lines m' ls)"

definition empty_meta :: MetaInfo where
  "empty_meta = \<lparr>status = [], meta_time = None, max_rss = None, exit_code = None, exit_signal = None\<rparr>"

definition parseMetaFile :: "string list \<Rightarrow> MetaInfo result" where
  "parseMetaFile lines =
     rbind (meta_lines empty_meta lines) (\<lambda>m. Inr (if status m = [] then m\<lparr>status := ''OK''\<rparr> else m))"

definition opt_value :: "'a option \<Rightarrow> 'a result" where
  "opt_value x = (case x of None \<Rightarrow> Inl BadOptionalAccess | Some v \<Rightarrow> Inr v)"

definition meta_verdict :: "string \<Rightarrow> MetaInfo \<Rightarrow> verdict_type \<Rightarrow> rat \<Rightarrow> verdict result" where
  "meta_verdict name m ty s =
     rbind (opt_value (meta_time m)) (\<lambda>t.
     rbind (opt_value (max_rss m)) (\<lambda>r.
       Inr (setInfo (make_verdict name)
              \<lparr>vtype = ty, score = s, time_used = t, memory_used = of_int r, real_time_used = 0\<rparr>)))"

definition loadVerdictFromMeta :: "string \<Rightarrow> string list \<Rightarrow> verdict result" where
  "loadVerdictFromMeta name meta_file =
     rbind (parseMetaFile meta_file) (\<lambda>m.
       if status m = ''OK'' then meta_verdict name m ACCEPTED 100
       else
         (let ty = (if status m = ''TO'' then TIME_LIMIT_EXCEEDED
                    else if status m = ''RE'' then RUNTIME_ERROR
                    else if status m = ''SG'' then MEMORY_LIMIT_EXCEEDED
                    else if status m = ''IL'' then IDLE_LIMIT_EXCEEDED
                    else SECURITY_VIOLATION)
          in meta_verdict name m ty 0))"

definition checker_line :: "string \<Rightarrow> verdict_type" where
  "checker_line line =
     (case line of
        [] \<Rightarrow> FAILED
      | c # _ \<Rightarrow>
          if c = CHR ''o'' then ACCEPTED
          else if c = CHR ''w'' then WRONG_ANSWER
          else if c = CHR ''p'' then PRESENTATION_ERROR
          else FAILED)"

fun checker_type :: "verdict_type option \<Rightarrow> string list \<Rightarrow> verdict_type option" where
  "checker_type ty [] = ty"
| "checker_type ty (l # ls) = checker_type (Some (checker_line l)) ls"

definition loadVerdictFromCheckerOutput :: "string \<Rightarrow> string list \<Rightarrow> string list \<Rightarrow> verdict result" where
  "loadVerdictFromCheckerOutput name meta_file checker_output =
     rbind (parseMetaFile meta_file) (\<lambda>m.
       if status m = ''OK'' then
         (case checker_type None checker_output of
            None \<Rightarrow> Inl UndefinedBehaviour
          | Some ty \<Rightarrow> meta_verdict name m ty (if short_name ty = ''AC'' then 100 else 0))
       else loadVerdictFromMeta name meta_file)"

section \<open>Properties\<close>

lemma checker_type_last: "checker_type ty ls = (if ls = [] then ty else Some (checker_line (last ls)))"
  by (induction ls arbitrary: ty) auto

lemma meta_verdict_Inr:
  "meta_verdict name m ty s = Inr v \<longleftrightarrow>
     (\<exists>t r. meta_time m = Some t \<and> max_rss m = Some r \<and>
        v = setInfo (make_verdict name)
              \<lparr>vtype = ty, score = s, time_used = t, memory_used = of_int r, real_time_used = 0\<rparr>)"
  by (auto simp: meta_verdict_def opt_value_def rbind_eq_Inr split: option.splits)

lemma meta_lines_status:
  "meta_lines m ls = Inr m' \<Longrightarrow>
     status m' = (case rev (filter (\<lambda>p. fst p = ''status'') (List.map_filter split_key ls)) of
                    [] \<Rightarrow> status m | p # _ \<Rightarrow> snd p)"
proof (induction ls arbitrary: m)
  case Nil
  then show ?case by (simp add: List.map_filter_simps)
next
  case (Cons l ls)
  then obtain m1 where m1: "meta_line m l = Inr m1" "meta_lines m1 ls = Inr m'"
    by (auto simp: rbind_eq_Inr)
  have s1: "status m1 = (case split_key l of Some (k, v) \<Rightarrow> if k = ''status'' then v else status m | None \<Rightarrow> status m)"
    using m1(1) by (auto simp: meta_line_def rbind_eq_Inr split: option.splits prod.splits if_splits)
  show ?case
    using Cons.IH [OF m1(2)] s1
    by (auto simp: List.map_filter_simps split: option.splits list.splits prod.splits)
qed

lemma parsed_status:
  assumes "parseMetaFile meta = Inr m"
  shows "status m = (case rev (filter (\<lambda>p. fst p = ''status'') (List.map_filter split_key meta)) of
     [] \<Rightarrow> ''OK'' | p # _ \<Rightarrow> if snd p = [] then ''OK'' else snd p)"
proof -
  from assms obtain m1 where m1: "meta_lines empty_meta meta = Inr m1" "m = (if status m1 = [] then m1\<lparr>status := ''OK''\<rparr> else m1)"
    by (auto simp: parseMetaFile_def rbind_eq_Inr)
  from meta_lines_status [OF m1(1)] m1(2) show ?thesis by (auto simp: empty_meta_def split: list.splits)
qed

text \<open>
  C38: what a run's verdict is.  The sandbox comes first: its status is the last one in the meta file, \<open>OK\<close> when there
  is none.  With any other status the verdict is the one the table gives, with no points, whatever
  the checker wrote.  With \<open>OK\<close> the last line of the checker decides, which must have written one:
  accepted with 100 points when it starts with o, wrong answer or presentation error on w and p,
  failed otherwise.  Time and memory come from the meta file.
\<close>

theorem checker_verdict:
  assumes "parseMetaFile meta = Inr m" and "meta_time m = Some t" and "max_rss m = Some r"
    and "status m = ''OK'' \<longrightarrow> out \<noteq> []"
  shows "status m = (case rev (filter (\<lambda>p. fst p = ''status'') (List.map_filter split_key meta)) of
       [] \<Rightarrow> ''OK'' | p # _ \<Rightarrow> if snd p = [] then ''OK'' else snd p)
    \<and> (\<exists>v. loadVerdictFromCheckerOutput name meta out = Inr v \<and> test_name v = name
      \<and> info v = \<lparr>vtype =
          (if status m = ''OK''
           then ((\<lambda>_. FAILED)(''o'' := ACCEPTED, ''w'' := WRONG_ANSWER, ''p'' := PRESENTATION_ERROR)) (take 1 (last out))
           else ((\<lambda>_. SECURITY_VIOLATION)(''TO'' := TIME_LIMIT_EXCEEDED, ''RE'' := RUNTIME_ERROR,
                  ''SG'' := MEMORY_LIMIT_EXCEEDED, ''IL'' := IDLE_LIMIT_EXCEEDED)) (status m)),
         score = (if status m = ''OK'' \<and> take 1 (last out) = ''o'' then 100 else 0),
         time_used = t, memory_used = of_int r, real_time_used = 0\<rparr>)"
proof
  show "\<exists>v. loadVerdictFromCheckerOutput name meta out = Inr v \<and> test_name v = name
      \<and> info v = \<lparr>vtype =
          (if status m = ''OK''
           then ((\<lambda>_. FAILED)(''o'' := ACCEPTED, ''w'' := WRONG_ANSWER, ''p'' := PRESENTATION_ERROR)) (take 1 (last out))
           else ((\<lambda>_. SECURITY_VIOLATION)(''TO'' := TIME_LIMIT_EXCEEDED, ''RE'' := RUNTIME_ERROR,
                  ''SG'' := MEMORY_LIMIT_EXCEEDED, ''IL'' := IDLE_LIMIT_EXCEEDED)) (status m)),
         score = (if status m = ''OK'' \<and> take 1 (last out) = ''o'' then 100 else 0),
         time_used = t, memory_used = of_int r, real_time_used = 0\<rparr>"
  proof (cases "status m = ''OK''")
    case True
    have line: "checker_line l = ((\<lambda>_. FAILED)(''o'' := ACCEPTED, ''w'' := WRONG_ANSWER, ''p'' := PRESENTATION_ERROR)) (take 1 l)"
      "short_name (checker_line l) = ''AC'' \<longleftrightarrow> take 1 l = ''o''" for l
      by (simp_all add: checker_line_def verdict_constants split: list.split)
    from True assms show ?thesis
      by (simp add: loadVerdictFromCheckerOutput_def checker_type_last meta_verdict_def opt_value_def
          setInfo_def make_verdict_def line(2) del: take_Suc fun_upd_apply) (simp only: line(1) One_nat_def)
  next
    case False
    with assms(1-3) show ?thesis
      by (simp add: loadVerdictFromCheckerOutput_def loadVerdictFromMeta_def Let_def meta_verdict_def opt_value_def
          setInfo_def make_verdict_def)
  qed
qed (rule parsed_status [OF assms(1)])

lemma sample_meta_parsed:
  "parseMetaFile [''time:0.5'', ''max-rss:1024''] =
     Inr \<lparr>status = ''OK'', meta_time = Some (1 / 2), max_rss = Some 1024, exit_code = None, exit_signal = None\<rparr>"
  by (simp add: parseMetaFile_def meta_line_def split_key_def empty_meta_def is_space_or_tab_def
      stod_def stoi_def is_blank_def digit_of_def read_exponent_def ten_to_def)

lemma sample_error_meta:
  "parseMetaFile [''time:0.5'', ''status:RE'', ''max-rss:1024''] =
     Inr \<lparr>status = ''RE'', meta_time = Some (1 / 2), max_rss = Some 1024, exit_code = None, exit_signal = None\<rparr>"
  by (simp add: parseMetaFile_def meta_line_def split_key_def empty_meta_def is_space_or_tab_def
      stod_def stoi_def is_blank_def digit_of_def read_exponent_def ten_to_def)

text \<open>A run the checker is content with is accepted; the same output after a runtime error is not.\<close>

theorem checker_verdict_witness:
  "(\<exists>v. loadVerdictFromCheckerOutput ''t'' [''time:0.5'', ''max-rss:1024''] [''x'', ''ok''] = Inr v
      \<and> vtype (info v) = ACCEPTED \<and> score (info v) = 100)
   \<and> (\<exists>v. loadVerdictFromCheckerOutput ''t'' [''time:0.5'', ''status:RE'', ''max-rss:1024''] [''x'', ''ok''] = Inr v
      \<and> vtype (info v) = RUNTIME_ERROR \<and> score (info v) = 0)"
proof
  show "\<exists>v. loadVerdictFromCheckerOutput ''t'' [''time:0.5'', ''max-rss:1024''] [''x'', ''ok''] = Inr v
      \<and> vtype (info v) = ACCEPTED \<and> score (info v) = 100"
    using conjunct2 [OF checker_verdict [OF sample_meta_parsed, of "1 / 2" 1024 "[''x'', ''ok'']" "''t''"]] by auto
  show "\<exists>v. loadVerdictFromCheckerOutput ''t'' [''time:0.5'', ''status:RE'', ''max-rss:1024''] [''x'', ''ok''] = Inr v
      \<and> vtype (info v) = RUNTIME_ERROR \<and> score (info v) = 0"
    using conjunct2 [OF checker_verdict [OF sample_error_meta, of "1 / 2" 1024 "[''x'', ''ok'']" "''t''"]] by auto
qed

text \<open>
  a meta file without a time or without a memory figure gives no verdict: whatever the status,
  reading it ends in \<open>std::bad_optional_access\<close>, or in the error of the number that does not parse, or,
  with an empty checker output, in undefined behaviour; a verdict that is returned scores 0 or 100.
\<close>

theorem loadVerdict_requires_usage:
  "case loadVerdictFromCheckerOutput name meta out of
     Inl e \<Rightarrow> parseMetaFile meta = Inl e
        \<or> (\<exists>m. parseMetaFile meta = Inr m \<and>
             ((e = BadOptionalAccess \<and> (meta_time m = None \<or> max_rss m = None))
              \<or> (e = UndefinedBehaviour \<and> status m = ''OK'' \<and> out = [])))
   | Inr v \<Rightarrow> score (info v) \<in> {0, 100}
        \<and> (\<exists>m. parseMetaFile meta = Inr m \<and> meta_time m = Some (time_used (info v)) \<and> max_rss m \<noteq> None)"
proof (cases "parseMetaFile meta")
  case (Inl e)
  then show ?thesis by (simp add: loadVerdictFromCheckerOutput_def)
next
  case (Inr m)
  have mv: "case meta_verdict name m ty s of
      Inl e \<Rightarrow> e = BadOptionalAccess \<and> (meta_time m = None \<or> max_rss m = None)
    | Inr v \<Rightarrow> score (info v) = s \<and> meta_time m = Some (time_used (info v)) \<and> max_rss m \<noteq> None" for ty s
    by (cases "meta_time m"; cases "max_rss m")
       (simp_all add: meta_verdict_def opt_value_def setInfo_def)
  show ?thesis
  proof (cases "status m = ''OK''")
    case True
    show ?thesis
    proof (cases "out = []")
      case True
      with Inr \<open>status m = ''OK''\<close> show ?thesis by (simp add: loadVerdictFromCheckerOutput_def)
    next
      case False
      obtain ty s where "loadVerdictFromCheckerOutput name meta out = meta_verdict name m ty s"
        and "s \<in> {0, 100}"
        using Inr True False by (simp add: loadVerdictFromCheckerOutput_def checker_type_last)
      with mv [where ty = ty and s = s] Inr show ?thesis by (auto split: sum.splits)
    qed
  next
    case False
    obtain ty where "loadVerdictFromCheckerOutput name meta out = meta_verdict name m ty 0"
      using Inr False by (simp add: loadVerdictFromCheckerOutput_def loadVerdictFromMeta_def Let_def)
    with mv [where ty = ty and s = 0] Inr show ?thesis by (simp split: sum.splits)
  qed
qed

end
