(* ===== verification/Test_Tree.thy ===== *)
theory Test_Tree
  imports Problem_Config Verdict_Utils
begin

text \<open>
  The tests of a problem and how they run:
  \<open>modules/test_node/src/tests/{single_test,testset,compilation_test,sync_result_test}.cpp\<close>,
  \<open>problem_builders/{default_problem_builder,enable_get_test_by_name_impl}.cpp\<close>.

  The class hierarchy is a datatype.  Running a test is an effect on a world: the shell commands
  (\<open>std::system\<close>), the files and the database are operations of an environment record.  A builder
  object belongs to one testset, which clears it before every use, so a testset carries the value it
  was created with.  Indexing \<open>boxes\<close> out of range is undefined behaviour.
\<close>

section \<open>Tests and their environment\<close>

datatype test =
    SingleTest string string string
  | Testset string rat rat rat verdict_builder "test list"
  | CompilationTest string string test
  | SyncResultTest string string test

fun getName :: "test \<Rightarrow> string" where
  "getName (SingleTest name i a) = name"
| "getName (Testset name tlim mlim rlim b ts) = name"
| "getName (CompilationTest name p t) = name"
| "getName (SyncResultTest name p t) = name"

record 'w env =
  env_config :: json
  env_system :: "string \<Rightarrow> 'w \<Rightarrow> int \<times> 'w"
  env_lines :: "string \<Rightarrow> 'w \<Rightarrow> string list"
  env_write :: "string \<Rightarrow> string \<Rightarrow> 'w \<Rightarrow> 'w"
  env_language :: "string \<Rightarrow> ('w, string option) io"
  env_setScore :: "string \<Rightarrow> rat \<Rightarrow> ('w, bool) io"
  env_setVerdictType :: "string \<Rightarrow> string \<Rightarrow> ('w, bool) io"
  env_dump :: "json \<Rightarrow> string"

fun boxesRequired :: "test \<Rightarrow> nat" where
  "boxesRequired (SingleTest name i a) = 2"
| "boxesRequired (Testset name tlim mlim rlim b ts) = fold max (map boxesRequired ts) 0"
| "boxesRequired (CompilationTest name p t) = boxesRequired t"
| "boxesRequired (SyncResultTest name p t) = boxesRequired t"

definition skipped_verdict :: "string \<Rightarrow> verdict" where
  "skipped_verdict name =
     setInfo (make_verdict name)
       \<lparr>vtype = SKIPPED, score = 0, time_used = 0, memory_used = 0, real_time_used = 0\<rparr>"

fun skip_test :: "test \<Rightarrow> verdict" where
  "skip_test (SingleTest name i a) = skipped_verdict name"
| "skip_test (Testset name tlim mlim rlim b ts) = finalize (add_all (clear b) (map skip_test ts))"
| "skip_test (CompilationTest name p t) = skip_test t"
| "skip_test (SyncResultTest name p t) = skip_test t"

section \<open>Running\<close>

definition required_directory :: "'w env \<Rightarrow> string \<Rightarrow> ('w, string) io" where
  "required_directory env key = io_lift (rbind (getDirectoryPath (env_config env) key) required)"

definition required_log_file :: "'w env \<Rightarrow> string \<Rightarrow> ('w, string) io" where
  "required_log_file env key = io_lift (rbind (getTestingLogFilePath (env_config env) key) required)"

definition box :: "string list \<Rightarrow> nat \<Rightarrow> string result" where
  "box boxes i = (if i < length boxes then Inr (boxes ! i) else Inl UndefinedBehaviour)"

definition single_run ::
    "'w env \<Rightarrow> string list \<Rightarrow> json \<Rightarrow> string \<Rightarrow> string \<Rightarrow> string \<Rightarrow> ('w, verdict) io" where
  "single_run env boxes additional_params name input_path answer_path =
     io_bind (required_directory env ''scripts'') (\<lambda>scripts_path.
     io_bind (io_lift (box boxes 0)) (\<lambda>box_id_to_run.
     io_bind (io_lift (box boxes 1)) (\<lambda>box_id_to_check.
     io_bind (io_lift (rbind (jat additional_params ''time_limit'') get_double)) (\<lambda>time_limit.
     io_bind (io_lift (rbind (jat additional_params ''memory_limit'') get_double)) (\<lambda>memory_limit.
     io_bind (io_lift (rbind (jat additional_params ''real_time_limit'') get_double)) (\<lambda>real_time_limit.
     io_bind (io_run (env_system env
       (path_append scripts_path ''run_in_isolate.sh'' @ '' '' @ double_to_string time_limit @ '' '' @
        int_to_string (truncate_rat memory_limit) @ '' '' @ double_to_string real_time_limit @ '' '' @
        input_path @ '' '' @ box_id_to_run))) (\<lambda>rc.
     if rc \<noteq> 0 then
       io_bind (required_log_file env ''meta_file'') (\<lambda>meta.
       io_bind (io_get (env_lines env meta)) (\<lambda>lines.
         io_lift (loadVerdictFromMeta name lines)))
     else
       io_bind (io_run (env_system env
         (path_append scripts_path ''check.sh'' @ '' '' @ answer_path @ '' '' @ box_id_to_run @ '' '' @
          box_id_to_check))) (\<lambda>_.
       io_bind (required_log_file env ''meta_file'') (\<lambda>meta.
       io_bind (required_log_file env ''checker_err_file'') (\<lambda>err.
       io_bind (io_get (env_lines env meta)) (\<lambda>lines.
       io_bind (io_get (env_lines env err)) (\<lambda>out.
         io_lift (loadVerdictFromCheckerOutput name lines out)))))))))))))"

fun testset_loop ::
    "('t \<Rightarrow> ('w, verdict) io) \<Rightarrow> ('t \<Rightarrow> verdict) \<Rightarrow> verdict_builder \<Rightarrow> 't list \<Rightarrow> ('w, verdict_builder) io" where
  "testset_loop run skip b [] w = (Inr b, w)"
| "testset_loop run skip b (t # ts) w =
     io_bind (if \<not> canScoreChange b then io_return (skip t) else run t)
       (\<lambda>v. testset_loop run skip (addVerdict b v) ts) w"

lemma testset_loop_cong [fundef_cong]:
  assumes "ts = ts'" and "w = w'" and "b = b'" and "skip = skip'"
    and "\<And>t v. t \<in> set ts' \<Longrightarrow> run t v = run' t v"
  shows "testset_loop run skip b ts w = testset_loop run' skip' b' ts' w'"
proof -
  have "\<forall>t\<in>set us. \<forall>v. run t v = run' t v \<Longrightarrow> testset_loop run skip c us v = testset_loop run' skip c us v"
    for us c v
  proof (induction us arbitrary: c v)
    case Nil
    then show ?case by simp
  next
    case (Cons t us)
    then have "run t = run' t" by auto
    with Cons show ?case by (simp add: io_bind_def split: prod.splits sum.splits)
  qed
  with assms show ?thesis by blast
qed

definition limits_params :: "json \<Rightarrow> rat \<Rightarrow> rat \<Rightarrow> rat \<Rightarrow> json result" where
  "limits_params params tlim mlim rlim =
     rbind (jput params ''time_limit'' (JFloat tlim)) (\<lambda>p.
     rbind (jput p ''memory_limit'' (JFloat mlim)) (\<lambda>p.
       jput p ''real_time_limit'' (JFloat rlim)))"

definition failed_run :: "string \<Rightarrow> verdict_type \<Rightarrow> verdict" where
  "failed_run name ty =
     setInfo (make_verdict name)
       \<lparr>vtype = ty, score = 0, time_used = 0, memory_used = 0, real_time_used = 0\<rparr>"

text \<open>The shell commands of a compilation test.\<close>

definition prepare_command :: "string \<Rightarrow> string \<Rightarrow> string \<Rightarrow> string \<Rightarrow> string" where
  "prepare_command scripts_dir box0 box1 problem_id =
     path_append scripts_dir ''prepare_for_testing.sh'' @ '' '' @ box0 @ '' '' @ box1 @ '' '' @ problem_id"

definition compile_command :: "string \<Rightarrow> string \<Rightarrow> string \<Rightarrow> string \<Rightarrow> string \<Rightarrow> string" where
  "compile_command scripts_dir submissions_dir lang box0 submission_id =
     path_append (path_append scripts_dir ''compilation'') (lang @ ''.sh'') @ '' '' @
     path_append (path_append ''/var/local/lib/isolate'' box0) ''box/solution'' @ '' '' @
     path_append (path_append submissions_dir submission_id) ''compilation_error.txt'' @ '' '' @
     path_append (path_append submissions_dir submission_id) ''source.cpp''"

definition copy_checker_command :: "string \<Rightarrow> string \<Rightarrow> string \<Rightarrow> string" where
  "copy_checker_command problems_dir problem_id box1 =
     ''cp '' @ path_append (path_append problems_dir problem_id) ''checker'' @ '' '' @
     path_append (path_append ''/var/local/lib/isolate'' box1) ''box/checker''"

definition clear_command :: "string \<Rightarrow> string \<Rightarrow> string \<Rightarrow> string" where
  "clear_command scripts_dir box0 box1 =
     path_append scripts_dir ''end_testing.sh'' @ '' '' @ box0 @ '' '' @ box1"

definition compilation_run ::
    "'w env \<Rightarrow> string \<Rightarrow> string list \<Rightarrow> string \<Rightarrow> string \<Rightarrow> ('w, verdict) io \<Rightarrow> ('w, verdict) io" where
  "compilation_run env submission_id boxes name problem_id run_child =
     io_bind (required_directory env ''scripts'') (\<lambda>scripts_dir.
     io_bind (required_directory env ''submissions'') (\<lambda>submissions_dir.
     io_bind (required_directory env ''problems'') (\<lambda>problems_dir.
     io_bind (env_language env submission_id) (\<lambda>language.
     case language of
       None \<Rightarrow> io_lift (Inl (RuntimeError (''Submission not found: '' @ submission_id)))
     | Some lang \<Rightarrow>
         io_bind (io_lift (box boxes 0)) (\<lambda>box0.
         io_bind (io_lift (box boxes 1)) (\<lambda>box1.
         io_bind (io_run (env_system env (prepare_command scripts_dir box0 box1 problem_id))) (\<lambda>rc_prepare.
         if rc_prepare \<noteq> 0 then io_return (failed_run name FAILED)
         else
           io_bind (io_run (env_system env
             (compile_command scripts_dir submissions_dir lang box0 submission_id))) (\<lambda>rc_compilation.
           if rc_compilation \<noteq> 0 then io_return (failed_run name COMPILATION_ERROR)
           else
             io_bind (io_run (env_system env (copy_checker_command problems_dir problem_id box1))) (\<lambda>rc_copy_checker.
             if rc_copy_checker \<noteq> 0 then io_return (failed_run name FAILED)
             else
               io_bind run_child (\<lambda>result.
               io_bind (io_run (env_system env (clear_command scripts_dir box0 box1))) (\<lambda>rc_clear.
               if rc_clear \<noteq> 0 then io_return (failed_run name FAILED)
               else io_return result)))))))))))"

definition sync_result_run ::
    "'w env \<Rightarrow> string \<Rightarrow> ('w, verdict) io \<Rightarrow> ('w, verdict) io" where
  "sync_result_run env submission_id run_child =
     io_bind run_child (\<lambda>v.
     io_bind (required_directory env ''submissions'') (\<lambda>submissions_dir.
     io_bind (io_do (env_write env (path_append (path_append submissions_dir submission_id) ''protocol.json'')
                       (env_dump env (toJson v 2)))) (\<lambda>_.
     io_bind (env_setScore env submission_id (vscore v)) (\<lambda>_.
     io_bind (env_setVerdictType env submission_id (short_name (vtype (info v)))) (\<lambda>_.
       io_return v)))))"

definition enough_boxes :: "nat \<Rightarrow> string list \<Rightarrow> unit result" where
  "enough_boxes n boxes =
     (if length boxes < n then Inl (RuntimeError ''Not enough boxes provided'') else Inr ())"

fun run_test :: "'w env \<Rightarrow> string \<Rightarrow> string list \<Rightarrow> json \<Rightarrow> test \<Rightarrow> ('w, verdict) io" where
  "run_test env sub boxes params (SingleTest name i a) w = single_run env boxes params name i a w"
| "run_test env sub boxes params (Testset name tlim mlim rlim b ts) w =
     io_bind (io_lift (enough_boxes (boxesRequired (Testset name tlim mlim rlim b ts)) boxes)) (\<lambda>_.
     io_bind (io_lift (limits_params params tlim mlim rlim)) (\<lambda>params'.
     io_bind (testset_loop (run_test env sub boxes params') skip_test (clear b) ts) (\<lambda>b'.
       io_return (finalize b')))) w"
| "run_test env sub boxes params (CompilationTest name p t) w =
     io_bind (io_lift (enough_boxes (boxesRequired (CompilationTest name p t)) boxes)) (\<lambda>_.
       compilation_run env sub boxes name p (run_test env sub boxes params t)) w"
| "run_test env sub boxes params (SyncResultTest name p t) w =
     io_bind (io_lift (enough_boxes (boxesRequired (SyncResultTest name p t)) boxes)) (\<lambda>_.
       sync_result_run env sub (run_test env sub boxes params t)) w"

section \<open>Building the tests of a problem\<close>

type_synonym test_table = "string \<rightharpoonup> test"

text \<open>
  The number of a single test.  The constructor reads \<open>name\<close> after moving it into the member, so the
  text it parses is whatever the move leaves behind: the parameter \<open>moved_from\<close>.
\<close>

definition single_test_number :: "(string \<Rightarrow> string) \<Rightarrow> string \<Rightarrow> int" where
  "single_test_number moved_from name =
     (case stoi (moved_from name) of
        Inl e \<Rightarrow> 1
      | Inr n \<Rightarrow> if n < 0 then 1 else n)"

definition make_single :: "(string \<Rightarrow> string) \<Rightarrow> json \<Rightarrow> string \<Rightarrow> string \<Rightarrow> test result" where
  "make_single moved_from config problem_id name =
     (let number = format_02 (single_test_number moved_from name) in
      rbind (rbind (getDirectoryPath config ''problems'') required) (\<lambda>problems_dir.
        let tests_dir = path_append (path_append problems_dir problem_id) ''tests''
        in Inr (SingleTest name (path_append tests_dir number) (path_append tests_dir (number @ ''.a'')))))"

fun find_tests :: "test_table \<Rightarrow> string list \<Rightarrow> test list result" where
  "find_tests tests [] = Inr []"
| "find_tests tests (n # ns) =
     (case tests n of
        None \<Rightarrow> Inl (RuntimeError (''Test not found: '' @ n))
      | Some t \<Rightarrow> rbind (find_tests tests ns) (\<lambda>ts. Inr (t # ts)))"

definition make_testset :: "json \<Rightarrow> xml_loader \<Rightarrow> test_table \<Rightarrow> string \<Rightarrow> string \<Rightarrow> test result" where
  "make_testset config load_file tests problem_id name =
     rbind (getTestConfig config load_file problem_id name) (\<lambda>testset_config.
       let time_limit = text_double (Option.bind testset_config (\<lambda>n. child (Some n) ''time_limit'')) 0 / 1000;
           memory_limit = text_double (Option.bind testset_config (\<lambda>n. child (Some n) ''memory_limit'')) 0 / 1024;
           real_time_limit =
             text_double (Option.bind testset_config (\<lambda>n. child (Some n) ''real_time_limit'')) (max 5 (2 * time_limit));
           builder_type = attribute_string (Option.bind testset_config (\<lambda>n. child (Some n) ''verdict_builder'')) ''type''
       in rbind (create_parameterized verdict_builder_factory builder_type name) (\<lambda>builder.
          rbind (find_tests tests (map (\<lambda>t. attribute_string (Some t) ''name'') (children testset_config ''test''))) (\<lambda>ts.
            Inr (Testset name time_limit memory_limit real_time_limit builder ts))))"

text \<open>The single child of a compilation or result test.\<close>

definition child_test :: "json \<Rightarrow> xml_loader \<Rightarrow> test_table \<Rightarrow> string \<Rightarrow> string \<Rightarrow> test result" where
  "child_test config load_file tests problem_id name =
     rbind (getTestConfig config load_file problem_id name) (\<lambda>testset_config.
       let test_name = attribute_string (Option.bind testset_config (\<lambda>n. child (Some n) ''test'')) ''name'' in
       case tests test_name of
         None \<Rightarrow> Inl (RuntimeError (''Test not found: '' @ test_name))
       | Some t \<Rightarrow> Inr t)"

definition make_compilation :: "json \<Rightarrow> xml_loader \<Rightarrow> test_table \<Rightarrow> string \<Rightarrow> string \<Rightarrow> test result" where
  "make_compilation config load_file tests problem_id name =
     rbind (child_test config load_file tests problem_id name) (\<lambda>t. Inr (CompilationTest name problem_id t))"

definition make_sync_result :: "json \<Rightarrow> xml_loader \<Rightarrow> test_table \<Rightarrow> string \<Rightarrow> string \<Rightarrow> test result" where
  "make_sync_result config load_file tests problem_id name =
     rbind (child_test config load_file tests problem_id name) (\<lambda>t. Inr (SyncResultTest name problem_id t))"

text \<open>The test types a plugin registers, in the order of \<open>registerTypes\<close>.\<close>

definition test_factory ::
    "(string \<Rightarrow> string) \<Rightarrow> json \<Rightarrow> xml_loader \<Rightarrow> (test_table \<times> string \<times> string \<Rightarrow> test result) factory" where
  "test_factory moved_from config load_file =
     registerType
       (registerType
         (registerType
           (registerType Map.empty
             ''compilation'' (\<lambda>(tests, p, n). make_compilation config load_file tests p n))
           ''single'' (\<lambda>(tests, p, n). make_single moved_from config p n))
         ''sync_result'' (\<lambda>(tests, p, n). make_sync_result config load_file tests p n))
       ''testset'' (\<lambda>(tests, p, n). make_testset config load_file tests p n)"

definition addTest :: "test_table \<Rightarrow> test \<Rightarrow> test_table" where
  "addTest tests t = tests(getName t \<mapsto> t)"

fun build_tests ::
    "(string \<Rightarrow> string) \<Rightarrow> json \<Rightarrow> xml_loader \<Rightarrow> string \<Rightarrow> test_table \<Rightarrow> string list \<Rightarrow> test_table result" where
  "build_tests moved_from config load_file problem_id tests [] = Inr tests"
| "build_tests moved_from config load_file problem_id tests (n # ns) =
     rbind (getTestConfig config load_file problem_id n) (\<lambda>test_config.
     rbind (create (test_factory moved_from config load_file) (attribute_string test_config ''type'') (tests, problem_id, n)) (\<lambda>t.
       build_tests moved_from config load_file problem_id (addTest tests t) ns))"

definition build :: "(string \<Rightarrow> string) \<Rightarrow> json \<Rightarrow> xml_loader \<Rightarrow> string \<Rightarrow> test option result" where
  "build moved_from config load_file problem_id =
     rbind (getAllTestNames config load_file problem_id) (\<lambda>names.
     rbind (build_tests moved_from config load_file problem_id Map.empty (or_default [] names)) (\<lambda>tests.
       Inr (tests ''main'')))"

section \<open>Testsets\<close>

lemma testset_loop_pick:
  assumes "\<forall>t\<in>set ts. \<forall>w. \<exists>w'. run t w = (Inr (f t), w')"
  shows "\<exists>w'. testset_loop run skip b ts w =
    (Inr (pick_run addVerdict canScoreChange b (map (\<lambda>t. (f t, skip t)) ts)), w')"
  using assms
proof (induction ts arbitrary: b w)
  case Nil
  then show ?case by simp
next
  case (Cons t ts)
  then have IH: "\<exists>w'. testset_loop run skip c ts v =
      (Inr (pick_run addVerdict canScoreChange c (map (\<lambda>t. (f t, skip t)) ts)), w')" for c v by simp
  from Cons.prems obtain w1 where "run t w = (Inr (f t), w1)" by force
  with IH show ?case by (cases "canScoreChange b") (simp_all add: io_simps)
qed

lemma add_all_foldl: "add_all b vs = foldl addVerdict b vs"
  by (simp add: add_all_def)

lemma min_clear_ready: "min_ready (clear (VerdictBuilderMin n c))"
  by (simp add: min_ready_def builder_simps)

lemma add_all_min_score:
  "vscore (finalize (add_all (clear (VerdictBuilderMin n c)) vs)) = Min (insert 100 (vscore ` set vs))"
proof -
  from add_all_min [of n c vs] obtain d where
    d: "add_all (clear (VerdictBuilderMin n c)) vs = VerdictBuilderMin n d"
      "info d = foldl min_info (fresh_info 100) (map info vs)" by blast
  from foldl_min_info [OF d(2) [symmetric]] show ?thesis
    using d(1) by (simp add: finalize_def image_comp comp_def)
qed

text \<open>
  The children a testset with the minimum builder runs, when \<open>f\<close> gives the verdict of each: those before
  the first with score zero, and that one.
\<close>

abbreviation min_ran :: "('t \<Rightarrow> verdict) \<Rightarrow> 't list \<Rightarrow> 't list" where
  "min_ran f ts \<equiv> takeWhile (\<lambda>t. vscore (f t) \<noteq> 0) ts @ take 1 (dropWhile (\<lambda>t. vscore (f t) \<noteq> 0) ts)"

lemma testset_loop_stopped:
  assumes "min_ready b" and "\<not> canScoreChange b" and "\<forall>t\<in>set ts. 0 \<le> vscore (skip t)"
  shows "testset_loop run skip b ts w = (Inr (add_all b (map skip ts)), w)"
  using assms
proof (induction ts arbitrary: b)
  case Nil
  then show ?case by (simp add: add_all_foldl)
next
  case (Cons t ts)
  from Cons.prems have "min_ready (addVerdict b (skip t))" by (simp add: min_stop.inv_add)
  moreover from Cons.prems have "\<not> canScoreChange (addVerdict b (skip t))" using min_stop.stopped by simp
  ultimately show ?case using Cons by (simp add: add_all_foldl io_simps)
qed

lemma canScoreChange_add:
  assumes "min_ready b" and "canScoreChange b" and "0 \<le> vscore v"
  shows "canScoreChange (addVerdict b v) \<longleftrightarrow> vscore v \<noteq> 0"
  using assms by (auto simp del: addVerdict.simps simp add: min_ready_iff addVerdict_min min_info_def min_def)

lemma testset_loop_min:
  assumes "min_ready b" and "canScoreChange b"
    and "\<forall>t\<in>set ts. \<forall>w. \<exists>w'. run t w = (Inr (f t), w')"
    and "\<forall>t\<in>set ts. 0 \<le> vscore (f t) \<and> 0 \<le> vscore (skip t)"
  shows "testset_loop run skip b ts w =
    (Inr (add_all b (map f (min_ran f ts) @ map skip (drop (length (min_ran f ts)) ts))),
     fold (\<lambda>t w. snd (run t w)) (min_ran f ts) w)"
  using assms
proof (induction ts arbitrary: b w)
  case Nil
  then show ?case by (simp add: add_all_foldl)
next
  case (Cons t ts)
  from Cons.prems(3) obtain w1 where w1: "run t w = (Inr (f t), w1)" by force
  from Cons.prems have ready: "min_ready (addVerdict b (f t))" by (simp add: min_stop.inv_add)
  have can: "canScoreChange (addVerdict b (f t)) \<longleftrightarrow> vscore (f t) \<noteq> 0"
    by (rule canScoreChange_add) (use Cons.prems in simp_all)
  from Cons.prems(2) w1 have step: "testset_loop run skip b (t # ts) w = testset_loop run skip (addVerdict b (f t)) ts w1"
    by (simp add: io_simps)
  show ?case
  proof (cases "vscore (f t) = 0")
    case True
    then have ran: "min_ran f (t # ts) = [t]" by simp
    from True ready can Cons.prems(4)
    have "testset_loop run skip (addVerdict b (f t)) ts w1 = (Inr (add_all (addVerdict b (f t)) (map skip ts)), w1)"
      by (intro testset_loop_stopped) simp_all
    with step w1 show ?thesis unfolding ran by (simp add: add_all_foldl)
  next
    case False
    then have ran: "min_ran f (t # ts) = t # min_ran f ts" by simp
    have "testset_loop run skip (addVerdict b (f t)) ts w1 =
      (Inr (add_all (addVerdict b (f t)) (map f (min_ran f ts) @ map skip (drop (length (min_ran f ts)) ts))),
       fold (\<lambda>t w. snd (run t w)) (min_ran f ts) w1)"
      by (rule Cons.IH) (use Cons.prems False ready can in simp_all)
    with step w1 show ?thesis unfolding ran
      by (simp only: add_all_foldl list.map append_Cons length_Cons drop_Suc_Cons foldl.simps fold_simps snd_conv)
  qed
qed

text \<open>
  C4: skipping after a zero score is sound for the minimum builder.  When every child of a testset
  returns a verdict of its own, whatever was run before it, and no score is negative, the testset
  returns.  The children before the first with score zero and that one are run, in order, and no other:
  the world afterwards is the one they leave.  The verdict is built from their verdicts and those of
  skipping the rest, and its score is the minimum of 100 and the scores of all the children, the ones
  it skipped included.
\<close>

theorem testset_min_score:
  assumes "boxesRequired (Testset name tlim mlim rlim (VerdictBuilderMin n c) ts) \<le> length boxes"
    and "limits_params params tlim mlim rlim = Inr params'"
    and "\<forall>t\<in>set ts. \<forall>w. \<exists>w'. run_test env sub boxes params' t w = (Inr (f t), w')"
    and "\<forall>t\<in>set ts. 0 \<le> vscore (f t) \<and> 0 \<le> vscore (skip_test t)"
    and "run_ts = takeWhile (\<lambda>t. vscore (f t) \<noteq> 0) ts @ take 1 (dropWhile (\<lambda>t. vscore (f t) \<noteq> 0) ts)"
  shows "\<exists>v w'. run_test env sub boxes params (Testset name tlim mlim rlim (VerdictBuilderMin n c) ts) w = (Inr v, w')
    \<and> vscore v = Min (insert 100 ((vscore \<circ> f) ` set ts))
    \<and> v = finalize (add_all (clear (VerdictBuilderMin n c)) (map f run_ts @ map skip_test (drop (length run_ts) ts)))
    \<and> w' = fold (\<lambda>t w. snd (run_test env sub boxes params' t w)) run_ts w"
proof -
  let ?b = "clear (VerdictBuilderMin n c)"
  let ?cs = "map (\<lambda>t. (f t, skip_test t)) ts"
  let ?r = "add_all ?b (map f run_ts @ map skip_test (drop (length run_ts) ts))"
  let ?w = "fold (\<lambda>t w. snd (run_test env sub boxes params' t w)) run_ts w"
  have can: "canScoreChange ?b" by (simp add: builder_simps)
  have loop: "testset_loop (run_test env sub boxes params') skip_test ?b ts w = (Inr ?r, ?w)"
    unfolding assms(5) by (rule testset_loop_min [OF min_clear_ready can assms(3,4)])
  moreover from testset_loop_pick [OF assms(3), of skip_test ?b w] obtain w' where
    "testset_loop (run_test env sub boxes params') skip_test ?b ts w =
      (Inr (pick_run addVerdict canScoreChange ?b ?cs), w')" by blast
  ultimately have pick: "?r = pick_run addVerdict canScoreChange ?b ?cs" by simp
  have "vscore (current_verdict (pick_run addVerdict canScoreChange ?b ?cs)) =
      vscore (current_verdict (foldl addVerdict ?b (map fst ?cs)))"
    by (rule min_stop.pick_total [OF min_clear_ready]) (use assms(4) in auto)
  also have "\<dots> = vscore (finalize (add_all ?b (map f ts)))"
    by (simp add: finalize_def add_all_foldl comp_def del: clear.simps)
  also have "\<dots> = Min (insert 100 ((vscore \<circ> f) ` set ts))"
    by (simp only: add_all_min_score set_map image_comp)
  finally have "vscore (finalize ?r) = Min (insert 100 ((vscore \<circ> f) ` set ts))"
    by (simp only: pick finalize_def)
  moreover have "run_test env sub boxes params (Testset name tlim mlim rlim (VerdictBuilderMin n c) ts) w =
      (Inr (finalize ?r), ?w)"
    using assms(1,2) loop
    by (simp add: io_simps enough_boxes_def del: clear.simps boxesRequired.simps)
  ultimately show ?thesis by blast
qed

text \<open>
  C13: a testset with the sum builder never runs anything.  The builder starts at score zero and takes
  zero for a score that cannot change, so as long as skipped children score zero every child is
  skipped: the verdict is that of skipping the testset, its score is zero, and nothing is executed.
\<close>

theorem testset_sum_runs_nothing:
  assumes "boxesRequired (Testset name tlim mlim rlim (VerdictBuilderSum n c) ts) \<le> length boxes"
    and "limits_params params tlim mlim rlim = Inr params'"
    and "\<forall>t\<in>set ts. vscore (skip_test t) = 0"
  shows "run_test env sub boxes params (Testset name tlim mlim rlim (VerdictBuilderSum n c) ts) w =
      (Inr (skip_test (Testset name tlim mlim rlim (VerdictBuilderSum n c) ts)), w)
    \<and> vscore (skip_test (Testset name tlim mlim rlim (VerdictBuilderSum n c) ts)) = 0"
proof -
  have loop: "vscore d = 0 \<Longrightarrow> \<forall>t\<in>set us. vscore (skip_test t) = 0 \<Longrightarrow>
      testset_loop run skip_test (VerdictBuilderSum n d) us w =
        (Inr (add_all (VerdictBuilderSum n d) (map skip_test us)), w)
      \<and> vscore (finalize (add_all (VerdictBuilderSum n d) (map skip_test us))) = 0" for run d us
    by (induction us arbitrary: d)
       (simp_all add: add_all_foldl io_simps addVerdict_sum finalize_def sum_info_def del: addVerdict.simps)
  have "vscore (setInfo (make_verdict n) (fresh_info 0)) = 0"
    by (simp add: setInfo_def fresh_info_def)
  from loop [OF this assms(3)] assms(1,2) show ?thesis
    by (simp add: io_simps enough_boxes_def del: boxesRequired.simps)
qed

section \<open>A sample environment\<close>

text \<open>Every command succeeds; the sandbox reports half a second and the checker is content.\<close>

definition sample_config :: json where
  "sample_config = JObject
     [(''directories'', JObject [(''problems'', JString ''/p''), (''scripts'', JString ''/s''),
                                 (''submissions'', JString ''/u'')]),
      (''testing'', JObject [(''checker_err_file'', JString ''/e''), (''meta_file'', JString ''/m'')])]"

definition sample_env :: "(string \<Rightarrow> int) \<Rightarrow> string list env" where
  "sample_env rc =
     \<lparr>env_config = sample_config,
      env_system = (\<lambda>c w. (rc c, w @ [c])),
      env_lines = (\<lambda>p w. if p = ''/m'' then [''time:0.5'', ''max-rss:1024''] else [''ok'']),
      env_write = (\<lambda>p t w. w @ [p]),
      env_language = (\<lambda>s w. (Inr (Some ''cpp''), w)),
      env_setScore = (\<lambda>s x w. (Inr True, w @ [''score''])),
      env_setVerdictType = (\<lambda>s x w. (Inr True, w @ [''verdict''])),
      env_dump = (\<lambda>j. [])\<rparr>"

definition sample_ok :: "string \<Rightarrow> verdict" where
  "sample_ok name = setInfo (make_verdict name)
     \<lparr>vtype = ACCEPTED, score = 100, time_used = 1 / 2, memory_used = 1024, real_time_used = 0\<rparr>"

definition sample_params :: json where
  "sample_params = JObject [(''memory_limit'', JFloat 2), (''real_time_limit'', JFloat 3), (''time_limit'', JFloat 1)]"

lemma sample_limits: "limits_params (JObject []) 1 2 3 = Inr sample_params"
  by (simp add: limits_params_def sample_params_def)

lemma sample_directories:
  "required_directory (sample_env rc) ''scripts'' = io_lift (Inr ''/s'')"
  "required_directory (sample_env rc) ''submissions'' = io_lift (Inr ''/u'')"
  "required_directory (sample_env rc) ''problems'' = io_lift (Inr ''/p'')"
  "required_log_file (sample_env rc) ''meta_file'' = io_lift (Inr ''/m'')"
  "required_log_file (sample_env rc) ''checker_err_file'' = io_lift (Inr ''/e'')"
  by (simp_all add: required_directory_def required_log_file_def getDirectoryPath_eq
      getTestingLogFilePath_def read_string_eq lookup_string_def sample_env_def sample_config_def requireHasValue_def)

lemma sample_meta_read:
  "parseMetaFile [''time:0.5'', ''max-rss:1024''] =
     Inr \<lparr>status = ''OK'', meta_time = Some (1 / 2), max_rss = Some 1024, exit_code = None, exit_signal = None\<rparr>"
  by (rule sample_meta_parsed)

lemma sample_checker:
  "loadVerdictFromCheckerOutput name [''time:0.5'', ''max-rss:1024''] [''ok''] = Inr (sample_ok name)"
  by (simp add: loadVerdictFromCheckerOutput_def sample_meta_read checker_line_def ACCEPTED_def
      meta_verdict_def opt_value_def sample_ok_def)

lemma sample_operations:
  "env_system (sample_env rc) c w = (rc c, w @ [c])"
  "env_lines (sample_env rc) ''/m'' w = [''time:0.5'', ''max-rss:1024'']"
  "env_lines (sample_env rc) ''/e'' w = [''ok'']"
  by (simp_all add: sample_env_def)

text \<open>The checker rejects what it is given with the answer \<open>b\<close>.\<close>

definition judging_env :: "string list env" where
  "judging_env = (sample_env (\<lambda>_. 0))
     \<lparr>env_lines := \<lambda>p w. if p = ''/m'' then [''time:0.5'', ''max-rss:1024'']
        else if w \<noteq> [] \<and> take 14 (last w) = ''/s/check.sh b '' then [''wrong answer''] else [''ok'']\<rparr>"

definition sample_wrong :: "string \<Rightarrow> verdict" where
  "sample_wrong name = setInfo (make_verdict name)
     \<lparr>vtype = WRONG_ANSWER, score = 0, time_used = 1 / 2, memory_used = 1024, real_time_used = 0\<rparr>"

lemma sample_wrong_checker:
  "loadVerdictFromCheckerOutput name [''time:0.5'', ''max-rss:1024''] [''wrong answer''] = Inr (sample_wrong name)"
  by (simp add: loadVerdictFromCheckerOutput_def sample_meta_read checker_line_def WRONG_ANSWER_def
      meta_verdict_def opt_value_def sample_wrong_def)

lemma judging_directories:
  "required_directory judging_env ''scripts'' = io_lift (Inr ''/s'')"
  "required_log_file judging_env ''meta_file'' = io_lift (Inr ''/m'')"
  "required_log_file judging_env ''checker_err_file'' = io_lift (Inr ''/e'')"
  by (simp_all add: required_directory_def required_log_file_def getDirectoryPath_eq judging_env_def
      getTestingLogFilePath_def read_string_eq lookup_string_def sample_env_def sample_config_def requireHasValue_def)

lemma judging_operations:
  "env_system judging_env c w = (0, w @ [c])"
  "env_lines judging_env ''/m'' w = [''time:0.5'', ''max-rss:1024'']"
  "env_lines judging_env ''/e'' (w @ [b, c]) =
     (if take 14 c = ''/s/check.sh b '' then [''wrong answer''] else [''ok''])"
  by (simp_all add: judging_env_def sample_env_def)

lemma check_command: "path_append ''/s'' ''check.sh'' = ''/s/check.sh''"
  by (simp add: path_append_def)

lemma judging_single:
  "\<exists>c. run_test judging_env sub [''0'', ''1''] sample_params (SingleTest name i ''a'') w =
     (Inr (sample_ok name), w @ [c, ''/s/check.sh a 0 1''])"
  "\<exists>c. run_test judging_env sub [''0'', ''1''] sample_params (SingleTest name i ''b'') w =
     (Inr (sample_wrong name), w @ [c, ''/s/check.sh b 0 1''])"
  by (simp_all add: single_run_def judging_directories io_simps box_def sample_params_def jat_def
      judging_operations check_command sample_checker sample_wrong_checker)

text \<open>Of three tests the second scores zero: two checks are made, and the third test is skipped.\<close>

theorem testset_min_score_witness:
  "\<exists>v w'. run_test judging_env ''s'' [''0'', ''1''] (JObject [])
      (Testset ''tests'' 1 2 3 (VerdictBuilderMin ''tests'' (make_verdict ''tests''))
         [SingleTest ''1'' ''i'' ''a'', SingleTest ''2'' ''i'' ''b'', SingleTest ''3'' ''i'' ''a'']) [] = (Inr v, w')
    \<and> vscore v = 0
    \<and> v = finalize (add_all (clear (VerdictBuilderMin ''tests'' (make_verdict ''tests'')))
        [sample_ok ''1'', sample_wrong ''2'', skip_test (SingleTest ''3'' ''i'' ''a'')])
    \<and> [w' ! 1, w' ! 3] = [''/s/check.sh a 0 1'', ''/s/check.sh b 0 1''] \<and> length w' = 4"
proof -
  let ?ts = "[SingleTest ''1'' ''i'' ''a'', SingleTest ''2'' ''i'' ''b'', SingleTest ''3'' ''i'' ''a'']"
  let ?f = "\<lambda>t. if getName t = ''2'' then sample_wrong ''2'' else sample_ok (getName t)"
  let ?run = "run_test judging_env ''s'' [''0'', ''1''] sample_params"
  obtain c where c: "?run (SingleTest ''1'' ''i'' ''a'') [] = (Inr (sample_ok ''1''), [c, ''/s/check.sh a 0 1''])"
    using judging_single(1) [of "''s''" "''1''" "''i''" "[]"] by (auto simp del: run_test.simps)
  obtain d where d: "?run (SingleTest ''2'' ''i'' ''b'') [c, ''/s/check.sh a 0 1''] =
      (Inr (sample_wrong ''2''), [c, ''/s/check.sh a 0 1'', d, ''/s/check.sh b 0 1''])"
    using judging_single(2) [of "''s''" "''2''" "''i''" "[c, ''/s/check.sh a 0 1'']"] by (auto simp del: run_test.simps)
  have "\<exists>v w'. run_test judging_env ''s'' [''0'', ''1''] (JObject [])
      (Testset ''tests'' 1 2 3 (VerdictBuilderMin ''tests'' (make_verdict ''tests'')) ?ts) [] = (Inr v, w')
    \<and> vscore v = Min (insert 100 ((vscore \<circ> ?f) ` set ?ts))
    \<and> v = finalize (add_all (clear (VerdictBuilderMin ''tests'' (make_verdict ''tests'')))
        (map ?f (take 2 ?ts) @ map skip_test (drop (length (take 2 ?ts)) ?ts)))
    \<and> w' = fold (\<lambda>t w. snd (?run t w)) (take 2 ?ts) []"
  proof (rule testset_min_score [OF _ sample_limits])
    show "\<forall>t\<in>set ?ts. \<forall>w. \<exists>w'. ?run t w = (Inr (?f t), w')"
    proof -
      have "\<exists>w'. ?run (SingleTest name i ''a'') w = (Inr (sample_ok name), w')"
        "\<exists>w'. ?run (SingleTest name i ''b'') w = (Inr (sample_wrong name), w')" for name i w
        using judging_single [of "''s''" name i w] by blast+
      then show ?thesis by (simp del: run_test.simps)
    qed
  qed (simp_all add: skipped_verdict_def setInfo_def sample_ok_def sample_wrong_def)
  then show ?thesis
    by (simp add: c d sample_ok_def sample_wrong_def setInfo_def del: run_test.simps skip_test.simps)
qed

theorem testset_sum_runs_nothing_witness:
  "run_test (sample_env (\<lambda>_. 0)) ''s'' [''0'', ''1''] (JObject [])
      (Testset ''tests'' 1 2 3 (VerdictBuilderSum ''tests'' (make_verdict ''tests''))
         [SingleTest ''1'' ''i'' ''a'']) [] =
    (Inr (skip_test (Testset ''tests'' 1 2 3 (VerdictBuilderSum ''tests'' (make_verdict ''tests''))
         [SingleTest ''1'' ''i'' ''a''])), [])
   \<and> vscore (skip_test (Testset ''tests'' 1 2 3 (VerdictBuilderSum ''tests'' (make_verdict ''tests''))
         [SingleTest ''1'' ''i'' ''a''])) = 0"
  by (rule testset_sum_runs_nothing [OF _ sample_limits])
     (simp_all add: skipped_verdict_def setInfo_def)

section \<open>Compilation and results\<close>

text \<open>
  when the compilation fails, the test ends right there: after the preparation command and the
  compilation command nothing else happens, in particular the boxes that were prepared are not
  cleared by \<open>end_testing.sh\<close>, and the verdict is a compilation error with score zero.
\<close>

theorem compilation_error_ends_run:
  assumes "boxes = bx # bc # rest" and "boxesRequired (CompilationTest name p t) \<le> length boxes"
    and "lookup_string (env_config env) [''directories'', ''scripts''] = Some scripts"
    and "lookup_string (env_config env) [''directories'', ''submissions''] = Some submissions"
    and "lookup_string (env_config env) [''directories'', ''problems''] = Some problems"
    and "env_language env sub w = (Inr (Some lang), wa)"
    and "env_system env (prepare_command scripts bx bc p) wa = (0, wb)"
    and "env_system env (compile_command scripts submissions lang bx sub) wb = (rc, wc)" and "rc \<noteq> 0"
  shows "run_test env sub boxes params (CompilationTest name p t) w = (Inr (failed_run name COMPILATION_ERROR), wc)"
proof -
  have dirs: "required_directory env ''scripts'' = io_lift (Inr scripts)"
    "required_directory env ''submissions'' = io_lift (Inr submissions)"
    "required_directory env ''problems'' = io_lift (Inr problems)"
    using assms(3-5) by (simp_all add: required_directory_def getDirectoryPath_eq requireHasValue_def)
  show ?thesis
    using assms(1,2,6-9)
    by (simp add: compilation_run_def dirs io_simps enough_boxes_def box_def io_run_def io_bind_def)
qed

theorem compilation_error_ends_run_witness:
  "\<exists>cs. length cs = 2 \<and>
     run_test (sample_env (\<lambda>c. if c = compile_command ''/s'' ''/u'' ''cpp'' ''0'' ''7'' then 1 else 0)) ''7'' [''0'', ''1'']
       (JObject []) (CompilationTest ''compilation'' ''p'' (SingleTest ''1'' ''i'' ''a'')) [] =
     (Inr (failed_run ''compilation'' COMPILATION_ERROR), cs)"
proof -
  let ?rc = "\<lambda>c. if c = compile_command ''/s'' ''/u'' ''cpp'' ''0'' ''7'' then 1 else (0::int)"
  let ?prep = "prepare_command ''/s'' ''0'' ''1'' ''p''"
  let ?comp = "compile_command ''/s'' ''/u'' ''cpp'' ''0'' ''7''"
  have "?prep \<noteq> ?comp" by (simp add: prepare_command_def compile_command_def path_append_def)
  then have "run_test (sample_env ?rc) ''7'' [''0'', ''1''] (JObject [])
      (CompilationTest ''compilation'' ''p'' (SingleTest ''1'' ''i'' ''a'')) [] =
      (Inr (failed_run ''compilation'' COMPILATION_ERROR), [?prep, ?comp])"
    by (intro compilation_error_ends_run [where scripts = "''/s''" and submissions = "''/u''" and problems = "''/p''"
          and bx = "''0''" and bc = "''1''" and rest = "[]" and lang = "''cpp''" and rc = 1
          and wa = "[]" and wb = "[?prep]"])
       (simp_all add: lookup_string_def sample_env_def sample_config_def)
  then show ?thesis by (intro exI [of _ "[?prep, ?comp]"]) simp
qed

text \<open>
  the result test returns its child's verdict after writing the protocol with the whole verdict,
  then storing the score, then storing the short name of the verdict; when the child throws, nothing
  is written or stored.
\<close>

theorem sync_result_stores_verdict:
  "run_test env sub boxes params (SyncResultTest name p t) w =
     (if length boxes < boxesRequired t then (Inl (RuntimeError ''Not enough boxes provided''), w)
      else case run_test env sub boxes params t w of
        (Inl e, w1) \<Rightarrow> (Inl e, w1)
      | (Inr v, w1) \<Rightarrow>
          (case lookup_string (env_config env) [''directories'', ''submissions''] of
             None \<Rightarrow> (Inl (RuntimeError ''optional expected with value''), w1)
           | Some dir \<Rightarrow>
               io_bind (env_setScore env sub (vscore v)) (\<lambda>_.
               io_bind (env_setVerdictType env sub (short_name (vtype (info v)))) (\<lambda>_.
                 io_return v))
                 (env_write env (path_append (path_append dir sub) ''protocol.json'') (env_dump env (toJson v 2)) w1)))"
  by (auto simp: sync_result_run_def enough_boxes_def io_simps io_bind_def required_directory_def
      getDirectoryPath_eq requireHasValue_def split: prod.splits sum.splits option.splits)

text \<open>
  C17: where moving a string out leaves it empty, as the standard libraries do, the constructor of a
  single test never sees its name: every single test of a problem reads the files of test 01.
\<close>

theorem single_test_always_first:
  assumes "\<forall>s. moved_from s = []"
    and "lookup_string config [''directories'', ''problems''] = Some dir"
  shows "make_single moved_from config p name =
    Inr (SingleTest name (path_append (path_append (path_append dir p) ''tests'') ''01'')
                         (path_append (path_append (path_append dir p) ''tests'') ''01.a''))"
proof -
  have "stoi [] = Inl (InvalidArgument ''stoi'')" by (simp add: stoi_def)
  moreover have "digit_char 1 = CHR ''1''"
    using char_of_char [of "CHR ''1''"] by (simp add: digit_char_def)
  then have "format_02 1 = ''01''"
    by (simp add: format_02_def int_to_string_def nat_to_string.simps)
  ultimately show ?thesis using assms
    by (simp add: make_single_def single_test_number_def getDirectoryPath_eq requireHasValue_def Let_def)
qed

theorem single_test_always_first_witness:
  "make_single (\<lambda>_. []) sample_config ''7'' ''12'' =
    Inr (SingleTest ''12'' (path_append (path_append (path_append ''/p'' ''7'') ''tests'') ''01'')
                           (path_append (path_append (path_append ''/p'' ''7'') ''tests'') ''01.a''))"
  by (rule single_test_always_first) (simp_all add: lookup_string_def sample_config_def)

end
