(* ===== verification/Testing_Queue.thy ===== *)
theory Testing_Queue
  imports Prelude
begin

text \<open>
  The dispatcher's queue of submissions and connected invokers:
  \<open>modules/dispatcher/src/testing_queue.cpp\<close>, \<open>invoker.cpp\<close> and their headers.

  An \<open>Invoker\<close> is a record with its id, the messages handed to its channel so far that the channel
  has not delivered, and its virtual \<open>canTestSubmission\<close>.  \<open>connected_invokers_\<close> is a vector of
  pairs of an invoker and the submission it is busy with, the empty string standing for idle.  A
  reference \<open>Invoker&\<close> is an index into this vector, so that two entries with the same id keep the
  aliasing of the source.  The only exception, from \<open>findInvokerIndexById\<close>, is raised before any
  mutation, so an operation that throws leaves the queue as it was.
\<close>

section \<open>Data\<close>

record invoker =
  inv_id :: string
  inv_channel :: "string list"
  inv_can :: "string \<Rightarrow> bool"

record testing_queue =
  submission_queue :: "string list"
  connected_invokers :: "(invoker \<times> string) list"

section \<open>Invoker\<close>

fun make_invoker :: "string \<Rightarrow> string list option \<Rightarrow> invoker result" where
  "make_invoker i None = Inl (InvalidArgument ''Channel cannot be null'')"
| "make_invoker i (Some ch) = Inr \<lparr>inv_id = i, inv_channel = ch, inv_can = (\<lambda>_. True)\<rparr>"

definition testSubmission :: "invoker \<Rightarrow> string \<Rightarrow> invoker" where
  "testSubmission iv s = iv\<lparr>inv_channel := inv_channel iv @ [s]\<rparr>"

section \<open>Testing queue\<close>

definition initial_queue :: testing_queue where
  "initial_queue = \<lparr>submission_queue = [], connected_invokers = []\<rparr>"

definition findInvokerIndexById :: "testing_queue \<Rightarrow> string \<Rightarrow> nat result" where
  "findInvokerIndexById q i =
     (case first_index (\<lambda>(iv, b). inv_id iv = i) (connected_invokers q) of
        Some k \<Rightarrow> Inr k
      | None \<Rightarrow> Inl (RuntimeError (''Invoker with ID '' @ i @ '' not found.'')))"

definition findInvokerById :: "testing_queue \<Rightarrow> string \<Rightarrow> nat result" where
  "findInvokerById q i = findInvokerIndexById q i"

definition sendSubmissionForTesting :: "testing_queue \<Rightarrow> string \<Rightarrow> nat \<Rightarrow> testing_queue result" where
  "sendSubmissionForTesting q s r =
     rbind (findInvokerIndexById q (inv_id (fst (connected_invokers q ! r)))) (\<lambda>k.
       let cs = connected_invokers q;
           cs = cs[k := (fst (cs ! k), s)];
           cs = cs[r := (testSubmission (fst (cs ! r)) s, snd (cs ! r))]
       in Inr (q\<lparr>connected_invokers := cs\<rparr>))"

definition tryInvoker :: "testing_queue \<Rightarrow> nat \<Rightarrow> (bool \<times> testing_queue) result" where
  "tryInvoker q r =
     (case first_index (inv_can (fst (connected_invokers q ! r))) (submission_queue q) of
        None \<Rightarrow> Inr (False, q)
      | Some n \<Rightarrow>
          rbind (sendSubmissionForTesting q (submission_queue q ! n) r) (\<lambda>q'.
            Inr (True, q'\<lparr>submission_queue := erase_at n (submission_queue q')\<rparr>)))"

definition trySubmission :: "testing_queue \<Rightarrow> string \<Rightarrow> (bool \<times> testing_queue) result" where
  "trySubmission q s =
     (case first_index (\<lambda>(iv, b). b = [] \<and> inv_can iv s) (connected_invokers q) of
        None \<Rightarrow> Inr (False, q)
      | Some r \<Rightarrow> rbind (sendSubmissionForTesting q s r) (\<lambda>q'. Inr (True, q')))"

definition pushSubmission :: "testing_queue \<Rightarrow> string \<Rightarrow> testing_queue result" where
  "pushSubmission q s =
     rbind (trySubmission q s) (\<lambda>(sent, q').
       if sent then Inr q'
       else Inr (q'\<lparr>submission_queue := submission_queue q' @ [s]\<rparr>))"

definition freeInvoker :: "testing_queue \<Rightarrow> string \<Rightarrow> testing_queue result" where
  "freeInvoker q i =
     rbind (findInvokerById q i) (\<lambda>r.
     rbind (tryInvoker q r) (\<lambda>(sent, q').
       if sent then Inr q'
       else rbind (findInvokerIndexById q' i) (\<lambda>k.
         let cs = connected_invokers q'
         in Inr (q'\<lparr>connected_invokers := cs[k := (fst (cs ! k), [])]\<rparr>))))"

definition connectInvoker :: "testing_queue \<Rightarrow> invoker \<Rightarrow> testing_queue result" where
  "connectInvoker q iv =
     (let q' = q\<lparr>connected_invokers := connected_invokers q @ [(iv, [])]\<rparr>
      in rbind (tryInvoker q' (length (connected_invokers q') - 1)) (\<lambda>(sent, q''). Inr q''))"

definition disconnectInvoker :: "testing_queue \<Rightarrow> string \<Rightarrow> testing_queue result" where
  "disconnectInvoker q i =
     rbind (findInvokerIndexById q i) (\<lambda>k.
       let b = snd (connected_invokers q ! k);
           q' = (if b \<noteq> [] then q\<lparr>submission_queue := b # submission_queue q\<rparr> else q)
       in Inr (q'\<lparr>connected_invokers := erase_at k (connected_invokers q')\<rparr>))"

section \<open>What the queue holds\<close>

text \<open>
  The ids of the connected invokers, the submissions the queue is responsible for (waiting ones and
  those an invoker is busy with), and the two parts of the invariant: ids are unique and no waiting
  submission has the empty id, and no submission waits while an idle invoker could test it.
\<close>

definition inv_ids :: "testing_queue \<Rightarrow> string list" where
  "inv_ids q = map (inv_id \<circ> fst) (connected_invokers q)"

definition held :: "string \<Rightarrow> string multiset" where
  "held b = (if b = [] then {#} else {#b#})"

definition in_system :: "testing_queue \<Rightarrow> string multiset" where
  "in_system q = mset (submission_queue q) + sum_list (map (held \<circ> snd) (connected_invokers q))"

definition wf_queue :: "testing_queue \<Rightarrow> bool" where
  "wf_queue q \<longleftrightarrow> distinct (inv_ids q) \<and> [] \<notin> set (submission_queue q)"

definition work_conserving :: "testing_queue \<Rightarrow> bool" where
  "work_conserving q \<longleftrightarrow>
     (\<forall>s\<in>set (submission_queue q). \<forall>(iv, b)\<in>set (connected_invokers q). b = [] \<longrightarrow> \<not> inv_can iv s)"

definition busy_of :: "testing_queue \<Rightarrow> string \<Rightarrow> string option" where
  "busy_of q i = map_option snd (find (\<lambda>(iv, b). inv_id iv = i) (connected_invokers q))"

definition assign :: "testing_queue \<Rightarrow> nat \<Rightarrow> string \<Rightarrow> testing_queue" where
  "assign q r s =
     q\<lparr>connected_invokers :=
        (connected_invokers q)[r := (testSubmission (fst (connected_invokers q ! r)) s, s)]\<rparr>"

definition take_waiting :: "testing_queue \<Rightarrow> nat \<Rightarrow> nat \<Rightarrow> testing_queue" where
  "take_waiting q r n =
     (assign q r (submission_queue q ! n))\<lparr>submission_queue := erase_at n (submission_queue q)\<rparr>"

section \<open>The operations in closed form\<close>

lemma testSubmission_simps [simp]:
  "inv_id (testSubmission iv s) = inv_id iv"
  "inv_can (testSubmission iv s) = inv_can iv"
  "inv_channel (testSubmission iv s) = inv_channel iv @ [s]"
  by (simp_all add: testSubmission_def)

lemma findInvokerIndexById_nth:
  assumes "distinct (inv_ids q)" and "r < length (connected_invokers q)"
  shows "findInvokerIndexById q (inv_id (fst (connected_invokers q ! r))) = Inr r"
  using assms first_index_unique [of r "connected_invokers q" "inv_id \<circ> fst"]
  by (simp add: findInvokerIndexById_def inv_ids_def case_prod_unfold)

lemma findInvokerIndexById_Inr:
  "findInvokerIndexById q i = Inr k \<Longrightarrow>
     k < length (connected_invokers q) \<and> inv_id (fst (connected_invokers q ! k)) = i"
  by (auto simp: findInvokerIndexById_def case_prod_unfold split: option.splits
      dest: first_index_SomeD)

lemma findInvokerIndexById_ok_iff:
  "(\<exists>k. findInvokerIndexById q i = Inr k) \<longleftrightarrow> i \<in> set (inv_ids q)"
proof -
  have "(\<exists>k. findInvokerIndexById q i = Inr k) \<longleftrightarrow>
      first_index (\<lambda>(iv, b). inv_id iv = i) (connected_invokers q) \<noteq> None"
    by (auto simp: findInvokerIndexById_def split: option.splits)
  also have "\<dots> \<longleftrightarrow> i \<in> set (inv_ids q)"
    by (force simp: first_index_None inv_ids_def case_prod_unfold)
  finally show ?thesis .
qed

lemma findInvokerIndexById_iff:
  assumes "distinct (inv_ids q)"
  shows "findInvokerIndexById q i = Inr k \<longleftrightarrow>
     k < length (connected_invokers q) \<and> inv_id (fst (connected_invokers q ! k)) = i"
  using findInvokerIndexById_Inr findInvokerIndexById_nth [OF assms] by blast

lemma send_total:
  assumes "r < length (connected_invokers q)"
  shows "\<exists>q'. sendSubmissionForTesting q s r = Inr q' \<and> submission_queue q' = submission_queue q"
proof -
  have "inv_id (fst (connected_invokers q ! r)) \<in> set (inv_ids q)"
    using assms by (simp add: inv_ids_def)
  then obtain k where "findInvokerIndexById q (inv_id (fst (connected_invokers q ! r))) = Inr k"
    using findInvokerIndexById_ok_iff by blast
  then show ?thesis
    by (simp add: sendSubmissionForTesting_def Let_def)
qed

lemma send_eq:
  assumes "distinct (inv_ids q)" and "r < length (connected_invokers q)"
  shows "sendSubmissionForTesting q s r = Inr (assign q r s)"
  using findInvokerIndexById_nth [OF assms] assms(2)
  by (simp add: sendSubmissionForTesting_def assign_def Let_def)

lemma tryInvoker_eq:
  assumes "distinct (inv_ids q)" and "r < length (connected_invokers q)"
  shows "tryInvoker q r =
     Inr (case first_index (inv_can (fst (connected_invokers q ! r))) (submission_queue q) of
            None \<Rightarrow> (False, q) | Some n \<Rightarrow> (True, take_waiting q r n))"
  by (simp add: tryInvoker_def send_eq [OF assms] take_waiting_def assign_def split: option.splits)

lemma pushSubmission_eq:
  assumes "distinct (inv_ids q)"
  shows "pushSubmission q s =
     Inr (case first_index (\<lambda>(iv, b). b = [] \<and> inv_can iv s) (connected_invokers q) of
            None \<Rightarrow> q\<lparr>submission_queue := submission_queue q @ [s]\<rparr> | Some r \<Rightarrow> assign q r s)"
proof (cases "first_index (\<lambda>(iv, b). b = [] \<and> inv_can iv s) (connected_invokers q)")
  case None
  then show ?thesis by (simp add: pushSubmission_def trySubmission_def)
next
  case (Some r)
  with send_eq [OF assms first_index_SomeD [THEN conjunct1, OF Some]] show ?thesis
    by (simp add: pushSubmission_def trySubmission_def)
qed

lemma inv_ids_assign [simp]: "r < length (connected_invokers q) \<Longrightarrow> inv_ids (assign q r s) = inv_ids q"
  by (simp add: inv_ids_def assign_def map_list_update_same)

lemma freeInvoker_eq:
  assumes "distinct (inv_ids q)" and "findInvokerIndexById q i = Inr r"
  shows "freeInvoker q i =
     Inr (case first_index (inv_can (fst (connected_invokers q ! r))) (submission_queue q) of
            None \<Rightarrow> q\<lparr>connected_invokers :=
                       (connected_invokers q)[r := (fst (connected_invokers q ! r), [])]\<rparr>
          | Some n \<Rightarrow> take_waiting q r n)"
  using tryInvoker_eq [OF assms(1), of r] findInvokerIndexById_Inr [OF assms(2)] assms(2)
  by (auto simp: freeInvoker_def findInvokerById_def Let_def split: option.splits)

lemma connectInvoker_eq:
  assumes "distinct (inv_ids q)" and "inv_id iv \<notin> set (inv_ids q)"
  shows "connectInvoker q iv =
     (let q' = q\<lparr>connected_invokers := connected_invokers q @ [(iv, [])]\<rparr> in
      Inr (case first_index (inv_can iv) (submission_queue q) of
             None \<Rightarrow> q' | Some n \<Rightarrow> take_waiting q' (length (connected_invokers q)) n))"
proof -
  define q' where "q' = q\<lparr>connected_invokers := connected_invokers q @ [(iv, [])]\<rparr>"
  have d: "distinct (inv_ids q')" and l: "length (connected_invokers q) < length (connected_invokers q')"
    using assms by (simp_all add: q'_def inv_ids_def)
  show ?thesis
    using tryInvoker_eq [OF d l]
    by (simp add: connectInvoker_def q'_def [symmetric] Let_def)
       (simp add: q'_def split: option.splits)
qed

lemma disconnectInvoker_eq:
  assumes "findInvokerIndexById q i = Inr r"
  shows "disconnectInvoker q i =
     Inr \<lparr>submission_queue =
            (if snd (connected_invokers q ! r) = [] then [] else [snd (connected_invokers q ! r)])
            @ submission_queue q,
          connected_invokers = erase_at r (connected_invokers q)\<rparr>"
  using assms by (simp add: disconnectInvoker_def Let_def)

lemmas queue_closed_forms =
  pushSubmission_eq freeInvoker_eq connectInvoker_eq disconnectInvoker_eq

section \<open>Well-formedness and conservation\<close>

lemma held_simps [simp]: "held [] = {#}" "b \<noteq> [] \<Longrightarrow> held b = {#b#}"
  by (simp_all add: held_def)

lemma in_system_assign:
  assumes "r < length (connected_invokers q)"
  shows "in_system (assign q r s) + held (snd (connected_invokers q ! r)) = in_system q + held s"
proof -
  have "sum_list (map (held \<circ> snd) (connected_invokers (assign q r s)))
      + held (snd (connected_invokers q ! r))
    = sum_list (map (held \<circ> snd) (connected_invokers q)) + held s"
    using sum_list_update [OF assms,
        of "held \<circ> snd" "(testSubmission (fst (connected_invokers q ! r)) s, s)"]
    by (simp add: assign_def)
  then show ?thesis by (simp add: in_system_def assign_def add.assoc)
qed

lemma in_system_take_waiting:
  assumes "r < length (connected_invokers q)" and "n < length (submission_queue q)"
    and "submission_queue q ! n \<noteq> []"
  shows "in_system (take_waiting q r n) + held (snd (connected_invokers q ! r)) = in_system q"
proof -
  let ?s = "submission_queue q ! n"
  have "in_system (assign q r ?s) = add_mset ?s (in_system (take_waiting q r n))"
    using mset_erase_at [OF assms(2)] by (simp add: in_system_def take_waiting_def assign_def)
  with in_system_assign [OF assms(1), of ?s] assms(3) show ?thesis by simp
qed

lemma wf_waiting_nonempty:
  "wf_queue q \<Longrightarrow> n < length (submission_queue q) \<Longrightarrow> submission_queue q ! n \<noteq> []"
  by (metis nth_mem wf_queue_def)

lemma wf_take_waiting:
  "wf_queue q \<Longrightarrow> r < length (connected_invokers q) \<Longrightarrow> wf_queue (take_waiting q r n)"
  using set_erase_at_subset [of n "submission_queue q"]
  by (auto simp: wf_queue_def take_waiting_def inv_ids_def assign_def map_list_update_same)

lemma push_conserves:
  assumes "wf_queue q" and "s \<noteq> []"
  shows "\<exists>q'. pushSubmission q s = Inr q' \<and> wf_queue q' \<and> in_system q' = add_mset s (in_system q)
    \<and> inv_ids q' = inv_ids q"
proof (cases "first_index (\<lambda>(iv, b). b = [] \<and> inv_can iv s) (connected_invokers q)")
  case None
  with assms show ?thesis
    by (auto simp: pushSubmission_eq wf_queue_def in_system_def inv_ids_def)
next
  case (Some r)
  note r = first_index_SomeD [OF this]
  then have "snd (connected_invokers q ! r) = []" by (simp add: case_prod_unfold)
  with in_system_assign [of r q s] r Some assms show ?thesis
    by (auto simp: pushSubmission_eq wf_queue_def assign_def inv_ids_def map_list_update_same)
qed

lemma busy_of_nth:
  assumes "findInvokerIndexById q i = Inr r"
  shows "busy_of q i = Some (snd (connected_invokers q ! r))"
proof -
  from assms have "first_index (\<lambda>(iv, b). inv_id iv = i) (connected_invokers q) = Some r"
    by (simp add: findInvokerIndexById_def split: option.splits)
  then have "find (\<lambda>(iv, b). inv_id iv = i) (connected_invokers q) = Some (connected_invokers q ! r)"
    by (auto simp: first_index_Some find_Some_iff)
  then show ?thesis by (simp add: busy_of_def)
qed

lemma connected_index:
  "i \<in> set (inv_ids q) \<Longrightarrow>
     \<exists>r. findInvokerIndexById q i = Inr r \<and> r < length (connected_invokers q)
       \<and> inv_id (fst (connected_invokers q ! r)) = i
       \<and> busy_of q i = Some (snd (connected_invokers q ! r))"
  using findInvokerIndexById_ok_iff findInvokerIndexById_Inr busy_of_nth by metis

lemma free_conserves:
  assumes "wf_queue q" and "i \<in> set (inv_ids q)"
  shows "\<exists>q' b. freeInvoker q i = Inr q' \<and> wf_queue q' \<and> busy_of q i = Some b
    \<and> in_system q' + held b = in_system q \<and> inv_ids q' = inv_ids q"
proof -
  from connected_index [OF assms(2)] obtain r where
    r: "findInvokerIndexById q i = Inr r" "r < length (connected_invokers q)"
      "busy_of q i = Some (snd (connected_invokers q ! r))" by blast
  have d: "distinct (inv_ids q)" using assms(1) by (simp add: wf_queue_def)
  show ?thesis
  proof (cases "first_index (inv_can (fst (connected_invokers q ! r))) (submission_queue q)")
    case None
    let ?q = "q\<lparr>connected_invokers := (connected_invokers q)[r := (fst (connected_invokers q ! r), [])]\<rparr>"
    have ids: "inv_ids ?q = inv_ids q" using r(2) by (simp add: inv_ids_def map_list_update_same)
    have "in_system ?q + held (snd (connected_invokers q ! r)) = in_system q"
      using sum_list_update [OF r(2), of "held \<circ> snd" "(fst (connected_invokers q ! r), [])"]
      by (simp add: in_system_def add.assoc)
    with freeInvoker_eq [OF d r(1)] None r(3) ids assms(1) show ?thesis by (simp add: wf_queue_def)
  next
    case (Some n)
    note n = first_index_SomeD [OF this]
    have "in_system (take_waiting q r n) + held (snd (connected_invokers q ! r)) = in_system q"
      using in_system_take_waiting [OF r(2)] n wf_waiting_nonempty [OF assms(1)] by blast
    moreover have "inv_ids (take_waiting q r n) = inv_ids q"
      using r(2) by (simp add: take_waiting_def inv_ids_def assign_def map_list_update_same)
    ultimately show ?thesis
      using freeInvoker_eq [OF d r(1)] Some r wf_take_waiting [OF assms(1) r(2)] by simp
  qed
qed

lemma connect_conserves:
  assumes "wf_queue q" and "inv_id iv \<notin> set (inv_ids q)"
  shows "\<exists>q'. connectInvoker q iv = Inr q' \<and> wf_queue q' \<and> in_system q' = in_system q
    \<and> inv_ids q' = inv_ids q @ [inv_id iv]"
proof -
  define p where "p = q\<lparr>connected_invokers := connected_invokers q @ [(iv, [])]\<rparr>"
  let ?r = "length (connected_invokers q)"
  have p: "wf_queue p" "in_system p = in_system q" "?r < length (connected_invokers p)"
      "inv_ids p = inv_ids q @ [inv_id iv]" "connected_invokers p ! ?r = (iv, [])"
    using assms by (auto simp: p_def wf_queue_def in_system_def inv_ids_def)
  have d: "distinct (inv_ids q)" using assms(1) by (simp add: wf_queue_def)
  show ?thesis
  proof (cases "first_index (inv_can iv) (submission_queue q)")
    case None
    with connectInvoker_eq [OF d assms(2)] p show ?thesis by (simp add: p_def [symmetric] Let_def)
  next
    case (Some n)
    have n: "n < length (submission_queue p)"
      using first_index_SomeD [OF Some] by (simp add: p_def)
    have "in_system (take_waiting p ?r n) = in_system q"
      using in_system_take_waiting [OF p(3) n] wf_waiting_nonempty [OF p(1) n] p by simp
    moreover have "inv_ids (take_waiting p ?r n) = inv_ids p"
      using p(3) by (simp add: take_waiting_def inv_ids_def assign_def map_list_update_same)
    ultimately show ?thesis
      using connectInvoker_eq [OF d assms(2)] Some p wf_take_waiting [OF p(1,3)]
      by (simp add: p_def [symmetric] Let_def)
  qed
qed

lemma disconnect_conserves:
  assumes "wf_queue q" and "i \<in> set (inv_ids q)"
  shows "\<exists>q'. disconnectInvoker q i = Inr q' \<and> wf_queue q' \<and> in_system q' = in_system q
    \<and> set (inv_ids q') = set (inv_ids q) - {i}"
proof -
  from connected_index [OF assms(2)] obtain r where
    r: "findInvokerIndexById q i = Inr r" "r < length (connected_invokers q)"
      "inv_id (fst (connected_invokers q ! r)) = i" by blast
  let ?b = "snd (connected_invokers q ! r)"
  let ?q = "\<lparr>submission_queue = (if ?b = [] then [] else [?b]) @ submission_queue q,
          connected_invokers = erase_at r (connected_invokers q)\<rparr>"
  have d: "distinct (inv_ids q)" using assms(1) by (simp add: wf_queue_def)
  have l: "r < length (inv_ids q)" and i: "inv_ids q ! r = i" using r by (simp_all add: inv_ids_def)
  have ids: "inv_ids ?q = erase_at r (inv_ids q)" by (simp add: inv_ids_def map_erase_at)
  have "in_system ?q = in_system q"
    using sum_list_erase_at [OF r(2), of "held \<circ> snd"]
    by (simp add: in_system_def ac_simps held_def split: if_splits)
  moreover have "wf_queue ?q"
    using assms(1) distinct_erase_at [OF d] by (simp add: wf_queue_def ids)
  moreover have "set (inv_ids ?q) = set (inv_ids q) - {i}"
    using set_erase_at [OF d l] by (simp only: ids i)
  ultimately show ?thesis
    using disconnectInvoker_eq [OF r(1)] by blast
qed

section \<open>No submission waits for an idle invoker\<close>

lemma work_conserving_nth:
  "work_conserving q \<longleftrightarrow>
     (\<forall>s\<in>set (submission_queue q). \<forall>r<length (connected_invokers q).
        snd (connected_invokers q ! r) = [] \<longrightarrow> \<not> inv_can (fst (connected_invokers q ! r)) s)"
  by (simp only: work_conserving_def all_set_conv_all_nth case_prod_unfold)

lemma work_conserving_assign:
  assumes "work_conserving q" and "s \<noteq> []" and "r < length (connected_invokers q)"
  shows "work_conserving (assign q r s)"
  using assms by (auto simp: work_conserving_nth assign_def nth_list_update)

lemma work_conserving_take_waiting:
  assumes "\<forall>s\<in>set (submission_queue q). \<forall>k<length (connected_invokers q). k \<noteq> r \<longrightarrow>
      snd (connected_invokers q ! k) = [] \<longrightarrow> \<not> inv_can (fst (connected_invokers q ! k)) s"
    and "r < length (connected_invokers q)" and "submission_queue q ! n \<noteq> []"
  shows "work_conserving (take_waiting q r n)"
  using assms set_erase_at_subset [of n "submission_queue q"]
  by (auto simp: work_conserving_nth take_waiting_def assign_def nth_list_update subset_iff)

lemma push_work_conserving:
  assumes "wf_queue q" and "work_conserving q" and "s \<noteq> []" and "pushSubmission q s = Inr q'"
  shows "work_conserving q'"
proof (cases "first_index (\<lambda>(iv, b). b = [] \<and> inv_can iv s) (connected_invokers q)")
  case None
  then have "\<forall>r<length (connected_invokers q). snd (connected_invokers q ! r) = [] \<longrightarrow>
      \<not> inv_can (fst (connected_invokers q ! r)) s"
    by (simp add: first_index_None case_prod_unfold)
  with assms None show ?thesis
    by (auto simp: pushSubmission_eq wf_queue_def work_conserving_nth)
next
  case (Some r)
  with assms work_conserving_assign [of q s r] first_index_SomeD [OF Some] show ?thesis
    by (auto simp: pushSubmission_eq wf_queue_def)
qed

lemma free_work_conserving:
  assumes "wf_queue q" and "work_conserving q" and "freeInvoker q i = Inr q'"
  shows "work_conserving q'"
proof -
  have d: "distinct (inv_ids q)" using assms(1) by (simp add: wf_queue_def)
  from assms(3) obtain r where r: "findInvokerIndexById q i = Inr r"
    by (auto simp: freeInvoker_def findInvokerById_def rbind_eq_Inr)
  note l = findInvokerIndexById_Inr [OF r, THEN conjunct1]
  show ?thesis
  proof (cases "first_index (inv_can (fst (connected_invokers q ! r))) (submission_queue q)")
    case None
    then have "\<forall>s\<in>set (submission_queue q). \<not> inv_can (fst (connected_invokers q ! r)) s"
      by (simp add: first_index_None)
    with freeInvoker_eq [OF d r] None assms(2,3) l show ?thesis
      by (auto simp: work_conserving_nth nth_list_update)
  next
    case (Some n)
    note n = first_index_SomeD [OF this]
    with work_conserving_take_waiting [OF _ l] wf_waiting_nonempty [OF assms(1)] assms(2)
    have "work_conserving (take_waiting q r n)" by (auto simp: work_conserving_nth)
    with freeInvoker_eq [OF d r] Some assms(3) show ?thesis by simp
  qed
qed

lemma connect_work_conserving:
  assumes "wf_queue q" and "work_conserving q" and "inv_id iv \<notin> set (inv_ids q)"
    and "connectInvoker q iv = Inr q'"
  shows "work_conserving q'"
proof -
  define p where "p = q\<lparr>connected_invokers := connected_invokers q @ [(iv, [])]\<rparr>"
  have d: "distinct (inv_ids q)" using assms(1) by (simp add: wf_queue_def)
  note eq = connectInvoker_eq [OF d assms(3)]
  show ?thesis
  proof (cases "first_index (inv_can iv) (submission_queue q)")
    case None
    then have "\<forall>s\<in>set (submission_queue q). \<not> inv_can iv s"
      by (simp add: first_index_None)
    with eq None assms(2,4) show ?thesis
      by (auto simp: work_conserving_def Let_def)
  next
    case (Some n)
    have n: "submission_queue p ! n \<noteq> []"
      using first_index_SomeD [OF Some] wf_waiting_nonempty [OF assms(1)] by (simp add: p_def)
    have "work_conserving (take_waiting p (length (connected_invokers q)) n)"
      by (rule work_conserving_take_waiting [OF _ _ n])
         (use assms(2) in \<open>auto simp: p_def work_conserving_nth nth_append\<close>)
    with eq Some assms(4) show ?thesis by (simp add: Let_def p_def)
  qed
qed

section \<open>Operations as data\<close>

text \<open>
  The four public operations as a datatype, what their callers must respect, and what each brings
  into the queue or takes out of it.
\<close>

datatype queue_op = Push string | Free string | Connect invoker | Disconnect string

fun queue_step :: "testing_queue \<Rightarrow> queue_op \<Rightarrow> testing_queue result" where
  "queue_step q (Push s) = pushSubmission q s"
| "queue_step q (Free i) = freeInvoker q i"
| "queue_step q (Connect iv) = connectInvoker q iv"
| "queue_step q (Disconnect i) = disconnectInvoker q i"

fun queue_op_ok :: "testing_queue \<Rightarrow> queue_op \<Rightarrow> bool" where
  "queue_op_ok q (Push s) = (s \<noteq> [])"
| "queue_op_ok q (Free i) = (i \<in> set (inv_ids q))"
| "queue_op_ok q (Connect iv) = (inv_id iv \<notin> set (inv_ids q))"
| "queue_op_ok q (Disconnect i) = (i \<in> set (inv_ids q))"

fun queue_gain :: "testing_queue \<Rightarrow> queue_op \<Rightarrow> string multiset" where
  "queue_gain q (Push s) = {#s#}"
| "queue_gain q _ = {#}"

fun queue_loss :: "testing_queue \<Rightarrow> queue_op \<Rightarrow> string multiset" where
  "queue_loss q (Free i) = held (case busy_of q i of Some b \<Rightarrow> b | None \<Rightarrow> [])"
| "queue_loss q _ = {#}"

fun_cases queue_op_okE: "queue_op_ok q a"

lemma queue_step_conserves:
  assumes "wf_queue q" and "queue_op_ok q a"
  shows "\<exists>q'. queue_step q a = Inr q' \<and> wf_queue q'
    \<and> in_system q' + queue_loss q a = in_system q + queue_gain q a"
proof (cases a)
  case (Push s)
  with push_conserves [OF assms(1), of s] assms(2) show ?thesis by auto
next
  case (Free i)
  with free_conserves [OF assms(1), of i] assms(2) show ?thesis by auto
next
  case (Connect iv)
  with connect_conserves [OF assms(1), of iv] assms(2) show ?thesis by auto
next
  case (Disconnect i)
  with disconnect_conserves [OF assms(1), of i] assms(2) show ?thesis by auto
qed

interpretation tq: conserving queue_step queue_op_ok wf_queue in_system queue_gain queue_loss
  by unfold_locales (rule queue_step_conserves)

section \<open>Properties\<close>

lemma trySubmission_total: "\<exists>b q'. trySubmission q s = Inr (b, q')"
proof (cases "first_index (\<lambda>(iv, b). b = [] \<and> inv_can iv s) (connected_invokers q)")
  case None
  then show ?thesis by (auto simp: trySubmission_def)
next
  case (Some r)
  with send_total [OF first_index_SomeD [OF Some, THEN conjunct1], of s]
  obtain q' where "sendSubmissionForTesting q s r = Inr q'" by blast
  with Some show ?thesis by (auto simp: trySubmission_def)
qed

lemma tryInvoker_total:
  assumes "r < length (connected_invokers q)"
  shows "\<exists>b q'. tryInvoker q r = Inr (b, q') \<and> (\<not> b \<longrightarrow> q' = q)"
proof (cases "first_index (inv_can (fst (connected_invokers q ! r))) (submission_queue q)")
  case None
  then show ?thesis by (auto simp: tryInvoker_def)
next
  case (Some n)
  with send_total [OF assms, of "submission_queue q ! n"]
  obtain q' where "sendSubmissionForTesting q (submission_queue q ! n) r = Inr q'" by blast
  with Some show ?thesis by (auto simp: tryInvoker_def)
qed

lemma pushSubmission_total: "\<exists>q'. pushSubmission q s = Inr q'"
  using trySubmission_total [of q s] by (auto simp: pushSubmission_def)

lemma connectInvoker_total: "\<exists>q'. connectInvoker q iv = Inr q'"
  using tryInvoker_total [of "length (connected_invokers q)"
      "q\<lparr>connected_invokers := connected_invokers q @ [(iv, [])]\<rparr>"]
  by (auto simp: connectInvoker_def)

lemma findInvokerIndexById_missing:
  "i \<notin> set (inv_ids q) \<Longrightarrow>
     findInvokerIndexById q i = Inl (RuntimeError (''Invoker with ID '' @ i @ '' not found.''))"
  using findInvokerIndexById_ok_iff [of q i]
  by (auto simp: findInvokerIndexById_def split: option.splits)

lemma freeInvoker_total:
  assumes "i \<in> set (inv_ids q)"
  shows "\<exists>q'. freeInvoker q i = Inr q'"
proof -
  from connected_index [OF assms] obtain r where
    r: "findInvokerIndexById q i = Inr r" "r < length (connected_invokers q)" by blast
  with tryInvoker_total [OF r(2)] show ?thesis
    by (auto simp: freeInvoker_def findInvokerById_def Let_def)
qed

text \<open>
  the only operations of the queue that throw are freeing and disconnecting an invoker that is
  not connected, and they throw the \<open>runtime_error\<close> naming the id; pushing a submission and
  connecting an invoker never fail, whatever the state.
\<close>

theorem queue_step_throws_iff:
  "queue_step q a = Inl e \<longleftrightarrow>
     (\<exists>i. a \<in> {Free i, Disconnect i} \<and> i \<notin> set (inv_ids q)
        \<and> e = RuntimeError (''Invoker with ID '' @ i @ '' not found.''))"
proof (cases a)
  case (Push s)
  with pushSubmission_total [of q s] show ?thesis by auto
next
  case (Connect iv)
  with connectInvoker_total [of q iv] show ?thesis by auto
next
  case (Free i)
  show ?thesis
  proof (cases "i \<in> set (inv_ids q)")
    case True
    with freeInvoker_total [OF True] Free show ?thesis by auto
  next
    case False
    with findInvokerIndexById_missing [OF False] Free show ?thesis
      by (auto simp: freeInvoker_def findInvokerById_def)
  qed
next
  case (Disconnect i)
  show ?thesis
  proof (cases "i \<in> set (inv_ids q)")
    case True
    with connected_index [OF True] disconnectInvoker_eq Disconnect show ?thesis by auto
  next
    case False
    with findInvokerIndexById_missing [OF False] Disconnect show ?thesis
      by (auto simp: disconnectInvoker_def)
  qed
qed

text \<open>
  C1: no submission is lost or duplicated.  Over any sequence of operations whose callers push
  non-empty ids, connect fresh invoker ids, and free and disconnect connected ones, nothing throws,
  and the submissions waiting or being tested, with those invokers were freed of, are exactly the
  submissions pushed (as multisets).
\<close>

theorem queue_run_conserves:
  assumes "trace_ok queue_step queue_op_ok initial_queue ops"
  shows "\<exists>q. run_ops queue_step initial_queue ops = Inr q \<and> wf_queue q
    \<and> in_system q + trace_sum queue_step queue_loss initial_queue ops
      = trace_sum queue_step queue_gain initial_queue ops"
  using tq.run_conserves [OF _ assms]
  by (auto simp: initial_queue_def wf_queue_def inv_ids_def in_system_def)

definition sample_invoker :: invoker where
  "sample_invoker = \<lparr>inv_id = ''n1'', inv_channel = [], inv_can = (\<lambda>_. True)\<rparr>"

definition sample_ops :: "queue_op list" where
  "sample_ops = [Push ''a'', Connect sample_invoker, Push ''b'', Free ''n1'', Disconnect ''n1'']"

lemmas queue_eval =
  sample_ops_def sample_invoker_def initial_queue_def pushSubmission_def trySubmission_def
  connectInvoker_def tryInvoker_def freeInvoker_def disconnectInvoker_def findInvokerById_def
  findInvokerIndexById_def sendSubmissionForTesting_def testSubmission_def inv_ids_def Let_def
  busy_of_def in_system_def

theorem queue_run_conserves_witness:
  "\<exists>q. run_ops queue_step initial_queue sample_ops = Inr q \<and> wf_queue q
    \<and> in_system q + {#''a''#} = {#''a'', ''b''#}"
proof -
  have "trace_ok queue_step queue_op_ok initial_queue sample_ops"
    and "trace_sum queue_step queue_loss initial_queue sample_ops = {#''a''#}"
    and "trace_sum queue_step queue_gain initial_queue sample_ops = {#''a'', ''b''#}"
    by (simp_all add: queue_eval)
  with queue_run_conserves [of sample_ops] show ?thesis by simp
qed

text \<open>
  C9: after a push, a free or a connect that its caller may perform, no submission waits while an
  idle invoker that can test it is connected, provided this held before.
\<close>

theorem queue_step_work_conserving:
  assumes "wf_queue q" and "work_conserving q" and "queue_op_ok q a"
    and "a \<notin> range Disconnect"
  shows "\<exists>q'. queue_step q a = Inr q' \<and> work_conserving q'"
proof (cases a)
  case (Push s)
  with assms push_work_conserving push_conserves show ?thesis by fastforce
next
  case (Free i)
  with assms free_work_conserving free_conserves show ?thesis by fastforce
next
  case (Connect iv)
  with assms connect_work_conserving connect_conserves show ?thesis by fastforce
next
  case (Disconnect i)
  with assms(4) show ?thesis by simp
qed

theorem queue_step_work_conserving_witness:
  "\<exists>q'. queue_step initial_queue (Push ''a'') = Inr q' \<and> work_conserving q'"
  by (rule queue_step_work_conserving)
     (auto simp: initial_queue_def wf_queue_def work_conserving_def inv_ids_def)

text \<open>
  a freed invoker is given the first waiting submission it can test, in the order of the
  queue: that submission leaves the queue, the ones before and behind it keep their order, it is
  recorded as the invoker's current one and handed to the invoker's channel.
\<close>

theorem freeInvoker_takes_first_testable:
  assumes "distinct (inv_ids q)" and "findInvokerIndexById q i = Inr r"
    and "submission_queue q = xs @ s # ys"
    and "inv_can (fst (connected_invokers q ! r)) s"
    and "\<forall>x\<in>set xs. \<not> inv_can (fst (connected_invokers q ! r)) x"
  shows "\<exists>q'. freeInvoker q i = Inr q' \<and> submission_queue q' = xs @ ys \<and> busy_of q' i = Some s
    \<and> inv_channel (fst (connected_invokers q' ! r)) =
        inv_channel (fst (connected_invokers q ! r)) @ [s]"
proof -
  note l = findInvokerIndexById_Inr [OF assms(2)]
  have n: "first_index (inv_can (fst (connected_invokers q ! r))) (submission_queue q) = Some (length xs)"
    using assms(3-5) by (auto simp: first_index_Some nth_append)
  have eq: "freeInvoker q i = Inr (take_waiting q r (length xs))"
    using freeInvoker_eq [OF assms(1,2)] n by simp
  let ?q = "take_waiting q r (length xs)"
  have "distinct (inv_ids ?q)" and "r < length (connected_invokers ?q)"
    and "inv_id (fst (connected_invokers ?q ! r)) = i"
    using assms(1) l by (simp_all add: take_waiting_def assign_def inv_ids_def map_list_update_same)
  then have "findInvokerIndexById ?q i = Inr r" by (simp add: findInvokerIndexById_iff)
  from busy_of_nth [OF this] have "busy_of ?q i = Some s"
    using assms(3) l by (simp add: take_waiting_def assign_def)
  with eq show ?thesis
    using assms(3) l by (simp add: take_waiting_def assign_def erase_at_def)
qed

definition busy_sample :: testing_queue where
  "busy_sample =
     \<lparr>submission_queue = [''b'', ''c''],
      connected_invokers =
        [(\<lparr>inv_id = ''n1'', inv_channel = [], inv_can = (\<lambda>s. s \<noteq> ''b'')\<rparr>, ''a''),
         (\<lparr>inv_id = ''n2'', inv_channel = [], inv_can = (\<lambda>s. s \<noteq> ''b'' \<and> s \<noteq> ''c'')\<rparr>, [])]\<rparr>"

theorem freeInvoker_takes_first_testable_witness:
  "\<exists>q'. freeInvoker busy_sample ''n1'' = Inr q' \<and> submission_queue q' = [''b''] @ []
    \<and> busy_of q' ''n1'' = Some ''c''
    \<and> inv_channel (fst (connected_invokers q' ! 0)) =
        inv_channel (fst (connected_invokers busy_sample ! 0)) @ [''c'']"
  by (rule freeInvoker_takes_first_testable)
     (simp_all add: busy_sample_def inv_ids_def findInvokerIndexById_def)

text \<open>
  disconnecting a busy invoker puts its submission at the front of the queue and removes the
  invoker, but offers the submission to nobody: when another connected invoker is idle and could
  test it, the queue is left with a submission waiting for an idle invoker.
\<close>

theorem disconnect_strands_submission:
  assumes "distinct (inv_ids q)" and "findInvokerIndexById q i = Inr r"
    and "snd (connected_invokers q ! r) = b" and "b \<noteq> []"
    and "(iv, []) \<in> set (connected_invokers q)" and "inv_can iv b"
  shows "\<exists>q'. disconnectInvoker q i = Inr q' \<and> submission_queue q' = b # submission_queue q
    \<and> i \<notin> set (inv_ids q') \<and> \<not> work_conserving q'"
proof -
  let ?q = "\<lparr>submission_queue = b # submission_queue q,
             connected_invokers = erase_at r (connected_invokers q)\<rparr>"
  note l = findInvokerIndexById_Inr [OF assms(2)]
  have eq: "disconnectInvoker q i = Inr ?q"
    using disconnectInvoker_eq [OF assms(2)] assms(3,4) by simp
  have "mset (connected_invokers q) =
      add_mset (connected_invokers q ! r) (mset (erase_at r (connected_invokers q)))"
    using l by (simp add: mset_erase_at)
  then have "set (connected_invokers q) =
      insert (connected_invokers q ! r) (set (erase_at r (connected_invokers q)))"
    by (metis list.set(2) mset.simps(2) mset_eq_setD)
  moreover have "connected_invokers q ! r \<noteq> (iv, [])" using assms(3,4) by (metis snd_conv)
  ultimately have "(iv, []) \<in> set (erase_at r (connected_invokers q))" using assms(5) by simp
  with assms(6) have "\<not> work_conserving ?q" by (auto simp: work_conserving_def)
  moreover
  have "i \<notin> set (inv_ids ?q)"
    using set_erase_at [OF assms(1), of r] l by (simp add: inv_ids_def map_erase_at)
  ultimately show ?thesis using eq by simp
qed

theorem disconnect_strands_submission_witness:
  "\<exists>q'. disconnectInvoker busy_sample ''n1'' = Inr q'
    \<and> submission_queue q' = ''a'' # submission_queue busy_sample
    \<and> ''n1'' \<notin> set (inv_ids q') \<and> \<not> work_conserving q'"
  by (rule disconnect_strands_submission
        [where r = 0 and iv = "\<lparr>inv_id = ''n2'', inv_channel = [], inv_can = (\<lambda>s. s \<noteq> ''b'' \<and> s \<noteq> ''c'')\<rparr>"])
     (simp_all add: busy_sample_def inv_ids_def findInvokerIndexById_def)

text \<open>
  invoker ids are not checked for uniqueness.  When two invokers connect with one id and the
  first is busy, a pushed submission goes to the channel of the second while the busy mark of the
  first is overwritten: the queue forgets the first submission and still takes the second invoker
  for idle.
\<close>

theorem duplicate_id_forgets_submission:
  assumes "connected_invokers q = [(x, b), (y, [])]" and "inv_id x = inv_id y" and "b \<noteq> []"
    and "inv_can y s" and "s \<noteq> []"
  shows "\<exists>q'. pushSubmission q s = Inr q'
    \<and> connected_invokers q' = [(x, s), (testSubmission y s, [])]
    \<and> in_system q' + {#b#} = in_system q + {#s#}"
  using assms
  by (simp add: pushSubmission_def trySubmission_def sendSubmissionForTesting_def
      findInvokerIndexById_def Let_def in_system_def)

theorem duplicate_id_forgets_submission_witness:
  "\<exists>q'. pushSubmission \<lparr>submission_queue = [], connected_invokers =
        [(sample_invoker, ''a''), (sample_invoker, [])]\<rparr> ''b'' = Inr q'
    \<and> connected_invokers q' = [(sample_invoker, ''b''), (testSubmission sample_invoker ''b'', [])]
    \<and> in_system q' + {#''a''#} = in_system \<lparr>submission_queue = [], connected_invokers =
        [(sample_invoker, ''a''), (sample_invoker, [])]\<rparr> + {#''b''#}"
  by (rule duplicate_id_forgets_submission) (simp_all add: sample_invoker_def)

end
