(* ===== verification/Dispatcher.thy ===== *)
theory Dispatcher
  imports Testing_Queue Factory
begin

text \<open>
  The dispatcher service around the testing queue:
  \<open>modules/dispatcher/src/{dispatcher_service,submission_managers_storage,send_submission_to_invoker,
  queue_manager_service}.cpp\<close>.

  \<open>handleSubmissionHandler\<close> accepts a submission over gRPC; \<open>connectHandler\<close> runs the session of one
  test node: it opens with a handshake, then a reading and a writing coroutine run until one ends,
  then it disconnects the invoker.  The database query for the problem of a submission and the
  content client's \<open>syncContent\<close> are parameters.  The stream to a node is kept as \<open>wire\<close>, the
  requests written to it and not answered yet; \<open>accepted\<close> and \<open>answered\<close> are history: the
  submissions the service answered OK for and those the nodes answered.
\<close>

section \<open>Submission managers\<close>

datatype submission_manager = SendSubmissionToInvoker string

fun handleSubmission :: "submission_manager \<Rightarrow> testing_queue \<Rightarrow> string \<Rightarrow> testing_queue result" where
  "handleSubmission (SendSubmissionToInvoker problem_id) q submission_id = pushSubmission q submission_id"

type_synonym manager_factory = "(string \<Rightarrow> string \<Rightarrow> submission_manager result) factory"

definition registerSendSubmissionToInvokerType :: "manager_factory \<Rightarrow> manager_factory" where
  "registerSendSubmissionToInvokerType reg =
     registerType reg ''SendSubmissionToInvoker'' (\<lambda>params problem_id. Inr (SendSubmissionToInvoker problem_id))"

type_synonym managers = "string \<rightharpoonup> submission_manager"

definition getSubmissionManager ::
    "manager_factory \<Rightarrow> managers \<Rightarrow> string \<Rightarrow> (submission_manager \<times> managers) result" where
  "getSubmissionManager reg ms problem_id =
     (case ms problem_id of
        Some m \<Rightarrow> Inr (m, ms)
      | None \<Rightarrow>
          rbind (create_parameterized reg ''SendSubmissionToInvoker'' problem_id) (\<lambda>m.
            Inr (m, ms(problem_id \<mapsto> m))))"

section \<open>The service state\<close>

record dispatcher =
  dq :: testing_queue
  managers :: managers
  wire :: "string \<Rightarrow> string list"
  accepted :: "string list"
  answered :: "string list"

definition initial_dispatcher :: dispatcher where
  "initial_dispatcher =
     \<lparr>dq = initial_queue, managers = Map.empty, wire = (\<lambda>_. []), accepted = [], answered = []\<rparr>"

section \<open>Handling a submission\<close>

text \<open>
  The body of the \<open>try\<close> block after the problem is known, and the handler with its \<open>catch\<close>.  The
  managers map keeps a manager that was created before the submission failed.
\<close>

definition handle_known_problem ::
    "manager_factory \<Rightarrow> (string \<Rightarrow> string \<Rightarrow> unit result) \<Rightarrow> dispatcher \<Rightarrow> string \<Rightarrow> string \<Rightarrow> status \<times> dispatcher" where
  "handle_known_problem reg syncContent d submission_id problem_id =
     (case rbind (syncContent ''problem'' problem_id) (\<lambda>_.
             getSubmissionManager reg (managers d) problem_id) of
        Inl e \<Rightarrow> (StatusInternal (what e), d)
      | Inr (m, ms) \<Rightarrow>
          (case handleSubmission m (dq d) submission_id of
             Inl e \<Rightarrow> (StatusInternal (what e), d\<lparr>managers := ms\<rparr>)
           | Inr q \<Rightarrow>
               (StatusOK,
                d\<lparr>managers := ms, dq := q, accepted := accepted d @ [submission_id]\<rparr>)))"

definition handleSubmissionHandler ::
    "manager_factory \<Rightarrow> (string \<Rightarrow> string option result) \<Rightarrow> (string \<Rightarrow> string \<Rightarrow> unit result) \<Rightarrow>
     dispatcher \<Rightarrow> string \<Rightarrow> status \<times> dispatcher" where
  "handleSubmissionHandler reg problemOfSubmission syncContent d submission_id =
     (case problemOfSubmission submission_id of
        Inl e \<Rightarrow> (StatusInternal (what e), d)
      | Inr None \<Rightarrow> (StatusNotFound (''Submission not found: '' @ submission_id), d)
      | Inr (Some problem_id) \<Rightarrow> handle_known_problem reg syncContent d submission_id problem_id)"

section \<open>A test node's session\<close>

datatype client_message =
    Handshake string string
  | TestSubmissionResponse
  | NoMessage

definition connectHandler_open :: "dispatcher \<Rightarrow> client_message \<Rightarrow> (status option \<times> dispatcher) result" where
  "connectHandler_open d m =
     (case m of
        Handshake node_id node_type \<Rightarrow>
          rbind (make_invoker node_id (Some [])) (\<lambda>iv.
          rbind (connectInvoker (dq d) iv) (\<lambda>q. Inr (None, d\<lparr>dq := q\<rparr>)))
      | _ \<Rightarrow> Inr (Some (StatusInvalidArgument ''Handshake message is required''), d))"

text \<open>One round of the reading coroutine: a failed read ends it.\<close>

definition readLoop_step :: "dispatcher \<Rightarrow> string \<Rightarrow> client_message option \<Rightarrow> (bool \<times> dispatcher) result" where
  "readLoop_step d node_id res =
     (case res of
        None \<Rightarrow> Inr (False, d)
      | Some TestSubmissionResponse \<Rightarrow>
          rbind (freeInvoker (dq d) node_id) (\<lambda>q. Inr (True, d\<lparr>dq := q\<rparr>))
      | Some _ \<Rightarrow> Inr (True, d))"

text \<open>
  One round of the writing coroutine; it waits (\<open>None\<close>) while the channel is empty.  The channel is that of
  the coroutine's own invoker, the one at position \<open>r\<close>; nodes are known by their ids otherwise.
\<close>

definition writeLoop_at :: "dispatcher \<Rightarrow> nat \<Rightarrow> dispatcher option" where
  "writeLoop_at d r =
     (case connected_invokers (dq d) ! r of (iv, b) \<Rightarrow>
        (case inv_channel iv of
           [] \<Rightarrow> None
         | s # ss \<Rightarrow> Some
             (d\<lparr>dq := (dq d)\<lparr>connected_invokers :=
                        (connected_invokers (dq d))[r := (iv\<lparr>inv_channel := ss\<rparr>, b)]\<rparr>,
                wire := (wire d)(inv_id iv := wire d (inv_id iv) @ [s])\<rparr>)))"

definition writeLoop_step :: "dispatcher \<Rightarrow> string \<Rightarrow> dispatcher option" where
  "writeLoop_step d node_id =
     (case findInvokerIndexById (dq d) node_id of Inl e \<Rightarrow> None | Inr r \<Rightarrow> writeLoop_at d r)"

lemma writeLoop_step_eq:
  "writeLoop_step d node_id =
     (case findInvokerIndexById (dq d) node_id of
        Inl e \<Rightarrow> None
      | Inr r \<Rightarrow>
          (case connected_invokers (dq d) ! r of (iv, b) \<Rightarrow>
             (case inv_channel iv of
                [] \<Rightarrow> None
              | s # ss \<Rightarrow> Some
                  (d\<lparr>dq := (dq d)\<lparr>connected_invokers :=
                             (connected_invokers (dq d))[r := (iv\<lparr>inv_channel := ss\<rparr>, b)]\<rparr>,
                     wire := (wire d)(node_id := wire d node_id @ [s])\<rparr>))))"
proof (cases "findInvokerIndexById (dq d) node_id")
  case (Inr r)
  then have "inv_id (fst (connected_invokers (dq d) ! r)) = node_id" using findInvokerIndexById_Inr by blast
  with Inr show ?thesis
    by (cases "connected_invokers (dq d) ! r") (auto simp: writeLoop_step_def writeLoop_at_def split: list.split)
qed (simp add: writeLoop_step_def)

definition connectHandler_close :: "dispatcher \<Rightarrow> string \<Rightarrow> (status \<times> dispatcher) result" where
  "connectHandler_close d node_id =
     rbind (disconnectInvoker (dq d) node_id) (\<lambda>q. Inr (StatusOK, d\<lparr>dq := q\<rparr>))"

section \<open>The protocol\<close>

text \<open>
  An answer of a node is noted against the request it was sent first.  The note is history and changes
  nothing the code reads; an answer of a node that was sent nothing is not noted.
\<close>

definition note_answer :: "dispatcher \<Rightarrow> string \<Rightarrow> client_message \<Rightarrow> dispatcher" where
  "note_answer d i m =
     (case wire d i of
        s # ss \<Rightarrow> if m = TestSubmissionResponse then d\<lparr>wire := (wire d)(i := ss), answered := answered d @ [s]\<rparr> else d
      | [] \<Rightarrow> d)"

text \<open>
  The steps of the dispatcher, each with its event: a client submits any id; a node opens a session with
  any message, under any id; the writing coroutine passes a submission on; the reading coroutine receives
  any message; a node leaves.
\<close>

datatype dispatcher_event =
    Submitted string
  | Joined client_message
  | Passed nat
  | Received string client_message
  | Left string

inductive dstep ::
    "manager_factory \<Rightarrow> (string \<Rightarrow> string option result) \<Rightarrow> (string \<Rightarrow> string \<Rightarrow> unit result) \<Rightarrow>
     dispatcher \<Rightarrow> dispatcher_event \<Rightarrow> dispatcher \<Rightarrow> bool"
  for reg :: manager_factory
    and pof :: "string \<Rightarrow> string option result"
    and sync :: "string \<Rightarrow> string \<Rightarrow> unit result"
where
  submit: "handleSubmissionHandler reg pof sync d s = (st, d') \<Longrightarrow> dstep reg pof sync d (Submitted s) d'"
| join: "connectHandler_open d m = Inr (st, d') \<Longrightarrow> dstep reg pof sync d (Joined m) d'"
| pass: "r < length (connected_invokers (dq d)) \<Longrightarrow> writeLoop_at d r = Some d' \<Longrightarrow> dstep reg pof sync d (Passed r) d'"
| receive: "readLoop_step (note_answer d i m) i (Some m) = Inr (go, d') \<Longrightarrow> dstep reg pof sync d (Received i m) d'"
| leave: "readLoop_step d i None = Inr (go, d1) \<Longrightarrow> connectHandler_close d1 i = Inr (st, d2) \<Longrightarrow>
    d' = d2\<lparr>wire := (wire d2)(i := [])\<rparr> \<Longrightarrow> dstep reg pof sync d (Left i) d'"

inductive_cases dstepE: "dstep reg pof sync d a d'"

text \<open>
  The code checks none of the following, which its clients and nodes have to keep to: a submission has
  a non-empty id (the empty one marks an idle invoker), no two connected nodes have one id, and a node
  only answers what it was sent.  \<open>dreach\<close> are the states of the runs in which they do;
  \<open>unsolicited_answer_loses_submission\<close> below and \<open>duplicate_id_forgets_submission\<close> of \<open>Testing_Queue\<close>
  show what happens when they do not.
\<close>

fun orderly_event :: "dispatcher \<Rightarrow> dispatcher_event \<Rightarrow> bool" where
  "orderly_event d (Submitted s) = (s \<noteq> [])"
| "orderly_event d (Joined (Handshake i t)) = (i \<notin> set (inv_ids (dq d)))"
| "orderly_event d (Received i TestSubmissionResponse) = (wire d i \<noteq> [])"
| "orderly_event d _ = True"

definition orderly_step ::
    "manager_factory \<Rightarrow> (string \<Rightarrow> string option result) \<Rightarrow> (string \<Rightarrow> string \<Rightarrow> unit result) \<Rightarrow>
     dispatcher \<Rightarrow> dispatcher \<Rightarrow> bool" where
  "orderly_step reg pof sync d d' \<longleftrightarrow> (\<exists>a. orderly_event d a \<and> dstep reg pof sync d a d')"

abbreviation dreach ::
    "manager_factory \<Rightarrow> (string \<Rightarrow> string option result) \<Rightarrow> (string \<Rightarrow> string \<Rightarrow> unit result) \<Rightarrow>
     dispatcher \<Rightarrow> bool" where
  "dreach reg pof sync d \<equiv> (orderly_step reg pof sync)\<^sup>*\<^sup>* initial_dispatcher d"

section \<open>The invariant of the sessions\<close>

text \<open>
  Of the submission an invoker is busy with, exactly one copy is under way: in the invoker's channel
  or on the wire to its node.  An idle invoker has nothing under way.
\<close>

definition entry_ok :: "(string \<Rightarrow> string list) \<Rightarrow> invoker \<times> string \<Rightarrow> bool" where
  "entry_ok w e \<longleftrightarrow>
     w (inv_id (fst e)) @ inv_channel (fst e) = (if snd e = [] then [] else [snd e])"

definition sessions_ok :: "(string \<Rightarrow> string list) \<Rightarrow> testing_queue \<Rightarrow> bool" where
  "sessions_ok w q \<longleftrightarrow> (\<forall>r<length (connected_invokers q). entry_ok w (connected_invokers q ! r))"

definition dispatcher_inv :: "dispatcher \<Rightarrow> bool" where
  "dispatcher_inv d \<longleftrightarrow>
     wf_queue (dq d) \<and> sessions_ok (wire d) (dq d) \<and>
     (\<forall>i. i \<notin> set (inv_ids (dq d)) \<longrightarrow> wire d i = []) \<and>
     in_system (dq d) + mset (answered d) = mset (accepted d)"

section \<open>Preservation, operation by operation\<close>

lemma inv_ids_nth:
  "r < length (connected_invokers q) \<Longrightarrow> inv_ids q ! r = inv_id (fst (connected_invokers q ! r))"
  by (simp add: inv_ids_def)

lemma other_id:
  assumes "distinct (inv_ids q)" and "r < length (connected_invokers q)"
    and "k < length (connected_invokers q)" and "k \<noteq> r"
  shows "inv_id (fst (connected_invokers q ! k)) \<noteq> inv_id (fst (connected_invokers q ! r))"
  using assms nth_eq_iff_index_eq [OF assms(1), of k r] by (simp add: inv_ids_nth) (simp add: inv_ids_def)

text \<open>Giving a submission to an invoker that has nothing under way.\<close>

lemma sessions_ok_assign:
  assumes "\<forall>k<length (connected_invokers q). k \<noteq> r \<longrightarrow> entry_ok w (connected_invokers q ! k)"
    and "r < length (connected_invokers q)" and "s \<noteq> []"
    and "w (inv_id (fst (connected_invokers q ! r))) = []"
    and "inv_channel (fst (connected_invokers q ! r)) = []"
  shows "sessions_ok w (assign q r s)"
  using assms by (auto simp: sessions_ok_def assign_def nth_list_update entry_ok_def)

lemma sessions_ok_submission_queue [simp]:
  "sessions_ok w (q\<lparr>submission_queue := xs\<rparr>) = sessions_ok w q"
  by (simp add: sessions_ok_def)

lemma entry_ok_idle:
  "entry_ok w (iv, []) \<longleftrightarrow> w (inv_id iv) = [] \<and> inv_channel iv = []"
  by (simp add: entry_ok_def)

lemma entry_okD:
  "entry_ok w e \<Longrightarrow> snd e = [] \<Longrightarrow> w (inv_id (fst e)) = [] \<and> inv_channel (fst e) = []"
  by (simp add: entry_ok_def)

lemma sessions_ok_push:
  assumes "wf_queue q" and "sessions_ok w q" and "s \<noteq> []" and "pushSubmission q s = Inr q'"
  shows "sessions_ok w q'"
proof (cases "first_index (\<lambda>(iv, b). b = [] \<and> inv_can iv s) (connected_invokers q)")
  case None
  with assms show ?thesis by (auto simp: pushSubmission_eq wf_queue_def)
next
  case (Some r)
  note r = first_index_SomeD [OF Some]
  then have l: "r < length (connected_invokers q)" and i: "snd (connected_invokers q ! r) = []"
    by (simp_all add: case_prod_unfold)
  from assms(2) l have "entry_ok w (connected_invokers q ! r)" by (simp add: sessions_ok_def)
  note e = entry_okD [OF this i]
  have "sessions_ok w (assign q r s)"
    by (rule sessions_ok_assign [OF _ l assms(3)]) (use assms(2) e in \<open>auto simp: sessions_ok_def\<close>)
  with Some assms(1,4) show ?thesis by (auto simp: pushSubmission_eq wf_queue_def)
qed

lemma sessions_ok_free:
  assumes "wf_queue q" and "findInvokerIndexById q i = Inr r"
    and "\<forall>k<length (connected_invokers q). k \<noteq> r \<longrightarrow> entry_ok w (connected_invokers q ! k)"
    and "w i = []" and "inv_channel (fst (connected_invokers q ! r)) = []"
    and "freeInvoker q i = Inr q'"
  shows "sessions_ok w q'"
proof -
  have d: "distinct (inv_ids q)" using assms(1) by (simp add: wf_queue_def)
  note l = findInvokerIndexById_Inr [OF assms(2)]
  show ?thesis
  proof (cases "first_index (inv_can (fst (connected_invokers q ! r))) (submission_queue q)")
    case None
    with freeInvoker_eq [OF d assms(2)] assms(3-6) l show ?thesis
      by (auto simp: sessions_ok_def nth_list_update entry_ok_def)
  next
    case (Some n)
    note n = first_index_SomeD [OF Some, THEN conjunct1]
    have "sessions_ok w (assign q r (submission_queue q ! n))"
      by (rule sessions_ok_assign) (use assms(3-5) l wf_waiting_nonempty [OF assms(1) n] in auto)
    with freeInvoker_eq [OF d assms(2)] Some assms(6) show ?thesis by (auto simp: take_waiting_def)
  qed
qed

lemma sessions_ok_connect:
  assumes "wf_queue q" and "sessions_ok w q" and "inv_id iv \<notin> set (inv_ids q)"
    and "inv_channel iv = []" and "w (inv_id iv) = []" and "connectInvoker q iv = Inr q'"
  shows "sessions_ok w q'"
proof -
  define p where "p = q\<lparr>connected_invokers := connected_invokers q @ [(iv, [])]\<rparr>"
  have d: "distinct (inv_ids q)" using assms(1) by (simp add: wf_queue_def)
  note eq = connectInvoker_eq [OF d assms(3), folded p_def]
  have ok: "sessions_ok w p"
    using assms(2,4,5) by (auto simp: p_def sessions_ok_def nth_append less_Suc_eq entry_ok_def)
  show ?thesis
  proof (cases "first_index (inv_can iv) (submission_queue q)")
    case None
    with eq ok assms(6) show ?thesis by (simp add: Let_def)
  next
    case (Some n)
    have n: "submission_queue p ! n \<noteq> []"
      using first_index_SomeD [OF Some] wf_waiting_nonempty [OF assms(1)] by (simp add: p_def)
    have "sessions_ok w (assign p (length (connected_invokers q)) (submission_queue p ! n))"
      by (rule sessions_ok_assign [OF _ _ n]) (use ok assms(4,5) in \<open>auto simp: p_def sessions_ok_def\<close>)
    with eq Some assms(6) show ?thesis by (auto simp: Let_def take_waiting_def)
  qed
qed

lemma sessions_ok_set: "sessions_ok w q \<longleftrightarrow> (\<forall>e\<in>set (connected_invokers q). entry_ok w e)"
  by (auto simp: sessions_ok_def all_set_conv_all_nth)

lemma sessions_ok_disconnect:
  assumes "wf_queue q" and "sessions_ok w q" and "disconnectInvoker q i = Inr q'"
  shows "sessions_ok (w(i := [])) q'"
proof -
  from assms(3) obtain r where r: "findInvokerIndexById q i = Inr r"
    by (auto simp: disconnectInvoker_def rbind_eq_Inr)
  then have "i \<in> set (inv_ids q)" using findInvokerIndexById_ok_iff by blast
  with disconnect_conserves [OF assms(1)] assms(3) have "i \<notin> set (inv_ids q')" by fastforce
  then have "\<forall>e\<in>set (connected_invokers q'). inv_id (fst e) \<noteq> i"
    by (auto simp: inv_ids_def)
  moreover have "set (connected_invokers q') \<subseteq> set (connected_invokers q)"
    using disconnectInvoker_eq [OF r] assms(3) set_erase_at_subset by fastforce
  moreover have "entry_ok (w(i := [])) e" if "entry_ok w e" "inv_id (fst e) \<noteq> i" for e
    using that by (simp add: entry_ok_def)
  ultimately show ?thesis using assms(2) unfolding sessions_ok_set by blast
qed

section \<open>Every step keeps the invariant\<close>

lemma handleSubmissionHandler_cases:
  assumes "handleSubmissionHandler reg pof sync d s = (st, d')"
  obtains (fail) ms where "st \<noteq> StatusOK" "d' = d\<lparr>managers := ms\<rparr>"
  | (ok) ms q where "st = StatusOK" "pushSubmission (dq d) s = Inr q"
      "d' = d\<lparr>managers := ms, dq := q, accepted := accepted d @ [s]\<rparr>"
proof -
  have same: "d = d\<lparr>managers := managers d\<rparr>" by simp
  show thesis
  proof (cases "pof s")
    case (Inl e)
    with assms fail [of "managers d"] show thesis by (auto simp: handleSubmissionHandler_def)
  next
    case (Inr r)
    show thesis
    proof (cases r)
      case None
      with Inr assms fail [of "managers d"] show thesis by (auto simp: handleSubmissionHandler_def)
    next
      case (Some p)
      show thesis
      proof (cases "rbind (sync ''problem'' p) (\<lambda>_. getSubmissionManager reg (managers d) p)")
        case (Inl e)
        with Inr Some assms fail [of "managers d"] \<open>pof s = Inr r\<close> show thesis
          by (auto simp: handleSubmissionHandler_def handle_known_problem_def)
      next
        case m: (Inr x)
        obtain mgr ms where x: "x = (mgr, ms)" by (cases x)
        obtain c where c: "mgr = SendSubmissionToInvoker c" by (cases mgr)
        obtain q where "pushSubmission (dq d) s = Inr q" using pushSubmission_total by blast
        with m x c Some assms ok \<open>pof s = Inr r\<close> show thesis
          by (auto simp: handleSubmissionHandler_def handle_known_problem_def)
      qed
    qed
  qed
qed

lemma inv_submit:
  assumes "dispatcher_inv d" and "s \<noteq> []" and "handleSubmissionHandler reg pof sync d s = (st, d')"
  shows "dispatcher_inv d'"
  using assms(3)
proof (cases rule: handleSubmissionHandler_cases)
  case (fail ms)
  with assms(1) show ?thesis by (simp add: dispatcher_inv_def)
next
  case (ok ms q)
  have wf: "wf_queue (dq d)" using assms(1) by (simp add: dispatcher_inv_def)
  from push_conserves [OF wf assms(2)] ok(2)
  have q: "wf_queue q" "in_system q = add_mset s (in_system (dq d))" "inv_ids q = inv_ids (dq d)" by auto
  have "sessions_ok (wire d) q"
    using sessions_ok_push [OF wf _ assms(2) ok(2)] assms(1) by (simp add: dispatcher_inv_def)
  with assms(1) ok q show ?thesis by (simp add: dispatcher_inv_def)
qed

lemma inv_join:
  assumes "dispatcher_inv d" and "\<forall>i t. m = Handshake i t \<longrightarrow> i \<notin> set (inv_ids (dq d))"
    and "connectHandler_open d m = Inr (st, d')"
  shows "dispatcher_inv d'"
proof (cases m)
  case (Handshake i t)
  define iv where "iv = \<lparr>inv_id = i, inv_channel = [], inv_can = (\<lambda>_. True)\<rparr>"
  from assms(3) Handshake obtain q where q: "connectInvoker (dq d) iv = Inr q" "d' = d\<lparr>dq := q\<rparr>"
    by (auto simp: connectHandler_open_def iv_def rbind_eq_Inr)
  have wf: "wf_queue (dq d)" using assms(1) by (simp add: dispatcher_inv_def)
  have fresh: "inv_id iv \<notin> set (inv_ids (dq d))" using assms(2) Handshake by (simp add: iv_def)
  then have w: "wire d (inv_id iv) = []" using assms(1) by (simp add: dispatcher_inv_def)
  have "sessions_ok (wire d) q"
    by (rule sessions_ok_connect [OF wf _ fresh])
       (use w q(1) assms(1) in \<open>simp_all add: dispatcher_inv_def iv_def\<close>)
  with connect_conserves [OF wf fresh] q assms(1) show ?thesis by (auto simp: dispatcher_inv_def)
qed (use assms in \<open>auto simp: connectHandler_open_def\<close>)

lemma inv_pass:
  assumes "dispatcher_inv d" and "writeLoop_step d i = Some d'"
  shows "dispatcher_inv d'"
proof -
  from assms(2) obtain r iv b s ss where
    r: "findInvokerIndexById (dq d) i = Inr r" "connected_invokers (dq d) ! r = (iv, b)"
      "inv_channel iv = s # ss"
    and d': "d' = d\<lparr>dq := (dq d)\<lparr>connected_invokers :=
                     (connected_invokers (dq d))[r := (iv\<lparr>inv_channel := ss\<rparr>, b)]\<rparr>,
                   wire := (wire d)(i := wire d i @ [s])\<rparr>"
    by (auto simp: writeLoop_step_eq split: sum.splits prod.splits list.splits)
  have d: "distinct (inv_ids (dq d))" using assms(1) by (simp add: dispatcher_inv_def wf_queue_def)
  have l: "r < length (connected_invokers (dq d))" "inv_id iv = i"
    using findInvokerIndexById_Inr [OF r(1)] r(2) by auto
  have ids: "inv_ids (dq d') = inv_ids (dq d)"
    using l r(2) by (simp add: d' inv_ids_def map_list_update_same)
  have "sessions_ok (wire d') (dq d')"
    unfolding sessions_ok_def
  proof (intro allI impI)
    fix k assume "k < length (connected_invokers (dq d'))"
    then have k: "k < length (connected_invokers (dq d))" by (simp add: d')
    from assms(1) k have e: "entry_ok (wire d) (connected_invokers (dq d) ! k)"
      by (simp add: dispatcher_inv_def sessions_ok_def)
    show "entry_ok (wire d') (connected_invokers (dq d') ! k)"
    proof (cases "k = r")
      case True
      with e r(2,3) l show ?thesis by (simp add: d' entry_ok_def split: if_splits)
    next
      case False
      with other_id [OF d l(1) k] r(2) l(2) e show ?thesis by (simp add: d' entry_ok_def)
    qed
  qed
  moreover have "in_system (dq d') = in_system (dq d)"
    using l r(2) by (simp add: d' in_system_def map_list_update_same)
  moreover have "i \<in> set (inv_ids (dq d))"
    using findInvokerIndexById_ok_iff r(1) by blast
  ultimately show ?thesis using assms(1) ids
    by (auto simp: dispatcher_inv_def wf_queue_def) (auto simp: d')
qed

lemma inv_answer:
  assumes "dispatcher_inv d" and "wire d i = s # ss"
    and "readLoop_step (d\<lparr>wire := (wire d)(i := ss), answered := answered d @ [s]\<rparr>) i
      (Some TestSubmissionResponse) = Inr (go, d')"
  shows "dispatcher_inv d'"
proof -
  have inv: "wf_queue (dq d)" "sessions_ok (wire d) (dq d)" using assms(1) by (simp_all add: dispatcher_inv_def)
  have d: "distinct (inv_ids (dq d))" using inv(1) by (simp add: wf_queue_def)
  from assms(1,2) have mem: "i \<in> set (inv_ids (dq d))" by (auto simp: dispatcher_inv_def)
  from connected_index [OF mem] obtain r where
    r: "findInvokerIndexById (dq d) i = Inr r" "r < length (connected_invokers (dq d))"
      "inv_id (fst (connected_invokers (dq d) ! r)) = i"
      "busy_of (dq d) i = Some (snd (connected_invokers (dq d) ! r))" by blast
  from inv(2) r(2) have "entry_ok (wire d) (connected_invokers (dq d) ! r)" by (simp add: sessions_ok_def)
  with assms(2) r(3) have b: "snd (connected_invokers (dq d) ! r) = s" "s \<noteq> []"
    and empty: "ss = []" "inv_channel (fst (connected_invokers (dq d) ! r)) = []"
    by (auto simp: entry_ok_def split: if_splits)
  from assms(3) obtain q where q: "freeInvoker (dq d) i = Inr q"
    and d': "d' = d\<lparr>wire := (wire d)(i := ss), answered := answered d @ [s], dq := q\<rparr>"
    by (auto simp: readLoop_step_def rbind_eq_Inr)
  from free_conserves [OF inv(1) mem] q r(4) b
  have c: "wf_queue q" "add_mset s (in_system q) = in_system (dq d)" "inv_ids q = inv_ids (dq d)" by auto
  have "\<forall>k<length (connected_invokers (dq d)). k \<noteq> r \<longrightarrow>
      entry_ok ((wire d)(i := ss)) (connected_invokers (dq d) ! k)"
    using inv(2) other_id [OF d r(2)] r(3) by (auto simp: sessions_ok_def entry_ok_def)
  then have "sessions_ok ((wire d)(i := ss)) q"
    using sessions_ok_free [OF inv(1) r(1) _ _ empty(2) q] empty(1) by simp
  moreover have "in_system q + mset (answered d @ [s]) = mset (accepted d)"
    using c(2) [symmetric] assms(1) by (simp add: dispatcher_inv_def)
  ultimately show ?thesis using c assms(1) empty(1) by (simp add: dispatcher_inv_def d')
qed

lemma inv_leave:
  assumes "dispatcher_inv d" and "connectHandler_close d i = Inr (st, d2)"
  shows "dispatcher_inv (d2\<lparr>wire := (wire d2)(i := [])\<rparr>)"
proof -
  have inv: "wf_queue (dq d)" "sessions_ok (wire d) (dq d)" using assms(1) by (simp_all add: dispatcher_inv_def)
  from assms(2) obtain q where q: "disconnectInvoker (dq d) i = Inr q" "d2 = d\<lparr>dq := q\<rparr>"
    by (auto simp: connectHandler_close_def rbind_eq_Inr)
  then have "i \<in> set (inv_ids (dq d))"
    using findInvokerIndexById_ok_iff by (auto simp: disconnectInvoker_def rbind_eq_Inr)
  from disconnect_conserves [OF inv(1) this] sessions_ok_disconnect [OF inv q(1)] q assms(1)
  show ?thesis by (auto simp: dispatcher_inv_def)
qed

text \<open>While the ids of the nodes are distinct, the coroutine of a node is known by the id.\<close>

lemma writeLoop_step_at:
  assumes "distinct (inv_ids (dq d))" and "r < length (connected_invokers (dq d))"
  shows "writeLoop_step d (inv_id (fst (connected_invokers (dq d) ! r))) = writeLoop_at d r"
  using findInvokerIndexById_nth [OF assms]
  by (simp add: writeLoop_step_def)

lemma dstep_inv:
  assumes "dstep reg pof sync d a d'" and "orderly_event d a" and "dispatcher_inv d"
  shows "dispatcher_inv d'"
  using assms(1)
proof (cases rule: dstep.cases)
  case (submit s st)
  with assms(2,3) inv_submit show ?thesis by simp
next
  case (join m st)
  with assms(2) have "\<forall>i t. m = Handshake i t \<longrightarrow> i \<notin> set (inv_ids (dq d))" by auto
  with join assms(3) inv_join show ?thesis by blast
next
  case (pass r)
  with assms(3) have "writeLoop_step d (inv_id (fst (connected_invokers (dq d) ! r))) = Some d'"
    by (simp add: writeLoop_step_at dispatcher_inv_def wf_queue_def)
  with assms(3) inv_pass show ?thesis by blast
next
  case (receive i m go)
  show ?thesis
  proof (cases "m = TestSubmissionResponse")
    case True
    with assms(2) receive obtain s ss where "wire d i = s # ss" by (auto simp: neq_Nil_conv)
    with receive True assms(3) inv_answer show ?thesis by (simp add: note_answer_def)
  next
    case False
    then have "note_answer d i m = d" by (simp add: note_answer_def split: list.split)
    with False receive assms(3) show ?thesis by (cases m) (auto simp: readLoop_step_def)
  qed
next
  case (leave i go d1 st d2)
  with assms(3) inv_leave [of d i st d2] show ?thesis by (auto simp: readLoop_step_def)
qed

lemma dreach_inv: "dreach reg pof sync d \<Longrightarrow> dispatcher_inv d"
proof (induction rule: rtranclp_induct)
  case base
  show ?case
    by (simp add: initial_dispatcher_def initial_queue_def dispatcher_inv_def wf_queue_def
        sessions_ok_def inv_ids_def in_system_def)
next
  case (step d d')
  then show ?case using dstep_inv by (auto simp: orderly_step_def)
qed

section \<open>A sample run\<close>

text \<open>A submission arrives, a node joins and the submission is passed on to it.\<close>

definition sample_reg :: manager_factory where
  "sample_reg = registerSendSubmissionToInvokerType Map.empty"

definition sample_pof :: "string \<Rightarrow> string option result" where
  "sample_pof s = Inr (Some ''p'')"

definition sample_sync :: "string \<Rightarrow> string \<Rightarrow> unit result" where
  "sample_sync ty i = Inr ()"

definition sample_node :: invoker where
  "sample_node = \<lparr>inv_id = ''n1'', inv_channel = [], inv_can = (\<lambda>_. True)\<rparr>"

definition sample_state :: "(invoker \<times> string) list \<Rightarrow> string list \<Rightarrow> string list \<Rightarrow> dispatcher" where
  "sample_state cs xs w =
     \<lparr>dq = \<lparr>submission_queue = xs, connected_invokers = cs\<rparr>,
      managers = [''p'' \<mapsto> SendSubmissionToInvoker ''p''],
      wire = (\<lambda>_. [])(''n1'' := w), accepted = [''a''], answered = []\<rparr>"

lemma sample_manager:
  "create_parameterized sample_reg ''SendSubmissionToInvoker'' ''p'' = Inr (SendSubmissionToInvoker ''p'')"
  by (simp add: create_parameterized_def sample_reg_def registerSendSubmissionToInvokerType_def
      registerType_def parseName_def normalizeArgument_def isspace_def Let_def)

lemma const_upd: "(\<lambda>_. c)(i := c) = (\<lambda>_. c)"
  by auto

lemmas sample_eval =
  sample_state_def sample_node_def sample_pof_def sample_sync_def initial_dispatcher_def queue_eval const_upd

lemma sample_submit:
  "handleSubmissionHandler sample_reg sample_pof sample_sync initial_dispatcher ''a'' = (StatusOK, sample_state [] [''a''] [])"
  by (simp add: handleSubmissionHandler_def handle_known_problem_def getSubmissionManager_def sample_manager sample_eval)

lemma sample_join:
  "connectHandler_open (sample_state [] [''a''] []) (Handshake ''n1'' t) =
     Inr (None, sample_state [(sample_node\<lparr>inv_channel := [''a'']\<rparr>, ''a'')] [] [])"
  by (simp add: connectHandler_open_def sample_eval)

lemma sample_pass:
  "writeLoop_step (sample_state [(sample_node\<lparr>inv_channel := [''a'']\<rparr>, ''a'')] [] []) ''n1'' =
     Some (sample_state [(sample_node, ''a'')] [] [''a''])"
  by (simp add: writeLoop_step_eq sample_eval)

lemma sample_pass_at:
  "writeLoop_at (sample_state [(sample_node\<lparr>inv_channel := [''a'']\<rparr>, ''a'')] [] []) 0 =
     Some (sample_state [(sample_node, ''a'')] [] [''a''])"
  by (simp add: writeLoop_at_def sample_eval)

lemma sample_run:
  "dreach sample_reg sample_pof sample_sync (sample_state [(sample_node, ''a'')] [] [''a''])"
proof -
  let ?node = "sample_node\<lparr>inv_channel := [''a'']\<rparr>"
  let ?step = "orderly_step sample_reg sample_pof sample_sync"
  have 1: "?step initial_dispatcher (sample_state [] [''a''] [])"
    unfolding orderly_step_def by (rule exI [of _ "Submitted ''a''"]) (simp add: dstep.submit [OF sample_submit])
  have 2: "?step (sample_state [] [''a''] []) (sample_state [(?node, ''a'')] [] [])"
    unfolding orderly_step_def
    by (rule exI [of _ "Joined (Handshake ''n1'' [])"]) (simp add: dstep.join [OF sample_join], simp add: sample_eval)
  have 3: "?step (sample_state [(?node, ''a'')] [] []) (sample_state [(sample_node, ''a'')] [] [''a''])"
    unfolding orderly_step_def by (rule exI [of _ "Passed 0"]) (use dstep.pass [OF _ sample_pass_at] in \<open>simp add: sample_state_def\<close>)
  from 1 show ?thesis
    by (rule converse_rtranclp_into_rtranclp)
       (rule converse_rtranclp_into_rtranclp [of ?step, OF 2 r_into_rtranclp [of ?step, OF 3]])
qed

section \<open>Properties\<close>

text \<open>
  C2: in every state the dispatcher reaches with clients and nodes that keep to the protocol
  (\<open>orderly_event\<close>), the submissions accepted from clients are exactly those answered by nodes and
  those still in the system, whatever the order of submissions, joins, answers and disconnections.
\<close>

theorem dispatcher_conserves:
  assumes "dreach reg pof sync d"
  shows "mset (accepted d) = in_system (dq d) + mset (answered d)"
  using dreach_inv [OF assms] by (simp add: dispatcher_inv_def)

theorem dispatcher_conserves_witness:
  "mset (accepted (sample_state [(sample_node, ''a'')] [] [''a''])) =
     in_system (dq (sample_state [(sample_node, ''a'')] [] [''a'']))
     + mset (answered (sample_state [(sample_node, ''a'')] [] [''a'']))"
  by (rule dispatcher_conserves [OF sample_run])

text \<open>
  C6: in every state reached in this way an invoker is busy exactly while one submission, the one recorded
  for it, is in its channel or sent to its node and unanswered; a channel never holds more than
  one message, so its capacity of two is never reached and a send never blocks.
\<close>

theorem dispatcher_sessions:
  assumes "dreach reg pof sync d" and "(iv, b) \<in> set (connected_invokers (dq d))"
  shows "wire d (inv_id iv) @ inv_channel iv = (if b = [] then [] else [b])
    \<and> length (inv_channel iv) \<le> 1"
proof -
  have e: "entry_ok (wire d) (iv, b)"
    using dreach_inv [OF assms(1)] assms(2) by (auto simp: dispatcher_inv_def sessions_ok_set)
  then have "length (wire d (inv_id iv) @ inv_channel iv) \<le> 1" by (simp add: entry_ok_def)
  then have "length (inv_channel iv) \<le> 1" unfolding length_append by linarith
  with e show ?thesis by (simp add: entry_ok_def)
qed

theorem dispatcher_sessions_witness:
  "wire (sample_state [(sample_node, ''a'')] [] [''a'']) (inv_id sample_node) @ inv_channel sample_node =
     (if ''a'' = [] then [] else [''a'']) \<and> length (inv_channel sample_node) \<le> 1"
  by (rule dispatcher_sessions [OF sample_run]) (simp add: sample_state_def)

text \<open>
  Without the protocol submissions can be lost.  A node answers before it was sent anything: the
  dispatcher takes it for idle while its channel holds \<open>a\<close>, and when it then leaves, \<open>a\<close> was accepted, is
  not answered and is nowhere in the queue.
\<close>

lemma unsolicited_answer_loses_submission:
  "\<exists>d1 d2. dstep sample_reg sample_pof sample_sync (sample_state [(sample_node\<lparr>inv_channel := [''a'']\<rparr>, ''a'')] [] [])
       (Received ''n1'' TestSubmissionResponse) d1
    \<and> dstep sample_reg sample_pof sample_sync d1 (Left ''n1'') d2
    \<and> accepted d2 = [''a''] \<and> answered d2 = [] \<and> in_system (dq d2) = {#}"
proof -
  let ?d0 = "sample_state [(sample_node\<lparr>inv_channel := [''a'']\<rparr>, ''a'')] [] []"
  let ?d1 = "sample_state [(sample_node\<lparr>inv_channel := [''a'']\<rparr>, [])] [] []"
  have "readLoop_step (note_answer ?d0 ''n1'' TestSubmissionResponse) ''n1'' (Some TestSubmissionResponse) = Inr (True, ?d1)"
    by (simp add: readLoop_step_def note_answer_def sample_eval)
  then have 1: "dstep sample_reg sample_pof sample_sync ?d0 (Received ''n1'' TestSubmissionResponse) ?d1" by (rule dstep.receive)
  have "connectHandler_close ?d1 ''n1'' = Inr (StatusOK, sample_state [] [] [])"
    by (simp add: connectHandler_close_def sample_eval)
  then have 2: "dstep sample_reg sample_pof sample_sync ?d1 (Left ''n1'') ((sample_state [] [] [])\<lparr>wire := (wire (sample_state [] [] []))(''n1'' := [])\<rparr>)"
    by (intro dstep.leave [of _ _ False ?d1 StatusOK "sample_state [] [] []"]) (simp_all add: readLoop_step_def)
  moreover have "accepted ((sample_state [] [] [])\<lparr>wire := (wire (sample_state [] [] []))(''n1'' := [])\<rparr>) = [''a'']"
    "answered ((sample_state [] [] [])\<lparr>wire := (wire (sample_state [] [] []))(''n1'' := [])\<rparr>) = []"
    "in_system (dq ((sample_state [] [] [])\<lparr>wire := (wire (sample_state [] [] []))(''n1'' := [])\<rparr>)) = {#}"
    by (simp_all add: sample_state_def in_system_def)
  ultimately show ?thesis using 1 by blast
qed

text \<open>
  handling a submission answers NOT_FOUND when the database has no problem for it, INTERNAL
  with the message of whatever failed, and OK otherwise; the queue is touched only in the last case,
  and then by one push.
\<close>

theorem handleSubmissionHandler_status:
  "case handleSubmissionHandler reg pof sync d s of
     (StatusOK, d') \<Rightarrow> pushSubmission (dq d) s = Inr (dq d') \<and> (\<exists>p. pof s = Inr (Some p) \<and> sync ''problem'' p = Inr ())
   | (StatusNotFound m, d') \<Rightarrow> d' = d \<and> pof s = Inr None \<and> m = ''Submission not found: '' @ s
   | (StatusInternal m, d') \<Rightarrow> dq d' = dq d
   | _ \<Rightarrow> False"
proof (cases "handleSubmissionHandler reg pof sync d s")
  case (Pair st d')
  from this show ?thesis
  proof (cases rule: handleSubmissionHandler_cases)
    case (fail ms)
    have "st \<noteq> StatusOK \<longrightarrow> (\<exists>m. st = StatusInternal m) \<or>
        (st = StatusNotFound (''Submission not found: '' @ s) \<and> d' = d \<and> pof s = Inr None)"
      using Pair pushSubmission_total [of "dq d" s]
      by (auto simp: handleSubmissionHandler_def handle_known_problem_def split: sum.splits option.splits)
    with fail Pair show ?thesis by auto
  next
    case (ok ms q)
    then have "\<exists>p. pof s = Inr (Some p) \<and> sync ''problem'' p = Inr ()"
      using Pair
      by (auto simp: handleSubmissionHandler_def handle_known_problem_def rbind_eq_Inr
          split: sum.splits option.splits prod.splits)
    with ok Pair show ?thesis by simp
  qed
qed

end
