(* ===== verification/Test_Node.thy ===== *)
theory Test_Node
  imports Test_Tree Dispatcher
begin

text \<open>
  The session of a test node: \<open>modules/test_node/src/{test_storage,queue_manager_service_stub}.cpp\<close>.

  A node keeps the tests it has built.  It opens a session with a handshake, then reads requests, and for
  each brings the submission, runs the test of its problem, brings the results back and answers.  What it
  needs of the database, of the content client and of the disk are operations of a record, over a world
  \<open>'w\<close>; the messages of the dispatcher are a list, after which the stream has ended with a status.
\<close>

section \<open>What a node relies on\<close>

record 'w test_node =
  run_env :: "'w env"
  node_syncContent :: "string \<Rightarrow> string \<Rightarrow> ('w, unit) io"
  node_updateContentOnServer :: "string \<Rightarrow> string \<Rightarrow> ('w, unit) io"
  node_problemOfSubmission :: "string \<Rightarrow> ('w, string option) io"
  node_storeFile :: "string \<Rightarrow> string \<Rightarrow> ('w, unit) io"
  node_load_file :: "'w \<Rightarrow> xml_loader"
  node_moved_from :: "string \<Rightarrow> string"

datatype server_message = TestSubmissionRequest string | OtherServerMessage

text \<open>The state: the tests built so far, the messages written, and the world.\<close>

type_synonym tests = "string \<rightharpoonup> test option"

record 'w session =
  node_tests :: tests
  written :: "client_message list"
  node_world :: 'w

definition on_world :: "('w, 'a) io \<Rightarrow> ('w session, 'a) io" where
  "on_world m s = (case m (node_world s) of (r, w) \<Rightarrow> (r, s\<lparr>node_world := w\<rparr>))"

definition write_message :: "client_message \<Rightarrow> ('w session, unit) io" where
  "write_message m = io_do (\<lambda>s. s\<lparr>written := written s @ [m]\<rparr>)"

section \<open>The storage of tests\<close>

text \<open>The builders a plugin registers; a builder is the value of its \<open>build()\<close>.\<close>

definition problem_builder_factory ::
    "(string \<Rightarrow> string) \<Rightarrow> json \<Rightarrow> xml_loader \<Rightarrow> (string \<Rightarrow> test option result result) factory" where
  "problem_builder_factory moved_from config load_file =
     registerType Map.empty ''DefaultProblemBuilder'' (\<lambda>problem_id. Inr (build moved_from config load_file problem_id))"

definition load_test :: "'w test_node \<Rightarrow> string \<Rightarrow> ('w, test option) io" where
  "load_test node problem_id w =
     (let config = env_config (run_env node); load_file = node_load_file node w in
      (rbind (getProblemBuilderName config load_file problem_id) (\<lambda>name_opt.
       let builder_name = or_default [] name_opt in
       if builder_name = [] then Inr None
       else rbind (create (problem_builder_factory (node_moved_from node) config load_file) builder_name problem_id)
         (\<lambda>built. built)), w))"

definition ensureTestExists :: "'w test_node \<Rightarrow> string \<Rightarrow> ('w session, unit) io" where
  "ensureTestExists node problem_id s =
     (if node_tests s problem_id \<noteq> None then (Inr (), s)
      else io_bind (on_world (node_syncContent node ''problem'' problem_id)) (\<lambda>_.
           io_bind (on_world (load_test node problem_id)) (\<lambda>t.
             io_do (\<lambda>s. s\<lparr>node_tests := (node_tests s)(problem_id \<mapsto> t)\<rparr>))) s)"

text \<open>\<open>tests_[problem_id]\<close>: a problem without an entry has a null test.\<close>

definition getTest :: "'w test_node \<Rightarrow> string \<Rightarrow> ('w session, test option) io" where
  "getTest node problem_id =
     io_bind (ensureTestExists node problem_id) (\<lambda>_.
       io_get (\<lambda>s. case node_tests s problem_id of None \<Rightarrow> None | Some t \<Rightarrow> t))"

section \<open>One submission\<close>

definition error_json :: "string \<Rightarrow> string" where
  "error_json message = ''{'' @ [CHR 0x22] @ ''error'' @ [CHR 0x22] @ '': '' @ [CHR 0x22] @ message @ [CHR 0x22] @ ''}''"

definition failSubmission :: "'w test_node \<Rightarrow> string \<Rightarrow> string \<Rightarrow> ('w, unit) io" where
  "failSubmission node submission_id message =
     io_bind (env_setVerdictType (run_env node) submission_id ''FAIL'') (\<lambda>_.
     io_bind (env_setScore (run_env node) submission_id 0) (\<lambda>_.
     io_bind (io_lift (rbind (getContentDirectory (env_config (run_env node)) ''submission'') required)) (\<lambda>directory.
     io_bind (node_storeFile node (path_append (path_append directory submission_id) ''protocol.json'') (error_json message)) (\<lambda>_.
       node_updateContentOnServer node ''submission'' submission_id))))"

text \<open>The body of the loop between reading a request and writing the answer.\<close>

definition test_submission :: "'w test_node \<Rightarrow> string \<Rightarrow> ('w session, unit) io" where
  "test_submission node submission_id =
     io_bind (on_world (node_problemOfSubmission node submission_id)) (\<lambda>problem_opt.
       case problem_opt of
         None \<Rightarrow> on_world (failSubmission node submission_id ''Submission not found'')
       | Some problem_id \<Rightarrow>
           io_bind (getTest node problem_id) (\<lambda>test_opt.
             case test_opt of
               None \<Rightarrow> on_world (failSubmission node submission_id (''Test not found for problem '' @ problem_id))
             | Some t \<Rightarrow>
                 let boxes = map nat_to_string [0..<boxesRequired t] in
                 io_bind (on_world (node_syncContent node ''submission'' submission_id)) (\<lambda>_.
                 io_bind (on_world (run_test (run_env node) submission_id boxes (JObject []) t)) (\<lambda>_.
                   on_world (node_updateContentOnServer node ''submission'' submission_id)))))"

section \<open>The session\<close>

text \<open>
  The loop.  A read after the end of the stream leaves the message empty, like a message that is no
  request: the call is finished, and its status decides which error is returned.
\<close>

fun serve :: "'w test_node \<Rightarrow> status \<Rightarrow> server_message list \<Rightarrow> ('w session, status + unit) io" where
  "serve node final (TestSubmissionRequest submission_id # ms) s =
     io_bind (test_submission node submission_id) (\<lambda>_.
     io_bind (write_message TestSubmissionResponse) (\<lambda>_. serve node final ms)) s"
| "serve node final ms s =
     io_return (Inl (if final \<noteq> StatusOK then final else StatusInvalidArgument ''Invalid request from queue manager'')) s"

definition connect :: "'w test_node \<Rightarrow> string \<Rightarrow> string \<Rightarrow> status \<Rightarrow> server_message list \<Rightarrow> ('w session, status + unit) io" where
  "connect node test_node_id test_node_type final ms =
     io_bind (write_message (Handshake test_node_id test_node_type)) (\<lambda>_. serve node final ms)"

definition create_queue_manager_stub :: "(string \<Rightarrow> 'channel result) \<Rightarrow> ('channel \<Rightarrow> 'stub) \<Rightarrow> string \<Rightarrow> 'stub result" where
  "create_queue_manager_stub channel_factory make_stub params =
     (let parts = parseParameters params '','' in
      if length parts \<noteq> 1
      then Inl (InvalidArgument ''Expected exactly one parameter for queue_manager_service_stub: channel type'')
      else rbind (channel_factory (normalizeArgument (hd parts) True)) (\<lambda>channel. Inr (make_stub channel)))"

section \<open>What a session writes\<close>

lemma on_world_written [simp]:
  "written (snd (on_world m s)) = written s" "node_tests (snd (on_world m s)) = node_tests s"
  by (simp_all add: on_world_def split: prod.split)

lemma io_bind_keeps:
  assumes "\<And>s. f (snd (m s)) = f s" and "\<And>x s. f (snd (k x s)) = f s"
  shows "f (snd (io_bind m k s)) = f s"
proof (cases "m s")
  case (Pair r s1)
  then have "f s1 = f s" using assms(1) [of s] by simp
  with Pair assms(2) [of _ s1] show ?thesis by (cases r) (simp_all add: io_bind_def)
qed

lemma ensureTestExists_written: "written (snd (ensureTestExists node p s)) = written s"
proof (cases "node_tests s p")
  case None
  have keep: "written (snd (io_bind (on_world (node_syncContent node ''problem'' p)) (\<lambda>_.
           io_bind (on_world (load_test node p)) (\<lambda>t.
             io_do (\<lambda>s. s\<lparr>node_tests := (node_tests s)(p \<mapsto> t)\<rparr>))) s)) = written s"
    by (intro io_bind_keeps on_world_written) (simp add: io_do_def)
  with None show ?thesis by (simp add: ensureTestExists_def)
qed (simp add: ensureTestExists_def)

lemma getTest_written: "written (snd (getTest node p s)) = written s"
  unfolding getTest_def by (intro io_bind_keeps ensureTestExists_written) (simp add: io_get_def)

lemma test_submission_written: "written (snd (test_submission node sub s)) = written s"
proof -
  have tested: "written (snd (io_bind (on_world a) (\<lambda>_. io_bind (on_world b) (\<lambda>_. on_world c)) s)) = written s"
    for a :: "('a, unit) io" and b :: "('a, verdict) io" and c :: "('a, unit) io" and s
    by (intro io_bind_keeps on_world_written)
  show ?thesis unfolding test_submission_def
    by (intro io_bind_keeps on_world_written)
      (auto split: option.split simp: Let_def tested intro!: io_bind_keeps getTest_written)
qed

text \<open>The leading requests of a stream.\<close>

fun requests :: "server_message list \<Rightarrow> string list" where
  "requests (TestSubmissionRequest s # ms) = s # requests ms"
| "requests ms = []"

section \<open>What it means to deal with a submission\<close>

text \<open>
  The three ways a submission is dealt with, each operation returning: a submission the database does
  not know, and one whose problem has no test, is marked as failed; any other is brought to the node,
  tested in as many boxes as its test requires, and its results are brought back.
\<close>

inductive submission_handled :: "'w test_node \<Rightarrow> string \<Rightarrow> 'w session \<Rightarrow> 'w session \<Rightarrow> bool" for node sub where
  unknown: "node_problemOfSubmission node sub (node_world \<sigma>) = (Inr None, w1) \<Longrightarrow>
    failSubmission node sub ''Submission not found'' w1 = (Inr (), w2) \<Longrightarrow>
    submission_handled node sub \<sigma> (\<sigma>\<lparr>node_world := w2\<rparr>)"
| no_test: "node_problemOfSubmission node sub (node_world \<sigma>) = (Inr (Some p), w1) \<Longrightarrow>
    getTest node p (\<sigma>\<lparr>node_world := w1\<rparr>) = (Inr None, \<sigma>1) \<Longrightarrow>
    failSubmission node sub (''Test not found for problem '' @ p) (node_world \<sigma>1) = (Inr (), w2) \<Longrightarrow>
    submission_handled node sub \<sigma> (\<sigma>1\<lparr>node_world := w2\<rparr>)"
| tested: "node_problemOfSubmission node sub (node_world \<sigma>) = (Inr (Some p), w1) \<Longrightarrow>
    getTest node p (\<sigma>\<lparr>node_world := w1\<rparr>) = (Inr (Some t), \<sigma>1) \<Longrightarrow>
    node_syncContent node ''submission'' sub (node_world \<sigma>1) = (Inr (), w2) \<Longrightarrow>
    run_test (run_env node) sub (map nat_to_string [0..<boxesRequired t]) (JObject []) t w2 = (Inr v, w3) \<Longrightarrow>
    node_updateContentOnServer node ''submission'' sub w3 = (Inr (), w4) \<Longrightarrow>
    submission_handled node sub \<sigma> (\<sigma>1\<lparr>node_world := w4\<rparr>)"

lemma io_bind_Inr_iff: "io_bind m k s = (Inr y, u) \<longleftrightarrow> (\<exists>x v. m s = (Inr x, v) \<and> k x v = (Inr y, u))"
  by (auto simp: io_bind_def split: prod.split sum.split)

lemma on_world_Inr_iff: "on_world m \<sigma> = (Inr x, \<tau>) \<longleftrightarrow> (\<exists>w. m (node_world \<sigma>) = (Inr x, w) \<and> \<tau> = \<sigma>\<lparr>node_world := w\<rparr>)"
  by (auto simp: on_world_def split: prod.split)

lemma submission_handled_iff:
  "submission_handled node sub \<sigma> \<tau> \<longleftrightarrow> test_submission node sub \<sigma> = (Inr (), \<tau>)"
proof
  assume "submission_handled node sub \<sigma> \<tau>"
  then show "test_submission node sub \<sigma> = (Inr (), \<tau>)"
    by cases (simp_all add: test_submission_def io_bind_def on_world_def Let_def)
next
  assume "test_submission node sub \<sigma> = (Inr (), \<tau>)"
  then obtain q w1 where q: "node_problemOfSubmission node sub (node_world \<sigma>) = (Inr q, w1)"
    and rest: "(case q of None \<Rightarrow> on_world (failSubmission node sub ''Submission not found'')
       | Some p \<Rightarrow> io_bind (getTest node p) (\<lambda>q. case q of
           None \<Rightarrow> on_world (failSubmission node sub (''Test not found for problem '' @ p))
         | Some t \<Rightarrow> io_bind (on_world (node_syncContent node ''submission'' sub)) (\<lambda>_.
             io_bind (on_world (run_test (run_env node) sub (map nat_to_string [0..<boxesRequired t]) (JObject []) t)) (\<lambda>_.
               on_world (node_updateContentOnServer node ''submission'' sub))))) (\<sigma>\<lparr>node_world := w1\<rparr>) = (Inr (), \<tau>)"
    unfolding test_submission_def Let_def io_bind_Inr_iff [of "on_world _"] on_world_Inr_iff by blast
  show "submission_handled node sub \<sigma> \<tau>"
  proof (cases q)
    case None
    with rest obtain w2 where "failSubmission node sub ''Submission not found'' w1 = (Inr (), w2)" "\<tau> = \<sigma>\<lparr>node_world := w2\<rparr>"
      by (auto simp: on_world_Inr_iff)
    with q None show ?thesis by (auto intro: submission_handled.unknown)
  next
    case (Some p)
    with rest obtain t \<sigma>1 where t: "getTest node p (\<sigma>\<lparr>node_world := w1\<rparr>) = (Inr t, \<sigma>1)"
      and after: "(case t of
           None \<Rightarrow> on_world (failSubmission node sub (''Test not found for problem '' @ p))
         | Some t \<Rightarrow> io_bind (on_world (node_syncContent node ''submission'' sub)) (\<lambda>_.
             io_bind (on_world (run_test (run_env node) sub (map nat_to_string [0..<boxesRequired t]) (JObject []) t)) (\<lambda>_.
               on_world (node_updateContentOnServer node ''submission'' sub)))) \<sigma>1 = (Inr (), \<tau>)"
      unfolding Some option.case io_bind_Inr_iff [of "getTest node p"] by blast
    show ?thesis
    proof (cases t)
      case None
      with after obtain w2 where "failSubmission node sub (''Test not found for problem '' @ p) (node_world \<sigma>1) = (Inr (), w2)"
        "\<tau> = \<sigma>1\<lparr>node_world := w2\<rparr>" by (auto simp: on_world_Inr_iff)
      with q Some t None show ?thesis by (auto intro: submission_handled.no_test)
    next
      case test: (Some u)
      with after obtain w2 v w3 w4 where "node_syncContent node ''submission'' sub (node_world \<sigma>1) = (Inr (), w2)"
        "run_test (run_env node) sub (map nat_to_string [0..<boxesRequired u]) (JObject []) u w2 = (Inr v, w3)"
        "node_updateContentOnServer node ''submission'' sub w3 = (Inr (), w4)" "\<tau> = \<sigma>1\<lparr>node_world := w4\<rparr>"
        by (auto simp: io_bind_Inr_iff on_world_Inr_iff simp del: run_test.simps)
      with q Some t test show ?thesis by (auto intro: submission_handled.tested simp del: run_test.simps)
    qed
  qed
qed

text \<open>The states between the requests a session deals with.\<close>

abbreviation answered_states :: "'w test_node \<Rightarrow> string list \<Rightarrow> nat \<Rightarrow> 'w session list \<Rightarrow> bool" where
  "answered_states node subs k \<sigma>s \<equiv> \<forall>j<k. \<exists>\<tau>. submission_handled node (subs ! j) (\<sigma>s ! j) \<tau>
     \<and> \<sigma>s ! Suc j = \<tau>\<lparr>written := written \<tau> @ [TestSubmissionResponse]\<rparr>"

lemma serve_trace:
  assumes "serve node final ms s = (r, s')"
  shows "\<exists>k \<sigma>s. k \<le> length (requests ms) \<and> length \<sigma>s = Suc k \<and> \<sigma>s ! 0 = s
    \<and> answered_states node (requests ms) k \<sigma>s
    \<and> written s' = written s @ replicate k TestSubmissionResponse
    \<and> (if k = length (requests ms)
       then s' = \<sigma>s ! k \<and> r = Inr (Inl (if final \<noteq> StatusOK then final else StatusInvalidArgument ''Invalid request from queue manager''))
       else \<exists>e. r = Inl e \<and> test_submission node (requests ms ! k) (\<sigma>s ! k) = (Inl e, s'))"
  using assms
proof (induction node final ms s rule: serve.induct)
  case (1 node final sub ms s)
  obtain q v where v: "test_submission node sub s = (q, v)" by fastforce
  have same: "written v = written s" using test_submission_written [of node sub s] v by simp
  show ?case
  proof (cases q)
    case (Inl e)
    then have "r = Inl e" "s' = v" using "1.prems" v by (simp_all add: io_bind_def)
    with same v Inl show ?thesis by (intro exI [of _ 0] exI [of _ "[s]"]) simp
  next
    case (Inr u)
    let ?v = "v\<lparr>written := written v @ [TestSubmissionResponse]\<rparr>"
    have "serve node final ms ?v = (r, s')"
      using "1.prems" v Inr by (simp add: io_bind_def write_message_def io_do_def)
    moreover have run: "test_submission node sub s = (Inr u, v)" "write_message TestSubmissionResponse v = (Inr (), ?v)"
      using v Inr by (simp_all add: write_message_def io_do_def)
    ultimately obtain k \<sigma>s where k: "k \<le> length (requests ms)" "length \<sigma>s = Suc k" "\<sigma>s ! 0 = ?v"
      "answered_states node (requests ms) k \<sigma>s" "written s' = written ?v @ replicate k TestSubmissionResponse"
      "if k = length (requests ms)
       then s' = \<sigma>s ! k \<and> r = Inr (Inl (if final \<noteq> StatusOK then final else StatusInvalidArgument ''Invalid request from queue manager''))
       else \<exists>e. r = Inl e \<and> test_submission node (requests ms ! k) (\<sigma>s ! k) = (Inl e, s')"
      using "1.IH" by blast
    have "submission_handled node sub s v" using run(1) by (simp add: submission_handled_iff)
    with k(3,4) have "answered_states node (requests (TestSubmissionRequest sub # ms)) (Suc k) (s # \<sigma>s)"
      by (auto simp: All_less_Suc2)
    moreover have "written s' = written s @ replicate (Suc k) TestSubmissionResponse" using k(5) same by simp
    ultimately show ?thesis using k(1,2,6) by (intro exI [of _ "Suc k"] exI [of _ "s # \<sigma>s"]) simp
  qed
qed (auto simp: io_return_def intro!: exI [of _ 0] exI [of _ "[_]"])

section \<open>A node\<close>

text \<open>A node whose database knows every submission but \<open>bad\<close>, asking for which fails, and no test of any problem.\<close>

definition sample_run_env :: "(string \<times> string) list env" where
  "sample_run_env =
     \<lparr>env_config = JObject [(''directories'', JObject [(''problems'', JString ''/p''), (''submissions'', JString ''/s'')])],
      env_system = (\<lambda>c w. (0, w)), env_lines = (\<lambda>p w. []), env_write = (\<lambda>p x w. (p, x) # w),
      env_language = (\<lambda>s. io_return (Some ''cpp'')), env_setScore = (\<lambda>s x. io_return True),
      env_setVerdictType = (\<lambda>s v. io_return True), env_dump = (\<lambda>j. ''{}'')\<rparr>"

definition sample_test_node :: "(string \<times> string) list test_node" where
  "sample_test_node =
     \<lparr>run_env = sample_run_env, node_syncContent = (\<lambda>t c. io_return ()), node_updateContentOnServer = (\<lambda>t c. io_return ()),
      node_problemOfSubmission = (\<lambda>s. io_lift (if s = ''bad'' then Inl (RuntimeError ''no connection'') else Inr (Some ''p''))),
      node_storeFile = (\<lambda>p x. io_do (\<lambda>w. (p, x) # w)), node_load_file = (\<lambda>w p. None), node_moved_from = (\<lambda>s. s)\<rparr>"

definition sample_session :: "(string \<times> string) list session" where
  "sample_session = \<lparr>node_tests = Map.empty, written = [], node_world = []\<rparr>"

text \<open>
  C14: a session answers every request once, in order, up to the first that throws.  Whatever the stream
  brings, there is a number \<open>k\<close> of leading requests the session deals with, each in one of the three
  ways of \<open>submission_handled\<close> and from the state the one before left, and it writes its handshake and
  \<open>k\<close> answers.  Either these are all the requests: then the session ends with an error of the call, the
  status of the stream, or \<open>INVALID_ARGUMENT\<close> when the stream ended well.  Or the next request is one
  that cannot be dealt with, and the session throws what testing it threw.
\<close>

theorem session_answers_requests:
  assumes "connect node i ty final ms s = (r, s')" and "written s = []"
  shows "\<exists>k \<sigma>s. k \<le> length (requests ms) \<and> length \<sigma>s = Suc k \<and> \<sigma>s ! 0 = s\<lparr>written := [Handshake i ty]\<rparr>
    \<and> (\<forall>j<k. \<exists>\<tau>. submission_handled node (requests ms ! j) (\<sigma>s ! j) \<tau>
         \<and> \<sigma>s ! Suc j = \<tau>\<lparr>written := written \<tau> @ [TestSubmissionResponse]\<rparr>)
    \<and> written s' = Handshake i ty # replicate k TestSubmissionResponse
    \<and> (if k = length (requests ms)
       then s' = \<sigma>s ! k \<and> r = Inr (Inl (if final \<noteq> StatusOK then final else StatusInvalidArgument ''Invalid request from queue manager''))
       else (\<nexists>\<tau>. submission_handled node (requests ms ! k) (\<sigma>s ! k) \<tau>)
         \<and> (\<exists>e. r = Inl e \<and> test_submission node (requests ms ! k) (\<sigma>s ! k) = (Inl e, s')))"
proof -
  from assms have "serve node final ms (s\<lparr>written := [Handshake i ty]\<rparr>) = (r, s')"
    by (simp add: connect_def io_bind_def write_message_def io_do_def)
  from serve_trace [OF this] obtain k \<sigma>s where k: "k \<le> length (requests ms)" "length \<sigma>s = Suc k"
    "\<sigma>s ! 0 = s\<lparr>written := [Handshake i ty]\<rparr>" "answered_states node (requests ms) k \<sigma>s"
    "written s' = Handshake i ty # replicate k TestSubmissionResponse"
    "if k = length (requests ms)
     then s' = \<sigma>s ! k \<and> r = Inr (Inl (if final \<noteq> StatusOK then final else StatusInvalidArgument ''Invalid request from queue manager''))
     else \<exists>e. r = Inl e \<and> test_submission node (requests ms ! k) (\<sigma>s ! k) = (Inl e, s')" by auto
  then show ?thesis
    by (intro exI [of _ k] exI [of _ \<sigma>s]) (auto simp: submission_handled_iff split: if_splits)
qed

text \<open>A node that has the test of problem \<open>p\<close>, over the world in which a checker judges.\<close>

definition judging_node :: "string list test_node" where
  "judging_node =
     \<lparr>run_env = judging_env, node_syncContent = (\<lambda>t c. io_do (\<lambda>w. w @ [''sync''])),
      node_updateContentOnServer = (\<lambda>t c. io_do (\<lambda>w. w @ [''update''])),
      node_problemOfSubmission = (\<lambda>s. io_lift (if s = ''bad'' then Inl (RuntimeError ''no connection'') else Inr (Some ''p''))),
      node_storeFile = (\<lambda>p x. io_return ()), node_load_file = (\<lambda>w p. None), node_moved_from = (\<lambda>s. s)\<rparr>"

definition judging_session :: "string list session" where
  "judging_session =
     \<lparr>node_tests = [''p'' \<mapsto> Some (Testset ''main'' 1 2 3 (VerdictBuilderMin ''main'' (make_verdict ''main''))
        [SingleTest ''1'' ''i'' ''a''])], written = [], node_world = []\<rparr>"

lemma judging_node_tests:
  "\<exists>c \<tau>. test_submission judging_node ''x'' (judging_session\<lparr>written := ms\<rparr>) = (Inr (), \<tau>) \<and> written \<tau> = ms
    \<and> node_world \<tau> = [''sync'', c, ''/s/check.sh a 0 1'', ''update'']"
proof -
  obtain c where c: "run_test judging_env ''x'' [''0'', ''1''] sample_params (SingleTest ''1'' ''i'' ''a'') [''sync''] =
     (Inr (sample_ok ''1''), [''sync'', c, ''/s/check.sh a 0 1''])"
    using judging_single(1) [of "''x''" "''1''" "''i''" "[''sync'']"] by (auto simp del: run_test.simps)
  have boxes: "map nat_to_string [0..<2] = [''0'', ''1'']" by code_simp
  show ?thesis
    by (simp add: test_submission_def judging_node_def judging_session_def io_simps on_world_def getTest_def
        ensureTestExists_def Let_def boxes enough_boxes_def sample_limits c builder_simps del: run_test.simps(1))
qed

theorem session_answers_requests_witness:
  "\<exists>c s'. connect judging_node ''n'' ''t'' StatusOK (map TestSubmissionRequest [''x'', ''bad'', ''y'']) judging_session =
      (Inl (RuntimeError ''no connection''), s')
    \<and> written s' = [Handshake ''n'' ''t'', TestSubmissionResponse]
    \<and> node_world s' = [''sync'', c, ''/s/check.sh a 0 1'', ''update'']"
proof -
  let ?ms = "map TestSubmissionRequest [''x'', ''bad'', ''y'']"
  obtain r s' where run: "connect judging_node ''n'' ''t'' StatusOK ?ms judging_session = (r, s')" by fastforce
  have "written judging_session = []" by (simp add: judging_session_def)
  moreover have three: "requests ?ms = [''x'', ''bad'', ''y'']" by simp
  ultimately obtain k \<sigma>s where k: "k \<le> length [''x'', ''bad'', ''y'']"
    "\<sigma>s ! 0 = judging_session\<lparr>written := [Handshake ''n'' ''t'']\<rparr>"
    "answered_states judging_node [''x'', ''bad'', ''y''] k \<sigma>s"
    "written s' = Handshake ''n'' ''t'' # replicate k TestSubmissionResponse"
    "if k = length [''x'', ''bad'', ''y'']
       then s' = \<sigma>s ! k \<and> r = Inr (Inl (if StatusOK \<noteq> StatusOK then StatusOK else StatusInvalidArgument ''Invalid request from queue manager''))
       else (\<nexists>\<tau>. submission_handled judging_node ([''x'', ''bad'', ''y''] ! k) (\<sigma>s ! k) \<tau>)
         \<and> (\<exists>e. r = Inl e \<and> test_submission judging_node ([''x'', ''bad'', ''y''] ! k) (\<sigma>s ! k) = (Inl e, s'))"
    using session_answers_requests [OF run, unfolded three] by blast
  obtain c \<tau> where x: "test_submission judging_node ''x'' (\<sigma>s ! 0) = (Inr (), \<tau>)"
    "node_world \<tau> = [''sync'', c, ''/s/check.sh a 0 1'', ''update'']" using judging_node_tests unfolding k(2) by blast
  have bad: "test_submission judging_node ''bad'' \<sigma> = (Inl (RuntimeError ''no connection''), \<sigma>)" for \<sigma>
    by (simp add: test_submission_def judging_node_def io_simps on_world_def)
  have stopped: "k \<noteq> 3 \<longrightarrow> (\<nexists>\<tau>. submission_handled judging_node ([''x'', ''bad'', ''y''] ! k) (\<sigma>s ! k) \<tau>)
       \<and> (\<exists>e. r = Inl e \<and> test_submission judging_node ([''x'', ''bad'', ''y''] ! k) (\<sigma>s ! k) = (Inl e, s'))"
    using k(5) by (simp split: if_splits)
  have "k \<noteq> 0"
  proof
    assume "k = 0"
    with stopped x(1) show False by (simp add: submission_handled_iff)
  qed
  moreover have "k < 2"
  proof (rule ccontr)
    assume "\<not> k < 2"
    then have "1 < k" by simp
    with k(3) have "\<exists>\<tau>. submission_handled judging_node ([''x'', ''bad'', ''y''] ! 1) (\<sigma>s ! 1) \<tau>" by blast
    then show False by (simp add: submission_handled_iff bad)
  qed
  ultimately have "k = 1" by simp
  with k(3) x(1) have next_state: "\<sigma>s ! 1 = \<tau>\<lparr>written := written \<tau> @ [TestSubmissionResponse]\<rparr>"
    by (simp add: submission_handled_iff)
  from stopped \<open>k = 1\<close> obtain e where "r = Inl e" "test_submission judging_node ''bad'' (\<sigma>s ! 1) = (Inl e, s')" by auto
  then have "r = Inl (RuntimeError ''no connection'')" "s' = \<sigma>s ! 1" by (simp_all add: bad)
  with next_state run k(4) \<open>k = 1\<close> x(2) show ?thesis by auto
qed

section \<open>A submission that cannot be tested\<close>

text \<open>
  C16: a submission that throws goes from node to node.  Let \<open>s\<close> be the next submission of a dispatcher, and
  let testing it throw on a node.  When the node joins it is sent \<open>s\<close>, its session throws with nothing written but
  the handshake, and when the dispatcher notices that it left, the queue is as it was: \<open>s\<close> is the next
  submission for the next node.
\<close>

theorem failing_submission_stays_first:
  assumes "submission_queue (dq d) = s # rest" and "s \<noteq> []" and "distinct (inv_ids (dq d))" and "i \<notin> set (inv_ids (dq d))"
    and "wire d i = []" and "written n = []"
    and "fst (test_submission node s (n\<lparr>written := [Handshake i ty]\<rparr>)) = Inl e"
  shows "\<exists>d1 d2 d3 n'. connectHandler_open d (Handshake i ty) = Inr (None, d1) \<and> writeLoop_step d1 i = Some d2 \<and> wire d2 i = [s]
    \<and> connect node i ty final (map TestSubmissionRequest (wire d2 i)) n = (Inl e, n') \<and> written n' = [Handshake i ty]
    \<and> connectHandler_close d2 i = Inr (StatusOK, d3) \<and> dq d3 = dq d"
proof -
  let ?iv = "\<lparr>inv_id = i, inv_channel = [], inv_can = (\<lambda>_. True)\<rparr>" and ?cs = "connected_invokers (dq d)"
  let ?q1 = "(dq d)\<lparr>connected_invokers := ?cs @ [(?iv\<lparr>inv_channel := [s]\<rparr>, s)], submission_queue := rest\<rparr>"
  let ?q2 = "(dq d)\<lparr>connected_invokers := ?cs @ [(?iv, s)], submission_queue := rest\<rparr>"
  have "connectInvoker (dq d) ?iv = Inr ?q1"
    using connectInvoker_eq [of "dq d" ?iv] assms(1,3,4)
    by (simp add: Let_def take_waiting_def assign_def testSubmission_def)
  then have opened: "connectHandler_open d (Handshake i ty) = Inr (None, d\<lparr>dq := ?q1\<rparr>)"
    by (simp add: connectHandler_open_def)
  have find: "findInvokerIndexById q i = Inr (length ?cs)"
    if "connected_invokers q = ?cs @ [(iv, b)]" "inv_id iv = i" for q iv b
  proof -
    have "distinct (inv_ids q)" "length ?cs < length (connected_invokers q)" using assms(3,4) that by (simp_all add: inv_ids_def)
    from findInvokerIndexById_nth [OF this] that show ?thesis by simp
  qed
  let ?d2 = "d\<lparr>dq := ?q2, wire := (wire d)(i := [s])\<rparr>"
  have passed: "writeLoop_step (d\<lparr>dq := ?q1\<rparr>) i = Some ?d2"
    using find [of ?q1 "?iv\<lparr>inv_channel := [s]\<rparr>" s] assms(5) by (simp add: writeLoop_step_eq)
  obtain n' where n': "test_submission node s (n\<lparr>written := [Handshake i ty]\<rparr>) = (Inl e, n')" using assms(7) by (metis prod.collapse)
  have served: "connect node i ty final (map TestSubmissionRequest (wire ?d2 i)) n = (Inl e, n')"
    using n' assms(6) by (simp add: connect_def io_bind_def write_message_def io_do_def)
  have "written n' = [Handshake i ty]" using test_submission_written [of node s "n\<lparr>written := [Handshake i ty]\<rparr>"] n' by simp
  moreover have "connectHandler_close ?d2 i = Inr (StatusOK, ?d2\<lparr>dq := dq d\<rparr>)"
    using disconnectInvoker_eq [OF find [of ?q2 ?iv s]] assms(1,2)
    by (simp add: connectHandler_close_def erase_at_def)
  ultimately show ?thesis using opened passed served
    by (intro exI [of _ "d\<lparr>dq := ?q1\<rparr>"] exI [of _ ?d2] exI [of _ "?d2\<lparr>dq := dq d\<rparr>"] exI [of _ n']) simp
qed

theorem failing_submission_stays_first_witness:
  "\<exists>d3 :: dispatcher. dq d3 = \<lparr>submission_queue = [''bad'', ''x''], connected_invokers = []\<rparr>
    \<and> (\<exists>n' e. connect sample_test_node ''n'' ''t'' StatusOK [TestSubmissionRequest ''bad''] sample_session = (Inl e, n'))"
proof -
  let ?d = "initial_dispatcher\<lparr>dq := \<lparr>submission_queue = [''bad'', ''x''], connected_invokers = []\<rparr>\<rparr>"
  have start: "submission_queue (dq ?d) = ''bad'' # [''x'']" "''bad'' \<noteq> []" "distinct (inv_ids (dq ?d))" "''n'' \<notin> set (inv_ids (dq ?d))"
    "wire ?d ''n'' = []" "written sample_session = []"
    by (simp_all add: initial_dispatcher_def inv_ids_def sample_session_def)
  have "fst (test_submission sample_test_node ''bad'' (sample_session\<lparr>written := [Handshake ''n'' ''t'']\<rparr>)) = Inl (RuntimeError ''no connection'')"
    by code_simp
  from failing_submission_stays_first [OF start this, of StatusOK] obtain d2 d3 :: dispatcher and n' where
    d3: "dq d3 = dq ?d" "wire d2 ''n'' = [''bad'']"
    "connect sample_test_node ''n'' ''t'' StatusOK (map TestSubmissionRequest (wire d2 ''n'')) sample_session = (Inl (RuntimeError ''no connection''), n')"
    by blast
  then show ?thesis by (intro exI [of _ d3]) simp
qed

section \<open>The storage of tests\<close>

lemma ensureTestExists_stores:
  assumes "ensureTestExists node p s = (Inr (), v)"
  shows "node_tests v p \<noteq> None"
proof (cases "node_tests s p")
  case None
  then have run: "io_bind (on_world (node_syncContent node ''problem'' p)) (\<lambda>_.
           io_bind (on_world (load_test node p)) (\<lambda>t.
             io_do (\<lambda>s. s\<lparr>node_tests := (node_tests s)(p \<mapsto> t)\<rparr>))) s = (Inr (), v)"
    using assms unfolding ensureTestExists_def by simp
  show ?thesis
    by (rule io_bind_InrE [OF run], erule io_bind_InrE) (auto simp: io_do_def)
next
  case (Some x)
  with assms show ?thesis by (simp add: ensureTestExists_def)
qed

lemma getTest_Some: "node_tests s p = Some t \<Longrightarrow> getTest node p s = (Inr t, s)"
  by (simp add: getTest_def ensureTestExists_def io_bind_def io_get_def)

text \<open>
  a test is loaded once.  After a call for a problem has returned, with a test or without one, every later
  call for it returns the same and does nothing else, whatever has become of the world and of the files
  of the problem meanwhile.
\<close>

theorem getTest_once:
  assumes "getTest node p s = (Inr t, s1)" and "node_tests s2 p = node_tests s1 p"
  shows "getTest node p s2 = (Inr t, s2)"
proof -
  obtain v where v: "ensureTestExists node p s = (Inr (), v)"
    "io_get (\<lambda>s. case node_tests s p of None \<Rightarrow> None | Some t \<Rightarrow> t) v = (Inr t, s1)"
    using assms(1) unfolding getTest_def by (rule io_bind_InrE) (metis old.unit.exhaust)
  then obtain x where x: "node_tests v p = Some x" using ensureTestExists_stores by blast
  then have "t = x" "s1 = v" using v(2) by (simp_all add: io_get_def)
  with x assms(2) show ?thesis using getTest_Some by metis
qed

theorem getTest_once_witness:
  "getTest sample_test_node ''p'' (snd (getTest sample_test_node ''p'' sample_session)\<lparr>node_world := [(''/p/p/problem.xml'', ''<problem/>'')]\<rparr>)
    = (Inr None, snd (getTest sample_test_node ''p'' sample_session)\<lparr>node_world := [(''/p/p/problem.xml'', ''<problem/>'')]\<rparr>)"
proof -
  have "fst (getTest sample_test_node ''p'' sample_session) = Inr None" by code_simp
  then have run: "getTest sample_test_node ''p'' sample_session = (Inr None, snd (getTest sample_test_node ''p'' sample_session))"
    by (metis prod.collapse)
  show ?thesis by (rule getTest_once [OF run]) simp
qed

end
