(* ===== verification/Judge.thy ===== *)
theory Judge
  imports Test_Node
begin

text \<open>
  The judge as a whole: the dispatcher of \<open>modules/dispatcher\<close>, the nodes of \<open>modules/test_node\<close> that are
  connected to it, and the two directions of the stream between them.

  A node's stream is \<open>inbox\<close>, the requests the writing coroutine of the dispatcher has sent and the node has not
  read, and \<open>outbox\<close>, the messages the node has written and the reading coroutine has not read.  The database,
  the content and the disks are the world \<open>'w\<close>, which others change too.  Each step is one round of one
  coroutine, the unit between two suspensions at the queue or the stream: the dispatcher and the nodes run
  concurrently, so a run is any order of the steps.
\<close>

section \<open>State and steps\<close>

record 'w judge_env =
  registered :: manager_factory
  problem_of :: "'w \<Rightarrow> string \<Rightarrow> string option result"
  fetch_problem :: "'w \<Rightarrow> string \<Rightarrow> string \<Rightarrow> unit result"
  node_at :: "string \<Rightarrow> 'w test_node"

record 'w judge =
  server :: dispatcher
  inbox :: "string \<Rightarrow> string list"
  outbox :: "string \<Rightarrow> client_message list"
  loaded :: "string \<Rightarrow> tests"
  world :: 'w

definition initial_judge :: "'w \<Rightarrow> 'w judge" where
  "initial_judge w = \<lparr>server = initial_dispatcher, inbox = (\<lambda>_. []), outbox = (\<lambda>_. []), loaded = (\<lambda>_. Map.empty), world = w\<rparr>"

text \<open>The session of node \<open>i\<close>: what it has loaded, what it has written, and the world.\<close>

definition session_of :: "'w judge \<Rightarrow> string \<Rightarrow> 'w session" where
  "session_of J i = \<lparr>node_tests = loaded J i, written = outbox J i, node_world = world J\<rparr>"

definition set_session :: "'w judge \<Rightarrow> string \<Rightarrow> 'w session \<Rightarrow> 'w judge" where
  "set_session J i s = J\<lparr>loaded := (loaded J)(i := node_tests s), outbox := (outbox J)(i := written s), world := node_world s\<rparr>"

text \<open>The body of the node's loop: a request is tested and answered.\<close>

definition handle_request :: "'w test_node \<Rightarrow> string \<Rightarrow> ('w session, unit) io" where
  "handle_request node submission_id = io_bind (test_submission node submission_id) (\<lambda>_. write_message TestSubmissionResponse)"

lemma serve_request:
  "serve node final (TestSubmissionRequest s # ms) v = io_bind (handle_request node s) (\<lambda>_. serve node final ms) v"
  by (simp add: handle_request_def io_bind_assoc)

text \<open>The stream of \<open>i\<close> is gone: the dispatcher's reading coroutine fails, and the session is closed.\<close>

definition drop_node :: "dispatcher \<Rightarrow> string \<Rightarrow> dispatcher result" where
  "drop_node d i = rbind (connectHandler_close d i) (\<lambda>(st, d'). Inr (d'\<lparr>wire := (wire d')(i := [])\<rparr>))"

text \<open>
  The events.  Clients and nodes keep to the protocol here, as in \<open>orderly_event\<close>: a submission has a non-empty
  id and no two connected nodes have one; that a node answers only what it was sent is what its own steps show.
\<close>

datatype event =
    Submit string
  | Join string string
  | Pass string
  | Test string
  | Read string
  | Crash string
  | Leave string
  | Outside

inductive jstep :: "'w judge_env \<Rightarrow> 'w judge \<Rightarrow> event \<Rightarrow> 'w judge \<Rightarrow> bool" for E :: "'w judge_env" where
  submit: "s \<noteq> [] \<Longrightarrow>
    handleSubmissionHandler (registered E) (problem_of E (world J)) (fetch_problem E (world J)) (server J) s = (st, d) \<Longrightarrow>
    jstep E J (Submit s) (J\<lparr>server := d\<rparr>)"
| join: "i \<notin> set (inv_ids (dq (server J))) \<Longrightarrow> connectHandler_open (server J) (Handshake i ty) = Inr (None, d) \<Longrightarrow>
    jstep E J (Join i ty)
      (J\<lparr>server := d, inbox := (inbox J)(i := []), outbox := (outbox J)(i := []), loaded := (loaded J)(i := Map.empty)\<rparr>)"
| pass: "writeLoop_step (server J) i = Some d \<Longrightarrow> last (wire d i) = s \<Longrightarrow>
    jstep E J (Pass i) (J\<lparr>server := d, inbox := (inbox J)(i := inbox J i @ [s])\<rparr>)"
| test: "inbox J i = s # ss \<Longrightarrow> handle_request (node_at E i) s (session_of J i) = (Inr (), v) \<Longrightarrow>
    jstep E J (Test i) (set_session (J\<lparr>inbox := (inbox J)(i := ss)\<rparr>) i v)"
| read: "outbox J i = m # ms \<Longrightarrow> readLoop_step (note_answer (server J) i m) i (Some m) = Inr (go, d) \<Longrightarrow>
    jstep E J (Read i) (J\<lparr>server := d, outbox := (outbox J)(i := ms)\<rparr>)"
| crash: "inbox J i = s # ss \<Longrightarrow> handle_request (node_at E i) s (session_of J i) = (Inl e, v) \<Longrightarrow> drop_node (server J) i = Inr d \<Longrightarrow>
    jstep E J (Crash i) (J\<lparr>server := d, inbox := (inbox J)(i := []), outbox := (outbox J)(i := []), world := node_world v\<rparr>)"
| leave: "drop_node (server J) i = Inr d \<Longrightarrow>
    jstep E J (Leave i) (J\<lparr>server := d, inbox := (inbox J)(i := []), outbox := (outbox J)(i := [])\<rparr>)"
| outside: "jstep E J Outside (J\<lparr>world := w\<rparr>)"

inductive_cases jstep_submitE: "jstep E J (Submit s) J'"
inductive_cases jstep_joinE: "jstep E J (Join i ty) J'"
inductive_cases jstep_passE: "jstep E J (Pass i) J'"
inductive_cases jstep_testE: "jstep E J (Test i) J'"
inductive_cases jstep_readE: "jstep E J (Read i) J'"
inductive_cases jstep_crashE: "jstep E J (Crash i) J'"
inductive_cases jstep_leaveE: "jstep E J (Leave i) J'"
inductive_cases jstep_outsideE: "jstep E J Outside J'"

inductive jrun :: "'w judge_env \<Rightarrow> 'w judge \<Rightarrow> event list \<Rightarrow> 'w judge \<Rightarrow> bool" for E :: "'w judge_env" where
  stop: "jrun E J [] J"
| go: "jstep E J a K \<Longrightarrow> jrun E K as L \<Longrightarrow> jrun E J (a # as) L"

inductive_cases jrun_NilE: "jrun E J [] L"
inductive_cases jrun_ConsE: "jrun E J (a # as) L"

text \<open>The steps the judge takes by itself, and those by which a node is lost.\<close>

fun internal :: "event \<Rightarrow> bool" where
  "internal (Pass i) = True" | "internal (Test i) = True" | "internal (Read i) = True" | "internal _ = False"

fun loses_node :: "event \<Rightarrow> bool" where
  "loses_node (Crash i) = True" | "loses_node (Leave i) = True" | "loses_node _ = False"

text \<open>The steps a coroutine that is not waiting for others can take: a test that is due may also throw.\<close>

fun due :: "event \<Rightarrow> bool" where
  "due (Crash i) = True" | "due a = internal a"

lemma internal_keeps: "internal a \<Longrightarrow> \<not> loses_node a"
  by (cases a) simp_all

section \<open>The invariant\<close>

text \<open>
  The streams agree with what the dispatcher knows: of the requests it sent and has no answer for, the first are answered
  in the \<open>outbox\<close>, the others wait in the \<open>inbox\<close>, and a node writes nothing but answers.
\<close>

definition streams_ok :: "'w judge \<Rightarrow> bool" where
  "streams_ok J \<longleftrightarrow> (\<forall>i. set (outbox J i) \<subseteq> {TestSubmissionResponse} \<and>
     (\<exists>ts. length ts = length (outbox J i) \<and> wire (server J) i = ts @ inbox J i))"

definition takes_any :: "testing_queue \<Rightarrow> bool" where
  "takes_any q \<longleftrightarrow> (\<forall>e\<in>set (connected_invokers q). inv_can (fst e) = (\<lambda>_. True))"

definition judge_inv :: "'w judge \<Rightarrow> bool" where
  "judge_inv J \<longleftrightarrow> dispatcher_inv (server J) \<and> streams_ok J \<and> takes_any (dq (server J))"

lemma judge_inv_world [simp]: "judge_inv (J\<lparr>world := w\<rparr>) = judge_inv J"
  by (simp add: judge_inv_def streams_ok_def)

lemma takes_any_nth: "takes_any q \<longleftrightarrow> (\<forall>r<length (connected_invokers q). inv_can (fst (connected_invokers q ! r)) = (\<lambda>_. True))"
  by (simp only: takes_any_def all_set_conv_all_nth)

lemma takes_any_queue [simp]: "takes_any (q\<lparr>submission_queue := xs\<rparr>) = takes_any q"
  by (simp add: takes_any_def)

lemma takes_any_assign: "takes_any q \<Longrightarrow> r < length (connected_invokers q) \<Longrightarrow> takes_any (assign q r s)"
  by (auto simp: takes_any_nth assign_def nth_list_update)

lemma takes_any_take: "takes_any q \<Longrightarrow> r < length (connected_invokers q) \<Longrightarrow> takes_any (take_waiting q r n)"
  by (simp add: take_waiting_def takes_any_assign)

lemma takes_any_push:
  assumes "wf_queue q" and "takes_any q" and "pushSubmission q s = Inr q'"
  shows "takes_any q'"
  using assms takes_any_assign [OF assms(2)]
  by (auto simp: pushSubmission_eq wf_queue_def split: option.splits dest: first_index_SomeD)

lemma takes_any_free:
  assumes "wf_queue q" and "takes_any q" and "freeInvoker q i = Inr q'"
  shows "takes_any q'"
proof -
  from assms(3) obtain r where r: "findInvokerIndexById q i = Inr r"
    by (auto simp: freeInvoker_def findInvokerById_def rbind_eq_Inr)
  note l = findInvokerIndexById_Inr [OF r, THEN conjunct1]
  have "takes_any (q\<lparr>connected_invokers := (connected_invokers q)[r := (fst (connected_invokers q ! r), [])]\<rparr>)"
    using assms(2) l by (auto simp: takes_any_nth nth_list_update)
  with assms freeInvoker_eq [OF _ r] takes_any_take [OF assms(2) l] show ?thesis
    by (auto simp: wf_queue_def split: option.splits)
qed

lemma takes_any_connect:
  assumes "wf_queue q" and "takes_any q" and "inv_can iv = (\<lambda>_. True)" and "inv_id iv \<notin> set (inv_ids q)"
    and "connectInvoker q iv = Inr q'"
  shows "takes_any q'"
proof -
  let ?p = "q\<lparr>connected_invokers := connected_invokers q @ [(iv, [])]\<rparr>"
  have p: "takes_any ?p" using assms(2,3) by (simp add: takes_any_def)
  have "takes_any (take_waiting ?p (length (connected_invokers q)) n)" for n by (rule takes_any_take [OF p]) simp
  with p assms connectInvoker_eq [of q iv] show ?thesis
    by (auto simp: wf_queue_def Let_def split: option.splits)
qed

lemma takes_any_disconnect:
  assumes "takes_any q" and "disconnectInvoker q i = Inr q'"
  shows "takes_any q'"
proof -
  from assms(2) obtain r where r: "findInvokerIndexById q i = Inr r" by (auto simp: disconnectInvoker_def rbind_eq_Inr)
  from disconnectInvoker_eq [OF r] assms set_erase_at_subset [of r "connected_invokers q"] show ?thesis
    by (auto simp: takes_any_def)
qed


section \<open>Every step keeps it\<close>

lemma pass_closed:
  assumes "writeLoop_step d i = Some d'"
  shows "wire d' = (wire d)(i := wire d i @ [last (wire d' i)])" and "accepted d' = accepted d" and "answered d' = answered d"
    and "inv_ids (dq d') = inv_ids (dq d)" and "i \<in> set (inv_ids (dq d))"
    and "submission_queue (dq d') = submission_queue (dq d)"
    and "map (\<lambda>e. (inv_can (fst e), snd e)) (connected_invokers (dq d')) = map (\<lambda>e. (inv_can (fst e), snd e)) (connected_invokers (dq d))"
proof -
  from assms obtain r iv b s ss where r: "findInvokerIndexById (dq d) i = Inr r" "connected_invokers (dq d) ! r = (iv, b)"
    and d': "d' = d\<lparr>dq := (dq d)\<lparr>connected_invokers := (connected_invokers (dq d))[r := (iv\<lparr>inv_channel := ss\<rparr>, b)]\<rparr>,
                   wire := (wire d)(i := wire d i @ [s])\<rparr>"
    by (auto simp: writeLoop_step_eq split: sum.splits prod.splits list.splits)
  note l = findInvokerIndexById_Inr [OF r(1)]
  show "wire d' = (wire d)(i := wire d i @ [last (wire d' i)])" "accepted d' = accepted d" "answered d' = answered d"
    "submission_queue (dq d') = submission_queue (dq d)" by (simp_all add: d')
  show "inv_ids (dq d') = inv_ids (dq d)" using l r(2) by (simp add: d' inv_ids_def map_list_update_same)
  show "i \<in> set (inv_ids (dq d))" using findInvokerIndexById_ok_iff r(1) by blast
  show "map (\<lambda>e. (inv_can (fst e), snd e)) (connected_invokers (dq d')) = map (\<lambda>e. (inv_can (fst e), snd e)) (connected_invokers (dq d))"
    using l r(2) by (simp add: d' map_list_update_same)
qed

lemma takes_any_map: "takes_any q \<longleftrightarrow> (\<forall>x\<in>set (map (\<lambda>e. (inv_can (fst e), snd e)) (connected_invokers q)). fst x = (\<lambda>_. True))"
  by (auto simp: takes_any_def)

lemma work_conserving_map:
  "work_conserving q \<longleftrightarrow> (\<forall>s\<in>set (submission_queue q).
     \<forall>x\<in>set (map (\<lambda>e. (inv_can (fst e), snd e)) (connected_invokers q)). snd x = [] \<longrightarrow> \<not> fst x s)"
  by (simp add: work_conserving_def case_prod_unfold)

text \<open>Reading an answer: the stream agrees with the dispatcher, so the request it answers is the one on the wire.\<close>

lemma read_closed:
  assumes "judge_inv J" and "outbox J i = m # ms"
  obtains t ts where "m = TestSubmissionResponse" and "wire (server J) i = t # ts" and "length ts = length ms + length (inbox J i)"
    and "\<exists>us. length us = length ms \<and> ts = us @ inbox J i"
    and "i \<in> set (inv_ids (dq (server J)))"
    and "note_answer (server J) i m = (server J)\<lparr>wire := (wire (server J))(i := ts), answered := answered (server J) @ [t]\<rparr>"
proof -
  have "streams_ok J" using assms(1) by (simp add: judge_inv_def)
  then obtain us where us: "length us = length (outbox J i)" "wire (server J) i = us @ inbox J i"
    and "set (outbox J i) \<subseteq> {TestSubmissionResponse}" unfolding streams_ok_def by blast
  then have m: "m = TestSubmissionResponse" using assms(2) by simp
  then obtain t vs where vs: "us = t # vs" "length vs = length ms" using us(1) assms(2) by (cases us) auto
  have "i \<in> set (inv_ids (dq (server J)))"
    using assms(1) us(2) vs(1) by (auto simp: judge_inv_def dispatcher_inv_def)
  then show thesis using that [of t "vs @ inbox J i"] us m vs by (auto simp: note_answer_def)
qed

lemma freed:
  assumes "readLoop_step d i (Some TestSubmissionResponse) = Inr (go, d')"
  shows "freeInvoker (dq d) i = Inr (dq d')" and "d' = d\<lparr>dq := dq d'\<rparr>"
  using assms by (auto simp: readLoop_step_def rbind_eq_Inr)

lemma streams_okI:
  assumes "streams_ok J" and "\<And>k. k \<noteq> i \<Longrightarrow> outbox J' k = outbox J k \<and> inbox J' k = inbox J k \<and> wire (server J') k = wire (server J) k"
    and "set (outbox J' i) \<subseteq> {TestSubmissionResponse}"
    and "\<exists>ts. length ts = length (outbox J' i) \<and> wire (server J') i = ts @ inbox J' i"
  shows "streams_ok J'"
  unfolding streams_ok_def
proof
  fix k
  show "set (outbox J' k) \<subseteq> {TestSubmissionResponse} \<and>
     (\<exists>ts. length ts = length (outbox J' k) \<and> wire (server J') k = ts @ inbox J' k)"
    using assms by (cases "k = i") (auto simp: streams_ok_def)
qed

lemma inv_pass_step:
  assumes "judge_inv J" and "jstep E J (Pass i) J'"
  shows "judge_inv J'"
  using assms(2)
proof (cases rule: jstep.cases)
  case (pass d s)
  note closed = pass_closed [OF pass(2)]
  have w: "wire d i = wire (server J) i @ [s]"
    using closed(1) pass(3) by (metis fun_upd_same)
  have "streams_ok J'"
  proof (rule streams_okI [where i = i])
    show "streams_ok J" using assms(1) by (simp add: judge_inv_def)
    show "outbox J' k = outbox J k \<and> inbox J' k = inbox J k \<and> wire (server J') k = wire (server J) k" if "k \<noteq> i" for k
      using that closed(1) pass(1) by (simp add: fun_upd_def) metis
    show "set (outbox J' i) \<subseteq> {TestSubmissionResponse}"
      using assms(1) pass(1) by (simp add: judge_inv_def streams_ok_def)
    show "\<exists>ts. length ts = length (outbox J' i) \<and> wire (server J') i = ts @ inbox J' i"
      using assms(1) pass(1) w by (fastforce simp: judge_inv_def streams_ok_def)
  qed
  with assms(1) pass inv_pass [OF _ pass(2)] closed(7) show ?thesis
    by (simp add: judge_inv_def takes_any_map)
qed

lemma handle_request_writes:
  assumes "handle_request node s v = (Inr (), v')"
  shows "written v' = written v @ [TestSubmissionResponse]"
proof -
  obtain u where "test_submission node s v = (Inr (), u)" "write_message TestSubmissionResponse u = (Inr (), v')"
    using assms unfolding handle_request_def by (rule io_bind_InrE) simp
  then show ?thesis using test_submission_written [of node s v] by (auto simp: write_message_def io_do_def)
qed

lemma inv_test_step:
  assumes "judge_inv J" and "jstep E J (Test i) J'"
  shows "judge_inv J'"
  using assms(2)
proof (cases rule: jstep.cases)
  case (test s ss v)
  have out: "written v = outbox J i @ [TestSubmissionResponse]"
    using handle_request_writes [OF test(3)] by (simp add: session_of_def)
  have "streams_ok J'"
  proof (rule streams_okI [where i = i])
    show "streams_ok J" using assms(1) by (simp add: judge_inv_def)
    show "outbox J' k = outbox J k \<and> inbox J' k = inbox J k \<and> wire (server J') k = wire (server J) k" if "k \<noteq> i" for k
      using that test(1) by (simp add: set_session_def)
    show "set (outbox J' i) \<subseteq> {TestSubmissionResponse}"
      using assms(1) test(1) out by (simp add: judge_inv_def streams_ok_def set_session_def)
    from assms(1) obtain ts where "length ts = length (outbox J i)" "wire (server J) i = ts @ s # ss"
      using test(2) by (fastforce simp: judge_inv_def streams_ok_def)
    then show "\<exists>ts. length ts = length (outbox J' i) \<and> wire (server J') i = ts @ inbox J' i"
      using test(1) out by (intro exI [of _ "ts @ [s]"]) (simp add: set_session_def)
  qed
  with assms(1) test(1) show ?thesis by (simp add: judge_inv_def set_session_def)
qed

lemma inv_read_step:
  assumes "judge_inv J" and "jstep E J (Read i) J'"
  shows "judge_inv J'"
  using assms(2)
proof (cases rule: jstep.cases)
  case (read m ms go d)
  from assms(1) read(2) obtain t ts where t: "m = TestSubmissionResponse" "wire (server J) i = t # ts"
    "\<exists>us. length us = length ms \<and> ts = us @ inbox J i"
    "note_answer (server J) i m = (server J)\<lparr>wire := (wire (server J))(i := ts), answered := answered (server J) @ [t]\<rparr>"
    by (rule read_closed)
  have inv: "dispatcher_inv (server J)" using assms(1) by (simp add: judge_inv_def)
  note step = read(3) [unfolded t(4), unfolded t(1)]
  have d: "dispatcher_inv d" using inv_answer [OF inv t(2) step] .
  have "wire d = (wire (server J))(i := ts)" by (subst freed(2) [OF step]) simp
  note w = this
  have "streams_ok J'"
  proof (rule streams_okI [where i = i])
    show "streams_ok J" using assms(1) by (simp add: judge_inv_def)
    show "outbox J' k = outbox J k \<and> inbox J' k = inbox J k \<and> wire (server J') k = wire (server J) k" if "k \<noteq> i" for k
      using that w read(1) by simp
    have "set (outbox J i) \<subseteq> {TestSubmissionResponse}" using assms(1) by (simp add: judge_inv_def streams_ok_def)
    then show "set (outbox J' i) \<subseteq> {TestSubmissionResponse}" using read(1,2) by simp
    show "\<exists>ts. length ts = length (outbox J' i) \<and> wire (server J') i = ts @ inbox J' i"
      using t(3) w read(1) by simp
  qed
  moreover have "takes_any (dq d)"
    using takes_any_free [of "dq (server J)" i "dq d"] freed(1) [OF step] assms(1) by (simp add: judge_inv_def dispatcher_inv_def)
  ultimately show ?thesis using d read(1) by (simp add: judge_inv_def)
qed


text \<open>A node that is gone has nothing under way, whether it left or was never there.\<close>

lemma streams_empty:
  assumes "judge_inv J" and "i \<notin> set (inv_ids (dq (server J)))"
  shows "inbox J i = []" and "outbox J i = []" and "wire (server J) i = []"
proof -
  show w: "wire (server J) i = []" using assms by (simp add: judge_inv_def dispatcher_inv_def)
  have "streams_ok J" using assms(1) by (simp add: judge_inv_def)
  then obtain ts where "length ts = length (outbox J i)" "wire (server J) i = ts @ inbox J i" unfolding streams_ok_def by blast
  with w show "inbox J i = []" "outbox J i = []" by simp_all
qed

lemma inv_drop:
  assumes "judge_inv J" and "drop_node (server J) i = Inr d"
  shows "judge_inv (J\<lparr>server := d, inbox := (inbox J)(i := []), outbox := (outbox J)(i := [])\<rparr>)" (is "judge_inv ?J")
    and "accepted d = accepted (server J) \<and> answered d = answered (server J)"
proof -
  from assms(2) obtain st d' where closed: "connectHandler_close (server J) i = Inr (st, d')" "d = d'\<lparr>wire := (wire d')(i := [])\<rparr>"
    by (auto simp: drop_node_def rbind_eq_Inr)
  from closed(1) obtain q where q: "disconnectInvoker (dq (server J)) i = Inr q" "d' = (server J)\<lparr>dq := q\<rparr>"
    by (auto simp: connectHandler_close_def rbind_eq_Inr)
  have inv: "dispatcher_inv (server J)" using assms(1) by (simp add: judge_inv_def)
  have "streams_ok ?J"
    by (rule streams_okI [where i = i and J = J]) (use assms(1) closed(2) q(2) in \<open>simp_all add: judge_inv_def\<close>)
  moreover have "takes_any (dq d)"
    using takes_any_disconnect [OF _ q(1)] assms(1) closed(2) q(2) by (simp add: judge_inv_def)
  ultimately show "judge_inv ?J" using inv_leave [OF inv closed(1)] closed(2) by (simp add: judge_inv_def)
  show "accepted d = accepted (server J) \<and> answered d = answered (server J)" using closed(2) q(2) by simp
qed

lemma inv_submit_step:
  assumes "judge_inv J" and "jstep E J (Submit s) J'"
  shows "judge_inv J'" and "work_conserving (dq (server J)) \<Longrightarrow> work_conserving (dq (server J'))"
proof -
  from assms(2) obtain st d where s: "s \<noteq> []" "J' = J\<lparr>server := d\<rparr>"
    and h: "handleSubmissionHandler (registered E) (problem_of E (world J)) (fetch_problem E (world J)) (server J) s = (st, d)"
    by (rule jstep_submitE) blast
  have inv: "dispatcher_inv (server J)" using assms(1) by (simp add: judge_inv_def)
  then have wf: "wf_queue (dq (server J))" by (simp add: dispatcher_inv_def)
  have "wire d = wire (server J) \<and> takes_any (dq d) \<and> (work_conserving (dq (server J)) \<longrightarrow> work_conserving (dq d))"
    using h
  proof (cases rule: handleSubmissionHandler_cases)
    case (fail ms)
    then show ?thesis using assms(1) by (simp add: judge_inv_def)
  next
    case (ok ms q)
    then show ?thesis
      using takes_any_push [OF wf _ ok(2)] push_work_conserving [OF wf _ s(1) ok(2)] assms(1) by (simp add: judge_inv_def)
  qed
  moreover from this have "streams_ok J'" using assms(1) s(2) by (simp add: judge_inv_def streams_ok_def)
  ultimately show "judge_inv J'" "work_conserving (dq (server J)) \<Longrightarrow> work_conserving (dq (server J'))"
    using inv_submit [OF inv s(1) h] s(2) by (simp_all add: judge_inv_def)
qed

lemma inv_join_step:
  assumes "judge_inv J" and "jstep E J (Join i ty) J'"
  shows "judge_inv J'" and "work_conserving (dq (server J)) \<Longrightarrow> work_conserving (dq (server J'))"
proof -
  from assms(2) obtain d where i: "i \<notin> set (inv_ids (dq (server J)))" and
    h: "connectHandler_open (server J) (Handshake i ty) = Inr (None, d)" and
    J': "J' = J\<lparr>server := d, inbox := (inbox J)(i := []), outbox := (outbox J)(i := []), loaded := (loaded J)(i := Map.empty)\<rparr>"
    by (rule jstep_joinE) blast
  have inv: "dispatcher_inv (server J)" using assms(1) by (simp add: judge_inv_def)
  then have wf: "wf_queue (dq (server J))" by (simp add: dispatcher_inv_def)
  let ?iv = "\<lparr>inv_id = i, inv_channel = [], inv_can = (\<lambda>_. True)\<rparr>"
  from h obtain q where q: "connectInvoker (dq (server J)) ?iv = Inr q" "d = (server J)\<lparr>dq := q\<rparr>"
    by (auto simp: connectHandler_open_def rbind_eq_Inr)
  have "streams_ok J'"
    by (rule streams_okI [where i = i and J = J])
      (use assms(1) J' q(2) streams_empty(3) [OF assms(1) i] in \<open>simp_all add: judge_inv_def\<close>)
  moreover have "dispatcher_inv d" by (rule inv_join [OF inv _ h]) (use i in simp)
  moreover have "takes_any q" using takes_any_connect [OF wf _ _ _ q(1)] i assms(1) by (simp add: judge_inv_def)
  ultimately show "judge_inv J'" using J' q(2) by (simp add: judge_inv_def)
  show "work_conserving (dq (server J'))" if "work_conserving (dq (server J))"
    using connect_work_conserving [OF wf that _ q(1)] i J' q(2) by simp
qed

lemma judge_step_inv:
  assumes "jstep E J a J'" and "judge_inv J"
  shows "judge_inv J'"
proof (cases a)
  case (Crash i)
  with assms(1) have "jstep E J (Crash i) J'" by simp
  then obtain d w where d: "drop_node (server J) i = Inr d"
    "J' = J\<lparr>server := d, inbox := (inbox J)(i := []), outbox := (outbox J)(i := []), world := w\<rparr>"
    by (rule jstep_crashE) blast
  have "J' = J\<lparr>server := d, inbox := (inbox J)(i := []), outbox := (outbox J)(i := [])\<rparr>\<lparr>world := w\<rparr>" using d(2) by simp
  with inv_drop(1) [OF assms(2) d(1)] show ?thesis by (simp only: judge_inv_world)
next
  case (Leave i)
  with assms(1) obtain d where d: "drop_node (server J) i = Inr d"
    "J' = J\<lparr>server := d, inbox := (inbox J)(i := []), outbox := (outbox J)(i := [])\<rparr>" by (auto elim: jstep_leaveE)
  from inv_drop(1) [OF assms(2) d(1)] d(2) show ?thesis by simp
next
  case Outside
  with assms show ?thesis by (auto elim!: jstep_outsideE)
next
  case (Submit s)
  with assms show ?thesis by (auto dest: inv_submit_step(1))
next
  case (Join i ty)
  with assms show ?thesis by (auto dest: inv_join_step(1))
next
  case (Pass i)
  with assms show ?thesis by (auto dest: inv_pass_step)
next
  case (Test i)
  with assms show ?thesis by (auto dest: inv_test_step)
next
  case (Read i)
  with assms show ?thesis by (auto dest: inv_read_step)
qed

lemma judge_step_conserving:
  assumes "jstep E J a J'" and "judge_inv J" and "\<not> loses_node a" and "work_conserving (dq (server J))"
  shows "work_conserving (dq (server J'))"
proof (cases a)
  case (Submit s)
  with assms inv_submit_step(2) show ?thesis by blast
next
  case (Join i ty)
  with assms inv_join_step(2) show ?thesis by blast
next
  case (Pass i)
  with assms(1) obtain d where d: "writeLoop_step (server J) i = Some d" "server J' = d" by (auto elim: jstep_passE)
  note closed = pass_closed(6,7) [OF d(1)]
  from assms(4) show ?thesis unfolding work_conserving_map d(2) closed .
next
  case (Test i)
  with assms(1,4) show ?thesis by (auto elim!: jstep_testE simp: set_session_def)
next
  case (Read i)
  with assms(1) obtain m ms go d where read: "outbox J i = m # ms" "readLoop_step (note_answer (server J) i m) i (Some m) = Inr (go, d)"
    "server J' = d" by (auto elim: jstep_readE)
  from assms(2) read(1) obtain t ts where t: "m = TestSubmissionResponse"
    "note_answer (server J) i m = (server J)\<lparr>wire := (wire (server J))(i := ts), answered := answered (server J) @ [t]\<rparr>"
    by (rule read_closed)
  have "freeInvoker (dq (server J)) i = Inr (dq d)" using freed(1) [OF read(2) [unfolded t(2), unfolded t(1)]] by simp
  from free_work_conserving [OF _ assms(4) this] assms(2) read(3) show ?thesis by (simp add: judge_inv_def dispatcher_inv_def)
next
  case Outside
  with assms(1,4) show ?thesis by (auto elim: jstep_outsideE)
qed (use assms(3) in simp_all)

lemma judge_run_inv: "jrun E J as J' \<Longrightarrow> judge_inv J \<Longrightarrow> judge_inv J'"
  by (induction rule: jrun.induct) (auto dest: judge_step_inv)

lemma judge_run_conserving:
  assumes "jrun E J as J'" and "judge_inv J" and "\<forall>a\<in>set as. \<not> loses_node a" and "work_conserving (dq (server J))"
  shows "work_conserving (dq (server J'))"
  using assms
proof (induction rule: jrun.induct)
  case (go J a K as L)
  from go.IH [OF judge_step_inv [OF go.hyps(1) go.prems(1)]] judge_step_conserving [OF go.hyps(1) go.prems(1)] go.prems(2,3)
  show ?case by simp
qed

lemma initial_judge_inv: "judge_inv (initial_judge w)" "work_conserving (dq (server (initial_judge w)))"
  by (simp_all add: judge_inv_def initial_judge_def initial_dispatcher_def initial_queue_def dispatcher_inv_def wf_queue_def
      sessions_ok_def inv_ids_def in_system_def streams_ok_def takes_any_def work_conserving_def)

section \<open>How far a submission has come\<close>

text \<open>
  A submission takes three internal steps: it is passed to its node, tested there, and its answer is read.  The steps taken
  so far can be read off the state.
\<close>

definition under_way :: "'w judge \<Rightarrow> nat" where
  "under_way J = (\<Sum>i\<in>set (inv_ids (dq (server J))). length (inbox J i) + 2 * length (outbox J i))"

definition progress :: "'w judge \<Rightarrow> nat" where
  "progress J = 3 * length (answered (server J)) + under_way J"

lemma sum_change:
  fixes f g :: "'a \<Rightarrow> nat"
  assumes "finite A" and "i \<in> A" and "\<And>k. k \<noteq> i \<Longrightarrow> f k = g k"
  shows "sum f A + g i = sum g A + f i"
proof -
  have "sum f (A - {i}) = sum g (A - {i})" using assms(3) by (intro sum.cong) auto
  with sum.remove [OF assms(1,2), of f] sum.remove [OF assms(1,2), of g] show ?thesis by simp
qed

lemma internal_progress:
  assumes "jstep E J a J'" and "judge_inv J" and "internal a"
  shows "progress J' = Suc (progress J)" and "accepted (server J') = accepted (server J)"
    and "inv_ids (dq (server J')) = inv_ids (dq (server J))"
proof -
  let ?f = "\<lambda>J i. length (inbox J i) + 2 * length (outbox J i)"
  have "progress J' = Suc (progress J) \<and> accepted (server J') = accepted (server J) \<and> inv_ids (dq (server J')) = inv_ids (dq (server J))"
  proof (cases a)
    case (Pass i)
    with assms(1) obtain d s where d: "writeLoop_step (server J) i = Some d" "J' = J\<lparr>server := d, inbox := (inbox J)(i := inbox J i @ [s])\<rparr>"
      by (auto elim: jstep_passE)
    note closed = pass_closed(2-5) [OF d(1)]
    from sum_change [OF _ closed(4), of "?f J'" "?f J"] d(2) closed show ?thesis
      by (simp add: progress_def under_way_def)
  next
    case (Test i)
    with assms(1) obtain s ss v where t: "inbox J i = s # ss" "handle_request (node_at E i) s (session_of J i) = (Inr (), v)"
      "J' = set_session (J\<lparr>inbox := (inbox J)(i := ss)\<rparr>) i v" by (auto elim: jstep_testE)
    have "written v = outbox J i @ [TestSubmissionResponse]"
      using handle_request_writes [OF t(2)] by (simp add: session_of_def)
    moreover have "i \<in> set (inv_ids (dq (server J)))" using streams_empty(1) [OF assms(2), of i] t(1) by auto
    ultimately show ?thesis using sum_change [of "set (inv_ids (dq (server J)))" i "?f J'" "?f J"] t(1,3)
      by (simp add: progress_def under_way_def set_session_def)
  next
    case (Read i)
    with assms(1) obtain m ms go d where read: "outbox J i = m # ms" "readLoop_step (note_answer (server J) i m) i (Some m) = Inr (go, d)"
      "J' = J\<lparr>server := d, outbox := (outbox J)(i := ms)\<rparr>" by (auto elim: jstep_readE)
    from assms(2) read(1) obtain t ts where t: "m = TestSubmissionResponse" "i \<in> set (inv_ids (dq (server J)))"
      "note_answer (server J) i m = (server J)\<lparr>wire := (wire (server J))(i := ts), answered := answered (server J) @ [t]\<rparr>"
      by (rule read_closed)
    note step = read(2) [unfolded t(3), unfolded t(1)]
    have free: "freeInvoker (dq (server J)) i = Inr (dq d)" using freed(1) [OF step] by simp
    have ids: "inv_ids (dq d) = inv_ids (dq (server J))"
      using free_conserves [OF _ t(2)] free assms(2) by (auto simp: judge_inv_def dispatcher_inv_def)
    have "accepted d = accepted (server J)" "answered d = answered (server J) @ [t]"
      by (subst freed(2) [OF step], simp)+
    with sum_change [OF _ t(2), of "?f J'" "?f J"] read(1,3) ids show ?thesis
      by (simp add: progress_def under_way_def)
  qed (use assms(3) in simp_all)
  then show "progress J' = Suc (progress J)" "accepted (server J') = accepted (server J)"
    "inv_ids (dq (server J')) = inv_ids (dq (server J))" by blast+
qed


lemma size_sum_list: "size (sum_list xs) = sum_list (map size xs)" for xs :: "'a multiset list"
  by (induction xs) simp_all

lemma under_way_bound:
  assumes "judge_inv J"
  shows "under_way J \<le> 2 * size (in_system (dq (server J)))"
proof -
  let ?q = "dq (server J)" and ?w = "wire (server J)"
  have ok: "streams_ok J" "sessions_ok ?w ?q" "distinct (inv_ids ?q)"
    using assms by (simp_all add: judge_inv_def dispatcher_inv_def wf_queue_def)
  have parts: "length (?w i) = length (outbox J i) + length (inbox J i)" for i
  proof -
    from ok(1) obtain ts where "length ts = length (outbox J i)" "?w i = ts @ inbox J i" unfolding streams_ok_def by blast
    then show ?thesis by simp
  qed
  have "under_way J \<le> (\<Sum>i\<in>set (inv_ids ?q). 2 * length (?w i))"
    unfolding under_way_def by (rule sum_mono) (simp add: parts)
  also have "\<dots> = 2 * sum_list (map (length \<circ> ?w) (inv_ids ?q))"
    using ok(3) by (simp add: sum_list_distinct_conv_sum_set sum_distrib_left)
  also have "sum_list (map (length \<circ> ?w) (inv_ids ?q)) \<le> sum_list (map (size \<circ> held \<circ> snd) (connected_invokers ?q))"
    unfolding inv_ids_def map_map
  proof (rule sum_list_mono)
    fix e assume "e \<in> set (connected_invokers ?q)"
    with ok(2) have "?w (inv_id (fst e)) @ inv_channel (fst e) = (if snd e = [] then [] else [snd e])"
      by (simp add: sessions_ok_set entry_ok_def)
    from arg_cong [OF this, of length] show "(length \<circ> ?w \<circ> (inv_id \<circ> fst)) e \<le> (size \<circ> held \<circ> snd) e"
      by (simp add: held_def split: if_splits)
  qed
  also have "\<dots> \<le> size (in_system ?q)" by (simp add: in_system_def size_sum_list comp_def)
  finally show ?thesis by simp
qed

lemma open_count:
  assumes "judge_inv J"
  shows "size (in_system (dq (server J))) + length (answered (server J)) = length (accepted (server J))"
proof -
  have "in_system (dq (server J)) + mset (answered (server J)) = mset (accepted (server J))"
    using assms by (simp add: judge_inv_def dispatcher_inv_def)
  from arg_cong [OF this, of size] show ?thesis by simp
qed

lemma progress_bound:
  assumes "judge_inv J"
  shows "progress J \<le> 3 * length (accepted (server J))"
  using under_way_bound [OF assms] open_count [OF assms] by (simp add: progress_def)

lemma internal_run:
  assumes "jrun E J as J'" and "judge_inv J" and "\<forall>a\<in>set as. internal a \<or> a = Outside"
  shows "progress J' = progress J + length (filter internal as)" and "accepted (server J') = accepted (server J)"
    and "inv_ids (dq (server J')) = inv_ids (dq (server J))"
proof -
  from assms have "progress J' = progress J + length (filter internal as) \<and> accepted (server J') = accepted (server J)
    \<and> inv_ids (dq (server J')) = inv_ids (dq (server J))"
  proof (induction rule: jrun.induct)
    case (go J a K as L)
    note rest = go.IH [OF judge_step_inv [OF go.hyps(1) go.prems(1)]]
    show ?case
    proof (cases "internal a")
      case True
      with internal_progress [OF go.hyps(1) go.prems(1)] rest go.prems(2) show ?thesis by simp
    next
      case False
      with go.prems(2) have "a = Outside" by simp
      with go.hyps(1) obtain w where "K = J\<lparr>world := w\<rparr>" by (auto elim: jstep_outsideE)
      then have "progress K = progress J" "server K = server J" by (simp_all add: progress_def under_way_def)
      with rest go.prems(2) False show ?thesis by simp
    qed
  qed simp
  then show "progress J' = progress J + length (filter internal as)" "accepted (server J') = accepted (server J)"
    "inv_ids (dq (server J')) = inv_ids (dq (server J))" by blast+
qed

section \<open>A judge that cannot go on has answered everything\<close>

lemma request_moves:
  assumes "judge_inv J" and "inbox J i \<noteq> []"
  shows "\<exists>a J'. due a \<and> jstep E J a J'"
proof -
  from assms(2) obtain s ss where s: "inbox J i = s # ss" by (cases "inbox J i") auto
  obtain r v where h: "handle_request (node_at E i) s (session_of J i) = (r, v)" by fastforce
  show ?thesis
  proof (cases r)
    case (Inr u)
    with h have "handle_request (node_at E i) s (session_of J i) = (Inr (), v)" by simp
    from jstep.test [OF s this] show ?thesis by (intro exI [of _ "Test i"]) auto
  next
    case (Inl e)
    have "i \<in> set (inv_ids (dq (server J)))" using streams_empty(1) [OF assms(1), of i] s by auto
    then obtain q where "disconnectInvoker (dq (server J)) i = Inr q"
      using disconnect_conserves [of "dq (server J)" i] assms(1) by (auto simp: judge_inv_def dispatcher_inv_def)
    then have "drop_node (server J) i = Inr ((server J)\<lparr>dq := q, wire := (wire (server J))(i := [])\<rparr>)"
      by (simp add: drop_node_def connectHandler_close_def)
    from jstep.crash [OF s h [unfolded Inl] this] show ?thesis by (intro exI [of _ "Crash i"]) auto
  qed
qed

lemma answer_moves:
  assumes "judge_inv J" and "outbox J i \<noteq> []"
  shows "\<exists>J'. jstep E J (Read i) J'"
proof -
  from assms(2) obtain m ms where m: "outbox J i = m # ms" by (cases "outbox J i") auto
  from assms(1) m obtain t ts where t: "m = TestSubmissionResponse" "i \<in> set (inv_ids (dq (server J)))"
    "note_answer (server J) i m = (server J)\<lparr>wire := (wire (server J))(i := ts), answered := answered (server J) @ [t]\<rparr>"
    by (rule read_closed)
  from freeInvoker_total [OF t(2)] obtain q where "freeInvoker (dq (server J)) i = Inr q" by blast
  then have "readLoop_step (note_answer (server J) i m) i (Some m) = Inr (True, (note_answer (server J) i m)\<lparr>dq := q\<rparr>)"
    by (simp add: t(1) t(3) [unfolded t(1)] readLoop_step_def)
  from jstep.read [OF m this] show ?thesis by blast
qed

lemma sum_list_zeros: "(\<And>x. x \<in> set xs \<Longrightarrow> f x = 0) \<Longrightarrow> sum_list (map f xs) = (0::'a::monoid_add)"
  by (induction xs) simp_all

lemma stuck_is_done:
  assumes "judge_inv J" and "work_conserving (dq (server J))" and "connected_invokers (dq (server J)) \<noteq> []"
    and stuck: "\<And>a J'. due a \<Longrightarrow> \<not> jstep E J a J'"
  shows "in_system (dq (server J)) = {#}"
proof -
  let ?q = "dq (server J)" and ?w = "wire (server J)"
  have ok: "streams_ok J" "sessions_ok ?w ?q" "distinct (inv_ids ?q)" "takes_any ?q"
    using assms(1) by (simp_all add: judge_inv_def dispatcher_inv_def wf_queue_def)
  have empty: "?w i = []" for i
  proof -
    have "inbox J i = []" using request_moves [OF assms(1), of i E] stuck by blast
    moreover have "outbox J i = []" using answer_moves [OF assms(1), of i E] stuck [of "Read i"] by auto
    moreover from ok(1) obtain ts where "length ts = length (outbox J i)" "?w i = ts @ inbox J i" unfolding streams_ok_def by blast
    ultimately show ?thesis by simp
  qed
  have idle: "snd e = []" if e: "e \<in> set (connected_invokers ?q)" for e
  proof (rule ccontr)
    assume busy: "snd e \<noteq> []"
    from e obtain r where r: "r < length (connected_invokers ?q)" "connected_invokers ?q ! r = e" by (auto simp: in_set_conv_nth)
    have "inv_channel (fst e) = [snd e]" using ok(2) e busy empty by (simp add: sessions_ok_set entry_ok_def)
    then obtain d where d: "writeLoop_step (server J) (inv_id (fst e)) = Some d"
      using findInvokerIndexById_nth [OF ok(3) r(1)] r(2) by (cases e) (simp add: writeLoop_step_eq)
    show False using jstep.pass [OF d refl, of E] stuck [of "Pass (inv_id (fst e))"] by simp
  qed
  obtain e where e: "e \<in> set (connected_invokers ?q)" using assms(3) by (cases "connected_invokers ?q") auto
  then have "inv_can (fst e) = (\<lambda>_. True)" using ok(4) by (simp add: takes_any_def)
  then have "submission_queue ?q = []"
    using assms(2) e idle [OF e] by (cases "submission_queue ?q") (auto simp: work_conserving_def)
  moreover have "sum_list (map (held \<circ> snd) (connected_invokers ?q)) = {#}"
    by (rule sum_list_zeros) (simp add: idle)
  ultimately show ?thesis by (simp add: in_system_def)
qed

section \<open>Every submission is answered\<close>

text \<open>
  C3: every submission is answered.  Take a judge that no node has left, with at least one node connected, and let it run
  without new submissions: whatever the order of the coroutines and whatever others do to the world meanwhile, it takes at most
  three steps for each submission that is open, and either every submission it has accepted is answered or there is a
  step it can take.
\<close>

theorem judge_answers_everything:
  assumes "jrun E (initial_judge w) past J" and "\<forall>a\<in>set past. \<not> loses_node a"
    and "connected_invokers (dq (server J)) \<noteq> []"
    and "jrun E J run J'" and "\<forall>a\<in>set run. internal a \<or> a = Outside"
  shows "length (filter internal run) \<le> 3 * size (in_system (dq (server J)))
    \<and> (mset (answered (server J')) = mset (accepted (server J)) \<or> (\<exists>a J''. due a \<and> jstep E J' a J''))"
proof
  have inv: "judge_inv J" using judge_run_inv [OF assms(1) initial_judge_inv(1)] .
  have inv': "judge_inv J'" using judge_run_inv [OF assms(4) inv] .
  note run = internal_run [OF assms(4) inv assms(5)]
  have "progress J + length (filter internal run) \<le> 3 * length (accepted (server J))"
    using progress_bound [OF inv'] run by simp
  then show "length (filter internal run) \<le> 3 * size (in_system (dq (server J)))"
    using open_count [OF inv] by (simp add: progress_def)
  have wc: "work_conserving (dq (server J))"
    using judge_run_conserving [OF assms(1) initial_judge_inv(1) assms(2) initial_judge_inv(2)] .
  have wc': "work_conserving (dq (server J'))"
    by (rule judge_run_conserving [OF assms(4) inv _ wc]) (use assms(5) internal_keeps in auto)
  have connected: "connected_invokers (dq (server J')) \<noteq> []" using run(3) assms(3) by (auto simp: inv_ids_def)
  show "mset (answered (server J')) = mset (accepted (server J)) \<or> (\<exists>a J''. due a \<and> jstep E J' a J'')"
  proof (cases "\<exists>a J''. due a \<and> jstep E J' a J''")
    case False
    then have "in_system (dq (server J')) = {#}" using stuck_is_done [OF inv' wc' connected] by blast
    with inv' run(2) show ?thesis by (simp add: judge_inv_def dispatcher_inv_def)
  qed simp
qed


section \<open>A sample run\<close>

text \<open>A submission arrives, a node joins, is sent the submission, tests it while a file is stored, and answers.\<close>

definition sample_judge_env :: "(string \<times> string) list judge_env" where
  "sample_judge_env = \<lparr>registered = sample_reg, problem_of = (\<lambda>w. sample_pof), fetch_problem = (\<lambda>w. sample_sync),
     node_at = (\<lambda>i. sample_test_node)\<rparr>"

definition sample_judge :: "(string \<times> string) list judge" where
  "sample_judge = (initial_judge [])\<lparr>server := sample_state [(sample_node\<lparr>inv_channel := [''a'']\<rparr>, ''a'')] [] []\<rparr>"

lemma sample_past: "jrun sample_judge_env (initial_judge []) [Submit ''a'', Join ''n1'' ''t''] sample_judge"
proof -
  let ?J = "(initial_judge [])\<lparr>server := sample_state [] [''a''] []\<rparr> :: (string \<times> string) list judge"
  have "handleSubmissionHandler sample_reg sample_pof sample_sync (server (initial_judge [])) ''a'' = (StatusOK, sample_state [] [''a''] [])"
    using sample_submit by (simp add: initial_judge_def)
  then have 1: "jstep sample_judge_env (initial_judge []) (Submit ''a'') ?J"
    by (intro jstep.submit) (simp_all add: sample_judge_env_def)
  have "jstep sample_judge_env ?J (Join ''n1'' ''t'') (?J\<lparr>server := sample_state [(sample_node\<lparr>inv_channel := [''a'']\<rparr>, ''a'')] [] [],
      inbox := (inbox ?J)(''n1'' := []), outbox := (outbox ?J)(''n1'' := []), loaded := (loaded ?J)(''n1'' := Map.empty)\<rparr>)"
    by (rule jstep.join) (use sample_join in \<open>simp_all add: sample_state_def inv_ids_def\<close>)
  then have 2: "jstep sample_judge_env ?J (Join ''n1'' ''t'') sample_judge"
    by (simp add: sample_judge_def initial_judge_def const_upd)
  show ?thesis by (rule jrun.go [OF 1 jrun.go [OF 2 jrun.stop]])
qed

definition sample_world :: "(string \<times> string) list" where
  "sample_world = [(''/s/b/main.cpp'', ''int main() {}'')]"

lemma sample_request:
  "fst (handle_request sample_test_node ''a'' \<lparr>node_tests = Map.empty, written = [], node_world = sample_world\<rparr>) = Inr ()"
  by code_simp

lemma sample_steps: "\<exists>J'. jrun sample_judge_env sample_judge [Pass ''n1'', Outside, Test ''n1'', Read ''n1''] J'"
proof -
  let ?J1 = "sample_judge\<lparr>server := sample_state [(sample_node, ''a'')] [] [''a''], inbox := (\<lambda>_. [])(''n1'' := [''a''])\<rparr>"
  let ?J2 = "?J1\<lparr>world := sample_world\<rparr>"
  have "jstep sample_judge_env sample_judge (Pass ''n1'')
      (sample_judge\<lparr>server := sample_state [(sample_node, ''a'')] [] [''a''], inbox := (inbox sample_judge)(''n1'' := inbox sample_judge ''n1'' @ [''a''])\<rparr>)"
    by (rule jstep.pass) (use sample_pass in \<open>simp_all add: sample_judge_def sample_state_def\<close>)
  then have 1: "jstep sample_judge_env sample_judge (Pass ''n1'') ?J1" by (simp add: sample_judge_def initial_judge_def)
  have 2: "jstep sample_judge_env ?J1 Outside ?J2" by (rule jstep.outside)
  obtain v where v: "handle_request sample_test_node ''a'' \<lparr>node_tests = Map.empty, written = [], node_world = sample_world\<rparr> = (Inr (), v)"
    using sample_request by (metis prod.collapse)
  let ?J3 = "set_session (?J2\<lparr>inbox := (inbox ?J2)(''n1'' := [])\<rparr>) ''n1'' v"
  have 3: "jstep sample_judge_env ?J2 (Test ''n1'') ?J3"
    by (rule jstep.test) (use v in \<open>simp_all add: sample_judge_env_def session_of_def sample_judge_def initial_judge_def\<close>)
  have out: "outbox ?J3 ''n1'' = [TestSubmissionResponse]" "server ?J3 = sample_state [(sample_node, ''a'')] [] [''a'']"
    using handle_request_writes [OF v] by (simp_all add: set_session_def)
  have "\<exists>d. readLoop_step (note_answer (server ?J3) ''n1'' TestSubmissionResponse) ''n1'' (Some TestSubmissionResponse) = Inr (True, d)"
    unfolding out(2) by (simp add: readLoop_step_def note_answer_def sample_eval)
  then obtain d where d: "readLoop_step (note_answer (server ?J3) ''n1'' TestSubmissionResponse) ''n1'' (Some TestSubmissionResponse) = Inr (True, d)" by blast
  have 4: "\<exists>J4. jstep sample_judge_env ?J3 (Read ''n1'') J4" using jstep.read [OF out(1) d] by blast
  from 1 2 3 4 show ?thesis by (meson jrun.go jrun.stop)
qed

theorem judge_answers_everything_witness:
  "\<exists>J'. jrun sample_judge_env sample_judge [Pass ''n1'', Outside, Test ''n1'', Read ''n1''] J'
    \<and> (length (filter internal [Pass ''n1'', Outside, Test ''n1'', Read ''n1'']) \<le> 3 * size (in_system (dq (server sample_judge)))
    \<and> (mset (answered (server J')) = mset (accepted (server sample_judge)) \<or> (\<exists>a J''. due a \<and> jstep sample_judge_env J' a J'')))"
proof -
  obtain J' where run: "jrun sample_judge_env sample_judge [Pass ''n1'', Outside, Test ''n1'', Read ''n1''] J'"
    using sample_steps by blast
  have "connected_invokers (dq (server sample_judge)) \<noteq> []" by (simp add: sample_judge_def sample_state_def)
  from judge_answers_everything [OF sample_past _ this run] run show ?thesis by (intro exI [of _ J']) simp
qed

end
