(* ===== verification/Statements.thy ===== *)
theory Statements
  imports Config
begin

text \<open>
  Prepared statements and query data of the database module:
  \<open>modules/database/src/{statements,statement_action_log,execute_options,query_result,query_param}.cpp\<close>.

  The \<open>unordered_map\<close> of a block is an association list; its order is the order in which the
  statements were first added, one of the orders the source may iterate in.  A result is its column
  names and its rows of nullable texts.
\<close>

section \<open>Statements and blocks\<close>

record Statement =
  stmt_name :: string
  stmt_sql :: string

record StatementsBlock =
  block_name :: string
  block_statements :: "(string \<times> Statement) list"

definition make_block :: "string \<Rightarrow> StatementsBlock" where
  "make_block name = \<lparr>block_name = name, block_statements = []\<rparr>"

fun insert_or_assign :: "string \<Rightarrow> 'v \<Rightarrow> (string \<times> 'v) list \<Rightarrow> (string \<times> 'v) list" where
  "insert_or_assign k v [] = [(k, v)]"
| "insert_or_assign k v ((l, w) # m) = (if k = l then (k, v) # m else (l, w) # insert_or_assign k v m)"

definition addStatement :: "StatementsBlock \<Rightarrow> Statement \<Rightarrow> StatementsBlock" where
  "addStatement b s = b\<lparr>block_statements := insert_or_assign (stmt_name s) s (block_statements b)\<rparr>"

definition getStatement :: "StatementsBlock \<Rightarrow> string \<Rightarrow> Statement result" where
  "getStatement b name =
     (case map_of (block_statements b) name of
        None \<Rightarrow> Inl (OutOfRange ''unordered_map::at'') | Some s \<Rightarrow> Inr s)"

section \<open>The log of statement actions\<close>

datatype StatementAction = PREPARE (action_block: StatementsBlock) | UNPREPARE (action_block: StatementsBlock)

record StatementActionLog =
  actions :: "StatementAction list"
  log_blocks :: "string \<rightharpoonup> StatementsBlock"

definition empty_log :: StatementActionLog where
  "empty_log = \<lparr>actions = [], log_blocks = Map.empty\<rparr>"

definition appendPrepare :: "StatementActionLog \<Rightarrow> StatementsBlock \<Rightarrow> (nat \<times> StatementActionLog) result" where
  "appendPrepare l b =
     (if log_blocks l (block_name b) \<noteq> None
      then Inl (RuntimeError (''statements block already prepared: '' @ block_name b))
      else (let l' = l\<lparr>log_blocks := (log_blocks l)(block_name b \<mapsto> b), actions := actions l @ [PREPARE b]\<rparr>
            in Inr (length (actions l'), l')))"

definition appendUnprepare :: "StatementActionLog \<Rightarrow> string \<Rightarrow> (nat \<times> StatementActionLog) result" where
  "appendUnprepare l name =
     (case log_blocks l name of
        None \<Rightarrow> Inl (RuntimeError (''statements block not prepared: '' @ name))
      | Some b \<Rightarrow>
          (let l' = l\<lparr>log_blocks := (log_blocks l)(name := None), actions := actions l @ [UNPREPARE b]\<rparr>
           in Inr (length (actions l'), l')))"

text \<open>The blocks prepared after a list of actions, and when the list is one a log can contain.\<close>

fun replay_action :: "StatementAction \<Rightarrow> (string \<rightharpoonup> StatementsBlock) \<Rightarrow> (string \<rightharpoonup> StatementsBlock)" where
  "replay_action (PREPARE b) m = m(block_name b \<mapsto> b)"
| "replay_action (UNPREPARE b) m = m(block_name b := None)"

definition replay :: "StatementAction list \<Rightarrow> (string \<rightharpoonup> StatementsBlock)" where
  "replay as = fold replay_action as Map.empty"

fun action_ok :: "(string \<rightharpoonup> StatementsBlock) \<Rightarrow> StatementAction \<Rightarrow> bool" where
  "action_ok m (PREPARE b) = (m (block_name b) = None)"
| "action_ok m (UNPREPARE b) = (m (block_name b) = Some b)"

fun actions_ok :: "(string \<rightharpoonup> StatementsBlock) \<Rightarrow> StatementAction list \<Rightarrow> bool" where
  "actions_ok m [] = True"
| "actions_ok m (a # as) = (action_ok m a \<and> actions_ok (replay_action a m) as)"

definition log_ok :: "StatementActionLog \<Rightarrow> bool" where
  "log_ok l \<longleftrightarrow> log_blocks l = replay (actions l) \<and> actions_ok Map.empty (actions l)
     \<and> (\<forall>n b. log_blocks l n = Some b \<longrightarrow> block_name b = n)"

lemma replay_snoc: "replay (as @ [a]) = replay_action a (replay as)"
  by (simp add: replay_def)

lemma actions_ok_snoc:
  "actions_ok m (as @ [a]) \<longleftrightarrow> actions_ok m as \<and> action_ok (fold replay_action as m) a"
  by (induction as arbitrary: m) auto

lemma empty_log_ok: "log_ok empty_log"
  by (simp add: log_ok_def empty_log_def replay_def)

lemma appendPrepare_ok:
  assumes "log_ok l" and "appendPrepare l b = Inr (n, l')"
  shows "log_ok l' \<and> actions l' = actions l @ [PREPARE b] \<and> n = length (actions l')
    \<and> log_blocks l' = (log_blocks l)(block_name b \<mapsto> b)"
  using assms
  by (auto simp: appendPrepare_def log_ok_def replay_snoc actions_ok_snoc replay_def [symmetric] Let_def
      split: if_splits)

lemma appendUnprepare_ok:
  assumes "log_ok l" and "appendUnprepare l name = Inr (n, l')"
  shows "log_ok l' \<and> n = length (actions l') \<and> log_blocks l' = (log_blocks l)(name := None)
    \<and> (\<exists>b. log_blocks l name = Some b \<and> actions l' = actions l @ [UNPREPARE b])"
  using assms
  by (auto simp: appendUnprepare_def log_ok_def replay_snoc actions_ok_snoc replay_def [symmetric] Let_def
      split: option.splits if_splits)

section \<open>Options\<close>

record ExecuteOptions =
  read_only :: "bool option"
  timeout_sec :: "int option"
  retries :: "int option"

definition no_options :: ExecuteOptions where
  "no_options = \<lparr>read_only = None, timeout_sec = None, retries = None\<rparr>"

definition or_else :: "'a option \<Rightarrow> 'a option \<Rightarrow> 'a option" where
  "or_else x y = (case x of None \<Rightarrow> y | Some v \<Rightarrow> Some v)"

definition fillOptions :: "ExecuteOptions \<Rightarrow> ExecuteOptions \<Rightarrow> ExecuteOptions" where
  "fillOptions o1 dflt =
     \<lparr>read_only = or_else (read_only o1) (read_only dflt),
      timeout_sec = or_else (timeout_sec o1) (timeout_sec dflt),
      retries = or_else (retries o1) (retries dflt)\<rparr>"

definition getDefaultExecuteOptions :: "json \<Rightarrow> json \<Rightarrow> ExecuteOptions result" where
  "getDefaultExecuteOptions config_data credentials_data =
     rbind (rbind (getDatabaseConfig config_data credentials_data) required) (\<lambda>config.
       Inr (fillOptions
         \<lparr>read_only = query_read_only_default config, timeout_sec = query_timeout_sec config,
          retries = query_retries config\<rparr>
         \<lparr>read_only = Some False, timeout_sec = Some 0, retries = Some 0\<rparr>))"

definition fillWithDefaults :: "json \<Rightarrow> json \<Rightarrow> ExecuteOptions \<Rightarrow> ExecuteOptions result" where
  "fillWithDefaults config_data credentials_data o1 =
     rbind (getDefaultExecuteOptions config_data credentials_data) (\<lambda>dflt. Inr (fillOptions o1 dflt))"

section \<open>Parameters and results\<close>

datatype QueryParam =
    QNull
  | QBool bool
  | QInt32 int
  | QInt64 int
  | QDouble rat
  | QString string

text \<open>\<open>show_double\<close> is the default formatting of a double by an output stream.\<close>

fun paramToText :: "(rat \<Rightarrow> string) \<Rightarrow> QueryParam \<Rightarrow> string option" where
  "paramToText show_double QNull = None"
| "paramToText show_double (QBool b) = Some (if b then ''true'' else ''false'')"
| "paramToText show_double (QInt32 i) = Some (int_to_string i)"
| "paramToText show_double (QInt64 i) = Some (int_to_string i)"
| "paramToText show_double (QDouble x) = Some (show_double x)"
| "paramToText show_double (QString s) = Some s"

definition encodeParams :: "(rat \<Rightarrow> string) \<Rightarrow> QueryParam list \<Rightarrow> string option list" where
  "encodeParams show_double params = map (paramToText show_double) params"

record QueryResult =
  columns :: "string list"
  rows :: "string option list list"

definition empty_result :: QueryResult where
  "empty_result = \<lparr>columns = [], rows = []\<rparr>"

text \<open>A field outside the result reads as null, as libpq documents.\<close>

definition field_at :: "string option list \<Rightarrow> nat \<Rightarrow> string option" where
  "field_at row k = (if k < length row then row ! k else None)"

definition field_named :: "QueryResult \<Rightarrow> string option list \<Rightarrow> string \<Rightarrow> string option result" where
  "field_named r row name =
     (case first_index (\<lambda>c. c = name) (columns r) of
        None \<Rightarrow> Inl (RuntimeError (''column not found: '' @ name))
      | Some k \<Rightarrow> Inr (field_at row k))"

definition as_string :: "string option \<Rightarrow> string result" where
  "as_string f =
     (case f of None \<Rightarrow> Inl (RuntimeError ''null value cannot be converted to string'') | Some s \<Rightarrow> Inr s)"

definition as_int :: "string option \<Rightarrow> int result" where
  "as_int f = rbind (as_string f) stoi"

definition as_double :: "string option \<Rightarrow> rat result" where
  "as_double f = rbind (as_string f) stod"

definition as_bool :: "string option \<Rightarrow> bool result" where
  "as_bool f = rbind (as_string f) (\<lambda>v. Inr (v = ''t'' \<or> v = ''true'' \<or> v = ''1''))"

definition firstRow :: "QueryResult \<Rightarrow> string option list option" where
  "firstRow r = (case rows r of [] \<Rightarrow> None | row # _ \<Rightarrow> Some row)"

section \<open>The executor interface\<close>

text \<open>
  \<open>DatabaseExecutorInterface\<close>: the virtual operations over a world, and the laws its users rely on.
  A block is prepared after \<open>prepareStatements\<close> returned, preparing it twice throws and changes
  nothing, and queries do not change which blocks are prepared.
\<close>

record 'w executor =
  isPrepared :: "string \<Rightarrow> 'w \<Rightarrow> bool"
  prepareStatements :: "StatementsBlock \<Rightarrow> ('w, unit) io"
  unprepareStatements :: "string \<Rightarrow> ('w, unit) io"
  execute :: "ExecuteOptions \<Rightarrow> string \<Rightarrow> QueryParam list \<Rightarrow> ('w, QueryResult) io"
  executeSQL :: "ExecuteOptions \<Rightarrow> string \<Rightarrow> QueryParam list \<Rightarrow> ('w, QueryResult) io"

definition prepareStatement :: "'w executor \<Rightarrow> Statement \<Rightarrow> ('w, unit) io" where
  "prepareStatement ex s = prepareStatements ex (addStatement (make_block (stmt_name s)) s)"

definition unprepareStatement :: "'w executor \<Rightarrow> string \<Rightarrow> ('w, unit) io" where
  "unprepareStatement ex name = unprepareStatements ex name"

locale executor_contract =
  fixes ex :: "'w executor"
    and ready :: "'w \<Rightarrow> bool"
  assumes prepare_ready:
    "ready w \<Longrightarrow> prepareStatements ex b w = (r, w') \<Longrightarrow>
       ready w' \<and> (if isPrepared ex (block_name b) w then is_ok r = False \<and> (\<forall>n. isPrepared ex n w' = isPrepared ex n w)
                   else r = Inr () \<and> (\<forall>n. isPrepared ex n w' = (n = block_name b \<or> isPrepared ex n w)))"
    and query_ready:
    "ready w \<Longrightarrow> executeSQL ex opts sql ps w = (q, w') \<Longrightarrow>
       ready w' \<and> (\<forall>n. isPrepared ex n w' = isPrepared ex n w)"
    and execute_ready:
    "ready w \<Longrightarrow> execute ex opts stmt ps w = (q, w') \<Longrightarrow>
       ready w' \<and> (\<forall>n. isPrepared ex n w' = isPrepared ex n w)"
begin

lemma prepare_twice:
  assumes "ready w" and "prepareStatements ex b w = (Inr (), w1)" and "prepareStatements ex b w1 = (r, w2)"
  shows "is_ok r = False \<and> isPrepared ex (block_name b) w2"
proof -
  have 1: "ready w1 \<and> isPrepared ex (block_name b) w1"
    using prepare_ready [OF assms(1,2)] by (auto split: if_splits)
  with prepare_ready [OF _ assms(3)] show ?thesis by auto
qed

end

section \<open>Properties\<close>

datatype log_op = AppendPrepare StatementsBlock | AppendUnprepare string

definition log_step :: "log_op \<Rightarrow> StatementActionLog \<Rightarrow> StatementActionLog" where
  "log_step a l =
     (case (case a of AppendPrepare b \<Rightarrow> appendPrepare l b | AppendUnprepare n \<Rightarrow> appendUnprepare l n) of
        Inl e \<Rightarrow> l | Inr (n, l') \<Rightarrow> l')"

lemma log_step_ok:
  assumes "log_ok l"
  shows "log_ok (log_step a l)"
proof (cases a)
  case (AppendPrepare b)
  show ?thesis
  proof (cases "appendPrepare l b")
    case (Inr r)
    with AppendPrepare appendPrepare_ok [OF assms, of b "fst r" "snd r"] show ?thesis
      by (simp add: log_step_def case_prod_unfold)
  qed (simp add: AppendPrepare log_step_def assms)
next
  case (AppendUnprepare n)
  show ?thesis
  proof (cases "appendUnprepare l n")
    case (Inr r)
    with AppendUnprepare appendUnprepare_ok [OF assms, of n "fst r" "snd r"] show ?thesis
      by (simp add: log_step_def case_prod_unfold)
  qed (simp add: AppendUnprepare log_step_def assms)
qed

lemma fold_log_ok: "log_ok l \<Longrightarrow> log_ok (fold log_step as l)"
  by (induction as arbitrary: l) (simp_all add: log_step_ok)

text \<open>
  the log of statement actions is always replayable: from the empty log, whatever appends
  succeed or throw, every prepared block was not prepared before, every unprepared one was, and the
  blocks the log calls prepared are those its actions leave prepared.
\<close>

theorem statement_log_replayable:
  "let l = fold log_step ops empty_log in
     log_blocks l = replay (actions l) \<and> actions_ok Map.empty (actions l)"
  using fold_log_ok [OF empty_log_ok] by (simp add: log_ok_def Let_def)

end
