(* ===== verification/Libpq.thy ===== *)
theory Libpq
  imports Statements
begin

text \<open>
  One database connection: \<open>modules/database/src/libpq_connection.cpp\<close>.

  libpq itself is the record \<open>pg\<close> of the calls the source makes on a session (its \<open>PGconn*\<close> is a
  number) over a world of its own: sending a command, the results it will hand out until the null
  that ends them, taking results, escaping; \<open>pg_connect_poll\<close> is the loop of \<open>PQconnectPoll\<close> until it
  succeeds or fails.  The waiting for the socket between the calls has no
  effect and is left out, and so is the binding of the socket.  \<open>execution_queue\<close> is the lock that
  lets one operation at a time use the connection.
\<close>

section \<open>libpq\<close>

datatype pg_command =
    SendPrepare string string
  | SendQuery string
  | SendQueryPrepared string "string option list"
  | SendQueryParams string "string option list"

datatype pg_result = Tuples QueryResult | CommandOk | FailedResult string

record 'w pg =
  pg_connect_start :: "string \<Rightarrow> 'w \<Rightarrow> nat option \<times> 'w"
  pg_connect_poll :: "nat \<Rightarrow> 'w \<Rightarrow> bool \<times> 'w"
  pg_send :: "nat \<Rightarrow> pg_command \<Rightarrow> 'w \<Rightarrow> bool \<times> 'w"
  pg_error :: "nat \<Rightarrow> 'w \<Rightarrow> string"
  pg_pending :: "nat \<Rightarrow> 'w \<Rightarrow> pg_result list"
  pg_took :: "nat \<Rightarrow> nat \<Rightarrow> 'w \<Rightarrow> 'w"
  pg_escape :: "nat \<Rightarrow> string \<Rightarrow> 'w \<Rightarrow> string option"
  pg_status_ok :: "nat \<Rightarrow> 'w \<Rightarrow> bool"
  pg_show_double :: "rat \<Rightarrow> string"

section \<open>The connection\<close>

record LibpqConnection =
  conn :: "nat option"
  conninfo :: string
  statement_cursor :: nat
  conn_blocks :: "string set"

definition new_connection :: LibpqConnection where
  "new_connection = \<lparr>conn = None, conninfo = [], statement_cursor = 0, conn_blocks = {}\<rparr>"

text \<open>
  The loop over the results of a command: what it returns and how many results it takes, the final
  null included.  An error leaves the results behind it, and the null, untaken.
\<close>

fun consume_list :: "pg_result list \<Rightarrow> nat \<Rightarrow> QueryResult result \<times> nat" where
  "consume_list [] k = (Inr empty_result, Suc k)"
| "consume_list (Tuples r # rs) k =
     (if rows r \<noteq> [] then (Inr r, k + length rs + 2) else consume_list rs (Suc k))"
| "consume_list (CommandOk # rs) k = consume_list rs (Suc k)"
| "consume_list (FailedResult m # rs) k = (Inl (RuntimeError m), Suc k)"

definition consumeResults :: "'w pg \<Rightarrow> nat \<Rightarrow> ('w, QueryResult) io" where
  "consumeResults pg c w = (case consume_list (pg_pending pg c w) 0 of (r, k) \<Rightarrow> (r, pg_took pg c k w))"

definition run_command :: "'w pg \<Rightarrow> nat option \<Rightarrow> pg_command \<Rightarrow> ('w, QueryResult) io" where
  "run_command pg cn cmd w =
     (case cn of
        None \<Rightarrow> (Inl (RuntimeError (''connection pointer is NULL'' @ [CHR 0x0A])), w)
      | Some c \<Rightarrow>
          (case pg_send pg c cmd w of
             (False, w') \<Rightarrow> (Inl (RuntimeError (pg_error pg c w')), w')
           | (True, w') \<Rightarrow> consumeResults pg c w'))"

definition connectAsync :: "'w pg \<Rightarrow> LibpqConnection \<Rightarrow> string \<Rightarrow> 'w \<Rightarrow> (exn + unit) \<times> LibpqConnection \<times> 'w" where
  "connectAsync pg lc info w =
     (case pg_connect_start pg info w of
        (None, w1) \<Rightarrow> (Inl (RuntimeError ''PQconnectStart failed''), lc\<lparr>conninfo := info, conn := None\<rparr>, w1)
      | (Some c, w1) \<Rightarrow>
          (case pg_connect_poll pg c w1 of
             (ok, w2) \<Rightarrow>
               if ok \<and> pg_status_ok pg c w2
               then (Inr (), lc\<lparr>conninfo := info, conn := Some c, statement_cursor := 0\<rparr>, w2)
               else (Inl (RuntimeError (pg_error pg c w2)), lc\<lparr>conninfo := info, conn := Some c\<rparr>, w2)))"

definition reconnectAsync :: "'w pg \<Rightarrow> LibpqConnection \<Rightarrow> string \<Rightarrow> 'w \<Rightarrow> (exn + unit) \<times> LibpqConnection \<times> 'w" where
  "reconnectAsync pg lc info w = connectAsync pg (lc\<lparr>statement_cursor := 0\<rparr>) info w"

definition prepareAsync :: "'w pg \<Rightarrow> nat option \<Rightarrow> string \<Rightarrow> string \<Rightarrow> ('w, unit) io" where
  "prepareAsync pg cn name sql = io_bind (run_command pg cn (SendPrepare name sql)) (\<lambda>_. io_return ())"

definition unprepareAsync :: "'w pg \<Rightarrow> nat option \<Rightarrow> string \<Rightarrow> ('w, unit) io" where
  "unprepareAsync pg cn name = io_bind (run_command pg cn (SendQuery (''DEALLOCATE '' @ name))) (\<lambda>_. io_return ())"

fun prepare_all :: "'w pg \<Rightarrow> nat option \<Rightarrow> (string \<times> Statement) list \<Rightarrow> ('w, unit) io" where
  "prepare_all pg cn [] w = (Inr (), w)"
| "prepare_all pg cn ((name, s) # ss) w =
     io_bind (prepareAsync pg cn name (stmt_sql s)) (\<lambda>_. prepare_all pg cn ss) w"

fun unprepare_all :: "'w pg \<Rightarrow> nat option \<Rightarrow> (string \<times> Statement) list \<Rightarrow> ('w, unit) io" where
  "unprepare_all pg cn [] w = (Inr (), w)"
| "unprepare_all pg cn ((name, s) # ss) w =
     io_bind (unprepareAsync pg cn name) (\<lambda>_. unprepare_all pg cn ss) w"

fun sync_action :: "'w pg \<Rightarrow> nat option \<Rightarrow> StatementAction \<Rightarrow> ('w, unit) io" where
  "sync_action pg cn (PREPARE b) w = prepare_all pg cn (block_statements b) w"
| "sync_action pg cn (UNPREPARE b) w = unprepare_all pg cn (block_statements b) w"

fun mark_action :: "StatementAction \<Rightarrow> LibpqConnection \<Rightarrow> LibpqConnection" where
  "mark_action (PREPARE b) lc =
     lc\<lparr>statement_cursor := Suc (statement_cursor lc), conn_blocks := insert (block_name b) (conn_blocks lc)\<rparr>"
| "mark_action (UNPREPARE b) lc =
     lc\<lparr>statement_cursor := Suc (statement_cursor lc), conn_blocks := conn_blocks lc - {block_name b}\<rparr>"

fun sync_loop :: "'w pg \<Rightarrow> StatementAction list \<Rightarrow> LibpqConnection \<Rightarrow> 'w \<Rightarrow> (exn + unit) \<times> LibpqConnection \<times> 'w" where
  "sync_loop pg [] lc w = (Inr (), lc, w)"
| "sync_loop pg (a # as) lc w =
     (case sync_action pg (conn lc) a w of
        (Inl e, w') \<Rightarrow> (Inl e, lc, w')
      | (Inr u, w') \<Rightarrow> sync_loop pg as (mark_action a lc) w')"

definition syncStatements ::
    "'w pg \<Rightarrow> LibpqConnection \<Rightarrow> StatementAction list \<Rightarrow> 'w \<Rightarrow> (exn + unit) \<times> LibpqConnection \<times> 'w" where
  "syncStatements pg lc acts w = sync_loop pg (drop (statement_cursor lc) acts) lc w"

definition executePrepared :: "'w pg \<Rightarrow> LibpqConnection \<Rightarrow> string \<Rightarrow> QueryParam list \<Rightarrow> ('w, QueryResult) io" where
  "executePrepared pg lc name params =
     run_command pg (conn lc) (SendQueryPrepared name (encodeParams (pg_show_double pg) params))"

definition executeRawSQL :: "'w pg \<Rightarrow> LibpqConnection \<Rightarrow> string \<Rightarrow> QueryParam list \<Rightarrow> ('w, QueryResult) io" where
  "executeRawSQL pg lc sql params =
     run_command pg (conn lc) (SendQueryParams sql (encodeParams (pg_show_double pg) params))"

definition quoteLiteral :: "'w pg \<Rightarrow> LibpqConnection \<Rightarrow> string \<Rightarrow> ('w, string) io" where
  "quoteLiteral pg lc v w =
     (case conn lc of
        None \<Rightarrow> (Inl (RuntimeError (''connection pointer is NULL'' @ [CHR 0x0A])), w)
      | Some c \<Rightarrow>
          (case pg_escape pg c v w of
             None \<Rightarrow> (Inl (RuntimeError (pg_error pg c w)), w) | Some s \<Rightarrow> (Inr s, w)))"

definition run_checked ::
    "json \<Rightarrow> json \<Rightarrow> ExecuteOptions \<Rightarrow> ('w, 'a) io \<Rightarrow> ('w, 'a) io" where
  "run_checked config cred options m =
     io_bind (io_lift (fillWithDefaults config cred options)) (\<lambda>o'.
     io_bind (io_lift (case read_only o' of None \<Rightarrow> Inl BadOptionalAccess | Some b \<Rightarrow> Inr b)) (\<lambda>_. m))"

definition connection_execute ::
    "'w pg \<Rightarrow> json \<Rightarrow> json \<Rightarrow> LibpqConnection \<Rightarrow> ExecuteOptions \<Rightarrow> string \<Rightarrow> QueryParam list \<Rightarrow> ('w, QueryResult) io" where
  "connection_execute pg config cred lc options stmt params =
     run_checked config cred options (executePrepared pg lc stmt params)"

definition connection_executeSQL ::
    "'w pg \<Rightarrow> json \<Rightarrow> json \<Rightarrow> LibpqConnection \<Rightarrow> ExecuteOptions \<Rightarrow> string \<Rightarrow> QueryParam list \<Rightarrow> ('w, QueryResult) io" where
  "connection_executeSQL pg config cred lc options sql params =
     run_checked config cred options (executeRawSQL pg lc sql params)"

definition connection_isPrepared :: "LibpqConnection \<Rightarrow> string \<Rightarrow> bool" where
  "connection_isPrepared lc name \<longleftrightarrow> name \<in> conn_blocks lc"

definition connection_prepareStatements :: "StatementsBlock \<Rightarrow> unit result" where
  "connection_prepareStatements b = Inl (RuntimeError ''please prepare statements in connection pool'')"

definition connection_unprepareStatements :: "string \<Rightarrow> unit result" where
  "connection_unprepareStatements name = Inl (RuntimeError ''please unprepare statements in connection pool'')"

definition isHealthy :: "'w pg \<Rightarrow> LibpqConnection \<Rightarrow> 'w \<Rightarrow> bool" where
  "isHealthy pg lc w = (case conn lc of None \<Rightarrow> False | Some c \<Rightarrow> pg_status_ok pg c w)"

section \<open>The execution queue\<close>

text \<open>
  \<open>execution_in_progress_\<close> and the waiting operations in their order.  Acquiring either grants the
  queue or registers the operation; releasing hands it to the first waiter, for whom
  \<open>execution_in_progress_\<close> stays set.
\<close>

record 'a execution_queue =
  execution_in_progress :: bool
  execution_waiters :: "'a list"

definition idle_queue :: "'a execution_queue" where
  "idle_queue = \<lparr>execution_in_progress = False, execution_waiters = []\<rparr>"

definition acquireExecutionQueue :: "'a \<Rightarrow> 'a execution_queue \<Rightarrow> bool \<times> 'a execution_queue" where
  "acquireExecutionQueue t q =
     (if \<not> execution_in_progress q then (True, q\<lparr>execution_in_progress := True\<rparr>)
      else (False, q\<lparr>execution_waiters := execution_waiters q @ [t]\<rparr>))"

definition releaseExecutionQueue :: "'a execution_queue \<Rightarrow> 'a option \<times> 'a execution_queue" where
  "releaseExecutionQueue q =
     (case execution_waiters q of
        [] \<Rightarrow> (None, q\<lparr>execution_in_progress := False\<rparr>)
      | t # ts \<Rightarrow> (Some t, q\<lparr>execution_waiters := ts\<rparr>))"

section \<open>The lock over a connection\<close>

text \<open>
  The contract of a fair lock: \<open>repr q ts\<close> says that the lock's state \<open>q\<close> stands for the operations \<open>ts\<close>,
  the head holding the lock and the others waiting in their order.
\<close>

locale fair_lock =
  fixes acquire :: "'a \<Rightarrow> 'q \<Rightarrow> bool \<times> 'q"
    and release :: "'q \<Rightarrow> 'a option \<times> 'q"
    and repr :: "'q \<Rightarrow> 'a list \<Rightarrow> bool"
  assumes acquire_repr: "repr q ts \<Longrightarrow> \<exists>q'. acquire t q = (ts = [], q') \<and> repr q' (ts @ [t])"
    and release_repr: "repr q (t # ts) \<Longrightarrow> \<exists>q'. release q = ((case ts of [] \<Rightarrow> None | u # us \<Rightarrow> Some u), q') \<and> repr q' ts"

datatype 'a lock_op = Acquire 'a | Release

text \<open>The operations that have been granted the lock, in order, over a list of requests and releases.\<close>

fun run_lock :: "('a \<Rightarrow> 'q \<Rightarrow> bool \<times> 'q) \<Rightarrow> ('q \<Rightarrow> 'a option \<times> 'q) \<Rightarrow> 'a lock_op list \<Rightarrow> 'q \<Rightarrow> 'a list" where
  "run_lock acq rel [] q = []"
| "run_lock acq rel (Acquire t # os) q =
     (case acq t q of (g, q') \<Rightarrow> (if g then [t] else []) @ run_lock acq rel os q')"
| "run_lock acq rel (Release # os) q =
     (case rel q of (n, q') \<Rightarrow> (case n of None \<Rightarrow> [] | Some t \<Rightarrow> [t]) @ run_lock acq rel os q')"

text \<open>Only a holder releases; \<open>n\<close> operations hold or wait.\<close>

fun lock_legal :: "nat \<Rightarrow> 'a lock_op list \<Rightarrow> bool" where
  "lock_legal n [] = True"
| "lock_legal n (Acquire t # os) = lock_legal (Suc n) os"
| "lock_legal n (Release # os) = (n > 0 \<and> lock_legal (n - 1) os)"

fun requests :: "'a lock_op list \<Rightarrow> 'a list" where
  "requests [] = []"
| "requests (Acquire t # os) = t # requests os"
| "requests (Release # os) = requests os"

fun releases :: "'a lock_op list \<Rightarrow> nat" where
  "releases [] = 0"
| "releases (Acquire t # os) = releases os"
| "releases (Release # os) = Suc (releases os)"

context fair_lock
begin

lemma run_lock_fifo:
  assumes "repr q ts" and "lock_legal (length ts) os"
  shows "run_lock acquire release os q =
    drop (min 1 (length ts)) (take (Suc (releases os)) (ts @ requests os))"
  using assms
proof (induction os arbitrary: q ts)
  case Nil
  then show ?case by (cases ts) simp_all
next
  case (Cons a os)
  show ?case
  proof (cases a)
    case (Acquire t)
    from acquire_repr [OF Cons.prems(1), of t] obtain q' where
      q': "acquire t q = (ts = [], q')" "repr q' (ts @ [t])" by blast
    from Cons.IH [OF q'(2)] Cons.prems(2) Acquire have
      "run_lock acquire release os q' = drop 1 (take (Suc (releases os)) (ts @ t # requests os))" by simp
    with Acquire q'(1) show ?thesis by (cases ts) simp_all
  next
    case Release
    with Cons.prems(2) obtain t ts' where ts: "ts = t # ts'" by (cases ts) auto
    with Cons.prems(1) release_repr obtain q' where
      q': "release q = ((case ts' of [] \<Rightarrow> None | u # us \<Rightarrow> Some u), q')" "repr q' ts'" by blast
    from Cons.IH [OF q'(2)] Cons.prems(2) Release ts have
      "run_lock acquire release os q' = drop (min 1 (length ts')) (take (Suc (releases os)) (ts' @ requests os))" by simp
    with Release q'(1) ts show ?thesis by (cases ts') simp_all
  qed
qed

end

definition queue_repr :: "'a execution_queue \<Rightarrow> 'a list \<Rightarrow> bool" where
  "queue_repr q ts \<longleftrightarrow> execution_in_progress q = (ts \<noteq> []) \<and> execution_waiters q = drop 1 ts"

interpretation execution_lock: fair_lock acquireExecutionQueue releaseExecutionQueue queue_repr
proof
  fix q :: "'a execution_queue" and ts t
  assume "queue_repr q ts"
  then show "\<exists>q'. acquireExecutionQueue t q = (ts = [], q') \<and> queue_repr q' (ts @ [t])"
    by (cases ts) (auto simp: queue_repr_def acquireExecutionQueue_def)
next
  fix q :: "'a execution_queue" and t ts
  assume "queue_repr q (t # ts)"
  then show "\<exists>q'. releaseExecutionQueue q = ((case ts of [] \<Rightarrow> None | u # us \<Rightarrow> Some u), q') \<and> queue_repr q' ts"
    by (cases ts) (auto simp: queue_repr_def releaseExecutionQueue_def)
qed

text \<open>
  C22: the execution queue of a connection is a fair lock.  However operations request it and release
  it, as long as only its holder releases, exactly the first requests are granted, in their order, one
  more than were released: two operations never use the connection at once, none overtakes another,
  and the queue is never left idle while an operation waits.
\<close>

theorem execution_queue_fifo:
  assumes "lock_legal 0 ops"
  shows "run_lock acquireExecutionQueue releaseExecutionQueue ops idle_queue
    = take (Suc (releases ops)) (requests ops)"
proof -
  have "queue_repr idle_queue []" by (simp add: queue_repr_def idle_queue_def)
  from execution_lock.run_lock_fifo [OF this, of ops] assms show ?thesis by simp
qed

theorem execution_queue_fifo_witness:
  "run_lock acquireExecutionQueue releaseExecutionQueue
     [Acquire (1::nat), Acquire 2, Acquire 3, Release, Release] idle_queue = [1, 2, 3]"
proof -
  have "lock_legal 0 [Acquire (1::nat), Acquire 2, Acquire 3, Release, Release]" by simp
  from execution_queue_fifo [OF this] show ?thesis by simp
qed

section \<open>Replaying the log on a session\<close>

text \<open>
  The statements a server session has prepared, as names with their SQL.  \<open>ok_sql\<close> says that the server
  can prepare a text, \<open>ok_name\<close> that a name is read back as itself when it stands unquoted in
  \<open>DEALLOCATE\<close>.  The functions below follow what the actions of a log ask of a session; they are
  undefined where the server would refuse.
\<close>

type_synonym session = "string \<rightharpoonup> string"

fun session_prepare :: "(string \<Rightarrow> bool) \<Rightarrow> (string \<times> Statement) list \<Rightarrow> session \<Rightarrow> session option" where
  "session_prepare ok_sql [] m = Some m"
| "session_prepare ok_sql ((n, s) # ss) m =
     (if m n = None \<and> ok_sql (stmt_sql s) then session_prepare ok_sql ss (m(n \<mapsto> stmt_sql s)) else None)"

fun session_unprepare :: "(string \<Rightarrow> bool) \<Rightarrow> (string \<times> Statement) list \<Rightarrow> session \<Rightarrow> session option" where
  "session_unprepare ok_name [] m = Some m"
| "session_unprepare ok_name ((n, s) # ss) m =
     (if m n \<noteq> None \<and> ok_name n then session_unprepare ok_name ss (m(n := None)) else None)"

fun session_action :: "(string \<Rightarrow> bool) \<Rightarrow> (string \<Rightarrow> bool) \<Rightarrow> StatementAction \<Rightarrow> session \<Rightarrow> session option" where
  "session_action ok_sql ok_name (PREPARE b) m = session_prepare ok_sql (block_statements b) m"
| "session_action ok_sql ok_name (UNPREPARE b) m = session_unprepare ok_name (block_statements b) m"

fun session_replay :: "(string \<Rightarrow> bool) \<Rightarrow> (string \<Rightarrow> bool) \<Rightarrow> StatementAction list \<Rightarrow> session \<Rightarrow> session option" where
  "session_replay ok_sql ok_name [] m = Some m"
| "session_replay ok_sql ok_name (a # as) m =
     Option.bind (session_action ok_sql ok_name a m) (session_replay ok_sql ok_name as)"

lemma session_replay_append:
  "session_replay f g (as @ bs) m = Option.bind (session_replay f g as m) (session_replay f g bs)"
  by (induction as arbitrary: m) (auto split: Option.bind_splits)

text \<open>
  What libpq documents of preparing and deallocating on a session that is connected: \<open>idle\<close> when no
  command is under way, \<open>view\<close> the statements the session has.
\<close>

definition sessions_documented ::
    "'w pg \<Rightarrow> (nat \<Rightarrow> 'w \<Rightarrow> bool) \<Rightarrow> (nat \<Rightarrow> 'w \<Rightarrow> session) \<Rightarrow> (string \<Rightarrow> bool) \<Rightarrow> (string \<Rightarrow> bool) \<Rightarrow> bool" where
  "sessions_documented pg idle view ok_sql ok_name \<longleftrightarrow>
     (\<forall>c w n q. idle c w \<longrightarrow> view c w n = None \<longrightarrow> ok_sql q \<longrightarrow>
        (\<exists>w'. pg_send pg c (SendPrepare n q) w = (True, w') \<and> pg_pending pg c w' = [CommandOk]
           \<and> idle c (pg_took pg c 2 w') \<and> view c (pg_took pg c 2 w') = (view c w)(n \<mapsto> q)))
     \<and> (\<forall>c w n. idle c w \<longrightarrow> view c w n \<noteq> None \<longrightarrow> ok_name n \<longrightarrow>
        (\<exists>w'. pg_send pg c (SendQuery (''DEALLOCATE '' @ n)) w = (True, w') \<and> pg_pending pg c w' = [CommandOk]
           \<and> idle c (pg_took pg c 2 w') \<and> view c (pg_took pg c 2 w') = (view c w)(n := None)))"

lemma command_ok:
  assumes "pg_send pg c cmd w = (True, w')" and "pg_pending pg c w' = [CommandOk]"
  shows "run_command pg (Some c) cmd w = (Inr empty_result, pg_took pg c 2 w')"
  using assms by (simp add: run_command_def consumeResults_def numeral_2_eq_2)

lemma prepare_all_session:
  assumes "sessions_documented pg idle view f g"
  shows "idle c w \<Longrightarrow> session_prepare f ss (view c w) = Some m \<Longrightarrow>
    \<exists>w'. prepare_all pg (Some c) ss w = (Inr (), w') \<and> idle c w' \<and> view c w' = m"
proof (induction ss arbitrary: w)
  case Nil
  then show ?case by simp
next
  case (Cons p ss)
  obtain n s where p: "p = (n, s)" by (cases p)
  from Cons.prems p have pre: "view c w n = None" "f (stmt_sql s)"
    and rest: "session_prepare f ss ((view c w)(n \<mapsto> stmt_sql s)) = Some m" by (auto split: if_splits)
  from assms Cons.prems(1) pre obtain w1 where
    w1: "pg_send pg c (SendPrepare n (stmt_sql s)) w = (True, w1)" "pg_pending pg c w1 = [CommandOk]"
      "idle c (pg_took pg c 2 w1)" "view c (pg_took pg c 2 w1) = (view c w)(n \<mapsto> stmt_sql s)"
    unfolding sessions_documented_def by blast
  from rest have "session_prepare f ss (view c (pg_took pg c 2 w1)) = Some m" by (simp only: w1(4))
  from Cons.IH [OF w1(3) this] obtain w' where
    "prepare_all pg (Some c) ss (pg_took pg c 2 w1) = (Inr (), w')" "idle c w'" "view c w' = m" by blast
  moreover have "prepareAsync pg (Some c) n (stmt_sql s) w = (Inr (), pg_took pg c 2 w1)"
    using command_ok [OF w1(1,2)] by (simp add: prepareAsync_def io_simps)
  ultimately show ?case using p by (simp add: io_simps)
qed

lemma unprepare_all_session:
  assumes "sessions_documented pg idle view f g"
  shows "idle c w \<Longrightarrow> session_unprepare g ss (view c w) = Some m \<Longrightarrow>
    \<exists>w'. unprepare_all pg (Some c) ss w = (Inr (), w') \<and> idle c w' \<and> view c w' = m"
proof (induction ss arbitrary: w)
  case Nil
  then show ?case by simp
next
  case (Cons p ss)
  obtain n s where p: "p = (n, s)" by (cases p)
  from Cons.prems p have pre: "view c w n \<noteq> None" "g n"
    and rest: "session_unprepare g ss ((view c w)(n := None)) = Some m" by (auto split: if_splits)
  from assms Cons.prems(1) pre obtain w1 where
    w1: "pg_send pg c (SendQuery (''DEALLOCATE '' @ n)) w = (True, w1)" "pg_pending pg c w1 = [CommandOk]"
      "idle c (pg_took pg c 2 w1)" "view c (pg_took pg c 2 w1) = (view c w)(n := None)"
    unfolding sessions_documented_def by blast
  from rest have "session_unprepare g ss (view c (pg_took pg c 2 w1)) = Some m" by (simp only: w1(4))
  from Cons.IH [OF w1(3) this] obtain w' where
    "unprepare_all pg (Some c) ss (pg_took pg c 2 w1) = (Inr (), w')" "idle c w'" "view c w' = m" by blast
  moreover have "unprepareAsync pg (Some c) n w = (Inr (), pg_took pg c 2 w1)"
    using command_ok [OF w1(1,2)] by (simp add: unprepareAsync_def io_simps)
  ultimately show ?case using p by (simp add: io_simps)
qed

lemma mark_action_conn [simp]: "conn (mark_action a lc) = conn lc"
  by (cases a) simp_all

lemma mark_actions:
  "statement_cursor (fold mark_action as lc) = statement_cursor lc + length as"
  "conn (fold mark_action as lc) = conn lc"
proof (induction as arbitrary: lc)
  case (Cons a as)
  { case 1 with Cons show ?case by (cases a) simp_all }
  { case 2 with Cons show ?case by simp }
qed simp_all

lemma sync_loop_session:
  assumes "sessions_documented pg idle view f g"
  shows "idle c w \<Longrightarrow> conn lc = Some c \<Longrightarrow> session_replay f g as (view c w) = Some m \<Longrightarrow>
    \<exists>w'. sync_loop pg as lc w = (Inr (), fold mark_action as lc, w') \<and> idle c w' \<and> view c w' = m"
proof (induction as arbitrary: lc w)
  case Nil
  then show ?case by simp
next
  case (Cons a as)
  from Cons.prems(3) obtain m1 where
    m1: "session_action f g a (view c w) = Some m1" "session_replay f g as m1 = Some m"
    by (auto split: Option.bind_splits)
  from m1(1) Cons.prems(1) have "\<exists>w'. sync_action pg (Some c) a w = (Inr (), w') \<and> idle c w' \<and> view c w' = m1"
    by (cases a) (simp_all add: prepare_all_session [OF assms] unprepare_all_session [OF assms])
  then obtain w1 where w1: "sync_action pg (Some c) a w = (Inr (), w1)" "idle c w1" "view c w1 = m1" by blast
  from Cons.IH [OF w1(2), of "mark_action a lc"] Cons.prems(2) m1(2) w1(3) obtain w' where
    "sync_loop pg as (mark_action a lc) w1 = (Inr (), fold mark_action as (mark_action a lc), w')"
    "idle c w'" "view c w' = m" by auto
  with w1(1) Cons.prems(2) show ?case by simp
qed

text \<open>A connection that has replayed a prefix of a log: its cursor, its session and its blocks agree.\<close>

definition synced_prefix :: "(nat \<Rightarrow> 'w \<Rightarrow> session) \<Rightarrow> (string \<Rightarrow> bool) \<Rightarrow> (string \<Rightarrow> bool) \<Rightarrow> StatementAction list
    \<Rightarrow> LibpqConnection \<Rightarrow> 'w \<Rightarrow> bool" where
  "synced_prefix view f g acts lc w \<longleftrightarrow>
     statement_cursor lc \<le> length acts
     \<and> conn_blocks lc = dom (replay (take (statement_cursor lc) acts))
     \<and> (case conn lc of None \<Rightarrow> False
        | Some c \<Rightarrow> session_replay f g (take (statement_cursor lc) acts) Map.empty = Some (view c w))"

lemma conn_blocks_mark:
  "conn_blocks lc = dom m \<Longrightarrow> conn_blocks (fold mark_action as lc) = dom (fold replay_action as m)"
proof (induction as arbitrary: lc m)
  case Nil
  then show ?case by simp
next
  case (Cons a as)
  have "conn_blocks (mark_action a lc) = dom (replay_action a m)"
    using Cons.prems by (cases a) auto
  from Cons.IH [OF this] show ?case by simp
qed

text \<open>
  C19: synchronising replays exactly what the connection has not seen.  On an idle connection whose
  cursor, session and blocks agree with a prefix of the log, and when the server accepts the log's
  statements one after the other, \<open>syncStatements\<close> returns, the session then has exactly the
  statements the whole log leaves prepared, the cursor stands at its end, and the blocks the
  connection reports as prepared are those the log calls prepared.
\<close>

theorem syncStatements_replays:
  assumes "sessions_documented pg idle view f g"
    and "conn lc = Some c" and "idle c w" and "synced_prefix view f g acts lc w"
    and "session_replay f g acts Map.empty = Some m"
  shows "\<exists>lc' w'. syncStatements pg lc acts w = (Inr (), lc', w') \<and> idle c w' \<and> conn lc' = Some c
    \<and> statement_cursor lc' = length acts \<and> view c w' = m \<and> conn_blocks lc' = dom (replay acts)
    \<and> synced_prefix view f g acts lc' w'"
proof -
  let ?k = "statement_cursor lc"
  have k: "?k \<le> length acts" "conn_blocks lc = dom (replay (take ?k acts))"
    and s: "session_replay f g (take ?k acts) Map.empty = Some (view c w)"
    using assms(2,4) by (auto simp: synced_prefix_def)
  have "session_replay f g (take ?k acts @ drop ?k acts) Map.empty = Some m"
    using assms(5) by simp
  with s have "session_replay f g (drop ?k acts) (view c w) = Some m"
    by (simp only: session_replay_append) simp
  from sync_loop_session [OF assms(1,3,2) this] obtain w' where
    w': "syncStatements pg lc acts w = (Inr (), fold mark_action (drop ?k acts) lc, w')" "idle c w'" "view c w' = m"
    by (auto simp: syncStatements_def)
  have "replay acts = fold replay_action (drop ?k acts) (replay (take ?k acts))"
    unfolding replay_def by (metis append_take_drop_id fold_append o_apply)
  with conn_blocks_mark [OF k(2), of "drop ?k acts"]
  have b: "conn_blocks (fold mark_action (drop ?k acts) lc) = dom (replay acts)" by simp
  with w' k(1) assms(2,5) show ?thesis
    by (intro exI conjI) (auto simp: mark_actions synced_prefix_def)
qed

text \<open>
  A server with one session that behaves as documented: its statements, and the results of the command
  under way that have not been taken (\<open>None\<close> when the session is idle).
\<close>

type_synonym sample_world = "session \<times> pg_result list option"

definition sample_send :: "pg_command \<Rightarrow> sample_world \<Rightarrow> bool \<times> sample_world" where
  "sample_send cmd w =
     (case w of
        (m, Some rs) \<Rightarrow> (False, w)
      | (m, None) \<Rightarrow>
          (True,
           (case cmd of
              SendPrepare n q \<Rightarrow>
                if m n = None then (m(n \<mapsto> q), Some [CommandOk]) else (m, Some [FailedResult ''already exists''])
            | SendQuery q \<Rightarrow>
                if take 11 q = ''DEALLOCATE '' \<and> m (drop 11 q) \<noteq> None
                then (m(drop 11 q := None), Some [CommandOk]) else (m, Some [FailedResult ''error''])
            | SendQueryPrepared n ps \<Rightarrow>
                (m, Some (if m n = None then [FailedResult ''does not exist'']
                          else [Tuples \<lparr>columns = [''a''], rows = [[Some ''1'']]\<rparr>]))
            | SendQueryParams q ps \<Rightarrow> (m, Some [CommandOk]))))"

definition sample_pg :: "sample_world pg" where
  "sample_pg =
     \<lparr>pg_connect_start = (\<lambda>info w. (Some 0, w)),
      pg_connect_poll = (\<lambda>c w. (True, w)),
      pg_send = (\<lambda>c. sample_send),
      pg_error = (\<lambda>c w. ''another command is already in progress''),
      pg_pending = (\<lambda>c w. case snd w of None \<Rightarrow> [] | Some rs \<Rightarrow> rs),
      pg_took = (\<lambda>c k w. case w of (m, None) \<Rightarrow> w
                  | (m, Some rs) \<Rightarrow> (m, if k > length rs then None else Some (drop k rs))),
      pg_escape = (\<lambda>c s w. Some s),
      pg_status_ok = (\<lambda>c w. True),
      pg_show_double = (\<lambda>x. [])\<rparr>"

lemma sample_documented:
  "sessions_documented sample_pg (\<lambda>c w. snd w = None) (\<lambda>c w. fst w) (\<lambda>q. True) (\<lambda>n. True)"
  by (auto simp: sessions_documented_def sample_pg_def sample_send_def)

definition sample_block :: StatementsBlock where
  "sample_block = addStatement (addStatement (make_block ''b'') \<lparr>stmt_name = ''x'', stmt_sql = ''SELECT 1''\<rparr>)
     \<lparr>stmt_name = ''y'', stmt_sql = ''SELECT 2''\<rparr>"

definition sample_actions :: "StatementAction list" where
  "sample_actions = [PREPARE sample_block, UNPREPARE sample_block, PREPARE sample_block]"

lemmas sample_block_simps =
  sample_block_def sample_actions_def addStatement_def make_block_def

theorem syncStatements_replays_witness:
  "\<exists>lc' w'. syncStatements sample_pg (new_connection\<lparr>conn := Some 0\<rparr>) sample_actions (Map.empty, None) = (Inr (), lc', w')
    \<and> snd w' = None \<and> conn lc' = Some 0 \<and> statement_cursor lc' = length sample_actions
    \<and> fst w' = [''x'' \<mapsto> ''SELECT 1'', ''y'' \<mapsto> ''SELECT 2''] \<and> conn_blocks lc' = dom (replay sample_actions)
    \<and> synced_prefix (\<lambda>c w. fst w) (\<lambda>q. True) (\<lambda>n. True) sample_actions lc' w'"
proof (rule syncStatements_replays [OF sample_documented])
  show "conn (new_connection\<lparr>conn := Some 0\<rparr>) = Some 0" by simp
  show "snd (Map.empty :: session, None) = None" by simp
  show "synced_prefix (\<lambda>c w. fst w) (\<lambda>q. True) (\<lambda>n. True) sample_actions (new_connection\<lparr>conn := Some 0\<rparr>) (Map.empty, None)"
    by (simp add: synced_prefix_def new_connection_def replay_def)
  show "session_replay (\<lambda>q. True) (\<lambda>n. True) sample_actions Map.empty = Some [''x'' \<mapsto> ''SELECT 1'', ''y'' \<mapsto> ''SELECT 2'']"
    by (simp add: sample_block_simps fun_upd_twist fun_eq_iff)
qed

section \<open>After a failed command\<close>

text \<open>
  What libpq documents of the results of a command: until the null that ends them has been taken, no
  further command can be sent.  \<open>busy\<close> is that situation.
\<close>

definition busy_documented :: "'w pg \<Rightarrow> (nat \<Rightarrow> 'w \<Rightarrow> bool) \<Rightarrow> bool" where
  "busy_documented pg busy \<longleftrightarrow>
     (\<forall>c w cmd w' k. pg_send pg c cmd w = (True, w') \<longrightarrow> k \<le> length (pg_pending pg c w') \<longrightarrow> busy c (pg_took pg c k w'))
     \<and> (\<forall>c w cmd. busy c w \<longrightarrow> (\<exists>w'. pg_send pg c cmd w = (False, w') \<and> busy c w'))"

lemma consume_list_error:
  "consume_list rs k = (Inl e, j) \<Longrightarrow> k < j \<and> j \<le> k + length rs"
  by (induction rs k rule: consume_list.induct) (auto split: if_splits)

lemma failed_command_busy:
  assumes "busy_documented pg busy" and "pg_send pg c cmd w = (True, w1)"
    and "run_command pg (Some c) cmd w = (Inl e, w2)"
  shows "busy c w2"
proof -
  obtain r k where rk: "consume_list (pg_pending pg c w1) 0 = (r, k)" by (cases "consume_list (pg_pending pg c w1) 0")
  with assms(2,3) have "r = Inl e" "w2 = pg_took pg c k w1"
    by (auto simp: run_command_def consumeResults_def)
  with consume_list_error [of "pg_pending pg c w1" 0 e k] rk have "k \<le> length (pg_pending pg c w1)" by simp
  with assms(1,2) \<open>w2 = pg_took pg c k w1\<close> show ?thesis
    unfolding busy_documented_def by blast
qed

lemma busy_command:
  assumes "busy_documented pg busy" and "busy c w"
  shows "\<exists>e w'. run_command pg (Some c) cmd w = (Inl e, w') \<and> busy c w'"
proof -
  from assms obtain w' where "pg_send pg c cmd w = (False, w')" "busy c w'"
    unfolding busy_documented_def by blast
  then show ?thesis by (simp add: run_command_def)
qed

text \<open>Commands one after the other on a connection, whatever each of them returned.\<close>

fun run_commands :: "'w pg \<Rightarrow> nat option \<Rightarrow> pg_command list \<Rightarrow> 'w \<Rightarrow> QueryResult result list" where
  "run_commands pg cn [] w = []"
| "run_commands pg cn (cmd # cmds) w = (case run_command pg cn cmd w of (r, w') \<Rightarrow> r # run_commands pg cn cmds w')"

lemma busy_commands:
  assumes "busy_documented pg busy"
  shows "busy c w \<Longrightarrow> \<forall>r \<in> set (run_commands pg (Some c) cmds w). \<not> is_ok r"
proof (induction cmds arbitrary: w)
  case Nil
  then show ?case by simp
next
  case (Cons cmd cmds)
  from busy_command [OF assms Cons.prems, of cmd] obtain e w' where
    "run_command pg (Some c) cmd w = (Inl e, w')" "busy c w'" by blast
  with Cons.IH show ?case by simp
qed

text \<open>
  an error poisons its connection.  \<open>consumeResults\<close> throws at the first failed result without taking
  the results that end the command, so, with libpq refusing commands until then, every later command
  on that connection throws as well, whatever it is.
\<close>

theorem failed_query_poisons:
  assumes "busy_documented pg busy" and "pg_send pg c cmd w = (True, w1)"
    and "run_command pg (Some c) cmd w = (Inl e, w2)"
  shows "\<forall>r \<in> set (run_commands pg (Some c) cmds w2). \<not> is_ok r"
  using busy_commands [OF assms(1) failed_command_busy [OF assms]] .

lemma sample_busy: "busy_documented sample_pg (\<lambda>c w. snd w \<noteq> None)"
proof -
  have "snd (snd (sample_send cmd w)) \<noteq> None" for cmd w
    by (cases w; cases cmd) (auto simp: sample_send_def split: option.splits)
  then have "snd w' \<noteq> None" if "sample_send cmd w = (b, w')" for cmd w b w' using that by (metis snd_conv)
  then show ?thesis
    by (fastforce simp: busy_documented_def sample_pg_def sample_send_def [of _ "(_, Some _)"] split: prod.splits option.splits)
qed

lemma sample_failed_command:
  "run_command sample_pg (Some 0) (SendQueryPrepared ''x'' []) (Map.empty, None)
     = (Inl (RuntimeError ''does not exist''), (Map.empty, Some []))"
  by (simp add: run_command_def consumeResults_def sample_pg_def sample_send_def)

theorem failed_query_poisons_witness:
  "run_commands sample_pg (Some 0) [SendPrepare ''x'' ''SELECT 1'', SendQueryParams ''SELECT 1'' []] (Map.empty, Some [])
     = [Inl (RuntimeError ''another command is already in progress''),
        Inl (RuntimeError ''another command is already in progress'')]
   \<and> list_all (\<lambda>r. \<not> is_ok r)
       (run_commands sample_pg (Some 0) [SendPrepare ''x'' ''SELECT 1'', SendQueryParams ''SELECT 1'' []] (Map.empty, Some []))"
proof (rule conjI)
  show "run_commands sample_pg (Some 0) [SendPrepare ''x'' ''SELECT 1'', SendQueryParams ''SELECT 1'' []] (Map.empty, Some [])
     = [Inl (RuntimeError ''another command is already in progress''),
        Inl (RuntimeError ''another command is already in progress'')]"
    by (simp add: run_command_def sample_pg_def sample_send_def)
  have "pg_send sample_pg 0 (SendQueryPrepared ''x'' []) (Map.empty, None)
      = (True, (Map.empty, Some [FailedResult ''does not exist'']))"
    by (simp add: sample_pg_def sample_send_def)
  from failed_query_poisons [OF sample_busy this sample_failed_command]
  show "list_all (\<lambda>r. \<not> is_ok r)
     (run_commands sample_pg (Some 0) [SendPrepare ''x'' ''SELECT 1'', SendQueryParams ''SELECT 1'' []] (Map.empty, Some []))"
    unfolding list_all_iff .
qed

end
