(* ===== verification/Libpq_Socket.thy ===== *)
theory Libpq_Socket
  imports Libpq
begin

text \<open>
  The socket of a connection: \<open>rebindSocketIfNeeded\<close>, \<open>clearSocket\<close>, \<open>waitForPolling\<close>, \<open>flushAsync\<close>, the loop of
  \<open>connectAsync\<close> and the destructor in \<open>modules/database/src/libpq_connection.cpp\<close>.

  libpq owns a descriptor; the connection waits on a duplicate of it in a Boost \<open>stream_descriptor\<close>.  The descriptors of
  the process are a table of open file descriptions; as POSIX demands, a new descriptor gets the lowest free number.
\<close>

section \<open>Descriptors\<close>

type_synonym descriptors = "nat option list"

definition description :: "descriptors \<Rightarrow> nat \<Rightarrow> nat option" where
  "description t fd = (if fd < length t then t ! fd else None)"

definition lowest_free :: "descriptors \<Rightarrow> nat" where
  "lowest_free t = (case first_index (\<lambda>d. d = None) t of Some k \<Rightarrow> k | None \<Rightarrow> length t)"

definition open_fd :: "nat \<Rightarrow> descriptors \<Rightarrow> nat \<times> descriptors" where
  "open_fd d t =
     (let k = lowest_free t in (k, if k < length t then t[k := Some d] else t @ [Some d]))"

definition close_fd :: "nat \<Rightarrow> descriptors \<Rightarrow> descriptors" where
  "close_fd fd t = t[fd := None]"

record posix =
  fd_limit :: nat
  assign_ok :: "nat \<Rightarrow> bool"
  assign_message :: string

definition dup_fd :: "posix \<Rightarrow> nat \<Rightarrow> descriptors \<Rightarrow> nat option \<times> descriptors" where
  "dup_fd px fd t =
     (case description t fd of
        None \<Rightarrow> (None, t)
      | Some d \<Rightarrow> if lowest_free t < fd_limit px then (case open_fd d t of (k, t') \<Rightarrow> (Some k, t')) else (None, t))"

section \<open>The socket\<close>

text \<open>
  \<open>socket_\<close> is an optional descriptor which itself may hold no handle, after a failed \<open>assign\<close>; \<open>bound_libpq_fd_\<close> is
  \<open>None\<close> for -1.
\<close>

record socket_state =
  socket :: "nat option option"
  bound_libpq_fd :: "nat option"

type_synonym sockets = "socket_state \<times> descriptors"

definition closeDupFd :: "nat option \<Rightarrow> descriptors \<Rightarrow> descriptors" where
  "closeDupFd fd t = (case fd of None \<Rightarrow> t | Some k \<Rightarrow> close_fd k t)"

text \<open>Resetting the optional destroys the stream descriptor, which closes its handle.\<close>

definition clearSocket :: "sockets \<Rightarrow> sockets" where
  "clearSocket st =
     (case st of (s, t) \<Rightarrow>
        (s\<lparr>socket := None, bound_libpq_fd := None\<rparr>,
         case socket s of None \<Rightarrow> t | Some h \<Rightarrow> closeDupFd h t))"

text \<open>The destructor; \<open>finish\<close> is \<open>PQfinish\<close> on the connection, if there is one, which closes the descriptors of libpq.\<close>

definition destroy_connection :: "(descriptors \<Rightarrow> descriptors) option \<Rightarrow> sockets \<Rightarrow> descriptors" where
  "destroy_connection finish st =
     (case clearSocket st of (s, t) \<Rightarrow> (case finish of None \<Rightarrow> t | Some close_all \<Rightarrow> close_all t))"

text \<open>The first argument is \<open>PQsocket\<close> of the connection, if there is one; its value is \<open>None\<close> for -1.\<close>

definition rebindSocketIfNeeded :: "posix \<Rightarrow> nat option option \<Rightarrow> (sockets, unit) io" where
  "rebindSocketIfNeeded px libpq_socket st =
     (case (libpq_socket, st) of
        (None, _) \<Rightarrow> (Inl (RuntimeError ''connection is not initialized''), st)
      | (Some None, _) \<Rightarrow> (Inl (RuntimeError ''invalid PostgreSQL socket''), st)
      | (Some (Some libpq_fd), (s, t)) \<Rightarrow>
          if socket s \<noteq> None \<and> bound_libpq_fd s = Some libpq_fd then (Inr (), st)
          else (case dup_fd px libpq_fd t of
              (None, t1) \<Rightarrow> (Inl (RuntimeError ''dup() failed for PostgreSQL socket''), (s, t1))
            | (Some k, t1) \<Rightarrow>
                (case socket s of
                   Some old_dup \<Rightarrow>
                     (let t2 = closeDupFd old_dup t1 in
                      if assign_ok px k
                      then (Inr (), (s\<lparr>socket := Some (Some k), bound_libpq_fd := Some libpq_fd\<rparr>, t2))
                      else (Inl (RuntimeError (''failed to assign PostgreSQL socket: '' @ assign_message px)),
                            (s\<lparr>socket := Some None\<rparr>, close_fd k t2)))
                 | None \<Rightarrow>
                     if assign_ok px k
                     then (Inr (), (s\<lparr>socket := Some (Some k), bound_libpq_fd := Some libpq_fd\<rparr>, t1))
                     else (Inl (RuntimeError (assign_message px)), (s, t1)))))"

section \<open>Waiting\<close>

datatype polling = POLLING_OK | POLLING_FAILED | POLLING_READING | POLLING_WRITING

text \<open>What is waited on, by the open file description behind the handle; the wait itself ends when the kernel says so.\<close>

definition watched :: "sockets \<Rightarrow> nat option" where
  "watched st = (case socket (fst st) of Some (Some k) \<Rightarrow> description (snd st) k | _ \<Rightarrow> None)"

definition waitForPolling :: "polling \<Rightarrow> (sockets, nat option) io" where
  "waitForPolling status st =
     (if socket (fst st) = None then (Inl (RuntimeError ''socket is not bound''), st)
      else if status \<in> {POLLING_READING, POLLING_WRITING} then (Inr (watched st), st)
      else (Inr None, st))"

text \<open>
  The loop of \<open>connectAsync\<close>.  Each call of \<open>PQconnectPoll\<close> may change the descriptors of libpq: it is the status it returns,
  its effect on the table, and the socket libpq has after it.  A run with no answer any more is \<open>NeverResumes\<close>.
\<close>

type_synonym poll = "polling \<times> (descriptors \<Rightarrow> descriptors) \<times> nat option"

fun connect_loop :: "posix \<Rightarrow> string \<Rightarrow> poll list \<Rightarrow> (sockets, nat option) io" where
  "connect_loop px err [] st = (Inl NeverResumes, st)"
| "connect_loop px err ((status, effect, fd) # polls) st =
     (let st1 = (fst st, effect (snd st)) in
      if status = POLLING_OK then (Inr fd, st1)
      else if status = POLLING_FAILED then (Inl (RuntimeError err), st1)
      else io_bind (rebindSocketIfNeeded px (Some fd)) (\<lambda>_.
           io_bind (waitForPolling status) (\<lambda>_. connect_loop px err polls)) st1)"

text \<open>The whole of it: the old socket is cleared, and after the loop the socket is bound once more.\<close>

definition connect_socket :: "posix \<Rightarrow> string \<Rightarrow> poll list \<Rightarrow> (sockets, unit) io" where
  "connect_socket px err polls st =
     io_bind (connect_loop px err polls) (\<lambda>fd. rebindSocketIfNeeded px (Some fd)) (clearSocket st)"

text \<open>\<open>flushAsync\<close>: while \<open>PQflush\<close> says 1 it waits for the socket.  Its result -1, for failure, ends the loop like 0.\<close>

fun flush_waits :: "int list \<Rightarrow> nat option" where
  "flush_waits [] = None"
| "flush_waits (r # rs) = (if r = 1 then map_option Suc (flush_waits rs) else Some 0)"

definition flushAsync :: "int list \<Rightarrow> sockets \<Rightarrow> nat result" where
  "flushAsync flushes st =
     (if socket (fst st) = None then Inl (RuntimeError ''socket is not bound'')
      else case flush_waits flushes of None \<Rightarrow> Inl NeverResumes | Some n \<Rightarrow> Inr n)"

section \<open>The table\<close>

definition opened :: "descriptors \<Rightarrow> nat set" where
  "opened t = {k. description t k \<noteq> None}"

definition held_fd :: "socket_state \<Rightarrow> nat set" where
  "held_fd s = (case socket s of Some (Some k) \<Rightarrow> {k} | _ \<Rightarrow> {})"

lemma lowest_free_free: "description t (lowest_free t) = None"
  by (auto simp: description_def lowest_free_def split: option.split dest: first_index_SomeD)

lemma lowest_free_least: "k < lowest_free t \<Longrightarrow> description t k \<noteq> None"
  by (auto simp: description_def lowest_free_def first_index_None first_index_Some in_set_conv_nth split: option.splits)

lemma lowest_free_bound: "lowest_free t \<le> length t"
  by (auto simp: lowest_free_def split: option.split dest: first_index_SomeD)

lemma lowest_free_eqI:
  assumes "description t n = None" and "\<And>k. k < n \<Longrightarrow> description t k \<noteq> None"
  shows "lowest_free t = n"
  using assms lowest_free_free [of t] lowest_free_least [of _ t] by (metis linorder_neqE_nat)

lemma description_open:
  "open_fd d t = (k, t') \<Longrightarrow> k = lowest_free t \<and> description t' j = (if j = k then Some d else description t j)"
  using lowest_free_bound [of t]
  by (auto simp: open_fd_def Let_def description_def nth_append nth_list_update split: if_splits)

lemma description_close: "description (close_fd k t) j = (if j = k then None else description t j)"
  by (simp add: description_def close_fd_def)

lemma dup_fd_Some:
  "dup_fd px fd t = (Some k, t') \<Longrightarrow> \<exists>d. description t fd = Some d \<and> k = lowest_free t
     \<and> (\<forall>j. description t' j = (if j = k then Some d else description t j))"
  using description_open by (fastforce simp: dup_fd_def split: option.splits if_splits prod.splits)

lemma dup_fd_None: "dup_fd px fd t = (None, t') \<Longrightarrow> t' = t"
  by (auto simp: dup_fd_def split: option.splits if_splits prod.splits)


lemma opened_simps:
  "opened (close_fd k t) = opened t - {k}"
  "dup_fd px fd t = (Some k, t') \<Longrightarrow> k \<notin> opened t \<and> opened t' = insert k (opened t)"
  using lowest_free_free [of t] by (auto simp: opened_def description_close dest!: dup_fd_Some)

lemma destroy_closes_duplicate:
  "opened (destroy_connection None st) = opened (snd st) - held_fd (fst st) \<and> held_fd (fst (clearSocket st)) = {}"
  by (cases st) (auto simp: destroy_connection_def clearSocket_def closeDupFd_def opened_simps held_fd_def split: option.split)

section \<open>What a rebinding does\<close>

text \<open>A rebinding that is not skipped and succeeds makes the connection wait on the socket libpq has.\<close>

lemma rebind_cases:
  assumes "rebindSocketIfNeeded px (Some (Some fd)) (s, t) = (r, (s', t'))"
  obtains (skipped) "socket s \<noteq> None" "bound_libpq_fd s = Some fd" "r = Inr ()" "s' = s" "t' = t"
  | (no_dup) e where "r = Inl e" "s' = s" "t' = t"
  | (moved) k t1 where "dup_fd px fd t = (Some k, t1)" "r = Inr ()" "socket s' = Some (Some k)" "bound_libpq_fd s' = Some fd"
      "t' = (case socket s of Some old \<Rightarrow> closeDupFd old t1 | None \<Rightarrow> t1)"
  | (lost) k t1 old e where "dup_fd px fd t = (Some k, t1)" "\<not> assign_ok px k" "r = Inl e" "socket s = Some old" "socket s' = Some None"
      "t' = close_fd k (closeDupFd old t1)"
  | (leaked) k t1 e where "dup_fd px fd t = (Some k, t1)" "\<not> assign_ok px k" "r = Inl e" "socket s = None" "s' = s" "t' = t1"
proof (cases "socket s \<noteq> None \<and> bound_libpq_fd s = Some fd")
  case True
  with assms that(1) show thesis by (simp add: rebindSocketIfNeeded_def)
next
  case False
  obtain h t1 where h: "dup_fd px fd t = (h, t1)" by fastforce
  show thesis
  proof (cases h)
    case None
    with False h dup_fd_None [of px fd t t1] assms that(2) show thesis by (auto simp: rebindSocketIfNeeded_def)
  next
    case (Some k)
    show thesis
    proof (cases "socket s")
      case None
      with Some False h assms that(3) [of k t1] that(5) [of k t1] show thesis
        by (auto simp: rebindSocketIfNeeded_def split: if_splits)
    next
      case (Some old)
      with \<open>h = Some k\<close> False h assms that(3) [of k t1] that(4) [of k t1] show thesis
        by (auto simp: rebindSocketIfNeeded_def Let_def split: if_splits)
    qed
  qed
qed


definition sample_posix :: posix where
  "sample_posix = \<lparr>fd_limit = 1024, assign_ok = (\<lambda>k. True), assign_message = []\<rparr>"


section \<open>Which socket a new connection waits on\<close>

definition only_opens :: "(descriptors \<Rightarrow> descriptors) \<Rightarrow> bool" where
  "only_opens e \<longleftrightarrow> (\<forall>t k d. description t k = Some d \<longrightarrow> description (e t) k = Some d)"

text \<open>Bound to the socket \<open>n\<close> of libpq, and to the same open file.\<close>

definition bound_well :: "nat \<Rightarrow> sockets \<Rightarrow> bool" where
  "bound_well n st \<longleftrightarrow> socket (fst st) = None \<or>
     (\<exists>d. bound_libpq_fd (fst st) = Some n \<and> description (snd st) n = Some d \<and> watched st = Some d)"

lemma bound_well_effect:
  assumes "bound_well n st" and "only_opens e"
  shows "bound_well n (fst st, e (snd st))"
proof (cases "socket (fst st) = None")
  case False
  then obtain d where d: "bound_libpq_fd (fst st) = Some n" "description (snd st) n = Some d" "watched st = Some d"
    using assms(1) by (auto simp: bound_well_def)
  then obtain k where "socket (fst st) = Some (Some k)" "description (snd st) k = Some d"
    by (auto simp: watched_def split: option.splits)
  with d assms(2) show ?thesis by (simp add: bound_well_def watched_def only_opens_def)
qed (simp add: bound_well_def)

lemma bound_well_rebind:
  assumes "bound_well n (s, t)" and "rebindSocketIfNeeded px (Some (Some n)) (s, t) = (Inr (), (s', t'))"
  shows "bound_well n (s', t') \<and> socket s' \<noteq> None"
  using assms(2)
proof (cases rule: rebind_cases)
  case (moved k t1)
  from dup_fd_Some [OF moved(1)] obtain d where
    d: "description t n = Some d" "k = lowest_free t" "\<forall>j. description t1 j = (if j = k then Some d else description t j)" by blast
  have k: "n \<noteq> k" using d(1,2) lowest_free_free [of t] by auto
  show ?thesis
  proof (cases "socket s")
    case None
    with moved(3-5) d k show ?thesis by (simp add: bound_well_def watched_def)
  next
    case (Some old)
    with assms(1) have "bound_libpq_fd s = Some n" by (simp add: bound_well_def)
    with Some assms(2) have "(s', t') = (s, t)" by (simp add: rebindSocketIfNeeded_def)
    with assms(1) Some show ?thesis by simp
  qed
qed (use assms(1) in simp_all)

lemma waitForPolling_keeps: "waitForPolling status st = (r, st') \<Longrightarrow> st' = st"
  by (auto simp: waitForPolling_def split: if_splits)

lemma connect_loop_Cons:
  assumes "connect_loop px err ((status, e, f) # polls) st = (Inr fd, st')"
  obtains (finished) "fd = f" "st' = (fst st, e (snd st))"
  | (waits) st2 where "rebindSocketIfNeeded px (Some f) (fst st, e (snd st)) = (Inr (), st2)" "connect_loop px err polls st2 = (Inr fd, st')"
proof (cases "status \<in> {POLLING_OK, POLLING_FAILED}")
  case True
  with assms that(1) show thesis by (auto simp: Let_def)
next
  case False
  with assms have "io_bind (rebindSocketIfNeeded px (Some f)) (\<lambda>_. io_bind (waitForPolling status) (\<lambda>_. connect_loop px err polls))
      (fst st, e (snd st)) = (Inr fd, st')" by (simp add: Let_def)
  then obtain u st2 where st2: "rebindSocketIfNeeded px (Some f) (fst st, e (snd st)) = (Inr u, st2)"
    "io_bind (waitForPolling status) (\<lambda>_. connect_loop px err polls) st2 = (Inr fd, st')" by (rule io_bind_InrE)
  from st2(2) obtain x st3 where st3: "waitForPolling status st2 = (Inr x, st3)" "connect_loop px err polls st3 = (Inr fd, st')"
    by (rule io_bind_InrE)
  from waitForPolling_keeps [OF st3(1)] st2(1) st3(2) that(2) show thesis by simp
qed

lemma connect_loop_bound:
  assumes "connect_loop px err polls st = (Inr fd, st')" and "bound_well n st"
    and "\<forall>p\<in>set polls. only_opens (fst (snd p)) \<and> snd (snd p) = Some n"
  shows "fd = Some n \<and> bound_well n st'"
  using assms
proof (induction polls arbitrary: st)
  case (Cons p polls)
  obtain status e f where p: "p = (status, e, f)" by (cases p)
  have f: "f = Some n" and e: "only_opens e" using Cons.prems(3) p by auto
  note well = bound_well_effect [OF Cons.prems(2) e]
  from Cons.prems(1) [unfolded p] show ?case
  proof (cases rule: connect_loop_Cons)
    case finished
    with f well show ?thesis by simp
  next
    case (waits st2)
    have "bound_well n st2"
      using bound_well_rebind [of n "fst st" "e (snd st)" px "fst st2" "snd st2"] well waits(1) f by simp
    with Cons.IH [OF waits(2)] Cons.prems(3) show ?thesis by simp
  qed
qed simp

text \<open>
  if libpq keeps the socket it opens for a new connection, a connection that is established waits on this socket.
\<close>

lemma connect_watches_libpq:
  assumes "connect_socket px err polls (s, t) = (Inr (), st')"
    and "\<forall>p\<in>set polls. only_opens (fst (snd p)) \<and> snd (snd p) = Some n"
  shows "watched st' = description (snd st') n \<and> watched st' \<noteq> None"
proof -
  have "bound_well n (clearSocket (s, t))" by (simp add: bound_well_def clearSocket_def)
  moreover obtain fd st2 where st2: "connect_loop px err polls (clearSocket (s, t)) = (Inr fd, st2)"
    "rebindSocketIfNeeded px (Some fd) st2 = (Inr (), st')"
    using assms(1) unfolding connect_socket_def by (rule io_bind_InrE)
  ultimately have "fd = Some n" "bound_well n st2" using connect_loop_bound assms(2) by blast+
  with bound_well_rebind [of n "fst st2" "snd st2" px "fst st'" "snd st'"] st2(2)
  have "bound_well n st'" "socket (fst st') \<noteq> None" by simp_all
  then show ?thesis by (auto simp: bound_well_def)
qed

text \<open>
  C25: a connection may wait on a socket libpq has closed.  libpq opens a socket, fails, closes it and tries the next address: the
  new socket gets the number of the old one, the rebinding compares numbers and is skipped, and the connection is
  established while it waits on the duplicate of the socket that failed.
\<close>

theorem connection_waits_on_closed_socket:
  fixes t :: descriptors and first second :: nat
  defines "n \<equiv> lowest_free t" and "k \<equiv> lowest_free (snd (open_fd first t))"
  assumes "socket s = None" and "k < fd_limit px" and "assign_ok px k"
  shows "\<exists>st'. connect_socket px err
      [(POLLING_WRITING, (\<lambda>t. snd (open_fd first t)), Some n),
       (POLLING_WRITING, (\<lambda>t. snd (open_fd second (close_fd n t))), Some n),
       (POLLING_OK, (\<lambda>t. t), Some n)] (s, t) = (Inr (), st')
    \<and> description (snd st') n = Some second \<and> watched st' = Some first"
proof -
  let ?start = "s\<lparr>socket := None, bound_libpq_fd := None\<rparr>" and ?s = "s\<lparr>socket := Some (Some k), bound_libpq_fd := Some n\<rparr>"
  let ?t1 = "snd (open_fd first t)"
  have t1: "description ?t1 j = (if j = n then Some first else description t j)" for j
    using description_open [of first t "fst (open_fd first t)" ?t1] by (simp add: n_def)
  have k: "k \<noteq> n" using lowest_free_free [of ?t1] t1 [of k] unfolding k_def by auto
  let ?t2 = "snd (open_fd first ?t1)"
  have t2: "fst (open_fd first ?t1) = k" "description ?t2 j = (if j = k then Some first else description ?t1 j)" for j
    using description_open [of first ?t1 "fst (open_fd first ?t1)" ?t2] by (simp_all add: k_def)
  have "dup_fd px n ?t1 = (Some k, ?t2)"
    using assms(4) t2(1) by (cases "open_fd first ?t1") (simp add: dup_fd_def t1 k_def)
  then have bound_first: "rebindSocketIfNeeded px (Some (Some n)) (?start, ?t1) = (Inr (), (?s, ?t2))"
    using assms(5) by (simp add: rebindSocketIfNeeded_def)
  let ?t3 = "snd (open_fd second (close_fd n ?t2))"
  have least: "lowest_free (close_fd n ?t2) = n"
  proof (rule lowest_free_eqI)
    show "description (close_fd n ?t2) j \<noteq> None" if "j < n" for j
      using that lowest_free_least [of j t] by (simp add: description_close t2(2) t1 n_def)
  qed (simp add: description_close)
  have t3: "description ?t3 j = (if j = n then Some second else description (close_fd n ?t2) j)" for j
    using description_open [of second "close_fd n ?t2" "fst (open_fd second (close_fd n ?t2))" ?t3] least by simp
  have skip: "rebindSocketIfNeeded px (Some (Some n)) (?s, t') = (Inr (), (?s, t'))" for t'
    by (simp add: rebindSocketIfNeeded_def)
  have "connect_socket px err
      [(POLLING_WRITING, (\<lambda>t. snd (open_fd first t)), Some n),
       (POLLING_WRITING, (\<lambda>t. snd (open_fd second (close_fd n t))), Some n),
       (POLLING_OK, (\<lambda>t. t), Some n)] (s, t) = (Inr (), (?s, ?t3))"
    using assms(3) bound_first skip
    by (simp add: connect_socket_def clearSocket_def Let_def io_bind_def waitForPolling_def)
  moreover have "watched (?s, ?t3) = Some first" using k by (simp add: watched_def t3 description_close t2(2))
  ultimately show ?thesis using t3 by auto
qed

theorem connection_waits_on_closed_socket_witness:
  "\<exists>st'. connect_socket sample_posix []
      [(POLLING_WRITING, (\<lambda>t. snd (open_fd 20 t)), Some 2),
       (POLLING_WRITING, (\<lambda>t. snd (open_fd 21 (close_fd 2 t))), Some 2),
       (POLLING_OK, (\<lambda>t. t), Some 2)] (\<lparr>socket = None, bound_libpq_fd = None\<rparr>, [Some 10, Some 11]) = (Inr (), st')
    \<and> description (snd st') 2 = Some 21 \<and> watched st' = Some 20"
proof -
  have n: "lowest_free [Some 10, Some 11] = 2" "lowest_free (snd (open_fd 20 [Some 10, Some 11])) = 3" by code_simp+
  show ?thesis
    using connection_waits_on_closed_socket [of "\<lparr>socket = None, bound_libpq_fd = None\<rparr>" 20 "[Some 10, Some 11]" sample_posix "[]" 21]
    unfolding n by (simp add: sample_posix_def)
qed

end
