(* ===== verification/Filesystem.thy ===== *)
theory Filesystem
  imports Config
begin

text \<open>
  The files a node works on: \<open>modules/shared/utils/src/filesystem.cpp\<close> (without the zip functions) over
  the operations of \<open>std::filesystem\<close> it uses.

  A file system is the list of its nodes under their absolute places, a place being the list of the
  names on the way from the root.  There are no symbolic links, and the process may read and write
  every file; paths are texts, resolved name by name as the system does, so that \<open>..\<close> needs the
  directory before it to exist.
\<close>

section \<open>Nodes and paths\<close>

datatype node = Directory | RegularFile (file_text: string) (file_permissions: nat) (file_modified: int)

type_synonym place = "string list"

record fs =
  nodes :: "(place \<times> node) list"
  cwd :: place
  clock :: int
  new_permissions :: nat

definition node_at :: "fs \<Rightarrow> place \<Rightarrow> node option" where
  "node_at w k = (if k = [] then Some Directory else map_of (nodes w) k)"

definition put_node :: "place \<Rightarrow> node \<Rightarrow> fs \<Rightarrow> fs" where
  "put_node k n w = w\<lparr>nodes := (k, n) # filter (\<lambda>e. fst e \<noteq> k) (nodes w)\<rparr>"

definition is_prefix :: "place \<Rightarrow> place \<Rightarrow> bool" where
  "is_prefix d k \<longleftrightarrow> length d \<le> length k \<and> take (length d) k = d"

definition drop_tree :: "place \<Rightarrow> fs \<Rightarrow> fs" where
  "drop_tree k w = w\<lparr>nodes := filter (\<lambda>e. \<not> is_prefix k (fst e)) (nodes w)\<rparr>"

text \<open>The names of a path; a final separator asks for a directory, like a final dot.\<close>

definition names :: "string \<Rightarrow> string list" where
  "names p = filter (\<lambda>c. c \<noteq> []) (getlines (CHR ''/'') p)
     @ (if p \<noteq> [] \<and> last p = CHR ''/'' then [''.''] else [])"

text \<open>The relative path that leads down through some names.\<close>

fun join_names :: "string list \<Rightarrow> string" where
  "join_names [] = []"
| "join_names [c] = c"
| "join_names (c # cs) = c @ ''/'' @ join_names cs"

definition is_absolute :: "string \<Rightarrow> bool" where
  "is_absolute p \<longleftrightarrow> p \<noteq> [] \<and> hd p = CHR ''/''"

definition origin :: "fs \<Rightarrow> string \<Rightarrow> place" where
  "origin w p = (if is_absolute p then [] else cwd w)"

text \<open>Following one name from a place, and all the names of a path.\<close>

definition step_name :: "fs \<Rightarrow> place \<Rightarrow> string \<Rightarrow> place option" where
  "step_name w k c =
     (if node_at w k \<noteq> Some Directory then None
      else if c = ''.'' then Some k
      else if c = ''..'' then Some (butlast k)
      else if node_at w (k @ [c]) = None then None
      else Some (k @ [c]))"

fun walk :: "fs \<Rightarrow> place \<Rightarrow> string list \<Rightarrow> place option" where
  "walk w k [] = (if node_at w k = None then None else Some k)"
| "walk w k (c # cs) = Option.bind (step_name w k c) (\<lambda>l. walk w l cs)"

definition locate :: "fs \<Rightarrow> string \<Rightarrow> place option" where
  "locate w p = (if p = [] then None else walk w (origin w p) (names p))"

definition fs_exists :: "fs \<Rightarrow> string \<Rightarrow> bool" where
  "fs_exists w p \<longleftrightarrow> locate w p \<noteq> None"

definition node_of :: "fs \<Rightarrow> string \<Rightarrow> node option" where
  "node_of w p = Option.bind (locate w p) (node_at w)"

definition is_regular_file :: "fs \<Rightarrow> string \<Rightarrow> bool" where
  "is_regular_file w p = (case node_of w p of Some (RegularFile t m s) \<Rightarrow> True | _ \<Rightarrow> False)"

definition is_directory :: "fs \<Rightarrow> string \<Rightarrow> bool" where
  "is_directory w p = (node_of w p = Some Directory)"

text \<open>\<open>lexically_normal\<close>, and \<open>weakly_canonical\<close>: the longest existing prefix is resolved, the rest normalised.\<close>

fun normal :: "place \<Rightarrow> string list \<Rightarrow> place" where
  "normal k [] = k"
| "normal k (c # cs) = (if c = ''.'' then normal k cs else if c = ''..'' then normal (butlast k) cs else normal (k @ [c]) cs)"

fun canonical_from :: "fs \<Rightarrow> place \<Rightarrow> string list \<Rightarrow> place" where
  "canonical_from w k [] = k"
| "canonical_from w k (c # cs) =
     (case walk w k [c] of None \<Rightarrow> normal k (c # cs) | Some l \<Rightarrow> canonical_from w l cs)"

definition weakly_canonical :: "fs \<Rightarrow> string \<Rightarrow> place" where
  "weakly_canonical w p = canonical_from w (origin w p) (names p)"

definition parent_path :: "string \<Rightarrow> string" where
  "parent_path p =
     (let d = rev (dropWhile (\<lambda>c. c \<noteq> CHR ''/'') (rev p));
          e = rev (dropWhile (\<lambda>c. c = CHR ''/'') (rev d))
      in if e = [] then take 1 d else e)"

definition filename :: "string \<Rightarrow> string" where
  "filename p = rev (takeWhile (\<lambda>c. c \<noteq> CHR ''/'') (rev p))"

section \<open>Operations\<close>

definition loadFile :: "fs \<Rightarrow> string \<Rightarrow> string result" where
  "loadFile w p =
     (case node_of w p of
        None \<Rightarrow> Inl (RuntimeError (''File does not exist: '' @ p))
      | Some Directory \<Rightarrow> Inl (RuntimeError (''Failed to read file: '' @ p))
      | Some (RegularFile t m s) \<Rightarrow> Inr t)"

text \<open>
  \<open>create_directories\<close>: missing directories are made on the way; it fails when a file stands in it.  As in
  libstdc++ the value tells whether the last name that is not a dot was made by this call.
\<close>

fun create_dirs :: "fs \<Rightarrow> bool \<Rightarrow> place \<Rightarrow> string list \<Rightarrow> bool option \<times> fs" where
  "create_dirs w made k [] = (if node_at w k = Some Directory then Some made else None, w)"
| "create_dirs w made k (c # cs) =
     (if node_at w k \<noteq> Some Directory then (None, w)
      else if c = ''.'' then create_dirs w made k cs
      else if c = ''..'' then create_dirs w made (butlast k) cs
      else if node_at w (k @ [c]) = None then create_dirs (put_node (k @ [c]) Directory w) True (k @ [c]) cs
      else create_dirs w False (k @ [c]) cs)"

definition create_directories :: "string \<Rightarrow> (fs, bool) io" where
  "create_directories p w =
     (if p = [] then (Inl (FilesystemError ''cannot create directories''), w)
      else case create_dirs w False (origin w p) (names p) of
        (None, w') \<Rightarrow> (Inl (FilesystemError ''cannot create directories''), w')
      | (Some made, w') \<Rightarrow> (Inr made, w'))"

definition createDirectoryIfNotExists :: "string \<Rightarrow> (fs, bool) io" where
  "createDirectoryIfNotExists p w = (if \<not> fs_exists w p then create_directories p w else (Inr True, w))"

text \<open>Opening for writing empties the file or creates it in its directory, or fails.\<close>

definition open_new :: "string \<Rightarrow> (fs, bool) io" where
  "open_new p w =
     (case locate w (if parent_path p = [] then ''.'' else parent_path p) of
        None \<Rightarrow> (Inr False, w)
      | Some d \<Rightarrow>
          if node_at w d \<noteq> Some Directory \<or> filename p \<in> {[], ''.'', ''..''} then (Inr False, w)
          else (case node_at w (d @ [filename p]) of
              None \<Rightarrow> (Inr True, put_node (d @ [filename p]) (RegularFile [] (new_permissions w) (clock w)) w)
            | Some Directory \<Rightarrow> (Inr False, w)
            | Some (RegularFile t m s) \<Rightarrow> (Inr True, put_node (d @ [filename p]) (RegularFile [] m (clock w)) w)))"

definition createFileIfNotExists :: "string \<Rightarrow> (fs, bool) io" where
  "createFileIfNotExists p w =
     (if \<not> fs_exists w p
      then io_bind (createDirectoryIfNotExists (parent_path p)) (\<lambda>made. if \<not> made then io_return False else open_new p) w
      else (Inr True, w))"

definition write_file :: "string \<Rightarrow> string \<Rightarrow> (fs, unit) io" where
  "write_file p text w =
     (case locate w p of
        None \<Rightarrow> (Inl (RuntimeError (''Failed to open file for writing: '' @ p)), w)
      | Some k \<Rightarrow>
          (case node_at w k of
             Some (RegularFile t m s) \<Rightarrow> (Inr (), put_node k (RegularFile text m (clock w)) w)
           | _ \<Rightarrow> (Inl (RuntimeError (''Failed to open file for writing: '' @ p)), w)))"

definition storeFile :: "string \<Rightarrow> string \<Rightarrow> (fs, unit) io" where
  "storeFile p text =
     io_bind (createFileIfNotExists p) (\<lambda>made.
       if \<not> made then io_lift (Inl (RuntimeError (''Failed to create file: '' @ p)))
       else write_file p text)"

definition removeFileOrDirectory :: "string \<Rightarrow> (fs, unit) io" where
  "removeFileOrDirectory p w = (Inr (), case locate w p of None \<Rightarrow> w | Some k \<Rightarrow> drop_tree k w)"

definition clearDirectory :: "string \<Rightarrow> (fs, unit) io" where
  "clearDirectory p = io_bind (removeFileOrDirectory p) (\<lambda>_. io_bind (create_directories p) (\<lambda>_. io_return ()))"

text \<open>\<open>fs::remove\<close> of a file or an empty directory.\<close>

definition fs_remove :: "string \<Rightarrow> (fs, unit) io" where
  "fs_remove p w =
     (case locate w p of
        None \<Rightarrow> (Inr (), w)
      | Some k \<Rightarrow>
          if node_at w k = Some Directory \<and> (\<exists>e \<in> set (nodes w). is_prefix k (fst e) \<and> fst e \<noteq> k)
          then (Inl (FilesystemError ''cannot remove''), w)
          else (Inr (), drop_tree k w))"

text \<open>The mode bits of a directory are not kept.\<close>

definition setPermissions :: "string \<Rightarrow> nat \<Rightarrow> (fs, unit) io" where
  "setPermissions p mode w =
     (Inr (), case locate w p of
        None \<Rightarrow> w
      | Some k \<Rightarrow>
          (case node_at w k of
             Some (RegularFile t m s) \<Rightarrow> put_node k (RegularFile t (mode mod 4096) s) w
           | _ \<Rightarrow> w))"

section \<open>Resolving\<close>

named_theorems fs_simps \<open>reading after writing\<close>

lemma node_at_put [fs_simps]: "k \<noteq> [] \<Longrightarrow> node_at (put_node k n w) l = (if l = k then Some n else node_at w l)"
proof -
  have "map_of (filter (\<lambda>e. fst e \<noteq> k) xs) l = (if l = k then None else map_of xs l)" for xs :: "(place \<times> node) list"
    by (induction xs) auto
  then show "k \<noteq> [] \<Longrightarrow> ?thesis" by (simp add: node_at_def put_node_def)
qed

lemma put_node_fields [simp]:
  "cwd (put_node k n w) = cwd w" "clock (put_node k n w) = clock w" "new_permissions (put_node k n w) = new_permissions w"
  by (simp_all add: put_node_def)

lemma step_name_normal: "step_name w k c = Some l \<Longrightarrow> l = normal k [c]"
  by (auto simp: step_name_def split: if_splits)

lemma normal_append: "normal k (xs @ ys) = normal (normal k xs) ys"
  by (induction k xs rule: normal.induct) simp_all

lemma walk_append: "node_at w k \<noteq> None \<Longrightarrow> walk w k (xs @ ys) = Option.bind (walk w k xs) (\<lambda>l. walk w l ys)"
proof (induction xs arbitrary: k)
  case Nil
  then show ?case by auto
next
  case (Cons x xs)
  show ?case
  proof (cases "step_name w k x")
    case (Some l)
    show ?thesis
    proof (cases "node_at w l")
      case None
      then have "walk w l zs = None" for zs by (cases zs) (simp_all add: step_name_def)
      with Some show ?thesis by simp
    next
      case (Some n)
      with Cons.IH [of l] \<open>step_name w k x = Some l\<close> show ?thesis by simp
    qed
  qed simp
qed

lemma walk_normal: "walk w k cs = Some l \<Longrightarrow> l = normal k cs \<and> node_at w l \<noteq> None"
proof (induction cs arbitrary: k)
  case Nil
  then show ?case by (auto split: if_splits)
next
  case (Cons c cs)
  then obtain m where m: "step_name w k c = Some m" "walk w m cs = Some l" by (auto split: Option.bind_splits)
  from step_name_normal [OF m(1)] have "normal m cs = normal k (c # cs)"
    using normal_append [of k "[c]" cs] by simp
  with Cons.IH [OF m(2)] show ?case by (simp only: not_False_eq_True) metis
qed

lemma canonical_from_normal: "canonical_from w k cs = normal k cs"
proof (induction cs arbitrary: k)
  case Nil
  then show ?case by simp
next
  case (Cons c cs)
  show ?case
  proof (cases "walk w k [c]")
    case (Some l)
    from walk_normal [OF Some] have "l = normal k [c]" by simp
    with Some Cons.IH [of l] normal_append [of k "[c]" cs] show ?thesis by (simp del: walk.simps)
  qed (simp del: walk.simps)
qed

lemma locate_canonical: "locate w p = Some k \<Longrightarrow> weakly_canonical w p = k \<and> node_at w k \<noteq> None"
  using walk_normal by (auto simp: locate_def weakly_canonical_def canonical_from_normal split: if_splits)

lemma is_prefix_append: "is_prefix d k \<longleftrightarrow> (\<exists>r. k = d @ r)"
  by (auto simp: is_prefix_def) (metis append_take_drop_id)

lemma storeFile_existing:
  assumes "locate w p = Some k" and "node_at w k = Some (RegularFile t m s)"
  shows "storeFile p text w = (Inr (), put_node k (RegularFile text m (clock w)) w)"
  using assms by (simp add: storeFile_def createFileIfNotExists_def fs_exists_def write_file_def io_bind_def)

section \<open>The names of composed paths\<close>

definition comps :: "string \<Rightarrow> string list" where
  "comps p = filter (\<lambda>c. c \<noteq> []) (getlines (CHR ''/'') p)"

lemma getlines_append:
  "xs \<noteq> [] \<Longrightarrow> getlines c (xs @ c # ys) = getlines c xs @ (if last xs = c then [[]] else []) @ getlines c ys"
proof (induction xs)
  case Nil
  then show ?case by simp
next
  case (Cons x xs)
  show ?case
  proof (cases xs)
    case Nil
    then show ?thesis by simp
  next
    case (Cons y zs)
    then have "getlines c xs \<noteq> []" by (simp split: list.splits)
    with Cons Cons.IH show ?thesis by (cases "getlines c xs") (simp_all add: Cons)
  qed
qed

lemma comps_append: "comps (xs @ CHR ''/'' # ys) = comps xs @ comps ys"
  by (cases "xs = []") (simp_all add: comps_def getlines_append)

lemma comps_simps [simp]: "comps [] = []" "comps (CHR ''/'' # ys) = comps ys"
  by (simp_all add: comps_def)

lemma comps_snoc [simp]: "comps (xs @ ''/'') = comps xs"
  using comps_append [of xs "[]"] by simp

lemma comps_single: "c \<noteq> [] \<Longrightarrow> CHR ''/'' \<notin> set c \<Longrightarrow> comps c = [c]"
proof -
  have "c \<noteq> [] \<Longrightarrow> CHR ''/'' \<notin> set c \<Longrightarrow> getlines (CHR ''/'') c = [c]"
  proof (induction c)
    case (Cons x c)
    then show ?case by (cases "c = []") auto
  qed simp
  then show "c \<noteq> [] \<Longrightarrow> CHR ''/'' \<notin> set c \<Longrightarrow> ?thesis" by (simp add: comps_def)
qed

lemma names_comps: "names p = comps p @ (if p \<noteq> [] \<and> last p = CHR ''/'' then [''.''] else [])"
  by (simp add: names_def comps_def)

lemma normal_names: "normal k (names p) = normal k (comps p)"
  by (simp add: names_comps normal_append)

lemma comps_path_append: "\<not> is_absolute q \<Longrightarrow> comps (path_append p q) = comps p @ comps q"
proof (cases "p = [] \<or> last p = CHR ''/''")
  case True
  assume "\<not> is_absolute q"
  show ?thesis
  proof (cases "p = []")
    case False
    with True obtain r where "p = r @ ''/''" by (metis append_butlast_last_id)
    with \<open>\<not> is_absolute q\<close> show ?thesis
      using comps_append [of r q] by (auto simp: path_append_def is_absolute_def)
  qed (use \<open>\<not> is_absolute q\<close> in \<open>auto simp: path_append_def is_absolute_def\<close>)
next
  case False
  assume "\<not> is_absolute q"
  with False show ?thesis using comps_append [of p q] by (auto simp: path_append_def is_absolute_def)
qed

lemma origin_path_append: "\<not> is_absolute q \<Longrightarrow> p \<noteq> [] \<Longrightarrow> origin w (path_append p q) = origin w p"
  by (auto simp: origin_def is_absolute_def path_append_def)

lemma names_path_append:
  "\<not> is_absolute q \<Longrightarrow> q \<noteq> [] \<Longrightarrow> names (path_append p q) = comps p @ names q"
  using comps_path_append [of q p] by (auto simp: names_comps path_append_def is_absolute_def)

lemma comps_slashes: "comps (xs @ replicate n (CHR ''/'')) = comps xs"
proof (induction n)
  case (Suc n)
  have "xs @ replicate (Suc n) (CHR ''/'') = (xs @ replicate n (CHR ''/'')) @ ''/''"
    by (simp add: replicate_append_same [symmetric] del: replicate_Suc)
      (simp add: replicate_append_same)
  with Suc show ?case by (simp only: comps_snoc)
qed simp

lemma filename_no_slash: "CHR ''/'' \<notin> set (filename p)"
  by (auto simp: filename_def dest: set_takeWhileD)

definition dir_part :: "string \<Rightarrow> string" where
  "dir_part p = rev (dropWhile (\<lambda>c. c \<noteq> CHR ''/'') (rev p))"

definition stripped :: "string \<Rightarrow> string" where
  "stripped d = rev (dropWhile (\<lambda>c. c = CHR ''/'') (rev d))"

lemma parent_path_stripped:
  "parent_path p = (if stripped (dir_part p) = [] then take 1 (dir_part p) else stripped (dir_part p))"
  unfolding parent_path_def stripped_def dir_part_def Let_def by (rule refl)

lemma dir_part_filename: "p = dir_part p @ filename p"
proof -
  have "rev (takeWhile (\<lambda>c. c \<noteq> CHR ''/'') (rev p) @ dropWhile (\<lambda>c. c \<noteq> CHR ''/'') (rev p)) = p"
    by (simp only: takeWhile_dropWhile_id rev_rev_ident)
  then show ?thesis by (simp only: rev_append filename_def dir_part_def)
qed

lemma dir_part_ends: "dir_part p \<noteq> [] \<Longrightarrow> \<exists>r. dir_part p = r @ ''/''"
proof -
  assume "dir_part p \<noteq> []"
  then have "last (dir_part p) = CHR ''/''"
    using hd_dropWhile [of "\<lambda>c. c \<noteq> CHR ''/''" "rev p"] by (simp add: dir_part_def last_rev)
  with \<open>dir_part p \<noteq> []\<close> show ?thesis by (metis append_butlast_last_id)
qed

lemma stripped_slashes: "\<exists>n. stripped d @ replicate n (CHR ''/'') = d"
proof (induction d rule: rev_induct)
  case (snoc x d)
  then obtain n where n: "stripped d @ replicate n (CHR ''/'') = d" by blast
  show ?case
  proof (cases "x = CHR ''/''")
    case True
    have "stripped (d @ [x]) @ replicate (Suc n) (CHR ''/'') = stripped d @ replicate n (CHR ''/'') @ [x]"
      using True by (simp add: stripped_def replicate_append_same)
    also have "\<dots> = d @ [x]" using n by (simp only: append_assoc [symmetric])
    finally show ?thesis by blast
  next
    case False
    then have "stripped (d @ [x]) @ replicate 0 (CHR ''/'') = d @ [x]" by (simp add: stripped_def)
    then show ?thesis by blast
  qed
qed (simp add: stripped_def)

lemma comps_stripped: "comps (stripped d) = comps d"
  using stripped_slashes [of d] comps_slashes by metis

lemma comps_parent:
  assumes "filename p \<noteq> []"
  shows "comps p = comps (parent_path p) @ [filename p]"
proof -
  have last_name: "comps (filename p) = [filename p]" using comps_single assms filename_no_slash by simp
  have "comps p = comps (dir_part p) @ [filename p]"
  proof (cases "dir_part p = []")
    case True
    have "p = filename p" using dir_part_filename [of p] unfolding True by simp
    with last_name have "comps p = [filename p]" by metis
    then show ?thesis unfolding True by simp
  next
    case False
    then obtain r where r: "dir_part p = r @ ''/''" using dir_part_ends by blast
    then have "p = r @ CHR ''/'' # filename p" using dir_part_filename [of p] by simp
    then have "comps p = comps r @ comps (filename p)" using comps_append by metis
    with last_name r show ?thesis by simp
  qed
  moreover have "comps (parent_path p) = comps (dir_part p)"
  proof (cases "stripped (dir_part p) = []")
    case True
    then have "comps (dir_part p) = []" using comps_stripped [of "dir_part p"] by simp
    moreover have "comps (take 1 (dir_part p)) = []"
    proof -
      obtain n where eq: "replicate n (CHR ''/'') = dir_part p" using stripped_slashes [of "dir_part p"] True by auto
      show ?thesis unfolding eq [symmetric] by (cases n) simp_all
    qed
    ultimately show ?thesis using True by (simp add: parent_path_stripped)
  qed (simp add: parent_path_stripped comps_stripped)
  ultimately show ?thesis by simp
qed

text \<open>The place a new file gets is the place its path names.\<close>

lemma is_absolute_parent: "parent_path p \<noteq> [] \<Longrightarrow> is_absolute (parent_path p) = is_absolute p"
proof -
  assume nonempty: "parent_path p \<noteq> []"
  obtain n where n: "stripped (dir_part p) @ replicate n (CHR ''/'') = dir_part p"
    using stripped_slashes by blast
  obtain x xs where x: "dir_part p = x # xs" using nonempty n by (cases "dir_part p") (auto simp: parent_path_stripped)
  have p: "is_absolute p = (x = CHR ''/'')"
    using dir_part_filename [of p] x by (metis is_absolute_def append_Cons list.sel(1) list.discI)
  show ?thesis
  proof (cases "stripped (dir_part p)")
    case Nil
    with x p show ?thesis by (simp add: parent_path_stripped is_absolute_def)
  next
    case (Cons y ys)
    with n x have "y = x" by simp
    with Cons p show ?thesis by (simp add: parent_path_stripped is_absolute_def)
  qed
qed

lemma locate_normal: "locate w p = Some k \<Longrightarrow> k = normal (origin w p) (comps p)"
  using walk_normal [of w "origin w p" "names p" k] by (simp add: locate_def normal_names split: if_splits)

lemma weakly_canonical_normal: "weakly_canonical w p = normal (origin w p) (comps p)"
  by (simp add: weakly_canonical_def canonical_from_normal normal_names)

lemma comps_empty_relative: "parent_path p = [] \<Longrightarrow> \<not> is_absolute p \<or> filename p = []"
proof -
  assume "parent_path p = []"
  then have "dir_part p = []" by (cases "dir_part p") (auto simp: parent_path_stripped split: if_splits)
  then have "p = filename p" using dir_part_filename [of p] by simp
  with filename_no_slash [of p] show ?thesis by (metis is_absolute_def hd_in_set)
qed

lemma new_file_place:
  assumes "locate w (if parent_path p = [] then ''.'' else parent_path p) = Some d"
    and "filename p \<notin> {[], ''.'', ''..''}"
  shows "d @ [filename p] = weakly_canonical w p"
proof -
  have parent: "d = normal (origin w p) (comps (parent_path p))"
  proof (cases "parent_path p = []")
    case True
    then have "\<not> is_absolute p" using comps_empty_relative [of p] assms(2) by simp
    moreover have "d = cwd w" using locate_normal [OF assms(1)] True by (simp add: origin_def is_absolute_def comps_def)
    ultimately show ?thesis using True by (simp add: origin_def)
  next
    case False
    with locate_normal [OF assms(1)] is_absolute_parent [OF False] show ?thesis by (simp add: origin_def)
  qed
  then have "d @ [filename p] = normal (origin w p) (comps (parent_path p) @ [filename p])"
    using assms(2) by (simp add: normal_append)
  moreover have "comps p = comps (parent_path p) @ [filename p]" using comps_parent assms(2) by simp
  ultimately show ?thesis by (simp add: weakly_canonical_normal)
qed

section \<open>What writing changes\<close>

text \<open>An operation that at most makes directories.\<close>

definition grows :: "fs \<Rightarrow> fs \<Rightarrow> bool" where
  "grows w w' \<longleftrightarrow> cwd w' = cwd w \<and> clock w' = clock w \<and> new_permissions w' = new_permissions w
     \<and> (\<forall>k. node_at w' k = node_at w k \<or> (node_at w k = None \<and> node_at w' k = Some Directory))"

lemma grows_refl: "grows w w"
  by (simp add: grows_def)

lemma grows_trans: "grows w v \<Longrightarrow> grows v u \<Longrightarrow> grows w u"
  by (auto simp: grows_def) metis+

lemma grows_put: "k \<noteq> [] \<Longrightarrow> node_at w k = None \<Longrightarrow> grows w (put_node k Directory w)"
  by (simp add: grows_def node_at_put)

lemma create_dirs_grows: "grows w (snd (create_dirs w made k cs))"
proof (induction w made k cs rule: create_dirs.induct)
  case (2 w made k c cs)
  show ?case
  proof (cases "node_at w k = Some Directory \<and> c \<noteq> ''.'' \<and> c \<noteq> ''..'' \<and> node_at w (k @ [c]) = None")
    case True
    then have "grows w (put_node (k @ [c]) Directory w)" by (simp add: grows_put)
    with True 2 show ?thesis by (simp add: grows_trans)
  qed (use 2 in \<open>auto simp: grows_refl\<close>)
qed (simp add: grows_refl)

lemma createDirectoryIfNotExists_grows: "createDirectoryIfNotExists p w = (r, w') \<Longrightarrow> grows w w'"
proof -
  have "create_directories p w = (r, w') \<Longrightarrow> grows w w'"
    using create_dirs_grows [of w False "origin w p" "names p"]
    by (auto simp: create_directories_def grows_refl split: prod.splits option.splits if_splits)
  then show "createDirectoryIfNotExists p w = (r, w') \<Longrightarrow> ?thesis"
    by (auto simp: createDirectoryIfNotExists_def grows_refl split: if_splits)
qed

lemma grows_origin: "grows w w' \<Longrightarrow> origin w' p = origin w p"
  by (simp add: grows_def origin_def)

lemma grows_canonical: "grows w w' \<Longrightarrow> weakly_canonical w' p = weakly_canonical w p"
  by (simp add: weakly_canonical_normal grows_origin)

text \<open>
  Storing a file at most makes directories and gives the place its path names a file, unless there
  is a directory: directories stay directories and files stay files.
\<close>

definition stores_at :: "place \<Rightarrow> fs \<Rightarrow> fs \<Rightarrow> bool" where
  "stores_at k w w' \<longleftrightarrow> cwd w' = cwd w \<and> clock w' = clock w \<and> new_permissions w' = new_permissions w
     \<and> (\<forall>l. node_at w' l = node_at w l \<or> (node_at w l = None \<and> node_at w' l = Some Directory)
          \<or> (l = k \<and> node_at w l \<noteq> Some Directory \<and> (\<exists>t m s. node_at w' l = Some (RegularFile t m s))))"

lemma stores_at_grows: "grows w w' \<Longrightarrow> stores_at k w w'"
  by (auto simp: grows_def stores_at_def)

lemma stores_at_refl: "stores_at k w w"
  by (simp add: stores_at_grows grows_refl)

lemma stores_at_put:
  "k \<noteq> [] \<Longrightarrow> node_at w k \<noteq> Some Directory \<Longrightarrow> stores_at k w (put_node k (RegularFile t m s) w)"
  by (simp add: stores_at_def node_at_put)

lemma stores_at_trans:
  assumes "stores_at k w v" and "stores_at k v u"
  shows "stores_at k w u"
proof -
  have "node_at u l = node_at w l \<or> (node_at w l = None \<and> node_at u l = Some Directory)
      \<or> (l = k \<and> node_at w l \<noteq> Some Directory \<and> (\<exists>t m s. node_at u l = Some (RegularFile t m s)))" for l
  proof -
    from assms(1) consider "node_at v l = node_at w l" | "node_at w l = None" "node_at v l = Some Directory"
      | t m s where "l = k" "node_at w l \<noteq> Some Directory" "node_at v l = Some (RegularFile t m s)"
      unfolding stores_at_def by metis
    moreover from assms(2) have "node_at u l = node_at v l \<or> (node_at v l = None \<and> node_at u l = Some Directory)
        \<or> (l = k \<and> node_at v l \<noteq> Some Directory \<and> (\<exists>t m s. node_at u l = Some (RegularFile t m s)))"
      unfolding stores_at_def by metis
    ultimately show ?thesis by cases auto
  qed
  with assms show ?thesis by (simp add: stores_at_def)
qed

lemma stores_at_other: "stores_at k w w' \<Longrightarrow> l \<noteq> k \<Longrightarrow>
    node_at w' l = node_at w l \<or> (node_at w l = None \<and> node_at w' l = Some Directory)"
  by (auto simp: stores_at_def)

lemma stores_at_canonical: "stores_at k w w' \<Longrightarrow> weakly_canonical w' p = weakly_canonical w p"
  by (simp add: weakly_canonical_normal stores_at_def origin_def)

lemma open_new_effect:
  assumes "open_new p w = (r, w')"
  shows "stores_at (weakly_canonical w p) w w'"
proof (cases "locate w (if parent_path p = [] then ''.'' else parent_path p)")
  case (Some d)
  show ?thesis
  proof (cases "filename p \<in> {[], ''.'', ''..''}")
    case True
    with Some assms show ?thesis by (auto simp: open_new_def stores_at_refl)
  next
    case False
    from new_file_place [OF Some False] have "d @ [filename p] = weakly_canonical w p" .
    moreover from this have "weakly_canonical w p \<noteq> []" by (metis append_is_Nil_conv list.discI)
    ultimately show ?thesis using Some False assms
      by (auto simp: open_new_def stores_at_refl stores_at_put split: option.splits node.splits if_splits)
  qed
qed (use assms in \<open>simp add: open_new_def stores_at_refl\<close>)

lemma createFileIfNotExists_effect:
  assumes "createFileIfNotExists p w = (r, w')"
  shows "stores_at (weakly_canonical w p) w w'"
proof (cases "fs_exists w p")
  case True
  with assms show ?thesis by (simp add: createFileIfNotExists_def stores_at_refl)
next
  case False
  obtain q v where v: "createDirectoryIfNotExists (parent_path p) w = (q, v)" by fastforce
  then have g: "grows w v" by (rule createDirectoryIfNotExists_grows)
  show ?thesis
  proof (cases "q = Inr True")
    case True
    with assms False v have "open_new p v = (r, w')" by (simp add: createFileIfNotExists_def io_bind_def)
    from open_new_effect [OF this] g stores_at_trans stores_at_grows show ?thesis
      by (metis grows_canonical)
  next
    case False
    with assms \<open>\<not> fs_exists w p\<close> v have "w' = v"
      by (auto simp: createFileIfNotExists_def io_bind_def io_return_def split: sum.splits)
    with g show ?thesis by (simp add: stores_at_grows)
  qed
qed

lemma node_at_root: "locate w p = Some k \<Longrightarrow> node_at w k = Some (RegularFile t m s) \<Longrightarrow> k \<noteq> []"
  by (auto simp: node_at_def)

lemma write_file_effect:
  assumes "write_file p content w = (r, w')"
  shows "(w' = w \<and> r \<noteq> Inr ()) \<or> (r = Inr () \<and> weakly_canonical w p \<noteq> [] \<and> node_at w (weakly_canonical w p) \<noteq> Some Directory
    \<and> (\<exists>m. w' = put_node (weakly_canonical w p) (RegularFile content m (clock w)) w))"
proof (cases "locate w p")
  case (Some k)
  then have "weakly_canonical w p = k" by (simp add: locate_canonical)
  with Some assms show ?thesis
    by (auto simp: write_file_def node_at_def split: option.splits node.splits if_splits)
qed (use assms in \<open>auto simp: write_file_def\<close>)

lemma storeFile_effect:
  assumes "storeFile p content w = (r, w')"
  shows "stores_at (weakly_canonical w p) w w'
    \<and> (r = Inr () \<longrightarrow> (\<exists>m. node_at w' (weakly_canonical w p) = Some (RegularFile content m (clock w))))"
proof -
  obtain q v where v: "createFileIfNotExists p w = (q, v)" by fastforce
  then have g: "stores_at (weakly_canonical w p) w v" by (rule createFileIfNotExists_effect)
  show ?thesis
  proof (cases "q = Inr True")
    case True
    with assms v have "write_file p content v = (r, w')" by (simp add: storeFile_def io_bind_def)
    from write_file_effect [OF this] consider "w' = v" "r \<noteq> Inr ()"
      | m where "r = Inr ()" "weakly_canonical w p \<noteq> []" "node_at v (weakly_canonical w p) \<noteq> Some Directory"
        "w' = put_node (weakly_canonical w p) (RegularFile content m (clock v)) v"
      by (auto simp: stores_at_canonical [OF g])
    then show ?thesis
    proof cases
      case 1
      with g show ?thesis by simp
    next
      case 2
      from stores_at_trans [OF g stores_at_put [OF 2(2,3)]] have "stores_at (weakly_canonical w p) w w'"
        unfolding 2(4) .
      moreover have "clock v = clock w" using g by (simp add: stores_at_def)
      ultimately show ?thesis using 2 by (simp add: node_at_put)
    qed
  next
    case False
    with assms v have "w' = v \<and> r \<noteq> Inr ()"
      by (auto simp: storeFile_def io_bind_def io_lift_def split: sum.splits if_splits)
    with g show ?thesis by simp
  qed
qed

section \<open>Resolving composed paths\<close>

text \<open>Removing one file, and setting its permissions, change nothing else.\<close>

lemma node_at_drop: "node_at (drop_tree k w) l = (if l \<noteq> [] \<and> is_prefix k l then None else node_at w l)"
proof -
  have "map_of (filter (\<lambda>e. \<not> is_prefix k (fst e)) xs) l = (if is_prefix k l then None else map_of xs l)"
    for xs :: "(place \<times> node) list"
    by (induction xs) auto
  then show ?thesis by (simp add: node_at_def drop_tree_def)
qed

lemma is_prefix_trans: "is_prefix d k \<Longrightarrow> is_prefix k l \<Longrightarrow> is_prefix d l"
  by (auto simp: is_prefix_append)

lemma fs_remove_only:
  assumes "locate w p = Some k" and "\<not> is_prefix k l"
  shows "node_at (snd (fs_remove p w)) l = node_at w l"
  using assms by (simp add: fs_remove_def node_at_drop)

lemma setPermissions_only:
  assumes "locate w p = Some k" and "k \<noteq> l"
  shows "node_at (snd (setPermissions p mode w)) l = node_at w l"
proof (cases "node_at w k")
  case (Some x)
  have "k \<noteq> []" if "x = RegularFile a b c" for a b c using Some that by (auto simp: node_at_def)
  with Some assms show ?thesis by (cases x) (auto simp: setPermissions_def node_at_put)
qed (use assms in \<open>simp add: setPermissions_def\<close>)

lemma is_prefix_refl [simp]: "is_prefix k k"
  by (simp add: is_prefix_def)

text \<open>A name that is neither empty nor dots, and has no separator.\<close>

definition proper_name :: "string \<Rightarrow> bool" where
  "proper_name c \<longleftrightarrow> c \<notin> {[], ''.'', ''..''} \<and> CHR ''/'' \<notin> set c"

lemma names_proper: "proper_name c \<Longrightarrow> names c = [c]"
  by (auto simp: proper_name_def names_comps comps_single) (metis last_in_set)

lemma proper_relative: "proper_name c \<Longrightarrow> c \<noteq> [] \<and> \<not> is_absolute c"
  by (cases c) (auto simp: proper_name_def is_absolute_def)

lemma walk_dot: "walk w k (cs @ [''.'']) = Some d \<Longrightarrow> node_at w k \<noteq> None \<Longrightarrow> walk w k cs = Some d"
  by (auto simp: walk_append step_name_def split: Option.bind_splits if_splits)

lemma walk_start: "walk w k cs = Some d \<Longrightarrow> node_at w k \<noteq> None"
  by (cases cs) (auto simp: step_name_def split: if_splits Option.bind_splits)

lemma node_at_origin: "locate w p = Some d \<Longrightarrow> node_at w (origin w p) \<noteq> None"
  using walk_start [of w "origin w p" "names p" d] by (simp add: locate_def split: if_splits)

lemma walk_names: "walk w k (names p) = Some d \<Longrightarrow> walk w k (comps p) = Some d"
  using walk_dot [of w k "comps p" d] walk_start [of w k "names p" d] by (simp add: names_comps split: if_splits)

lemma locate_walk: "locate w p = Some d \<longleftrightarrow> p \<noteq> [] \<and> walk w (origin w p) (names p) = Some d"
  by (simp add: locate_def)

lemma locate_append:
  assumes "locate w p = Some d" and "\<not> is_absolute q" and "q \<noteq> []"
  shows "locate w (path_append p q) = walk w d (names q)"
proof -
  have p: "p \<noteq> []" "walk w (origin w p) (comps p) = Some d" "node_at w (origin w p) \<noteq> None"
    using assms(1) walk_names walk_start by (simp_all only: locate_walk) blast+
  have "path_append p q \<noteq> []" using assms(3) by (auto simp: path_append_def)
  then have "locate w (path_append p q) = walk w (origin w p) (comps p @ names q)"
    using assms(2,3) p(1) by (simp add: locate_def origin_path_append names_path_append)
  with p(2,3) show ?thesis by (simp add: walk_append)
qed

lemma filename_append: "CHR ''/'' \<notin> set x \<Longrightarrow> filename (q @ CHR ''/'' # x) = x"
  by (auto simp: filename_def takeWhile_append)

lemma dir_part_append: "CHR ''/'' \<notin> set x \<Longrightarrow> dir_part (q @ CHR ''/'' # x) = q @ ''/''"
  by (auto simp: dir_part_def dropWhile_append)

lemma parent_path_append:
  "CHR ''/'' \<notin> set x \<Longrightarrow> q \<noteq> [] \<Longrightarrow> last q \<noteq> CHR ''/'' \<Longrightarrow> parent_path (q @ CHR ''/'' # x) = q"
proof -
  assume "CHR ''/'' \<notin> set x" "q \<noteq> []" "last q \<noteq> CHR ''/''"
  moreover from this have "stripped (q @ ''/'') = q"
    by (cases q rule: rev_cases) (simp_all add: stripped_def)
  ultimately show ?thesis by (simp add: parent_path_stripped dir_part_append)
qed

lemma path_append_longer: "a \<noteq> [] \<Longrightarrow> path_append p (a @ b) = path_append p a @ b"
  by (auto simp: path_append_def)

lemma create_dirs_walk:
  "walk w k cs = Some d \<Longrightarrow> \<exists>made'. create_dirs w made k (cs @ ds) = create_dirs w made' d ds"
proof (induction cs arbitrary: k made)
  case Nil
  then show ?case by (auto split: if_splits)
next
  case (Cons c cs)
  then obtain l where l: "step_name w k c = Some l" "walk w l cs = Some d" by (auto split: Option.bind_splits)
  from l(1) obtain made' where "create_dirs w made k ((c # cs) @ ds) = create_dirs w made' l (cs @ ds)"
    by (auto simp: step_name_def split: if_splits)
  with Cons.IH [OF l(2), of made'] show ?case by simp
qed

text \<open>Paths that were there stay where they are when directories are added or a file gets a new text.\<close>

lemma walk_extends:
  assumes "\<And>k. node_at w k = Some Directory \<Longrightarrow> node_at w' k = Some Directory"
    and "\<And>k. node_at w k \<noteq> None \<Longrightarrow> node_at w' k \<noteq> None"
  shows "walk w k cs = Some d \<Longrightarrow> walk w' k cs = Some d"
proof (induction cs arbitrary: k)
  case Nil
  with assms(2) show ?case by (auto split: if_splits)
next
  case (Cons c cs)
  then obtain l where l: "step_name w k c = Some l" "walk w l cs = Some d" by (auto split: Option.bind_splits)
  from l(1) assms have "step_name w' k c = Some l" by (auto simp: step_name_def split: if_splits)
  with Cons.IH [OF l(2)] show ?case by simp
qed

lemma locate_grows: "grows w w' \<Longrightarrow> locate w p = Some d \<Longrightarrow> locate w' p = Some d"
proof -
  assume g: "grows w w'" and "locate w p = Some d"
  then have "walk w (origin w p) (names p) = Some d" "p \<noteq> []" by (auto simp: locate_def split: if_splits)
  moreover have "node_at w' k = Some Directory" if "node_at w k = Some Directory" for k
    using g that by (auto simp: grows_def) (metis option.distinct(1))
  moreover have "node_at w' k \<noteq> None" if "node_at w k \<noteq> None" for k
    using g that by (auto simp: grows_def) (metis option.distinct(1))
  ultimately have "walk w' (origin w p) (names p) = Some d" using walk_extends by blast
  with g \<open>p \<noteq> []\<close> show ?thesis by (simp add: locate_def grows_origin)
qed

lemma locate_rewrite_file:
  assumes "node_at w k = Some (RegularFile t m s)" and "locate w p = Some d"
  shows "locate (put_node k (RegularFile t' m' s') w) p = Some d"
proof -
  let ?w = "put_node k (RegularFile t' m' s') w"
  have "k \<noteq> []" using assms(1) by (auto simp: node_at_def)
  then have n: "node_at ?w l = (if l = k then Some (RegularFile t' m' s') else node_at w l)" for l
    by (simp add: node_at_put)
  have "walk w (origin w p) (names p) = Some d" "p \<noteq> []" using assms(2) by (auto simp: locate_def split: if_splits)
  moreover have "walk ?w (origin w p) (names p) = Some d"
    by (rule walk_extends [OF _ _ calculation(1)]) (use n assms(1) in auto)
  ultimately show ?thesis by (auto simp: locate_def origin_def)
qed

lemma grows_directory: "grows w w' \<Longrightarrow> node_at w k = Some Directory \<Longrightarrow> node_at w' k = Some Directory"
  by (auto simp: grows_def) (metis option.distinct(1))

lemma storeFile_new:
  assumes "createFileIfNotExists p w = (Inr True, v)" and "locate v p = Some k"
    and "node_at v k = Some (RegularFile t m s)"
  shows "storeFile p content w = (Inr (), put_node k (RegularFile content m (clock v)) v)"
  using assms by (simp add: storeFile_def write_file_def io_bind_def)

text \<open>Writing \<open>fresh/../x\<close> below the place \<open>d\<close> of the path \<open>p\<close>.\<close>

lemma storeFile_past_missing:
  assumes "locate w p = Some d" and "node_at w d = Some Directory" and "proper_name fresh" and "proper_name x"
    and "node_at w (d @ [fresh]) = None" and "fresh \<noteq> x" and "node_at w (d @ [x]) = Some (RegularFile old m s)"
  defines "w1 \<equiv> put_node (d @ [fresh]) Directory w"
  shows "storeFile (path_append p (fresh @ ''/../'' @ x)) content w =
    (Inr (), put_node (d @ [x]) (RegularFile content m (clock w)) (put_node (d @ [x]) (RegularFile [] m (clock w)) w1))"
proof -
  define q where "q = path_append p (fresh @ ''/..'')"
  let ?f = "fresh @ ''/../'' @ x" and ?w2 = "put_node (d @ [x]) (RegularFile [] m (clock w)) w1"
  have slash: "CHR ''/'' \<notin> set fresh" "CHR ''/'' \<notin> set x" "fresh \<noteq> []" "x \<noteq> []"
    and dots: "fresh \<noteq> ''.''" "fresh \<noteq> ''..''" "x \<noteq> ''.''" "x \<noteq> ''..''"
    using assms(3,4) by (auto simp: proper_name_def)
  have "last x \<noteq> CHR ''/''" using slash(2,4) last_in_set by metis
  have rel: "\<not> is_absolute (fresh @ ''/..'')" "\<not> is_absolute ?f"
    using slash by (cases fresh; auto simp: is_absolute_def)+
  have "q = path_append p fresh @ ''/..''" unfolding q_def by (rule path_append_longer [OF slash(3)])
  then have q: "path_append p ?f = q @ CHR ''/'' # x" "q \<noteq> []" "last q \<noteq> CHR ''/''"
    using path_append_longer [OF slash(3), of p "''/../'' @ x"] by simp_all
  have parent: "parent_path (q @ CHR ''/'' # x) = q" and file_name: "filename (q @ CHR ''/'' # x) = x"
    using q slash(2) by (simp_all add: parent_path_append filename_append)
  have names_q: "names (fresh @ ''/..'') = [fresh, ''..'']"
    using comps_append [of fresh "''..''"] slash by (simp add: names_comps comps_single)
  have names_f: "names ?f = [fresh, ''..'', x]"
    using comps_append [of fresh "''../'' @ x"] comps_append [of "''..''" x] slash \<open>last x \<noteq> CHR ''/''\<close>
    by (simp add: names_comps comps_single)
  have missing: "locate w q = None" "locate w (path_append p ?f) = None"
    using locate_append [OF assms(1) rel(1)] locate_append [OF assms(1) rel(2)] dots assms(5)
    by (simp_all add: q_def names_q names_f step_name_def del: append.simps)
  have node1: "node_at w1 l = (if l = d @ [fresh] then Some Directory else node_at w l)" for l
    by (simp add: w1_def node_at_put)
  have grow: "grows w w1" unfolding w1_def by (rule grows_put) (use assms(5) in simp_all)
  have made: "createDirectoryIfNotExists q w = (Inr True, w1)"
  proof -
    have "p \<noteq> []" "walk w (origin w p) (comps p) = Some d"
      using assms(1) walk_names [of w "origin w p" p d] by (simp_all add: locate_walk)
    moreover from this have "names q = comps p @ [fresh, ''..'']" "origin w q = origin w p"
      using rel(1) by (simp_all add: q_def names_path_append names_q origin_path_append)
    moreover from calculation obtain made' where
      "create_dirs w False (origin w p) (comps p @ [fresh, ''..'']) = create_dirs w made' d [fresh, ''..'']"
      using create_dirs_walk by blast
    moreover have "create_dirs w made' d [fresh, ''..''] = (Some True, w1)" for made'
      using assms(2,5) dots node1 by (simp add: w1_def)
    ultimately show ?thesis
      using missing(1) q(2) by (simp add: createDirectoryIfNotExists_def create_directories_def fs_exists_def)
  qed
  have loc1: "locate w1 p = Some d" using locate_grows [OF grow assms(1)] .
  have "locate w1 q = Some d"
    using locate_append [OF loc1 rel(1)] dots node1 assms(2) by (simp add: q_def names_q step_name_def)
  then have "open_new (q @ CHR ''/'' # x) w1 = (Inr True, ?w2)"
    using q(2) slash dots node1 assms(2,6,7)
    by (simp add: open_new_def parent file_name w1_def)
  then have created: "createFileIfNotExists (path_append p ?f) w = (Inr True, ?w2)"
    using missing(2) made unfolding q(1) by (simp add: createFileIfNotExists_def fs_exists_def parent io_bind_def)
  have file1: "node_at w1 (d @ [x]) = Some (RegularFile old m s)" using node1 assms(6,7) by simp
  have node2: "node_at ?w2 l = (if l = d @ [x] then Some (RegularFile [] m (clock w)) else node_at w1 l)" for l
    by (simp add: node_at_put)
  have "locate ?w2 p = Some d" by (rule locate_rewrite_file [OF file1 loc1])
  then have "locate ?w2 (path_append p ?f) = Some (d @ [x])"
    using locate_append [OF _ rel(2)] dots node2 node1 assms(2,6)
    by (simp add: names_f step_name_def del: append.simps)
  moreover have "node_at ?w2 (d @ [x]) = Some (RegularFile [] m (clock w))" using node2 by simp
  ultimately show ?thesis using storeFile_new [OF created] by (simp add: w1_def)
qed

end
