(* ===== verification/Content_Manifest.thy ===== *)
theory Content_Manifest
  imports Filesystem
begin

text \<open>
  Manifests of a content directory: \<open>modules/content_service/src/{content_scanner,content_manifest,manifest_storage}.cpp\<close>.

  The hash function and the reading and writing of json texts are parameters.  A scanner belongs to
  the manifest of its content, and the storage keeps one manifest per directory for the whole run.
\<close>

section \<open>Comparing json values\<close>

text \<open>Two numbers are equal when their values are, whatever their kinds.\<close>

fun json_norm :: "json \<Rightarrow> json" where
  "json_norm (JInteger i) = JFloat (of_int i)"
| "json_norm (JUnsigned n) = JFloat (of_nat n)"
| "json_norm (JArray xs) = JArray (map json_norm xs)"
| "json_norm (JObject m) = JObject (map (\<lambda>e. (fst e, json_norm (snd e))) m)"
| "json_norm j = j"

definition json_eq :: "json \<Rightarrow> json \<Rightarrow> bool" where
  "json_eq a b \<longleftrightarrow> json_norm a = json_norm b"

text \<open>\<open>j.items()\<close>, and \<open>j[k]\<close> on a value that may be changed: a missing key is added as null.\<close>

fun jitems :: "json \<Rightarrow> (string \<times> json) list" where
  "jitems (JObject m) = m"
| "jitems (JArray xs) = zip (map nat_to_string [0..<length xs]) xs"
| "jitems JNull = []"
| "jitems j = [([], j)]"

fun jmember :: "json \<Rightarrow> string \<Rightarrow> json result" where
  "jmember (JObject m) k = Inr (case map_of m k of Some v \<Rightarrow> v | None \<Rightarrow> JNull)"
| "jmember JNull k = Inr JNull"
| "jmember j k = Inl (JsonError ''type_error'')"

section \<open>Scanning a directory\<close>

record content_env =
  content_config :: json
  sha256 :: "string \<Rightarrow> string"
  dump_json :: "json \<Rightarrow> string"
  parse_json :: "string \<Rightarrow> json option"

record scanner =
  scanner_type :: string
  scanner_id :: string
  full_rescan_interval :: rat
  last_full_rescan :: int

definition ContentScanner :: "content_env \<Rightarrow> string \<Rightarrow> string \<Rightarrow> scanner result" where
  "ContentScanner env content_type content_id =
     rbind (rbind (getTiming (content_config env) ''full_rescan_interval'') required) (\<lambda>interval.
       Inr \<lparr>scanner_type = content_type, scanner_id = content_id, full_rescan_interval = interval,
            last_full_rescan = - 9223372036854\<rparr>)"

definition getPathToContentDirectory :: "content_env \<Rightarrow> string \<Rightarrow> string \<Rightarrow> string result" where
  "getPathToContentDirectory env content_type content_id =
     rbind (rbind (getContentDirectory (content_config env) content_type) required) (\<lambda>d.
       Inr (path_append d content_id))"

definition storedManifestToJson :: "content_env \<Rightarrow> fs \<Rightarrow> string \<Rightarrow> string \<Rightarrow> json" where
  "storedManifestToJson env w content_type content_id =
     (case rbind (getPathToContentDirectory env content_type content_id) (\<lambda>d. loadFile w (path_append d ''manifest.json'')) of
        Inl e \<Rightarrow> JObject []
      | Inr text \<Rightarrow> (case parse_json env text of None \<Rightarrow> JObject [] | Some j \<Rightarrow> j))"

text \<open>The regular files below a directory, except the manifest itself: relative path, text, mode and time.\<close>

fun regular_entry :: "place \<Rightarrow> place \<times> node \<Rightarrow> (string \<times> string \<times> nat \<times> int) list" where
  "regular_entry d (k, Directory) = []"
| "regular_entry d (k, RegularFile t m s) =
     (if is_prefix d k \<and> k \<noteq> d \<and> join_names (drop (length d) k) \<noteq> ''manifest.json''
      then [(join_names (drop (length d) k), t, m, s)] else [])"

definition regular_entries :: "fs \<Rightarrow> place \<Rightarrow> (string \<times> string \<times> nat \<times> int) list" where
  "regular_entries w d = concat (map (regular_entry d) (nodes w))"

definition to_seconds :: "int \<Rightarrow> int" where
  "to_seconds ms = (if ms \<ge> 0 then ms div 1000 else - ((- ms) div 1000))"

definition file_json :: "string \<Rightarrow> nat \<Rightarrow> int \<Rightarrow> json \<Rightarrow> json" where
  "file_json t m s hash =
     JObject [(''last_modified'', JInteger (to_seconds s)), (''permissions'', JUnsigned m),
              (''sha256'', hash), (''size'', JUnsigned (length t))]"

text \<open>The hash of an entry: computed, or copied from the stored manifest when size and time agree.\<close>

definition stored_file :: "json \<Rightarrow> string \<Rightarrow> json option" where
  "stored_file stored rel = Option.bind (map_of (members stored) ''files'') (\<lambda>f. map_of (members f) rel)"

definition cached_hash :: "content_env \<Rightarrow> json \<Rightarrow> string \<Rightarrow> string \<Rightarrow> int \<Rightarrow> json result" where
  "cached_hash env stored rel t s =
     (case stored_file stored rel of
        None \<Rightarrow> Inr (JString (sha256 env t))
      | Some info \<Rightarrow>
          rbind (jmember info ''size'') (\<lambda>size.
          if \<not> json_eq size (JUnsigned (length t)) then Inr (JString (sha256 env t))
          else rbind (jmember info ''last_modified'') (\<lambda>modified.
            if \<not> json_eq modified (JInteger (to_seconds s)) then Inr (JString (sha256 env t))
            else jmember info ''sha256'')))"

fun collect_files ::
    "(string \<Rightarrow> string \<Rightarrow> int \<Rightarrow> json result) \<Rightarrow> (string \<times> string \<times> nat \<times> int) list \<Rightarrow> (string \<times> json) list
     \<Rightarrow> (string \<times> json) list result" where
  "collect_files hash [] acc = Inr acc"
| "collect_files hash ((rel, t, m, s) # es) acc =
     rbind (hash rel t s) (\<lambda>h. collect_files hash es (put_member rel (file_json t m s h) acc))"

definition manifest_of :: "(string \<times> json) list \<Rightarrow> json" where
  "manifest_of files = (if files = [] then JNull else JObject [(''files'', JObject files)])"

definition scan_directory ::
    "content_env \<Rightarrow> (fs \<Rightarrow> string \<Rightarrow> string \<Rightarrow> int \<Rightarrow> json result) \<Rightarrow> scanner \<Rightarrow> (fs, json) io" where
  "scan_directory env hash sc =
     io_bind (io_lift (getPathToContentDirectory env (scanner_type sc) (scanner_id sc))) (\<lambda>directory.
     io_bind (createDirectoryIfNotExists directory) (\<lambda>_ w.
       case locate w directory of
         None \<Rightarrow> (Inl (FilesystemError ''cannot open directory''), w)
       | Some d \<Rightarrow>
           if node_at w d \<noteq> Some Directory then (Inl (FilesystemError ''cannot open directory''), w)
           else (rbind (collect_files (hash w) (regular_entries w d) []) (\<lambda>files. Inr (manifest_of files)), w)))"

definition fullContentScan :: "content_env \<Rightarrow> scanner \<Rightarrow> fs \<Rightarrow> (exn + json) \<times> scanner \<times> fs" where
  "fullContentScan env sc w =
     (case scan_directory env (\<lambda>w rel t s. Inr (JString (sha256 env t))) sc w of
        (Inl e, w') \<Rightarrow> (Inl e, sc, w')
      | (Inr j, w') \<Rightarrow> (Inr j, sc\<lparr>last_full_rescan := clock w'\<rparr>, w'))"

definition scanContentWithCache :: "content_env \<Rightarrow> scanner \<Rightarrow> fs \<Rightarrow> (exn + json) \<times> scanner \<times> fs" where
  "scanContentWithCache env sc w =
     (case scan_directory env
             (\<lambda>w. cached_hash env (storedManifestToJson env w (scanner_type sc) (scanner_id sc))) sc w of
        (r, w') \<Rightarrow> (r, sc, w'))"

definition scanContent :: "content_env \<Rightarrow> scanner \<Rightarrow> fs \<Rightarrow> (exn + json) \<times> scanner \<times> fs" where
  "scanContent env sc w =
     (if clock w - last_full_rescan sc \<ge> truncate_rat (full_rescan_interval sc * 1000)
      then fullContentScan env sc w else scanContentWithCache env sc w)"

section \<open>The manifest\<close>

definition getPathToManifestFile :: "content_env \<Rightarrow> scanner \<Rightarrow> string result" where
  "getPathToManifestFile env sc =
     rbind (getPathToContentDirectory env (scanner_type sc) (scanner_id sc)) (\<lambda>d. Inr (path_append d ''manifest.json''))"

definition updateManifest :: "content_env \<Rightarrow> scanner \<Rightarrow> fs \<Rightarrow> (exn + unit) \<times> scanner \<times> fs" where
  "updateManifest env sc w =
     (case getPathToManifestFile env sc of
        Inl e \<Rightarrow> (Inl e, sc, w)
      | Inr p \<Rightarrow>
          (case scanContent env sc w of
             (Inl e, sc', w') \<Rightarrow> (Inl e, sc', w')
           | (Inr j, sc', w') \<Rightarrow> (case storeFile p (dump_json env j) w' of (r, w'') \<Rightarrow> (r, sc', w''))))"

definition manifest_toString :: "content_env \<Rightarrow> scanner \<Rightarrow> fs \<Rightarrow> (exn + string) \<times> scanner \<times> fs" where
  "manifest_toString env sc w =
     (case updateManifest env sc w of
        (Inl e, sc', w') \<Rightarrow> (Inl e, sc', w')
      | (Inr u, sc', w') \<Rightarrow> (rbind (getPathToManifestFile env sc') (loadFile w'), sc', w'))"

definition manifest_toJson :: "content_env \<Rightarrow> scanner \<Rightarrow> fs \<Rightarrow> (exn + json) \<times> scanner \<times> fs" where
  "manifest_toJson env sc w =
     (case updateManifest env sc w of
        (Inl e, sc', w') \<Rightarrow> (Inl e, sc', w')
      | (Inr u, sc', w') \<Rightarrow> (Inr (storedManifestToJson env w' (scanner_type sc') (scanner_id sc')), sc', w'))"

definition getManifestSignature :: "content_env \<Rightarrow> string \<Rightarrow> string \<Rightarrow> string result" where
  "getManifestSignature env content_type content_id = getPathToContentDirectory env content_type content_id"

text \<open>The storage maps a directory to its manifest; one is made at the first request.\<close>

type_synonym manifest_storage = "string \<rightharpoonup> scanner"

definition getManifest ::
    "content_env \<Rightarrow> manifest_storage \<Rightarrow> string \<Rightarrow> string \<Rightarrow> (string \<times> scanner) result" where
  "getManifest env st content_type content_id =
     rbind (getManifestSignature env content_type content_id) (\<lambda>key.
       case st key of
         Some sc \<Rightarrow> Inr (key, sc)
       | None \<Rightarrow> rbind (ContentScanner env content_type content_id) (\<lambda>sc. Inr (key, sc)))"

section \<open>Comparing manifests\<close>

datatype change_type = ADDED | REMOVED | MODIFIED | ATTRIBUTES_CHANGED

type_synonym change = "change_type \<times> string"

definition getEntryField :: "json \<Rightarrow> string \<Rightarrow> json" where
  "getEntryField file_info key = (case map_of (members file_info) key of Some v \<Rightarrow> v | None \<Rightarrow> JNull)"

definition files_of :: "json \<Rightarrow> json option" where
  "files_of manifest = map_of (members manifest) ''files''"

definition has_file :: "json \<Rightarrow> string \<Rightarrow> bool" where
  "has_file manifest p \<longleftrightarrow> stored_file manifest p \<noteq> None"

definition new_change :: "json \<Rightarrow> string \<times> json \<Rightarrow> change list" where
  "new_change old_manifest e =
     (case e of (p, new_info) \<Rightarrow>
        (case stored_file old_manifest p of
           None \<Rightarrow> [(ADDED, p)]
         | Some old_info \<Rightarrow>
             if \<not> json_eq (getEntryField old_info ''sha256'') (getEntryField new_info ''sha256'') then [(MODIFIED, p)]
             else if \<not> json_eq (getEntryField old_info ''permissions'') (getEntryField new_info ''permissions'')
             then [(ATTRIBUTES_CHANGED, p)] else []))"

definition compareManifests :: "json \<Rightarrow> json \<Rightarrow> change list" where
  "compareManifests old_manifest new_manifest =
     (case files_of new_manifest of
        None \<Rightarrow> [] | Some f \<Rightarrow> concat (map (new_change old_manifest) (jitems f)))
     @ (case files_of old_manifest of
          None \<Rightarrow> [] | Some f \<Rightarrow> concat (map (\<lambda>e. if has_file new_manifest (fst e) then [] else [(REMOVED, fst e)]) (jitems f)))"

definition getPermissionsFromManifest :: "json \<Rightarrow> string \<Rightarrow> nat result" where
  "getPermissionsFromManifest manifest p =
     (case Option.bind (stored_file manifest p) (\<lambda>info. map_of (members info) ''permissions'') of
        None \<Rightarrow> Inr 65535
      | Some v \<Rightarrow> rbind (get_uint32 v) (\<lambda>m. Inr (unat m)))"

section \<open>What a comparison reports\<close>

text \<open>A manifest whose files are an object, as every manifest that was read from a text is.\<close>

definition files_object :: "json \<Rightarrow> bool" where
  "files_object manifest \<longleftrightarrow>
     (case files_of manifest of None \<Rightarrow> True | Some (JObject f) \<Rightarrow> distinct (map fst f) | Some j \<Rightarrow> False)"

definition file_infos :: "json \<Rightarrow> (string \<times> json) list" where
  "file_infos manifest = (case files_of manifest of Some (JObject f) \<Rightarrow> f | _ \<Rightarrow> [])"

lemma stored_file_infos: "files_object j \<Longrightarrow> stored_file j p = map_of (file_infos j) p"
  by (auto simp: stored_file_def file_infos_def files_of_def files_object_def split: option.splits json.splits)

lemma jitems_infos: "files_object j \<Longrightarrow> files_of j = Some f \<Longrightarrow> jitems f = file_infos j"
  by (auto simp: files_object_def file_infos_def split: json.splits)

lemma compareManifests_infos:
  assumes "files_object old_manifest" and "files_object new_manifest"
  shows "compareManifests old_manifest new_manifest =
    concat (map (new_change old_manifest) (file_infos new_manifest))
    @ map (\<lambda>e. (REMOVED, fst e)) (filter (\<lambda>e. \<not> has_file new_manifest (fst e)) (file_infos old_manifest))"
proof -
  have "concat (map (\<lambda>e. if has_file new_manifest (fst e) then [] else [(REMOVED, fst e)]) f) =
      map (\<lambda>e. (REMOVED, fst e)) (filter (\<lambda>e. \<not> has_file new_manifest (fst e)) f)" for f :: "(string \<times> json) list"
    by (induction f) auto
  moreover have "file_infos j = []" if "files_of j = None" for j using that by (simp add: file_infos_def)
  ultimately show ?thesis
    using assms by (cases "files_of new_manifest"; cases "files_of old_manifest")
      (auto simp: compareManifests_def jitems_infos)
qed

lemma infos_distinct: "files_object j \<Longrightarrow> distinct (map fst (file_infos j))"
  by (auto simp: files_object_def file_infos_def split: option.splits json.splits)

text \<open>What should be reported for one path: at most one change, from the two entries it has.\<close>

definition expected_change :: "json option \<Rightarrow> json option \<Rightarrow> change_type option" where
  "expected_change old_info new_info =
     (case (old_info, new_info) of
        (None, None) \<Rightarrow> None
      | (None, Some n) \<Rightarrow> Some ADDED
      | (Some old', None) \<Rightarrow> Some REMOVED
      | (Some old', Some n) \<Rightarrow>
          if \<not> json_eq (getEntryField old' ''sha256'') (getEntryField n ''sha256'') then Some MODIFIED
          else if \<not> json_eq (getEntryField old' ''permissions'') (getEntryField n ''permissions'')
          then Some ATTRIBUTES_CHANGED else None)"

lemma new_change_paths: "(c, p) \<in> set (new_change old_manifest e) \<Longrightarrow> p = fst e"
  by (auto simp: new_change_def split: prod.splits option.splits if_splits)

lemma new_change_set:
  "set (new_change old_manifest (p, n)) =
     (case expected_change (stored_file old_manifest p) (Some n) of None \<Rightarrow> {} | Some c \<Rightarrow> {(c, p)})"
  by (auto simp: new_change_def expected_change_def split: option.splits)

lemma new_changes_paths:
  "snd ` set (new_change old_manifest e) \<subseteq> {fst e}"
  "snd ` set (concat (map (new_change old_manifest) f)) \<subseteq> fst ` set f"
  by (auto dest: new_change_paths) (metis fst_conv image_eqI new_change_paths)

lemma distinct_new_changes:
  "distinct (map fst f) \<Longrightarrow> distinct (map snd (concat (map (new_change old_manifest) f)))"
proof (induction f)
  case Nil
  then show ?case by simp
next
  case (Cons e f)
  let ?A = "map snd (new_change old_manifest e)" and ?B = "map snd (concat (map (new_change old_manifest) f))"
  have "distinct ?A" by (auto simp: new_change_def split: prod.splits option.splits)
  moreover have "distinct ?B" using Cons by simp
  moreover have "set ?A \<inter> set ?B = {}"
  proof -
    have "set ?A \<subseteq> {fst e}" "set ?B \<subseteq> fst ` set f"
      unfolding set_map by (rule new_changes_paths)+
    moreover have "fst e \<notin> fst ` set f" using Cons.prems by simp
    ultimately show ?thesis by blast
  qed
  moreover have "map snd (concat (map (new_change old_manifest) (e # f))) = ?A @ ?B" by simp
  ultimately show ?case by (simp only: distinct_append)
qed

lemma compareManifests_exact:
  assumes "files_object old_manifest" and "files_object new_manifest"
  shows "distinct (map snd (compareManifests old_manifest new_manifest))
    \<and> (\<forall>p c. ((c, p) \<in> set (compareManifests old_manifest new_manifest)) =
         (expected_change (stored_file old_manifest p) (stored_file new_manifest p) = Some c))"
proof (rule conjI)
  let ?new = "concat (map (new_change old_manifest) (file_infos new_manifest))"
  let ?gone = "filter (\<lambda>e. \<not> has_file new_manifest (fst e)) (file_infos old_manifest)"
  have "distinct (map snd ?new)" using distinct_new_changes [OF infos_distinct [OF assms(2)]] .
  moreover have "distinct (map fst ?gone)" using infos_distinct [OF assms(1)] by (simp add: distinct_map_filter)
  moreover have "snd ` set ?new \<subseteq> fst ` set (file_infos new_manifest)" by (rule new_changes_paths)
  then have "\<forall>p \<in> snd ` set ?new. has_file new_manifest p"
    by (auto simp: has_file_def stored_file_infos [OF assms(2)] map_of_eq_None_iff)
  moreover have "map snd (map (\<lambda>e. (REMOVED, fst e)) ?gone) = map fst ?gone" by simp
  moreover have "\<forall>p \<in> set (map fst ?gone). \<not> has_file new_manifest p" by auto
  then have "set (map snd ?new) \<inter> set (map fst ?gone) = {}"
    using \<open>\<forall>p \<in> snd ` set ?new. has_file new_manifest p\<close> unfolding set_map by blast
  ultimately show "distinct (map snd (compareManifests old_manifest new_manifest))"
    unfolding compareManifests_infos [OF assms] map_append distinct_append by argo
next
  show "\<forall>p c. ((c, p) \<in> set (compareManifests old_manifest new_manifest)) =
      (expected_change (stored_file old_manifest p) (stored_file new_manifest p) = Some c)"
  proof (intro allI)
    fix p c
    have new: "(p, n) \<in> set (file_infos new_manifest) \<longleftrightarrow> stored_file new_manifest p = Some n" for n
      using map_of_eq_Some_iff [OF infos_distinct [OF assms(2)]] by (simp add: stored_file_infos [OF assms(2)])
    have old: "(p, n) \<in> set (file_infos old_manifest) \<longleftrightarrow> stored_file old_manifest p = Some n" for n
      using map_of_eq_Some_iff [OF infos_distinct [OF assms(1)]] by (simp add: stored_file_infos [OF assms(1)])
    have 1: "(c, p) \<in> set (concat (map (new_change old_manifest) (file_infos new_manifest))) \<longleftrightarrow>
        (\<exists>n. stored_file new_manifest p = Some n
           \<and> expected_change (stored_file old_manifest p) (Some n) = Some c)"
    proof -
      have "(c, p) \<in> set (concat (map (new_change old_manifest) (file_infos new_manifest))) \<longleftrightarrow>
          (\<exists>n. (p, n) \<in> set (file_infos new_manifest) \<and> (c, p) \<in> set (new_change old_manifest (p, n)))"
        using new_change_paths by fastforce
      then show ?thesis unfolding new new_change_set by (auto split: option.splits)
    qed
    have 2: "(c, p) \<in> set (map (\<lambda>e. (REMOVED, fst e)) (filter (\<lambda>e. \<not> has_file new_manifest (fst e)) (file_infos old_manifest)))
        \<longleftrightarrow> c = REMOVED \<and> stored_file new_manifest p = None \<and> (\<exists>n. stored_file old_manifest p = Some n)"
    proof -
      have "(c, p) \<in> set (map (\<lambda>e. (REMOVED, fst e)) (filter (\<lambda>e. \<not> has_file new_manifest (fst e)) (file_infos old_manifest)))
          \<longleftrightarrow> c = REMOVED \<and> \<not> has_file new_manifest p \<and> (\<exists>n. (p, n) \<in> set (file_infos old_manifest))"
        by force
      then show ?thesis unfolding old has_file_def by auto
    qed
    show "((c, p) \<in> set (compareManifests old_manifest new_manifest)) =
        (expected_change (stored_file old_manifest p) (stored_file new_manifest p) = Some c)"
      unfolding compareManifests_infos [OF assms] set_append Un_iff 1 2
      by (cases "stored_file old_manifest p"; cases "stored_file new_manifest p") (auto simp: expected_change_def)
  qed
qed

text \<open>
  C30: a comparison is complete and reports every path once.  Between two manifests whose files are
  objects, the change reported for a path is exactly the one its two entries call for: added or
  removed when one side lacks it, modified when the hashes differ, attributes changed when only the
  permissions do, and nothing otherwise; no path is reported twice.
\<close>

theorem compareManifests_complete:
  assumes "files_object old_manifest" and "files_object new_manifest"
  shows "distinct (map snd (compareManifests old_manifest new_manifest))
    \<and> (\<forall>p c. ((c, p) \<in> set (compareManifests old_manifest new_manifest)) =
         (expected_change (stored_file old_manifest p) (stored_file new_manifest p) = Some c))"
  by (rule compareManifests_exact [OF assms])

definition sample_manifest :: "(string \<times> string \<times> nat) list \<Rightarrow> json" where
  "sample_manifest fs' = JObject [(''files'', JObject (map (\<lambda>(p, h, m). (p, file_json [] m 0 (JString h))) fs'))]"

theorem compareManifests_complete_witness:
  "distinct (map snd (compareManifests (sample_manifest [(''a'', ''1'', 420), (''b'', ''2'', 420), (''c'', ''3'', 420)])
      (sample_manifest [(''a'', ''1'', 493), (''b'', ''9'', 420), (''d'', ''4'', 420)])))
   \<and> ((REMOVED, ''c'') \<in> set (compareManifests (sample_manifest [(''a'', ''1'', 420), (''b'', ''2'', 420), (''c'', ''3'', 420)])
      (sample_manifest [(''a'', ''1'', 493), (''b'', ''9'', 420), (''d'', ''4'', 420)])))"
proof -
  have "files_object (sample_manifest [(''a'', ''1'', 420), (''b'', ''2'', 420), (''c'', ''3'', 420)])"
    "files_object (sample_manifest [(''a'', ''1'', 493), (''b'', ''9'', 420), (''d'', ''4'', 420)])"
    by (simp_all add: files_object_def files_of_def sample_manifest_def)
  from compareManifests_complete [OF this] show ?thesis
    by (simp add: stored_file_def sample_manifest_def expected_change_def)
qed

section \<open>Scanning with the stored manifest\<close>

lemma map_of_norm: "map_of (map (\<lambda>e. (fst e, json_norm (snd e))) m) k = map_option json_norm (map_of m k)"
  by (induction m) auto

lemma members_norm: "map_of (members (json_norm j)) k = map_option json_norm (map_of (members j) k)"
  by (cases j) (simp_all add: map_of_norm)

lemma json_norm_members:
  assumes "json_norm j = json_norm j'"
  shows "map_option json_norm (map_of (members j) k) = map_option json_norm (map_of (members j') k)"
  using assms by (simp only: members_norm [symmetric])

lemma json_norm_string: "json_norm j = JString s \<longleftrightarrow> j = JString s"
  by (cases j) auto

lemma json_norm_object: "json_norm j = JObject m \<Longrightarrow> \<exists>n. j = JObject n"
  by (cases j) auto

lemma stored_file_norm:
  assumes "json_norm j = json_norm j'"
  shows "map_option json_norm (stored_file j p) = map_option json_norm (stored_file j' p)"
proof -
  have "stored_file (json_norm i) p = map_option json_norm (stored_file i p)" for i
    by (cases "map_of (members i) ''files''") (simp_all add: stored_file_def members_norm)
  with assms show ?thesis by metis
qed

lemma collect_files_Inr:
  assumes "\<forall>e \<in> set es. hash (fst e) (fst (snd e)) (snd (snd (snd e))) = Inr (h e)"
  shows "collect_files hash es acc =
    Inr (fold (\<lambda>e m. put_member (fst e) (file_json (fst (snd e)) (fst (snd (snd e))) (snd (snd (snd e))) (h e)) m) es acc)"
  using assms by (induction es arbitrary: acc) auto

definition full_files :: "content_env \<Rightarrow> (string \<times> string \<times> nat \<times> int) list \<Rightarrow> (string \<times> json) list" where
  "full_files env es =
     fold (\<lambda>e m. put_member (fst e)
       (file_json (fst (snd e)) (fst (snd (snd e))) (snd (snd (snd e))) (JString (sha256 env (fst (snd e))))) m) es []"

lemma fold_put_lookup:
  "distinct (map fst es) \<Longrightarrow>
     map_of (fold (\<lambda>e m. put_member (fst e) (g e) m) es acc) = map_of acc ++ map_of (map (\<lambda>e. (fst e, g e)) es)"
proof (induction es arbitrary: acc)
  case Nil
  then show ?case by simp
next
  case (Cons e es)
  then have "fst e \<notin> dom (map_of (map (\<lambda>e. (fst e, g e)) es))" by (simp add: dom_map_of_conv_image_fst image_image)
  then have none: "map_of (map (\<lambda>e. (fst e, g e)) es) (fst e) = None" by blast
  have "map_of (fold (\<lambda>e m. put_member (fst e) (g e) m) es (put_member (fst e) (g e) acc)) =
      map_of (put_member (fst e) (g e) acc) ++ map_of (map (\<lambda>e. (fst e, g e)) es)"
    using Cons by simp
  also have "\<dots> = map_of acc ++ map_of (map (\<lambda>e. (fst e, g e)) (e # es))"
    by (rule ext) (use none in \<open>simp add: map_of_put_member map_add_def split: option.split\<close>)
  finally show ?case by (simp only: fold_simps)
qed

lemma full_files_lookup:
  assumes "distinct (map fst es)"
  shows "map_of (full_files env es) p = Some j \<longleftrightarrow>
    (\<exists>t m s. (p, t, m, s) \<in> set es \<and> j = file_json t m s (JString (sha256 env t)))"
proof -
  let ?g = "\<lambda>e. file_json (fst (snd e)) (fst (snd (snd e))) (snd (snd (snd e))) (JString (sha256 env (fst (snd e))))"
  have d: "distinct (map fst (map (\<lambda>e. (fst e, ?g e)) es))" using assms by (simp add: comp_def)
  have "map_of (full_files env es) = map_of (map (\<lambda>e. (fst e, ?g e)) es)"
    unfolding full_files_def fold_put_lookup [OF assms] by simp
  then have "map_of (full_files env es) p = Some j \<longleftrightarrow> (p, j) \<in> set (map (\<lambda>e. (fst e, ?g e)) es)"
    using map_of_eq_Some_iff [OF d] by simp
  also have "\<dots> \<longleftrightarrow> (\<exists>t m s. (p, t, m, s) \<in> set es \<and> j = file_json t m s (JString (sha256 env t)))"
  proof
    assume "(p, j) \<in> set (map (\<lambda>e. (fst e, ?g e)) es)"
    then obtain e where "e \<in> set es" "p = fst e" "j = ?g e" by auto
    then show "\<exists>t m s. (p, t, m, s) \<in> set es \<and> j = file_json t m s (JString (sha256 env t))"
      by (metis prod.collapse)
  qed (auto intro!: image_eqI [of _ _ "(p, t, m, s)" for t m s])
  finally show ?thesis .
qed

lemma stored_full:
  "stored_file (manifest_of (full_files env es)) p = map_of (full_files env es) p"
  by (simp add: stored_file_def manifest_of_def)

text \<open>
  Between two scans no file changed without its size or its modification second changing, as seen by
  the entries \<open>old_es\<close> of the earlier scan and \<open>es\<close> of now.
\<close>

definition changes_visible :: "(string \<times> string \<times> nat \<times> int) list \<Rightarrow> (string \<times> string \<times> nat \<times> int) list \<Rightarrow> bool" where
  "changes_visible old_es es \<longleftrightarrow>
     (\<forall>(p, t, m, s) \<in> set old_es. \<forall>(q, u, n, r) \<in> set es.
        p = q \<longrightarrow> length t = length u \<longrightarrow> to_seconds s = to_seconds r \<longrightarrow> t = u)"

lemma cached_hash_visible:
  assumes "distinct (map fst old_es)" and "changes_visible old_es es"
    and "json_norm stored = json_norm (manifest_of (full_files env old_es))"
    and "(p, t, m, s) \<in> set es"
  shows "cached_hash env stored p t s = Inr (JString (sha256 env t))"
proof (cases "stored_file stored p")
  case None
  then show ?thesis by (simp add: cached_hash_def)
next
  case (Some info)
  from stored_file_norm [OF assms(3), of p] Some obtain j where
    j: "map_of (full_files env old_es) p = Some j" "json_norm info = json_norm j"
    by (cases "map_of (full_files env old_es) p") (simp_all add: stored_full)
  then obtain u n r where u: "(p, u, n, r) \<in> set old_es" "j = file_json u n r (JString (sha256 env u))"
    using full_files_lookup [OF assms(1)] by blast
  from j(2) u(2) have "\<exists>f. json_norm info = JObject f" by (simp add: file_json_def)
  then obtain f where f: "info = JObject f" using json_norm_object by blast
  have mem: "map_option json_norm (map_of f k) = map_option json_norm (map_of (members j) k)" for k
    using json_norm_members [OF j(2), of k] f by simp
  have fields: "map_option json_norm (map_of f ''size'') = Some (json_norm (JUnsigned (length u)))"
      "map_option json_norm (map_of f ''last_modified'') = Some (json_norm (JInteger (to_seconds r)))"
      "map_option json_norm (map_of f ''sha256'') = Some (JString (sha256 env u))"
    unfolding mem u(2) file_json_def by simp_all
  from fields obtain size modified hash where get: "map_of f ''size'' = Some size" "map_of f ''last_modified'' = Some modified"
      "map_of f ''sha256'' = Some hash" by blast
  with fields have norm: "json_norm size = json_norm (JUnsigned (length u))"
      "json_norm modified = json_norm (JInteger (to_seconds r))" "hash = JString (sha256 env u)"
    using json_norm_string [of hash] by simp_all
  have "t = u" if "length t = length u" "to_seconds s = to_seconds r"
    using assms(2,4) u(1) that by (fastforce simp: changes_visible_def)
  then have "cached_hash env stored p t s = (if length u = length t \<and> to_seconds r = to_seconds s
      then Inr (JString (sha256 env u)) else Inr (JString (sha256 env t)))"
    unfolding cached_hash_def Some using f get norm by (simp add: json_eq_def)
  also have "\<dots> = (if length u = length t \<and> to_seconds r = to_seconds s
      then Inr (JString (sha256 env t)) else Inr (JString (sha256 env t)))"
    using \<open>length t = length u \<Longrightarrow> to_seconds s = to_seconds r \<Longrightarrow> t = u\<close> by auto
  finally have "cached_hash env stored p t s = (if length u = length t \<and> to_seconds r = to_seconds s
      then Inr (JString (sha256 env t)) else Inr (JString (sha256 env t)))" .
  then show ?thesis by simp
qed

lemma cached_scan_full:
  assumes "getPathToContentDirectory env (scanner_type sc) (scanner_id sc) = Inr directory"
    and "locate w directory = Some d" and "node_at w d = Some Directory"
    and "json_norm (storedManifestToJson env w (scanner_type sc) (scanner_id sc)) = json_norm (manifest_of (full_files env old_es))"
    and "distinct (map fst old_es)" and "changes_visible old_es (regular_entries w d)"
  shows "fst (scanContentWithCache env sc w) = fst (fullContentScan env sc w)
    \<and> fst (scanContentWithCache env sc w) = Inr (manifest_of (full_files env (regular_entries w d)))"
proof -
  have made: "createDirectoryIfNotExists directory w = (Inr True, w)"
    using assms(2) by (simp add: createDirectoryIfNotExists_def fs_exists_def)
  have scan: "scan_directory env hash sc w =
      (rbind (collect_files (hash w) (regular_entries w d) []) (\<lambda>files. Inr (manifest_of files)), w)" for hash
    using assms(1-3) made by (simp add: scan_directory_def io_bind_def io_lift_def)
  have full: "collect_files (\<lambda>rel t s. Inr (JString (sha256 env t))) (regular_entries w d) [] =
      Inr (full_files env (regular_entries w d))"
    unfolding full_files_def by (rule collect_files_Inr) simp
  have "collect_files (cached_hash env (storedManifestToJson env w (scanner_type sc) (scanner_id sc))) (regular_entries w d) [] =
      Inr (full_files env (regular_entries w d))"
    unfolding full_files_def
    by (rule collect_files_Inr) (use cached_hash_visible [OF assms(5,6,4)] in auto)
  with full scan show ?thesis by (simp add: scanContentWithCache_def fullContentScan_def)
qed

text \<open>
  C18: scanning with the stored manifest is scanning.  When the manifest in the directory is one an
  earlier scan wrote, and no file has changed since without its size or modification second changing,
  the cached scan returns exactly the manifest a full scan of the directory returns, although it only
  reads the files that changed.
\<close>

theorem cached_scan_is_full_scan:
  assumes "getPathToContentDirectory env (scanner_type sc) (scanner_id sc) = Inr directory"
    and "locate w directory = Some d" and "node_at w d = Some Directory"
    and "json_norm (storedManifestToJson env w (scanner_type sc) (scanner_id sc)) = json_norm (manifest_of (full_files env old_es))"
    and "distinct (map fst old_es)" and "changes_visible old_es (regular_entries w d)"
  shows "fst (scanContentWithCache env sc w) = fst (fullContentScan env sc w)
    \<and> fst (scanContentWithCache env sc w) = Inr (manifest_of (full_files env (regular_entries w d)))"
  by (rule cached_scan_full [OF assms])

definition sample_content_env :: content_env where
  "sample_content_env =
     \<lparr>content_config = JObject [(''directories'', JObject [(''packages'', JString ''/c'')])],
      sha256 = \<lambda>t. t @ ''#'', dump_json = \<lambda>j. ''stored'',
      parse_json = \<lambda>t. Some (manifest_of (full_files \<lparr>content_config = JNull, sha256 = \<lambda>t. t @ ''#'',
        dump_json = \<lambda>j. [], parse_json = \<lambda>t. None\<rparr> [(''a'', ''x'', 420, 1000), (''b'', ''y'', 420, 2000)]))\<rparr>"

definition sample_content_fs :: fs where
  "sample_content_fs =
     \<lparr>nodes = [([''c''], Directory), ([''c'', ''p''], Directory), ([''c'', ''p'', ''manifest.json''], RegularFile ''stored'' 420 3000),
       ([''c'', ''p'', ''a''], RegularFile ''x'' 420 1500), ([''c'', ''p'', ''b''], RegularFile ''z'' 493 9000)],
      cwd = [], clock = 9500, new_permissions = 420\<rparr>"

definition sample_scanner :: scanner where
  "sample_scanner = \<lparr>scanner_type = ''package'', scanner_id = ''p'', full_rescan_interval = 10, last_full_rescan = 0\<rparr>"

theorem cached_scan_is_full_scan_witness:
  "fst (scanContentWithCache sample_content_env sample_scanner sample_content_fs) =
     Inr (manifest_of (full_files sample_content_env
       [(''a'', ''x'', 420, 1500), (''b'', ''z'', 493, 9000)]))"
proof -
  let ?w = sample_content_fs and ?env = sample_content_env and ?sc = sample_scanner
  let ?old = "[(''a'', ''x'', 420, 1000), (''b'', ''y'', 420, 2000)] :: (string \<times> string \<times> nat \<times> int) list"
  have dir: "getPathToContentDirectory ?env (scanner_type ?sc) (scanner_id ?sc) = Inr ''/c/p''"
    by code_simp
  have loc: "locate ?w ''/c/p'' = Some [''c'', ''p'']" by code_simp
  have node: "node_at ?w [''c'', ''p''] = Some Directory" by code_simp
  have entries: "regular_entries ?w [''c'', ''p''] = [(''a'', ''x'', 420, 1500), (''b'', ''z'', 493, 9000)]" by code_simp
  have stored: "storedManifestToJson ?env ?w (scanner_type ?sc) (scanner_id ?sc) = manifest_of (full_files ?env ?old)"
    by code_simp
  have visible: "changes_visible ?old (regular_entries ?w [''c'', ''p''])"
    unfolding entries by (simp add: changes_visible_def to_seconds_def)
  have same: "json_norm (storedManifestToJson ?env ?w (scanner_type ?sc) (scanner_id ?sc)) = json_norm (manifest_of (full_files ?env ?old))"
    by (simp only: stored)
  have "distinct (map fst ?old)" by simp
  from cached_scan_is_full_scan [OF dir loc node same this visible]
  show ?thesis unfolding entries by (rule conjunct2)
qed

end
