(* ===== verification/Content_Server.thy ===== *)
theory Content_Server
  imports Content_Manifest
begin

text \<open>
  The content service: \<open>modules/content_service/src/server/content_service.cpp\<close>.

  A handler is a function of the request (for an upload: of the messages the client sent, in order)
  and of the node it runs on; its value is what it wrote and the status it finished with.  An
  exception outside the \<open>try\<close> blocks is the outcome \<open>Inl\<close>.  Calls of \<open>logger\<close> are left out.
\<close>

section \<open>The node\<close>

record content_node =
  node_files :: fs
  node_manifests :: manifest_storage

type_synonym 'a handler = "content_node \<Rightarrow> (exn + 'a \<times> status) \<times> content_node"

definition on_files :: "(fs, 'a) io \<Rightarrow> (content_node, 'a) io" where
  "on_files m n = (case m (node_files n) of (r, w) \<Rightarrow> (r, n\<lparr>node_files := w\<rparr>))"

text \<open>\<open>*opt\<close>: the value of an optional that has one.\<close>

definition deref :: "'a option result \<Rightarrow> 'a result" where
  "deref r = rbind r (\<lambda>opt. case opt of None \<Rightarrow> Inl UndefinedBehaviour | Some x \<Rightarrow> Inr x)"

text \<open>The \<open>catch\<close> of a handler: it finishes with \<open>INTERNAL\<close> and the message of the exception.\<close>

definition finish_internal :: "'a \<Rightarrow> 'a handler \<Rightarrow> 'a handler" where
  "finish_internal none body n =
     (case body n of
        (Inl e, n') \<Rightarrow> (if catchable e then Inr (none, StatusInternal (what e)) else Inl e, n')
      | (Inr r, n') \<Rightarrow> (Inr r, n'))"

section \<open>Paths of a request\<close>

definition getPathToContent :: "content_env \<Rightarrow> fs \<Rightarrow> string \<Rightarrow> string \<Rightarrow> string option result" where
  "getPathToContent env w content_type content_id =
     rbind (getContentDirectory (content_config env) content_type) (\<lambda>base_opt.
       case base_opt of
         None \<Rightarrow> Inr None
       | Some base \<Rightarrow>
           let content_path = path_append base content_id
           in if \<not> fs_exists w content_path then Inr None else Inr (Some content_path))"

definition getFullPath :: "content_env \<Rightarrow> fs \<Rightarrow> string \<Rightarrow> string \<Rightarrow> string \<Rightarrow> string option result" where
  "getFullPath env w content_type content_id file_path =
     rbind (getPathToContent env w content_type content_id) (\<lambda>content_opt.
       case content_opt of
         None \<Rightarrow> Inr None
       | Some content_path \<Rightarrow>
           let full_file_path = path_append content_path file_path
           in if \<not> fs_exists w full_file_path then Inr None else Inr (Some full_file_path))"

definition checkFullFilePath ::
    "content_env \<Rightarrow> fs \<Rightarrow> string \<Rightarrow> string \<Rightarrow> string \<Rightarrow> bool \<Rightarrow> status result" where
  "checkFullFilePath env w content_type content_id file_path must_exist =
     (if content_type = [] \<or> content_id = [] \<or> file_path = []
      then Inr (StatusInvalidArgument ''Content type, content id and file path must be provided'')
      else if is_absolute file_path then Inr (StatusInvalidArgument ''File path must be relative'')
      else rbind (getPathToContent env w content_type content_id) (\<lambda>content_opt.
        case content_opt of
          None \<Rightarrow> Inr (StatusNotFound ''Content not found'')
        | Some content_path \<Rightarrow>
            let canonical = weakly_canonical w (path_append content_path file_path);
                content_canonical = weakly_canonical w content_path
            in if \<not> is_prefix content_canonical canonical
               then Inr (StatusInvalidArgument (''File path must not contain '' @ [CHR 0x27] @ ''..'' @ [CHR 0x27]))
               else if \<not> must_exist then Inr StatusOK
               else rbind (getFullPath env w content_type content_id file_path) (\<lambda>full_opt.
                 case full_opt of
                   None \<Rightarrow> Inr (StatusNotFound ''File not found'')
                 | Some full_file_path \<Rightarrow>
                     if \<not> is_regular_file w full_file_path then Inr (StatusInvalidArgument ''Path is not a file'')
                     else Inr StatusOK)))"

text \<open>Every handler of a file first checks its path and finishes with the status when it is not fine.\<close>

definition checked :: "(fs \<Rightarrow> status result) \<Rightarrow> 'a \<Rightarrow> 'a handler \<Rightarrow> 'a handler" where
  "checked check none body n =
     (case check (node_files n) of
        Inl e \<Rightarrow> (Inl e, n)
      | Inr st \<Rightarrow> if st \<noteq> StatusOK then (Inr (none, st), n) else body n)"

section \<open>Streams of chunks\<close>

text \<open>Reading a text in buffers of a fixed size, until a read returns nothing.\<close>

function read_buffers :: "nat \<Rightarrow> string \<Rightarrow> string list" where
  "read_buffers n text =
     (if n = 0 \<or> text = [] then [] else take n text # read_buffers n (drop n text))"
  by pat_completeness auto
termination by (relation "measure (\<lambda>(n, text). length text)") auto

declare read_buffers.simps [simp del]

definition CHUNK_SIZE :: nat where
  "CHUNK_SIZE = 64 * 1024"

datatype upload_message = UploadInfo string string string | UploadChunk string | UploadNothing

text \<open>
  The loop over the messages that follow the first: \<open>None\<close> when one of them carries no chunk.  Reading
  ends when the client has finished, and just as well when the stream breaks.
\<close>

fun read_chunks :: "upload_message list \<Rightarrow> string \<Rightarrow> string option" where
  "read_chunks [] content = Some content"
| "read_chunks (UploadChunk chunk # ms) content = read_chunks ms (content @ chunk)"
| "read_chunks (m # ms) content = None"

section \<open>Handlers\<close>

text \<open>A call on the manifest the storage of the node keeps for a content.\<close>

definition with_manifest ::
    "content_env \<Rightarrow> string \<Rightarrow> string \<Rightarrow> (content_env \<Rightarrow> scanner \<Rightarrow> fs \<Rightarrow> (exn + 'a) \<times> scanner \<times> fs) \<Rightarrow> (content_node, 'a) io" where
  "with_manifest env content_type content_id act n =
     (case getManifest env (node_manifests n) content_type content_id of
        Inl e \<Rightarrow> (Inl e, n)
      | Inr (key, sc) \<Rightarrow>
          (case act env sc (node_files n) of
             (r, sc', w) \<Rightarrow> (r, n\<lparr>node_files := w, node_manifests := (node_manifests n)(key \<mapsto> sc')\<rparr>)))"

definition getManifestHandler :: "content_env \<Rightarrow> string \<Rightarrow> string \<Rightarrow> string list handler" where
  "getManifestHandler env content_type content_id n =
     (if content_type = [] \<or> content_id = []
      then (Inr ([], StatusInvalidArgument ''Content type and content id must be provided''), n)
      else case getPathToContent env (node_files n) content_type content_id of
        Inl e \<Rightarrow> (Inl e, n)
      | Inr None \<Rightarrow> (Inr ([], StatusNotFound ''Content not found''), n)
      | Inr (Some content_path) \<Rightarrow>
          finish_internal []
            (io_bind (with_manifest env content_type content_id manifest_toString) (\<lambda>manifest.
               io_return (read_buffers CHUNK_SIZE manifest, StatusOK))) n)"

definition getFileHandler :: "content_env \<Rightarrow> string \<Rightarrow> string \<Rightarrow> string \<Rightarrow> string list handler" where
  "getFileHandler env content_type content_id file_path =
     checked (\<lambda>w. checkFullFilePath env w content_type content_id file_path True) []
       (finish_internal [] (on_files (\<lambda>w.
          (rbind (deref (getFullPath env w content_type content_id file_path)) (\<lambda>full_file_path.
           rbind (loadFile w full_file_path) (\<lambda>text. Inr (read_buffers CHUNK_SIZE text, StatusOK))), w))))"

definition createFileHandler :: "content_env \<Rightarrow> upload_message list \<Rightarrow> unit handler" where
  "createFileHandler env messages n =
     (case messages of
        UploadInfo content_type content_id file_path # rest \<Rightarrow>
          checked (\<lambda>w. checkFullFilePath env w content_type content_id file_path False) ()
            (finish_internal () (on_files (io_bind
               (\<lambda>w. (deref (getPathToContent env w content_type content_id), w)) (\<lambda>content_path w.
                  if fs_exists w (path_append content_path file_path)
                  then (Inr ((), StatusAlreadyExists ''File already exists''), w)
                  else case read_chunks rest [] of
                    None \<Rightarrow> (Inr ((), StatusInvalidArgument ''Subsequent messages must contain file chunks''), w)
                  | Some content \<Rightarrow>
                      io_bind (storeFile (path_append content_path file_path) content)
                        (\<lambda>_. io_return ((), StatusOK)) w)))) n
      | _ \<Rightarrow> (Inr ((), StatusInvalidArgument ''First message must contain file info''), n))"

definition updateFileHandler :: "content_env \<Rightarrow> upload_message list \<Rightarrow> unit handler" where
  "updateFileHandler env messages n =
     (case messages of
        UploadInfo content_type content_id file_path # rest \<Rightarrow>
          checked (\<lambda>w. checkFullFilePath env w content_type content_id file_path True) ()
            (finish_internal () (on_files (io_bind
               (\<lambda>w. (deref (getPathToContent env w content_type content_id), w)) (\<lambda>content_path w.
                  case read_chunks rest [] of
                    None \<Rightarrow> (Inr ((), StatusInvalidArgument ''Subsequent messages must contain file chunks''), w)
                  | Some content \<Rightarrow>
                      io_bind (storeFile (path_append content_path file_path) content)
                        (\<lambda>_. io_return ((), StatusOK)) w)))) n
      | _ \<Rightarrow> (Inr ((), StatusInvalidArgument ''First message must contain file info''), n))"

text \<open>Deleting a file and setting its permissions: one call on its full path.\<close>

definition on_checked_file ::
    "content_env \<Rightarrow> string \<Rightarrow> string \<Rightarrow> string \<Rightarrow> (string \<Rightarrow> (fs, unit) io) \<Rightarrow> unit handler" where
  "on_checked_file env content_type content_id file_path action =
     checked (\<lambda>w. checkFullFilePath env w content_type content_id file_path True) ()
       (finish_internal () (on_files (io_bind
          (\<lambda>w. (deref (getFullPath env w content_type content_id file_path), w)) (\<lambda>full_file_path.
             io_bind (action full_file_path) (\<lambda>_. io_return ((), StatusOK))))))"

definition deleteFileHandler :: "content_env \<Rightarrow> string \<Rightarrow> string \<Rightarrow> string \<Rightarrow> unit handler" where
  "deleteFileHandler env content_type content_id file_path =
     on_checked_file env content_type content_id file_path fs_remove"

definition setPermissionsHandler :: "content_env \<Rightarrow> string \<Rightarrow> string \<Rightarrow> string \<Rightarrow> nat \<Rightarrow> unit handler" where
  "setPermissionsHandler env content_type content_id file_path permissions =
     on_checked_file env content_type content_id file_path (\<lambda>p. setPermissions p permissions)"

definition createContentHandler :: "content_env \<Rightarrow> string \<Rightarrow> string \<Rightarrow> unit handler" where
  "createContentHandler env content_type content_id n =
     (if content_type = [] \<or> content_id = []
      then (Inr ((), StatusInvalidArgument ''Content type and content id must be provided''), n)
      else case getContentDirectory (content_config env) content_type of
        Inl e \<Rightarrow> (Inl e, n)
      | Inr None \<Rightarrow> (Inr ((), StatusInvalidArgument ''Unknown content type''), n)
      | Inr (Some base) \<Rightarrow>
          if fs_exists (node_files n) (path_append base content_id)
          then (Inr ((), StatusAlreadyExists ''Content already exists''), n)
          else finish_internal ()
            (io_bind (on_files (createDirectoryIfNotExists (path_append base content_id)))
               (\<lambda>_. io_return ((), StatusOK))) n)"

text \<open>The directories in a directory.\<close>

definition subdirectories :: "fs \<Rightarrow> place \<Rightarrow> string list" where
  "subdirectories w d =
     map (last \<circ> fst) (filter (\<lambda>(k, x). x = Directory \<and> is_prefix d k \<and> length k = Suc (length d)) (nodes w))"

definition listContentHandler :: "content_env \<Rightarrow> string \<Rightarrow> string list handler" where
  "listContentHandler env content_type n =
     (if content_type = [] then (Inr ([], StatusInvalidArgument ''Content type must be provided''), n)
      else case getContentDirectory (content_config env) content_type of
        Inl e \<Rightarrow> (Inl e, n)
      | Inr None \<Rightarrow> (Inr ([], StatusInvalidArgument ''Unknown content type''), n)
      | Inr (Some base) \<Rightarrow>
          finish_internal [] (on_files (\<lambda>w.
            (case locate w base of
               None \<Rightarrow> Inr ([], StatusOK)
             | Some d \<Rightarrow>
                 if node_at w d \<noteq> Some Directory then Inl (FilesystemError ''cannot open directory'')
                 else Inr (subdirectories w d, StatusOK), w))) n)"

section \<open>What a path check guarantees\<close>

text \<open>The place of a content: where its directory is, if it exists.\<close>

definition content_place :: "content_env \<Rightarrow> fs \<Rightarrow> string \<Rightarrow> string \<Rightarrow> place option" where
  "content_place env w content_type content_id =
     (case getPathToContent env w content_type content_id of
        Inr (Some p) \<Rightarrow> locate w p | _ \<Rightarrow> None)"

lemma getContentDirectory_total: "\<exists>r. getContentDirectory j t = Inr r"
  by (simp add: getContentDirectory_def getDirectoryPath_eq)

lemma getPathToContent_total: "\<exists>r. getPathToContent env w t c = Inr r"
proof -
  obtain r where "getContentDirectory (content_config env) t = Inr r" using getContentDirectory_total by blast
  then show ?thesis by (simp add: getPathToContent_def Let_def split: option.split)
qed

lemma getFullPath_total: "\<exists>r. getFullPath env w t c p = Inr r"
proof -
  obtain r where "getPathToContent env w t c = Inr r" using getPathToContent_total by blast
  then show ?thesis by (simp add: getFullPath_def Let_def split: option.split)
qed

lemma checkFullFilePath_total: "\<exists>st. checkFullFilePath env w t c p m = Inr st"
proof -
  obtain r q where "getPathToContent env w t c = Inr r" "getFullPath env w t c p = Inr q"
    using getPathToContent_total getFullPath_total by metis
  then show ?thesis by (simp add: checkFullFilePath_def Let_def split: option.split)
qed

lemma content_path:
  assumes "content_place env w t c = Some d"
  obtains p where "getPathToContent env w t c = Inr (Some p)" "locate w p = Some d" "p \<noteq> []"
proof -
  from assms obtain p where p: "getPathToContent env w t c = Inr (Some p)" "locate w p = Some d"
    by (auto simp: content_place_def split: sum.splits option.splits)
  moreover from p(2) have "p \<noteq> []" by (auto simp: locate_def)
  ultimately show ?thesis using that by blast
qed

lemma getPathToContent_located:
  "getPathToContent env w t c = Inr (Some p) \<Longrightarrow> \<exists>d. locate w p = Some d \<and> content_place env w t c = Some d"
  by (auto simp: getPathToContent_def content_place_def rbind_eq_Inr fs_exists_def Let_def
      split: option.splits if_splits)

text \<open>What a check that is passed says.\<close>

lemma checkFullFilePath_OK:
  assumes "checkFullFilePath env w t c f must_exist = Inr StatusOK"
  obtains p d where "getPathToContent env w t c = Inr (Some p)" "content_place env w t c = Some d"
    "is_prefix d (weakly_canonical w (path_append p f))"
    "must_exist \<Longrightarrow> getFullPath env w t c f = Inr (Some (path_append p f)) \<and>
       (\<exists>x m s. locate w (path_append p f) = Some (weakly_canonical w (path_append p f))
          \<and> node_at w (weakly_canonical w (path_append p f)) = Some (RegularFile x m s))"
proof -
  from assms obtain p where p: "getPathToContent env w t c = Inr (Some p)"
    by (auto simp: checkFullFilePath_def rbind_eq_Inr split: option.splits if_splits)
  then obtain d where d: "locate w p = Some d" "content_place env w t c = Some d"
    using getPathToContent_located by blast
  have canonical: "weakly_canonical w p = d" using locate_canonical [OF d(1)] by simp
  have check: "is_prefix d (weakly_canonical w (path_append p f))"
    using assms p canonical by (auto simp: checkFullFilePath_def Let_def split: if_splits)
  have exist: "getFullPath env w t c f = Inr (Some (path_append p f)) \<and>
       (\<exists>x m s. locate w (path_append p f) = Some (weakly_canonical w (path_append p f))
          \<and> node_at w (weakly_canonical w (path_append p f)) = Some (RegularFile x m s))" if must_exist
  proof -
    from assms p that have "getFullPath env w t c f = Inr (Some (path_append p f))"
      and regular: "is_regular_file w (path_append p f)"
      by (auto simp: checkFullFilePath_def getFullPath_def Let_def rbind_eq_Inr split: if_splits option.splits)
    moreover from regular obtain k x m s where k: "locate w (path_append p f) = Some k"
        "node_at w k = Some (RegularFile x m s)"
      by (auto simp: is_regular_file_def node_of_def split: option.splits node.splits Option.bind_splits)
    moreover have "weakly_canonical w (path_append p f) = k" using locate_canonical [OF k(1)] by simp
    ultimately show ?thesis by blast
  qed
  show ?thesis using that p d(2) check exist by blast
qed

section \<open>Handlers stay in the directory of their content\<close>

lemma finish_internal_node [simp]: "snd (finish_internal none body n) = snd (body n)"
  by (simp add: finish_internal_def split: prod.split sum.split)

lemma on_files_node [simp]: "node_files (snd (on_files m n)) = snd (m (node_files n))"
  by (simp add: on_files_def split: prod.split)

lemma on_checked_file_confined:
  assumes "content_place env (node_files n) t c = Some d" and "\<not> is_prefix d l"
    and act: "\<And>p k. locate (node_files n) p = Some k \<Longrightarrow> \<not> is_prefix k l \<Longrightarrow>
      node_at (snd (action p (node_files n))) l = node_at (node_files n) l"
  shows "node_at (node_files (snd (on_checked_file env t c f action n))) l = node_at (node_files n) l"
proof -
  let ?w = "node_files n" and ?body = "io_bind (\<lambda>w. (deref (getFullPath env w t c f), w)) (\<lambda>p. io_bind (action p) (\<lambda>_. io_return ((), StatusOK)))"
  from checkFullFilePath_total obtain st where "checkFullFilePath env ?w t c f True = Inr st" by blast
  show ?thesis
  proof (cases "checkFullFilePath env ?w t c f True = Inr StatusOK")
    case True
    from checkFullFilePath_OK [OF True] assms(1) obtain p k where p:
      "getFullPath env ?w t c f = Inr (Some p)" "locate ?w p = Some k" "is_prefix d k"
      by (metis option.inject)
    have "\<not> is_prefix k l" using assms(2) p(3) is_prefix_trans by blast
    then have "node_at (snd (action p ?w)) l = node_at ?w l" using act p(2) by blast
    moreover have "snd (?body ?w) = snd (action p ?w)"
      using p(1) by (simp add: io_bind_def deref_def io_return_def split: prod.split sum.split)
    ultimately show ?thesis using True by (simp add: on_checked_file_def checked_def)
  next
    case False
    with \<open>checkFullFilePath env ?w t c f True = Inr st\<close> show ?thesis by (simp add: on_checked_file_def checked_def)
  qed
qed

lemma updateFile_confined:
  assumes "content_place env (node_files n) t c = Some d" and "\<not> is_prefix d l"
  shows "node_at (node_files (snd (updateFileHandler env (UploadInfo t c f # ms) n))) l = node_at (node_files n) l"
proof -
  let ?w = "node_files n"
  from checkFullFilePath_total obtain st where st: "checkFullFilePath env ?w t c f True = Inr st" by blast
  show ?thesis
  proof (cases "st = StatusOK")
    case True
    from checkFullFilePath_OK [OF st [unfolded True]] assms(1) obtain p k x m s where p:
      "getPathToContent env ?w t c = Inr (Some p)" "is_prefix d k"
      "locate ?w (path_append p f) = Some k" "node_at ?w k = Some (RegularFile x m s)"
      by (metis option.inject)
    have "k \<noteq> []" "l \<noteq> k" using node_at_root [OF p(3,4)] assms(2) p(2) by auto
    with st True p(1) storeFile_existing [OF p(3,4)] show ?thesis
      by (simp add: updateFileHandler_def checked_def io_bind_def deref_def io_return_def node_at_put split: option.split)
  qed (use st in \<open>simp add: updateFileHandler_def checked_def\<close>)
qed

lemma createFile_confined:
  assumes "content_place env (node_files n) t c = Some d" and "\<not> is_prefix d l"
    and "w' = node_files (snd (createFileHandler env (UploadInfo t c f # ms) n))"
  shows "node_at w' l = node_at (node_files n) l \<or> (node_at (node_files n) l = None \<and> node_at w' l = Some Directory)"
proof -
  let ?w = "node_files n"
  from checkFullFilePath_total obtain st where st: "checkFullFilePath env ?w t c f False = Inr st" by blast
  show ?thesis
  proof (cases "st = StatusOK")
    case True
    from checkFullFilePath_OK [OF st [unfolded True]] assms(1) obtain p where p:
      "getPathToContent env ?w t c = Inr (Some p)" "is_prefix d (weakly_canonical ?w (path_append p f))"
      by (metis option.inject)
    have "l \<noteq> weakly_canonical ?w (path_append p f)" using assms(2) p(2) by auto
    moreover have "stores_at (weakly_canonical ?w (path_append p f)) ?w (snd (storeFile (path_append p f) content ?w))" for content
      using storeFile_effect [of "path_append p f" content ?w] by (cases "storeFile (path_append p f) content ?w") simp
    ultimately have store: "node_at (snd (storeFile (path_append p f) content ?w)) l = node_at ?w l \<or>
        (node_at ?w l = None \<and> node_at (snd (storeFile (path_append p f) content ?w)) l = Some Directory)" for content
      using stores_at_other by blast
    have "w' = ?w \<or> (\<exists>content. w' = snd (storeFile (path_append p f) content ?w))"
      unfolding assms(3) using st True p(1)
      by (auto simp: createFileHandler_def checked_def io_bind_read deref_def io_bind_return split: option.split)
    with store show ?thesis by blast
  qed (use st assms(3) in \<open>simp add: createFileHandler_def checked_def\<close>)
qed

text \<open>
  C10: a request for a file of a content changes nothing that exists outside the directory of the
  content.  Wherever the directory is, and whatever the file path (however many dots), reading,
  updating, deleting and setting permissions leave every place that is not below it as it was.
  Creating a file leaves such a place as it was too, with one exception, which
  \<open>createFile_makes_directory_outside\<close> below shows to happen: where nothing was it may make a directory.
\<close>

theorem file_handlers_confined:
  assumes "content_place env (node_files n) t c = Some d" and "\<not> is_prefix d l"
  shows "node_at (node_files (snd (getFileHandler env t c f n))) l = node_at (node_files n) l
    \<and> node_at (node_files (snd (updateFileHandler env (UploadInfo t c f # ms) n))) l = node_at (node_files n) l
    \<and> node_at (node_files (snd (deleteFileHandler env t c f n))) l = node_at (node_files n) l
    \<and> node_at (node_files (snd (setPermissionsHandler env t c f mode n))) l = node_at (node_files n) l
    \<and> (node_at (node_files (snd (createFileHandler env (UploadInfo t c f # ms) n))) l = node_at (node_files n) l
       \<or> node_at (node_files n) l = None
         \<and> node_at (node_files (snd (createFileHandler env (UploadInfo t c f # ms) n))) l = Some Directory)"
proof (intro conjI)
  show "node_at (node_files (snd (getFileHandler env t c f n))) l = node_at (node_files n) l"
    by (simp add: getFileHandler_def checked_def split: sum.split)
  show "node_at (node_files (snd (updateFileHandler env (UploadInfo t c f # ms) n))) l = node_at (node_files n) l"
    by (rule updateFile_confined [OF assms])
  show "node_at (node_files (snd (deleteFileHandler env t c f n))) l = node_at (node_files n) l"
    unfolding deleteFileHandler_def by (rule on_checked_file_confined [OF assms]) (rule fs_remove_only)
  show "node_at (node_files (snd (setPermissionsHandler env t c f mode n))) l = node_at (node_files n) l"
    unfolding setPermissionsHandler_def
    by (rule on_checked_file_confined [OF assms]) (auto intro: setPermissions_only)
qed (rule createFile_confined [OF assms refl])

definition sample_node :: content_node where
  "sample_node = \<lparr>node_files = put_node [''secret''] (RegularFile ''s'' 384 0) sample_content_fs, node_manifests = (\<lambda>key. None)\<rparr>"

lemma sample_content_place: "content_place sample_content_env (node_files sample_node) ''package'' ''p'' = Some [''c'', ''p'']"
  by code_simp

theorem file_handlers_confined_witness:
  "node_at (node_files (snd (deleteFileHandler sample_content_env ''package'' ''p'' ''../../secret'' sample_node))) [''secret''] =
     Some (RegularFile ''s'' 384 0)
   \<and> node_at (node_files (snd (createFileHandler sample_content_env
       [UploadInfo ''package'' ''p'' ''../../new/../secret'', UploadChunk ''1''] sample_node))) [''secret''] = Some (RegularFile ''s'' 384 0)"
proof -
  have "\<not> is_prefix [''c'', ''p''] [''secret'']" by (simp add: is_prefix_def)
  note confined = file_handlers_confined [OF sample_content_place this]
  have secret: "node_at (node_files sample_node) [''secret''] = Some (RegularFile ''s'' 384 0)"
    by (simp add: sample_node_def node_at_put)
  from confined [of "''../../secret''"]
  have "node_at (node_files (snd (deleteFileHandler sample_content_env ''package'' ''p'' ''../../secret'' sample_node))) [''secret''] =
      node_at (node_files sample_node) [''secret'']" by blast
  moreover from confined [of "''../../new/../secret''" "[UploadChunk ''1'']"] secret
  have "node_at (node_files (snd (createFileHandler sample_content_env
       [UploadInfo ''package'' ''p'' ''../../new/../secret'', UploadChunk ''1''] sample_node))) [''secret''] =
      node_at (node_files sample_node) [''secret'']" by (simp del: createFileHandler_def)
  ultimately show ?thesis using secret by simp
qed

text \<open>
  The exception: the path of the file leaves the content, passes through a directory that is missing and
  comes back, so the check finds it below the content and the handler makes the missing directory.
\<close>

lemma createFile_makes_directory_outside:
  "node_at (node_files sample_node) [''c'', ''fresh''] = None
   \<and> node_at (node_files (snd (createFileHandler sample_content_env
       [UploadInfo ''package'' ''p'' ''../fresh/../p/n'', UploadChunk ''1''] sample_node))) [''c'', ''fresh''] = Some Directory"
  by code_simp

section \<open>Streams\<close>

lemma concat_read_buffers: "n \<noteq> 0 \<Longrightarrow> concat (read_buffers n xs) = xs"
proof (induction n xs rule: read_buffers.induct)
  case (1 n xs)
  then show ?case by (subst read_buffers.simps) simp
qed

lemma read_buffers_bounds: "b \<in> set (read_buffers n xs) \<Longrightarrow> b \<noteq> [] \<and> length b \<le> n"
proof (induction n xs rule: read_buffers.induct)
  case (1 n xs)
  from "1.prems" have "n \<noteq> 0 \<and> xs \<noteq> []" by (subst (asm) read_buffers.simps) (simp split: if_splits)
  moreover from this "1.prems" have "b = take n xs \<or> b \<in> set (read_buffers n (drop n xs))"
    by (subst (asm) read_buffers.simps) simp
  ultimately show ?case using "1.IH" by auto
qed

lemma length_read_buffers: "n \<noteq> 0 \<Longrightarrow> length (read_buffers n xs) = (length xs + n - 1) div n"
proof (induction n xs rule: read_buffers.induct)
  case (1 n xs)
  show ?case
  proof (cases "xs = []")
    case True
    with "1.prems" show ?thesis by (subst read_buffers.simps) simp
  next
    case False
    then have "length (read_buffers n xs) = Suc ((length xs - n + n - 1) div n)"
      using 1 by (subst read_buffers.simps) simp
    also have "\<dots> = (length xs + n - 1) div n"
    proof (cases "n \<le> length xs")
      case True
      then have "length xs + n - 1 = (length xs - n + n - 1) + n" using False by simp
      with "1.prems" show ?thesis by (metis Suc_eq_plus1 div_add_self2)
    next
      case less: False
      have "0 < length xs" using False by simp
      then have eq: "length xs + n - 1 = (length xs - 1) + n" by (cases "length xs") simp_all
      have "length xs - 1 < n" using less by simp
      then have "((length xs - 1) + n) div n = 1" using "1.prems" by simp
      moreover have "(length xs - n + n - 1) div n = 0" using less "1.prems" by simp
      ultimately show ?thesis using eq by simp
    qed
    finally show ?thesis .
  qed
qed

lemma CHUNK_SIZE_pos [simp]: "CHUNK_SIZE \<noteq> 0"
  by (simp add: CHUNK_SIZE_def)

lemma read_chunks_all: "read_chunks (map UploadChunk cs) acc = Some (acc @ concat cs)"
  by (induction cs arbitrary: acc) simp_all

text \<open>
  a file is served exactly.  When the handler finishes well it changed nothing, the path names a
  regular file below the directory of the content, and the chunks it wrote are non-empty, of at most
  64 KB, and put together the text of that file.
\<close>

theorem getFile_serves_file:
  assumes "getFileHandler env t c f n = (Inr (chunks, StatusOK), n')"
  shows "n' = n \<and> (\<forall>b \<in> set chunks. b \<noteq> [] \<and> length b \<le> 64 * 1024)
    \<and> (\<exists>d k m s. content_place env (node_files n) t c = Some d \<and> is_prefix d k
         \<and> node_at (node_files n) k = Some (RegularFile (concat chunks) m s))"
proof -
  let ?w = "node_files n"
  from checkFullFilePath_total obtain st where st: "checkFullFilePath env ?w t c f True = Inr st" by blast
  have "st = StatusOK" using assms st by (simp add: getFileHandler_def checked_def split: if_splits)
  from checkFullFilePath_OK [OF st [unfolded this]] obtain p d k x m s where p:
    "content_place env ?w t c = Some d" "is_prefix d k" "getFullPath env ?w t c f = Inr (Some p)"
    "locate ?w p = Some k" "node_at ?w k = Some (RegularFile x m s)" by metis
  then have "loadFile ?w p = Inr x" by (simp add: loadFile_def node_of_def)
  with assms st \<open>st = StatusOK\<close> p have "n' = n \<and> chunks = read_buffers CHUNK_SIZE x"
    by (auto simp: getFileHandler_def checked_def finish_internal_def on_files_def deref_def)
  then show ?thesis using p concat_read_buffers [OF CHUNK_SIZE_pos, of x] read_buffers_bounds [of _ CHUNK_SIZE x]
    by (auto simp: CHUNK_SIZE_def)
qed

theorem getFile_serves_file_witness:
  "\<exists>chunks. fst (getFileHandler sample_content_env ''package'' ''p'' ''./b'' sample_node) = Inr (chunks, StatusOK) \<and> concat chunks = ''z''"
proof -
  have check: "checkFullFilePath sample_content_env (node_files sample_node) ''package'' ''p'' ''./b'' True = Inr StatusOK"
    by code_simp
  have full: "getFullPath sample_content_env (node_files sample_node) ''package'' ''p'' ''./b'' = Inr (Some ''/c/p/./b'')"
    by code_simp
  have load: "loadFile (node_files sample_node) ''/c/p/./b'' = Inr ''z''" by code_simp
  have run: "getFileHandler sample_content_env ''package'' ''p'' ''./b'' sample_node =
      (Inr (read_buffers CHUNK_SIZE ''z'', StatusOK), sample_node)"
    using check full load
    by (simp add: getFileHandler_def checked_def finish_internal_def on_files_def deref_def)
  from getFile_serves_file [OF this] have "\<forall>b \<in> set (read_buffers CHUNK_SIZE ''z''). b \<noteq> []" by blast
  with run concat_read_buffers [of CHUNK_SIZE "''z''"] show ?thesis by auto
qed

text \<open>
  C36: the content identifier is not confined.  Whatever directory the content type has, a content
  identifier that is the absolute path of a directory makes the service read any file in it.
\<close>

theorem absolute_content_id_reads_any_file:
  assumes "lookup_string (content_config env) [''directories'', t @ ''s''] = Some base" and "t \<noteq> []"
    and "is_absolute directory" and "locate (node_files n) directory = Some d"
    and "proper_name file" and "node_at (node_files n) d = Some Directory"
    and "node_at (node_files n) (d @ [file]) = Some (RegularFile x m s)"
  shows "fst (getFileHandler env t directory file n) = Inr (read_buffers CHUNK_SIZE x, StatusOK)"
proof -
  let ?w = "node_files n"
  have base: "path_append base directory = directory"
    using assms(3) by (auto simp: path_append_def is_absolute_def)
  have name: "file \<noteq> []" "\<not> is_absolute file" using proper_relative [OF assms(5)] by auto
  have content: "getPathToContent env ?w t directory = Inr (Some directory)"
    using assms(1,4) base
    by (simp add: getPathToContent_def getContentDirectory_def getDirectoryPath_eq fs_exists_def Let_def)
  have place: "locate ?w (path_append directory file) = Some (d @ [file])"
    using locate_append [OF assms(4) name(2,1)] assms(5,6,7)
    by (simp add: names_proper step_name_def proper_name_def)
  then have full: "getFullPath env ?w t directory file = Inr (Some (path_append directory file))"
    using content by (simp add: getFullPath_def fs_exists_def Let_def)
  have "is_regular_file ?w (path_append directory file)"
    using place assms(7) by (simp add: is_regular_file_def node_of_def)
  moreover have "directory \<noteq> []" using assms(3) by (simp add: is_absolute_def)
  ultimately have "checkFullFilePath env ?w t directory file True = Inr StatusOK"
    using assms(2) name content full locate_canonical [OF assms(4)] locate_canonical [OF place]
    by (simp add: checkFullFilePath_def Let_def is_prefix_append)
  moreover have "loadFile ?w (path_append directory file) = Inr x"
    using place assms(7) by (simp add: loadFile_def node_of_def)
  ultimately show ?thesis using full
    by (simp add: getFileHandler_def checked_def finish_internal_def on_files_def deref_def)
qed

theorem absolute_content_id_reads_any_file_witness:
  "fst (getFileHandler sample_content_env ''package'' ''/'' ''secret'' sample_node) = Inr (read_buffers CHUNK_SIZE ''s'', StatusOK)"
proof (rule absolute_content_id_reads_any_file)
  show "lookup_string (content_config sample_content_env) [''directories'', ''package'' @ ''s''] = Some ''/c''" by code_simp
  show "''package'' \<noteq> []" by simp
  show "is_absolute ''/''" by code_simp
  show "locate (node_files sample_node) ''/'' = Some []" by code_simp
  show "proper_name ''secret''" by code_simp
  show "node_at (node_files sample_node) [] = Some Directory" by code_simp
  show "node_at (node_files sample_node) ([] @ [''secret'']) = Some (RegularFile ''s'' 384 0)" by code_simp
qed

text \<open>
  creating a file can overwrite one.  For a file \<open>x\<close> in the directory of a content and a name
  \<open>fresh\<close> that is not in it, the path \<open>fresh/../x\<close> passes the check that the file does not exist; the handler
  finishes well, makes the directory \<open>fresh\<close> and replaces the text of \<open>x\<close>.
\<close>

theorem createFile_overwrites_existing:
  assumes "content_place env (node_files n) t c = Some d" and "t \<noteq> []" and "c \<noteq> []"
    and "node_at (node_files n) d = Some Directory" and "proper_name fresh" and "proper_name x"
    and "node_at (node_files n) (d @ [fresh]) = None" and "fresh \<noteq> x"
    and "node_at (node_files n) (d @ [x]) = Some (RegularFile old m s)"
  shows "\<exists>n'. createFileHandler env (UploadInfo t c (fresh @ ''/../'' @ x) # map UploadChunk cs) n = (Inr ((), StatusOK), n')
    \<and> node_at (node_files n') (d @ [x]) = Some (RegularFile (concat cs) m (clock (node_files n)))
    \<and> node_at (node_files n') (d @ [fresh]) = Some Directory"
proof -
  let ?w = "node_files n" and ?f = "fresh @ ''/../'' @ x"
  obtain p where p: "getPathToContent env ?w t c = Inr (Some p)" "locate ?w p = Some d"
    using content_path [OF assms(1)] .
  have store: "storeFile (path_append p ?f) content ?w = (Inr (),
      put_node (d @ [x]) (RegularFile content m (clock ?w)) (put_node (d @ [x]) (RegularFile [] m (clock ?w)) (put_node (d @ [fresh]) Directory ?w)))"
    for content by (rule storeFile_past_missing [OF p(2) assms(4-9)])
  have names: "fresh \<noteq> []" "\<not> is_absolute ?f" "CHR ''/'' \<notin> set fresh" "CHR ''/'' \<notin> set x" "x \<noteq> []" "fresh \<noteq> ''.''" "fresh \<noteq> ''..''" "x \<noteq> ''.''" "x \<noteq> ''..''"
    using assms(5,6) by (auto simp: proper_name_def is_absolute_def) (metis hd_in_set)
  have comps: "comps ?f = [fresh, ''..'', x]"
    using comps_append [of fresh "''../'' @ x"] comps_append [of "''..''" x] names by (simp add: comps_single)
  have "p \<noteq> []" using p(2) by (simp add: locate_walk)
  have d: "normal (origin ?w p) (comps p) = d" using locate_normal [OF p(2)] by simp
  have canonical: "weakly_canonical ?w (path_append p ?f) = d @ [x]"
    using names \<open>p \<noteq> []\<close> d
    by (simp add: weakly_canonical_normal comps_path_append comps normal_append origin_path_append del: append.simps)
  have "locate ?w (path_append p ?f) = None"
  proof -
    have "last x \<noteq> CHR ''/''" using names(4,5) last_in_set by metis
    then have "names ?f = [fresh, ''..'', x]" using names(5) comps by (simp add: names_comps)
    then show ?thesis using locate_append [OF p(2) names(2)] names assms(7) by (simp add: step_name_def del: append.simps)
  qed
  then have fresh_path: "\<not> fs_exists ?w (path_append p ?f)" by (simp add: fs_exists_def)
  have check: "checkFullFilePath env ?w t c ?f False = Inr StatusOK"
    using p names(1,2) assms(2,3) canonical locate_canonical [OF p(2)]
    by (simp add: checkFullFilePath_def is_prefix_append Let_def del: append.simps)
  have run: "createFileHandler env (UploadInfo t c ?f # map UploadChunk cs) n =
      (Inr ((), StatusOK), n\<lparr>node_files := snd (storeFile (path_append p ?f) (concat cs) ?w)\<rparr>)"
    using check p(1) fresh_path store [of "concat cs"]
    by (simp add: createFileHandler_def checked_def finish_internal_def on_files_def io_bind_read deref_def
        read_chunks_all io_bind_def [of "storeFile _ _"] io_return_def del: append_Cons)
  have after: "node_at (snd (storeFile (path_append p ?f) (concat cs) ?w)) l =
      (if l = d @ [x] then Some (RegularFile (concat cs) m (clock ?w)) else if l = d @ [fresh] then Some Directory else node_at ?w l)" for l
    unfolding store by (simp add: node_at_put)
  show ?thesis unfolding run using assms(8) by (simp add: after del: append_Cons)
qed

theorem createFile_overwrites_existing_witness:
  "\<exists>n'. createFileHandler sample_content_env (UploadInfo ''package'' ''p'' ''new/../a'' # map UploadChunk [''1'', ''2'']) sample_node = (Inr ((), StatusOK), n')
    \<and> node_at (node_files n') [''c'', ''p'', ''a''] = Some (RegularFile ''12'' 420 9500)"
proof -
  have facts: "node_at (node_files sample_node) [''c'', ''p''] = Some Directory" "proper_name ''new''" "proper_name ''a''"
    "node_at (node_files sample_node) ([''c'', ''p''] @ [''new'']) = None" "''new'' \<noteq> ''a''"
    "node_at (node_files sample_node) ([''c'', ''p''] @ [''a'']) = Some (RegularFile ''x'' 420 1500)"
    "''package'' \<noteq> []" "''p'' \<noteq> []" "clock (node_files sample_node) = 9500"
    by code_simp+
  from createFile_overwrites_existing [OF sample_content_place facts(7,8) facts(1-6), of "[''1'', ''2'']"]
  show ?thesis by (auto simp: facts(9))
qed

text \<open>
  a broken upload is stored.  The handler that updates a file cannot tell the end of an upload from
  the loss of its client: whenever a complete upload would be stored, the same upload cut short after
  any number of chunks is stored as well, the handler finishes well, and the file holds the chunks
  received so far.
\<close>

theorem interrupted_update_is_stored:
  assumes "fst (updateFileHandler env (UploadInfo t c f # map UploadChunk cs) n) = Inr ((), StatusOK)"
    and "prefix = take j cs"
  shows "\<exists>n' k m. updateFileHandler env (UploadInfo t c f # map UploadChunk prefix) n = (Inr ((), StatusOK), n')
    \<and> node_at (node_files n') k = Some (RegularFile (concat prefix) m (clock (node_files n)))
    \<and> (\<exists>old s. node_at (node_files n) k = Some (RegularFile old m s))"
proof -
  let ?w = "node_files n"
  from checkFullFilePath_total obtain st where st: "checkFullFilePath env ?w t c f True = Inr st" by blast
  have "st = StatusOK" using assms(1) st by (simp add: updateFileHandler_def checked_def split: if_splits)
  from checkFullFilePath_OK [OF st [unfolded this]] obtain p k x m s where p:
    "getPathToContent env ?w t c = Inr (Some p)" "locate ?w (path_append p f) = Some k"
    "node_at ?w k = Some (RegularFile x m s)" by metis
  have "updateFileHandler env (UploadInfo t c f # map UploadChunk prefix) n =
      (Inr ((), StatusOK), n\<lparr>node_files := put_node k (RegularFile (concat prefix) m (clock ?w)) ?w\<rparr>)"
    using st \<open>st = StatusOK\<close> p(1) storeFile_existing [OF p(2,3)]
    by (simp add: updateFileHandler_def checked_def finish_internal_def on_files_def io_bind_read deref_def
        read_chunks_all io_bind_def [of "storeFile _ _"] io_return_def)
  moreover have "node_at (put_node k (RegularFile (concat prefix) m (clock ?w)) ?w) k = Some (RegularFile (concat prefix) m (clock ?w))"
    using node_at_root [OF p(2,3)] by (simp add: node_at_put)
  ultimately show ?thesis using p(3) by auto
qed

theorem interrupted_update_is_stored_witness:
  "\<exists>n' k m. updateFileHandler sample_content_env (UploadInfo ''package'' ''p'' ''a'' # map UploadChunk [''h'']) sample_node = (Inr ((), StatusOK), n')
    \<and> node_at (node_files n') k = Some (RegularFile ''h'' m 9500)"
proof -
  have "fst (updateFileHandler sample_content_env (UploadInfo ''package'' ''p'' ''a'' # map UploadChunk [''h'', ''i'']) sample_node) = Inr ((), StatusOK)"
    by code_simp
  from interrupted_update_is_stored [OF this, of "[''h'']" 1] have
    "\<exists>n' k m. updateFileHandler sample_content_env (UploadInfo ''package'' ''p'' ''a'' # map UploadChunk [''h'']) sample_node = (Inr ((), StatusOK), n')
      \<and> node_at (node_files n') k = Some (RegularFile (concat [''h'']) m (clock (node_files sample_node)))" by fastforce
  moreover have "clock (node_files sample_node) = 9500" by code_simp
  ultimately show ?thesis by simp
qed

end
