(* ===== verification/Content_Client.thy ===== *)
theory Content_Client
  imports Content_Server Factory
begin

text \<open>
  The client of the content service: \<open>modules/content_service/src/client/{content_service_stub,content_storage,config_utils}.cpp\<close>.

  A stub is a record of its operations over the state of what is behind it; the stub of a channel runs
  the handlers of a server.  The storage runs on a node of its own and talks to the server through a
  stub.  A handler that throws ends its call, which the client sees as cancelled.
\<close>

section \<open>Stubs\<close>

text \<open>The value of an operation is \<open>tl::expected\<close>: a status that is not fine, or the result.\<close>

record 's content_stub =
  stub_getManifest :: "string \<Rightarrow> string \<Rightarrow> ('s, status + json) io"
  stub_setPermissions :: "string \<Rightarrow> string \<Rightarrow> string \<Rightarrow> nat \<Rightarrow> ('s, status + unit) io"
  stub_getFile :: "string \<Rightarrow> string \<Rightarrow> string \<Rightarrow> ('s, status + string) io"
  stub_createFile :: "string \<Rightarrow> string \<Rightarrow> string \<Rightarrow> string \<Rightarrow> ('s, status + unit) io"
  stub_updateFile :: "string \<Rightarrow> string \<Rightarrow> string \<Rightarrow> string \<Rightarrow> ('s, status + unit) io"
  stub_deleteFile :: "string \<Rightarrow> string \<Rightarrow> string \<Rightarrow> ('s, status + unit) io"
  stub_createContent :: "string \<Rightarrow> string \<Rightarrow> ('s, status + unit) io"
  stub_listContent :: "string \<Rightarrow> ('s, status + string list) io"

definition call :: "'a handler \<Rightarrow> (content_node, status + 'a) io" where
  "call h s =
     (case h s of
        (Inl e, s') \<Rightarrow> (Inr (Inl StatusCancelled), s')
      | (Inr (x, st), s') \<Rightarrow> (Inr (if st \<noteq> StatusOK then Inl st else Inr x), s'))"

definition channel_getManifest ::
    "content_env \<Rightarrow> (string \<Rightarrow> json option) \<Rightarrow> string \<Rightarrow> string \<Rightarrow> (content_node, status + json) io" where
  "channel_getManifest env parse content_type content_id =
     io_bind (call (getManifestHandler env content_type content_id)) (\<lambda>r.
       case r of
         Inl st \<Rightarrow> io_return (Inl st)
       | Inr chunks \<Rightarrow>
           io_lift (case parse (concat chunks) of None \<Rightarrow> Inl (JsonError ''parse_error'') | Some j \<Rightarrow> Inr (Inr j)))"

definition channel_getFile ::
    "content_env \<Rightarrow> string \<Rightarrow> string \<Rightarrow> string \<Rightarrow> (content_node, status + string) io" where
  "channel_getFile env content_type content_id file_path =
     io_bind (call (getFileHandler env content_type content_id file_path)) (\<lambda>r.
       io_return (case r of Inl st \<Rightarrow> Inl st | Inr chunks \<Rightarrow> Inr (concat chunks)))"

text \<open>An upload: the description of the file, then its content in chunks.\<close>

definition upload_messages :: "string \<Rightarrow> string \<Rightarrow> string \<Rightarrow> string \<Rightarrow> upload_message list" where
  "upload_messages content_type content_id file_path file_content =
     UploadInfo content_type content_id file_path # map UploadChunk (read_buffers CHUNK_SIZE file_content)"

definition channel_createFile ::
    "content_env \<Rightarrow> string \<Rightarrow> string \<Rightarrow> string \<Rightarrow> string \<Rightarrow> (content_node, status + unit) io" where
  "channel_createFile env content_type content_id file_path file_content =
     call (createFileHandler env (upload_messages content_type content_id file_path file_content))"

definition channel_updateFile ::
    "content_env \<Rightarrow> string \<Rightarrow> string \<Rightarrow> string \<Rightarrow> string \<Rightarrow> (content_node, status + unit) io" where
  "channel_updateFile env content_type content_id file_path file_content =
     call (updateFileHandler env (upload_messages content_type content_id file_path file_content))"

definition channel_setPermissions ::
    "content_env \<Rightarrow> string \<Rightarrow> string \<Rightarrow> string \<Rightarrow> nat \<Rightarrow> (content_node, status + unit) io" where
  "channel_setPermissions env content_type content_id file_path permissions =
     call (setPermissionsHandler env content_type content_id file_path permissions)"

definition channel_deleteFile :: "content_env \<Rightarrow> string \<Rightarrow> string \<Rightarrow> string \<Rightarrow> (content_node, status + unit) io" where
  "channel_deleteFile env content_type content_id file_path =
     call (deleteFileHandler env content_type content_id file_path)"

definition channel_createContent :: "content_env \<Rightarrow> string \<Rightarrow> string \<Rightarrow> (content_node, status + unit) io" where
  "channel_createContent env content_type content_id = call (createContentHandler env content_type content_id)"

definition channel_listContent :: "content_env \<Rightarrow> string \<Rightarrow> (content_node, status + string list) io" where
  "channel_listContent env content_type = call (listContentHandler env content_type)"

definition channel_stub :: "content_env \<Rightarrow> (string \<Rightarrow> json option) \<Rightarrow> content_node content_stub" where
  "channel_stub env parse =
     \<lparr>stub_getManifest = channel_getManifest env parse,
      stub_setPermissions = channel_setPermissions env,
      stub_getFile = channel_getFile env,
      stub_createFile = channel_createFile env,
      stub_updateFile = channel_updateFile env,
      stub_deleteFile = channel_deleteFile env,
      stub_createContent = channel_createContent env,
      stub_listContent = channel_listContent env\<rparr>"

text \<open>The creation function registered for the type of channel stubs.\<close>

definition create_channel_stub :: "(string \<Rightarrow> 'channel result) \<Rightarrow> ('channel \<Rightarrow> 'stub) \<Rightarrow> string \<Rightarrow> 'stub result" where
  "create_channel_stub channel_factory make_stub param =
     (let parts = parseParameters param '','' in
      if length parts \<noteq> 1
      then Inl (InvalidArgument ''Expected exactly one parameter for channel_stub: channel type'')
      else rbind (channel_factory (normalizeArgument (hd parts) True)) (\<lambda>channel. Inr (make_stub channel)))"

definition getContentStorageStub :: "(string \<Rightarrow> 'stub result) \<Rightarrow> json \<Rightarrow> 'stub option result" where
  "getContentStorageStub create_stub config =
     rbind (getContentStorageStubType config) (\<lambda>stub_type_opt.
       case stub_type_opt of
         None \<Rightarrow> Inr None
       | Some stub_type \<Rightarrow> rbind (create_stub stub_type) (\<lambda>stub. Inr (Some stub)))"

definition make_content_storage :: "(string \<Rightarrow> 'stub result) \<Rightarrow> json \<Rightarrow> 'stub result" where
  "make_content_storage create_stub config =
     rbind (getContentStorageStub create_stub config) (\<lambda>stub_opt.
       case stub_opt of
         None \<Rightarrow> Inl (RuntimeError ''Failed to create ContentServiceStub: optional expected with value'')
       | Some stub \<Rightarrow> Inr stub)"

section \<open>The storage\<close>

type_synonym 's storage = "content_node \<times> 's"

definition remote :: "('s, 'a) io \<Rightarrow> ('s storage, 'a) io" where
  "remote m x = (case m (snd x) of (r, s) \<Rightarrow> (r, (fst x, s)))"

definition locally :: "(content_node, 'a) io \<Rightarrow> ('s storage, 'a) io" where
  "locally m x = (case m (fst x) of (r, n) \<Rightarrow> (r, (n, snd x)))"

text \<open>The value of a call, or an exception that says what failed.\<close>

definition expect :: "string \<Rightarrow> status + 'a \<Rightarrow> ('w, 'a) io" where
  "expect message r =
     io_lift (case r of Inl st \<Rightarrow> Inl (RuntimeError (message @ error_message st)) | Inr x \<Rightarrow> Inr x)"

definition getManifestFromServer :: "'s content_stub \<Rightarrow> string \<Rightarrow> string \<Rightarrow> ('s storage, json) io" where
  "getManifestFromServer stub t c =
     io_bind (remote (stub_getManifest stub t c)) (expect ''Failed to get manifest from server: '')"

definition getFileFromServer :: "'s content_stub \<Rightarrow> string \<Rightarrow> string \<Rightarrow> string \<Rightarrow> ('s storage, string) io" where
  "getFileFromServer stub t c file_path =
     io_bind (remote (stub_getFile stub t c file_path)) (expect ''Failed to get file from server: '')"

definition createFileOnServer :: "'s content_stub \<Rightarrow> string \<Rightarrow> string \<Rightarrow> string \<Rightarrow> string \<Rightarrow> ('s storage, unit) io" where
  "createFileOnServer stub t c file_path file_content =
     io_bind (remote (stub_createFile stub t c file_path file_content)) (expect ''Failed to create file on server: '')"

definition updateFileOnServer :: "'s content_stub \<Rightarrow> string \<Rightarrow> string \<Rightarrow> string \<Rightarrow> string \<Rightarrow> ('s storage, unit) io" where
  "updateFileOnServer stub t c file_path file_content =
     io_bind (remote (stub_updateFile stub t c file_path file_content)) (expect ''Failed to update file on server: '')"

definition removeFileOnServer :: "'s content_stub \<Rightarrow> string \<Rightarrow> string \<Rightarrow> string \<Rightarrow> ('s storage, unit) io" where
  "removeFileOnServer stub t c file_path =
     io_bind (remote (stub_deleteFile stub t c file_path)) (expect ''Failed to delete file on server: '')"

definition setPermissionsOnServer :: "'s content_stub \<Rightarrow> string \<Rightarrow> string \<Rightarrow> string \<Rightarrow> nat \<Rightarrow> ('s storage, unit) io" where
  "setPermissionsOnServer stub t c file_path permissions =
     io_bind (remote (stub_setPermissions stub t c file_path permissions)) (expect ''Failed to set permissions on server: '')"

definition createContentOnServer :: "'s content_stub \<Rightarrow> string \<Rightarrow> string \<Rightarrow> ('s storage, unit) io" where
  "createContentOnServer stub t c =
     io_bind (remote (stub_createContent stub t c)) (expect ''Failed to create content on server: '')"

definition listContentOnServer :: "'s content_stub \<Rightarrow> string \<Rightarrow> ('s storage, string list) io" where
  "listContentOnServer stub t =
     io_bind (remote (stub_listContent stub t)) (expect ''Failed to list content on server: '')"

text \<open>The directory of a content on this node, and the manifest of what is in it now.\<close>

definition local_content_path :: "content_env \<Rightarrow> string \<Rightarrow> string \<Rightarrow> ('s storage, string) io" where
  "local_content_path env t c =
     io_lift (rbind (rbind (getContentDirectory (content_config env) t) required) (\<lambda>d. Inr (path_append d c)))"

definition local_manifest :: "content_env \<Rightarrow> string \<Rightarrow> string \<Rightarrow> ('s storage, json) io" where
  "local_manifest env t c = locally (with_manifest env t c manifest_toJson)"

text \<open>One change of a synchronisation: the body of the loops of \<open>syncContent\<close> and \<open>syncFile\<close>.\<close>

definition fetch_file ::
    "'s content_stub \<Rightarrow> string \<Rightarrow> string \<Rightarrow> string \<Rightarrow> json \<Rightarrow> string \<Rightarrow> ('s storage, unit) io" where
  "fetch_file stub t c content_path server_manifest f =
     io_bind (getFileFromServer stub t c f) (\<lambda>content.
     io_bind (locally (on_files (storeFile (path_append content_path f) content))) (\<lambda>_.
     io_bind (io_lift (getPermissionsFromManifest server_manifest f)) (\<lambda>mode.
       locally (on_files (setPermissions (path_append content_path f) mode)))))"

fun sync_change ::
    "'s content_stub \<Rightarrow> string \<Rightarrow> string \<Rightarrow> string \<Rightarrow> json \<Rightarrow> change \<Rightarrow> ('s storage, unit) io" where
  "sync_change stub t c content_path server_manifest (ADDED, f) = fetch_file stub t c content_path server_manifest f"
| "sync_change stub t c content_path server_manifest (MODIFIED, f) = fetch_file stub t c content_path server_manifest f"
| "sync_change stub t c content_path server_manifest (ATTRIBUTES_CHANGED, f) =
     io_bind (io_lift (getPermissionsFromManifest server_manifest f)) (\<lambda>mode.
       locally (on_files (setPermissions (path_append content_path f) mode)))"
| "sync_change stub t c content_path server_manifest (REMOVED, f) =
     locally (on_files (removeFileOrDirectory (path_append content_path f)))"

fun do_all :: "('a \<Rightarrow> ('w, unit) io) \<Rightarrow> 'a list \<Rightarrow> ('w, unit) io" where
  "do_all act [] = io_return ()"
| "do_all act (x # xs) = io_bind (act x) (\<lambda>_. do_all act xs)"

definition syncContent :: "content_env \<Rightarrow> 's content_stub \<Rightarrow> string \<Rightarrow> string \<Rightarrow> ('s storage, unit) io" where
  "syncContent env stub t c =
     io_bind (local_content_path env t c) (\<lambda>content_path.
     io_bind (getManifestFromServer stub t c) (\<lambda>server_manifest.
     io_bind (local_manifest env t c) (\<lambda>manifest.
       do_all (sync_change stub t c content_path server_manifest) (compareManifests manifest server_manifest))))"

text \<open>Two paths are equal when their components are.\<close>

definition path_equal :: "string \<Rightarrow> string \<Rightarrow> bool" where
  "path_equal p q \<longleftrightarrow>
     is_absolute p = is_absolute q \<and> comps p = comps q
     \<and> (comps p \<noteq> [] \<longrightarrow> (last p = CHR ''/'') = (last q = CHR ''/''))"

definition syncFile :: "content_env \<Rightarrow> 's content_stub \<Rightarrow> string \<Rightarrow> string \<Rightarrow> string \<Rightarrow> ('s storage, unit) io" where
  "syncFile env stub t c file_path =
     io_bind (local_content_path env t c) (\<lambda>content_path.
     io_bind (getManifestFromServer stub t c) (\<lambda>server_manifest.
     io_bind (local_manifest env t c) (\<lambda>manifest.
       do_all (sync_change stub t c content_path server_manifest)
         (filter (\<lambda>change. path_equal (snd change) file_path) (compareManifests manifest server_manifest)))))"

definition upload_permissions :: "'s content_stub \<Rightarrow> string \<Rightarrow> string \<Rightarrow> json \<Rightarrow> string \<Rightarrow> ('s storage, unit) io" where
  "upload_permissions stub t c manifest f =
     io_bind (io_lift (getPermissionsFromManifest manifest f)) (setPermissionsOnServer stub t c f)"

fun upload_change ::
    "'s content_stub \<Rightarrow> string \<Rightarrow> string \<Rightarrow> string \<Rightarrow> json \<Rightarrow> change \<Rightarrow> ('s storage, unit) io" where
  "upload_change stub t c content_path manifest (ADDED, f) =
     io_bind (locally (on_files (\<lambda>w. (loadFile w (path_append content_path f), w)))) (\<lambda>content.
     io_bind (createFileOnServer stub t c f content) (\<lambda>_. upload_permissions stub t c manifest f))"
| "upload_change stub t c content_path manifest (MODIFIED, f) =
     io_bind (locally (on_files (\<lambda>w. (loadFile w (path_append content_path f), w)))) (\<lambda>content.
     io_bind (updateFileOnServer stub t c f content) (\<lambda>_. upload_permissions stub t c manifest f))"
| "upload_change stub t c content_path manifest (ATTRIBUTES_CHANGED, f) = upload_permissions stub t c manifest f"
| "upload_change stub t c content_path manifest (REMOVED, f) = removeFileOnServer stub t c f"

definition updateContentOnServer :: "content_env \<Rightarrow> 's content_stub \<Rightarrow> string \<Rightarrow> string \<Rightarrow> ('s storage, unit) io" where
  "updateContentOnServer env stub t c =
     io_bind (local_content_path env t c) (\<lambda>content_path.
     io_bind (locally (on_files (\<lambda>w. (if fs_exists w content_path then Inr ()
         else Inl (RuntimeError (''Content path does not exist: '' @ content_path @ '' for '' @ t @ ''/'' @ c)), w)))) (\<lambda>_.
     io_bind (getManifestFromServer stub t c) (\<lambda>server_manifest.
     io_bind (local_manifest env t c) (\<lambda>manifest.
       do_all (upload_change stub t c content_path manifest) (compareManifests server_manifest manifest)))))"

definition createContent :: "content_env \<Rightarrow> 's content_stub \<Rightarrow> string \<Rightarrow> string \<Rightarrow> ('s storage, unit) io" where
  "createContent env stub t c =
     io_bind (createContentOnServer stub t c) (\<lambda>_.
     io_bind (local_content_path env t c) (\<lambda>content_path.
     io_bind (locally (on_files (createDirectoryIfNotExists content_path))) (\<lambda>_. io_return ())))"

definition listContent :: "'s content_stub \<Rightarrow> string \<Rightarrow> ('s storage, string list) io" where
  "listContent stub t = listContentOnServer stub t"

end
