(* ===== verification/File_Tree.thy ===== *)
theory File_Tree
  imports Filesystem
begin

text \<open>
  File systems as trees: what is in a directory, which operations keep it a tree, when storing a file
  succeeds.  Relative paths of proper names lead straight to their place.
\<close>

section \<open>Trees\<close>

text \<open>Whatever exists is in a directory.\<close>

definition tree_ok :: "fs \<Rightarrow> bool" where
  "tree_ok w \<longleftrightarrow> (\<forall>k x. node_at w (k @ [x]) \<noteq> None \<longrightarrow> node_at w k = Some Directory)"

lemma tree_okD: "tree_ok w \<Longrightarrow> node_at w (k @ [x]) \<noteq> None \<Longrightarrow> node_at w k = Some Directory"
  unfolding tree_ok_def by blast

lemma tree_ok_above: "tree_ok w \<Longrightarrow> node_at w (k @ r) \<noteq> None \<Longrightarrow> r \<noteq> [] \<Longrightarrow> node_at w k = Some Directory"
proof (induction r rule: rev_induct)
  case Nil
  then show ?case by simp
next
  case (snoc x r)
  have "node_at w (k @ r) = Some Directory" using tree_okD [OF snoc.prems(1), of "k @ r" x] snoc.prems(2) by simp
  with snoc show ?case by (cases "r = []") simp_all
qed

lemma tree_ok_file_above: "tree_ok w \<Longrightarrow> node_at w k = Some (RegularFile t m s) \<Longrightarrow> r \<noteq> [] \<Longrightarrow> node_at w (k @ r) = None"
  using tree_ok_above [of w k r] by (cases "node_at w (k @ r)") auto

lemma tree_ok_none_below:
  assumes "tree_ok w" and "node_at w k = None"
  shows "node_at w (k @ r) = None"
proof (rule ccontr)
  assume "node_at w (k @ r) \<noteq> None"
  with tree_ok_above [OF assms(1) this] assms(2) show False by (cases "r = []") simp_all
qed

lemma tree_ok_put:
  assumes "tree_ok w" and "node_at w k = Some Directory"
    and "x \<noteq> Directory \<longrightarrow> node_at w (k @ [c]) \<noteq> Some Directory"
  shows "tree_ok (put_node (k @ [c]) x w)"
proof -
  have n: "node_at (put_node (k @ [c]) x w) l = (if l = k @ [c] then Some x else node_at w l)" for l
    by (simp add: node_at_put)
  show ?thesis unfolding tree_ok_def
  proof (intro allI impI)
    fix l e
    assume e: "node_at (put_node (k @ [c]) x w) (l @ [e]) \<noteq> None"
    show "node_at (put_node (k @ [c]) x w) l = Some Directory"
    proof (cases "l = k")
      case True
      with assms(2) show ?thesis by (simp add: n)
    next
      case False
      then have "node_at w l = Some Directory" using e tree_okD [OF assms(1), of l e] by (simp add: n split: if_splits)
      with assms(3) show ?thesis by (auto simp: n)
    qed
  qed
qed

lemma tree_ok_rewrite:
  assumes "tree_ok w" and "node_at w k = Some (RegularFile t m s)"
  shows "tree_ok (put_node k (RegularFile t' m' s') w)"
proof -
  have "k \<noteq> []" using assms(2) by (auto simp: node_at_def)
  then obtain l c where k: "k = l @ [c]" by (cases k rule: rev_cases) auto
  with assms have "node_at w l = Some Directory" using tree_okD [of w l c] by simp
  with assms show ?thesis unfolding k by (intro tree_ok_put) (simp_all add: k)
qed

lemma tree_ok_drop: "tree_ok w \<Longrightarrow> tree_ok (drop_tree k w)"
  unfolding tree_ok_def
proof (intro allI impI)
  fix l x
  assume w: "\<forall>k x. node_at w (k @ [x]) \<noteq> None \<longrightarrow> node_at w k = Some Directory"
    and e: "node_at (drop_tree k w) (l @ [x]) \<noteq> None"
  from e have "\<not> is_prefix k (l @ [x])" "node_at w (l @ [x]) \<noteq> None" by (auto simp: node_at_drop split: if_splits)
  moreover from this have "\<not> is_prefix k l" by (auto simp: is_prefix_append)
  ultimately show "node_at (drop_tree k w) l = Some Directory" using w by (simp only: node_at_drop if_False HOL.simp_thms)
qed

lemma tree_ok_create_dirs: "tree_ok w \<Longrightarrow> tree_ok (snd (create_dirs w made k cs))"
proof (induction w made k cs rule: create_dirs.induct)
  case (2 w made k c cs)
  show ?case
  proof (cases "node_at w k = Some Directory")
    case True
    then have "tree_ok (put_node (k @ [c]) Directory w)" using 2 by (simp add: tree_ok_put)
    with 2 True show ?thesis by simp
  qed (use 2 in simp)
qed simp

lemma tree_ok_create_directories: "tree_ok w \<Longrightarrow> tree_ok (snd (create_directories p w))"
proof -
  assume w: "tree_ok w"
  obtain r v where "create_dirs w False (origin w p) (names p) = (r, v)" by fastforce
  moreover from this have "tree_ok v" using tree_ok_create_dirs [OF w, of False "origin w p" "names p"] by simp
  ultimately show ?thesis using w by (simp add: create_directories_def split: option.split)
qed

lemma tree_ok_createDirectory: "tree_ok w \<Longrightarrow> tree_ok (snd (createDirectoryIfNotExists p w))"
  by (simp add: createDirectoryIfNotExists_def tree_ok_create_directories)

lemma tree_ok_open: "tree_ok w \<Longrightarrow> tree_ok (snd (open_new p w))"
  by (auto simp: open_new_def tree_ok_put split: option.split node.split)

lemma tree_ok_createFile:
  assumes "tree_ok w"
  shows "tree_ok (snd (createFileIfNotExists p w))"
proof -
  obtain q v where v: "createDirectoryIfNotExists (parent_path p) w = (q, v)" by fastforce
  have "tree_ok v" using tree_ok_createDirectory [OF assms, of "parent_path p"] v by simp
  then show ?thesis using assms tree_ok_open [of v p] v
    by (simp add: createFileIfNotExists_def io_bind_def io_return_def split: sum.split)
qed

lemma tree_ok_write: "tree_ok w \<Longrightarrow> tree_ok (snd (write_file p content w))"
  by (auto simp: write_file_def intro: tree_ok_rewrite split: option.split node.split)

lemma tree_ok_store:
  assumes "tree_ok w"
  shows "tree_ok (snd (storeFile p content w))"
proof -
  obtain q v where v: "createFileIfNotExists p w = (q, v)" by fastforce
  have "tree_ok v" using tree_ok_createFile [OF assms, of p] v by simp
  then show ?thesis using tree_ok_write [of v p content] v
    by (simp add: storeFile_def io_bind_def io_lift_def split: sum.split)
qed

lemma tree_ok_permissions: "tree_ok w \<Longrightarrow> tree_ok (snd (setPermissions p mode w))"
  by (auto simp: setPermissions_def intro: tree_ok_rewrite split: option.split node.split)

lemma tree_ok_removals:
  "tree_ok w \<Longrightarrow> tree_ok (snd (removeFileOrDirectory p w))"
  "tree_ok w \<Longrightarrow> tree_ok (snd (fs_remove p w))"
  by (auto simp: removeFileOrDirectory_def fs_remove_def intro: tree_ok_drop split: option.split)

lemma tree_ok_clear: "tree_ok w \<Longrightarrow> tree_ok (snd (clearDirectory p w))"
proof -
  assume w: "tree_ok w"
  obtain v where v: "removeFileOrDirectory p w = (Inr (), v)" by (simp add: removeFileOrDirectory_def)
  have "tree_ok v" using tree_ok_removals(1) [OF w, of p] v by simp
  moreover have "clearDirectory p w = io_bind (create_directories p) (\<lambda>_. io_return ()) v"
    by (simp add: clearDirectory_def io_bind_def [of "removeFileOrDirectory p"] v)
  ultimately show ?thesis by (simp add: io_bind_return tree_ok_create_directories)
qed

section \<open>Proper paths\<close>

lemma step_name_proper:
  "proper_name c \<Longrightarrow> step_name w k c =
     (if node_at w k = Some Directory \<and> node_at w (k @ [c]) \<noteq> None then Some (k @ [c]) else None)"
  by (auto simp: step_name_def proper_name_def)

lemma walk_proper:
  "tree_ok w \<Longrightarrow> list_all proper_name cs \<Longrightarrow> node_at w k \<noteq> None \<Longrightarrow>
     walk w k cs = (if node_at w (k @ cs) = None then None else Some (k @ cs))"
proof (induction cs arbitrary: k)
  case Nil
  then show ?case by simp
next
  case (Cons c cs)
  show ?case
  proof (cases "node_at w (k @ [c]) = None")
    case True
    then have "node_at w (k @ c # cs) = None"
      using tree_ok_none_below [OF Cons.prems(1), of "k @ [c]" cs] by simp
    with True Cons.prems(2) show ?thesis by (simp add: step_name_proper)
  next
    case False
    then have "node_at w k = Some Directory" using tree_okD Cons.prems(1) by blast
    with False Cons show ?thesis by (simp add: step_name_proper)
  qed
qed

lemma join_names_Cons: "cs \<noteq> [] \<Longrightarrow> join_names (c # cs) = c @ CHR ''/'' # join_names cs"
  by (cases cs) simp_all

lemma comps_join: "list_all proper_name cs \<Longrightarrow> comps (join_names cs) = cs"
proof (induction cs)
  case Nil
  then show ?case by simp
next
  case (Cons c cs)
  then have c: "comps c = [c]" by (auto simp: proper_name_def intro: comps_single)
  show ?case
  proof (cases "cs = []")
    case False
    with Cons c show ?thesis using comps_append [of c "join_names cs"] by (simp add: join_names_Cons)
  qed (use c in simp)
qed

lemma join_names_ends:
  "list_all proper_name cs \<Longrightarrow> cs \<noteq> [] \<Longrightarrow> join_names cs \<noteq> [] \<and> \<not> is_absolute (join_names cs) \<and> last (join_names cs) \<noteq> CHR ''/''"
proof (induction cs)
  case Nil
  then show ?case by simp
next
  case (Cons c cs)
  then have c: "c \<noteq> []" "hd c \<noteq> CHR ''/''" "last c \<noteq> CHR ''/''"
    by (auto simp: proper_name_def) (metis hd_in_set, metis last_in_set)
  show ?case
  proof (cases "cs = []")
    case False
    with Cons c show ?thesis by (simp add: join_names_Cons is_absolute_def)
  qed (use c in \<open>simp add: is_absolute_def\<close>)
qed

lemma names_join: "list_all proper_name cs \<Longrightarrow> names (join_names cs) = cs"
  using join_names_ends [of cs] by (cases "cs = []") (simp_all add: names_comps comps_join)

lemma join_names_inject: "list_all proper_name cs \<Longrightarrow> list_all proper_name ds \<Longrightarrow> join_names cs = join_names ds \<longleftrightarrow> cs = ds"
  using comps_join by metis

text \<open>Below a directory they name the place one expects.\<close>

lemma canonical_below:
  assumes "locate w p = Some d" and "list_all proper_name cs" and "cs \<noteq> []"
  shows "weakly_canonical w (path_append p (join_names cs)) = d @ cs"
proof -
  have "normal k cs = k @ cs" if "list_all proper_name cs" for k cs
    using that by (induction cs arbitrary: k) (auto simp: proper_name_def)
  moreover have "p \<noteq> []" using assms(1) by (auto simp: locate_walk)
  moreover have "\<not> is_absolute (join_names cs)" using join_names_ends assms by blast
  ultimately show ?thesis using assms locate_normal [OF assms(1)]
    by (simp add: weakly_canonical_normal comps_path_append comps_join origin_path_append normal_append)
qed

lemma locate_below:
  assumes "locate w p = Some d" and "tree_ok w" and "list_all proper_name cs" and "cs \<noteq> []"
  shows "locate w (path_append p (join_names cs)) = (if node_at w (d @ cs) = None then None else Some (d @ cs))"
proof -
  have "node_at w d \<noteq> None" using locate_canonical [OF assms(1)] by blast
  moreover have "\<not> is_absolute (join_names cs)" "join_names cs \<noteq> []" using join_names_ends assms by blast+
  ultimately show ?thesis using assms
    by (simp add: locate_append names_join walk_proper)
qed

section \<open>When storing succeeds\<close>

definition free_way :: "fs \<Rightarrow> place \<Rightarrow> string list \<Rightarrow> bool" where
  "free_way w k cs \<longleftrightarrow> (\<forall>r. is_prefix r cs \<longrightarrow> node_at w (k @ r) \<in> {None, Some Directory})"

lemma free_way_Cons: "free_way w k (c # cs) \<Longrightarrow> free_way w (k @ [c]) cs"
  unfolding free_way_def
proof (intro allI impI)
  fix r
  assume f: "\<forall>r. is_prefix r (c # cs) \<longrightarrow> node_at w (k @ r) \<in> {None, Some Directory}" and "is_prefix r cs"
  then have "is_prefix (c # r) (c # cs)" by (auto simp: is_prefix_append)
  with f show "node_at w ((k @ [c]) @ r) \<in> {None, Some Directory}" by fastforce
qed

lemma free_way_put: "free_way w k cs \<Longrightarrow> l \<noteq> [] \<Longrightarrow> free_way (put_node l Directory w) k cs"
  by (auto simp: free_way_def node_at_put)

lemma create_dirs_ok:
  assumes "tree_ok w" and "list_all proper_name cs" and "node_at w k = Some Directory" and "free_way w k cs"
  shows "\<exists>made' w'. create_dirs w made k cs = (Some made', w') \<and> node_at w' (k @ cs) = Some Directory
    \<and> (cs \<noteq> [] \<and> node_at w (k @ cs) = None \<longrightarrow> made')
    \<and> (\<forall>l. node_at w' l = node_at w l \<or> is_prefix l (k @ cs))"
  using assms
proof (induction cs arbitrary: w made k)
  case Nil
  then show ?case by simp
next
  case (Cons c cs)
  have c: "c \<noteq> ''.''" "c \<noteq> ''..''" using Cons.prems(2) by (auto simp: proper_name_def)
  show ?case
  proof (cases "node_at w (k @ [c])")
    case None
    let ?v = "put_node (k @ [c]) Directory w"
    have "tree_ok ?v" by (rule tree_ok_put [OF Cons.prems(1,3)]) simp
    moreover have "free_way ?v (k @ [c]) cs" by (simp add: free_way_put free_way_Cons [OF Cons.prems(4)])
    moreover have "node_at ?v (k @ [c]) = Some Directory" by (simp add: node_at_put)
    ultimately obtain made' w' where w': "create_dirs ?v True (k @ [c]) cs = (Some made', w')"
      "node_at w' ((k @ [c]) @ cs) = Some Directory" "cs \<noteq> [] \<and> node_at ?v ((k @ [c]) @ cs) = None \<longrightarrow> made'"
      "\<forall>l. node_at w' l = node_at ?v l \<or> is_prefix l ((k @ [c]) @ cs)"
      using Cons.IH [of ?v "k @ [c]" True] Cons.prems(2) by auto
    have "made'" if "cs = []" using w'(1) that \<open>node_at ?v (k @ [c]) = Some Directory\<close> by simp
    moreover have "node_at ?v ((k @ [c]) @ cs) = None" if "cs \<noteq> []"
      using that tree_ok_none_below [OF Cons.prems(1) None, of cs] by (simp add: node_at_put)
    ultimately have "made'" using w'(3) by blast
    moreover have "node_at w' l = node_at w l \<or> is_prefix l (k @ c # cs)" for l
      using spec [OF w'(4), of l] by (cases "l = k @ [c]") (auto simp: node_at_put is_prefix_append)
    ultimately show ?thesis using w'(1,2) None Cons.prems(3) c by auto
  next
    case (Some x)
    have "is_prefix [c] (c # cs)" by (simp add: is_prefix_append)
    with Cons.prems(4) Some have dir: "node_at w (k @ [c]) = Some Directory" unfolding free_way_def by fastforce
    from Cons.IH [OF Cons.prems(1) _ dir free_way_Cons [OF Cons.prems(4)], of False] Cons.prems(2)
    obtain made' w' where w': "create_dirs w False (k @ [c]) cs = (Some made', w')"
      "node_at w' ((k @ [c]) @ cs) = Some Directory" "cs \<noteq> [] \<and> node_at w ((k @ [c]) @ cs) = None \<longrightarrow> made'"
      "\<forall>l. node_at w' l = node_at w l \<or> is_prefix l ((k @ [c]) @ cs)" by auto
    have "node_at w (k @ c # cs) = None \<longrightarrow> made'" using w'(3) dir by (cases "cs = []") auto
    then show ?thesis using w' dir Cons.prems(3) c by simp
  qed
qed


lemma create_dirs_dot: "create_dirs w made k cs = (Some m, v) \<Longrightarrow> create_dirs w made k (cs @ [''.'']) = (Some m, v)"
  by (induction w made k cs rule: create_dirs.induct) (auto split: if_splits)

lemma locate_stores: "stores_at k w w' \<Longrightarrow> locate w p = Some d \<Longrightarrow> locate w' p = Some d"
proof -
  assume g: "stores_at k w w'" and "locate w p = Some d"
  then have "walk w (origin w p) (names p) = Some d" "p \<noteq> []" by (auto simp: locate_walk)
  moreover have "node_at w' l = Some Directory" if "node_at w l = Some Directory" for l
    using g that by (auto simp: stores_at_def) (metis option.distinct(1))
  moreover have "node_at w' l \<noteq> None" if "node_at w l \<noteq> None" for l
    using g that by (auto simp: stores_at_def) (metis option.distinct(1))
  ultimately have "walk w' (origin w p) (names p) = Some d" using walk_extends by blast
  with g \<open>p \<noteq> []\<close> show ?thesis by (auto simp: locate_walk stores_at_def origin_def)
qed

lemma create_dirs_dots: "list_all proper_name cs \<Longrightarrow> zs = [] \<or> zs = [''.''] \<Longrightarrow>
    \<forall>l. node_at (snd (create_dirs w made k (cs @ zs))) l = node_at w l \<or> is_prefix l (k @ cs)"
proof (induction cs arbitrary: w made k)
  case Nil
  then show ?case by auto
next
  case (Cons c cs)
  have IH: "\<forall>l. node_at (snd (create_dirs v m (k @ [c]) (cs @ zs))) l = node_at v l \<or> is_prefix l (k @ c # cs)" for v m
    using Cons.IH [of v m "k @ [c]"] Cons.prems by simp
  have "node_at (snd (create_dirs (put_node (k @ [c]) Directory w) True (k @ [c]) (cs @ zs))) l = node_at w l \<or> is_prefix l (k @ c # cs)" for l
    using spec [OF IH [of "put_node (k @ [c]) Directory w" True], of l] by (cases "l = k @ [c]") (auto simp: node_at_put is_prefix_append)
  with IH Cons.prems show ?case by (auto simp: proper_name_def)
qed

text \<open>The directory and the name of a file below a directory.\<close>

lemma parent_below:
  assumes "locate w p = Some d" and "list_all proper_name (ds @ [x])"
  defines "full \<equiv> path_append p (join_names (ds @ [x]))"
  obtains zs where "zs = [] \<or> zs = [''.'']" "names (parent_path full) = comps p @ (ds @ zs)"
    "parent_path full \<noteq> []" "origin w (parent_path full) = origin w p" "filename full = x"
proof -
  let ?cs = "ds @ [x]"
  have p: "p \<noteq> []" using assms(1) by (simp add: locate_walk)
  have rel: "join_names ?cs \<noteq> []" "\<not> is_absolute (join_names ?cs)" "last (join_names ?cs) \<noteq> CHR ''/''"
    using join_names_ends [OF assms(2)] by auto
  have comps_full: "comps full = comps p @ ds @ [x]"
    unfolding full_def by (simp add: comps_path_append rel comps_join [OF assms(2)])
  have "full \<noteq> []" "last full = last (join_names ?cs)" using rel(1) by (auto simp: full_def path_append_def)
  then have file_name: "filename full \<noteq> []" using rel(3) by (cases full rule: rev_cases) (auto simp: filename_def)
  with comps_parent [of full] comps_full have x: "filename full = x" "comps (parent_path full) = comps p @ ds" by auto
  have parent: "parent_path full \<noteq> []"
  proof
    assume "parent_path full = []"
    then have "dir_part full = []" by (cases "dir_part full") (auto simp: parent_path_stripped split: if_splits)
    then have "full = filename full" using dir_part_filename [of full] by simp
    then have "CHR ''/'' \<notin> set full" using filename_no_slash by metis
    moreover have "CHR ''/'' \<in> set full"
    proof (cases "last p = CHR ''/''")
      case True
      then have "CHR ''/'' \<in> set p" using p last_in_set by metis
      then show ?thesis using rel by (auto simp: full_def path_append_def is_absolute_def)
    qed (use p rel in \<open>auto simp: full_def path_append_def is_absolute_def\<close>)
    ultimately show False by blast
  qed
  have "origin w (parent_path full) = origin w p"
    using is_absolute_parent [OF parent] rel p origin_path_append [of "join_names ?cs" p w]
    by (simp add: origin_def full_def)
  moreover obtain zs where "names (parent_path full) = comps p @ (ds @ zs)" "zs = [] \<or> zs = [''.'']"
    by (auto simp: names_comps x(2))
  ultimately show ?thesis using that parent x(1) by blast
qed

text \<open>Storing it changes the file and, at most, directories on the way.\<close>

lemma storeFile_below:
  assumes "locate w p = Some d" and "list_all proper_name (ds @ [x])"
    and "storeFile (path_append p (join_names (ds @ [x]))) content w = (r, w')"
  shows "node_at w' l = node_at w l \<or> is_prefix l (d @ ds @ [x])"
proof -
  define full where "full = path_append p (join_names (ds @ [x]))"
  obtain zs where zs: "zs = [] \<or> zs = [''.'']" "names (parent_path full) = comps p @ (ds @ zs)"
    "parent_path full \<noteq> []" "origin w (parent_path full) = origin w p"
    using parent_below [OF assms(1,2)] unfolding full_def by metis
  have p: "walk w (origin w p) (comps p) = Some d"
    using assms(1) walk_names [of w "origin w p" p d] by (simp add: locate_walk)
  obtain q v where v: "createDirectoryIfNotExists (parent_path full) w = (q, v)" by fastforce
  have dirs: "node_at v l = node_at w l \<or> is_prefix l (d @ ds)"
  proof (cases "fs_exists w (parent_path full)")
    case False
    obtain made where "create_dirs w False (origin w p) (comps p @ (ds @ zs)) = create_dirs w made d (ds @ zs)"
      using create_dirs_walk [OF p] by blast
    with v False zs have "v = snd (create_dirs w made d (ds @ zs))"
      by (auto simp: createDirectoryIfNotExists_def create_directories_def split: prod.splits option.splits)
    then show ?thesis using create_dirs_dots [of ds zs w made d] assms(2) zs(1) by simp
  qed (use v in \<open>simp add: createDirectoryIfNotExists_def\<close>)
  have canonical: "weakly_canonical w full = d @ ds @ [x]"
    unfolding full_def using canonical_below [OF assms(1,2)] by simp
  show ?thesis
  proof (cases "l = d @ ds @ [x]")
    case False
    obtain q' u where u: "createFileIfNotExists full w = (q', u)" by fastforce
    have store: "(w' = u) \<or> (\<exists>m. w' = put_node (d @ ds @ [x]) (RegularFile content m (clock u)) u)"
    proof (cases "q' = Inr True")
      case True
      with assms(3) u have "write_file full content u = (r, w')" unfolding full_def by (simp add: storeFile_def io_bind_def)
      with write_file_effect [OF this] stores_at_canonical [OF createFileIfNotExists_effect [OF u]] canonical
      show ?thesis by auto
    next
      case False
      with assms(3) u show ?thesis unfolding full_def
        by (auto simp: storeFile_def io_bind_def io_lift_def split: sum.splits if_splits)
    qed
    have "node_at u l = node_at w l \<or> is_prefix l (d @ ds)"
    proof (cases "fs_exists w full")
      case True
      with u show ?thesis by (simp add: createFileIfNotExists_def)
    next
      case no: False
      show ?thesis
      proof (cases "q = Inr True")
        case True
        with u no v have open_eq: "open_new full v = (q', u)" by (simp add: createFileIfNotExists_def io_bind_def)
        have "node_at u l = node_at v l"
          using open_eq new_file_place [of v full] grows_canonical [OF createDirectoryIfNotExists_grows [OF v]] canonical False
          by (auto simp: open_new_def node_at_put split: option.splits node.splits if_splits)
        with dirs show ?thesis by simp
      next
        case False
        with u no v have "u = v" by (auto simp: createFileIfNotExists_def io_bind_def io_return_def split: sum.splits)
        with dirs show ?thesis by simp
      qed
    qed
    moreover have "node_at w' l = node_at u l" using store False by (auto simp: node_at_put)
    moreover have "is_prefix (d @ ds) (d @ ds @ [x])" by (simp add: is_prefix_append)
    ultimately show ?thesis using is_prefix_trans by metis
  qed simp
qed

text \<open>A file can be stored where no file is on the way and no directory in its place.\<close>

lemma storeFile_ok:
  assumes "tree_ok w" and "locate w p = Some d" and "node_at w d = Some Directory"
    and "list_all proper_name (ds @ [x])" and "free_way w d ds" and "node_at w (d @ ds @ [x]) \<noteq> Some Directory"
  shows "\<exists>w'. storeFile (path_append p (join_names (ds @ [x]))) content w = (Inr (), w')"
proof -
  let ?cs = "ds @ [x]"
  define full where "full = path_append p (join_names ?cs)"
  have p: "walk w (origin w p) (comps p) = Some d"
    using assms(2) walk_names [of w "origin w p" p d] by (simp add: locate_walk)
  show ?thesis
  proof (cases "node_at w (d @ ?cs)")
    case (Some y)
    with assms(6) obtain t m s where "node_at w (d @ ?cs) = Some (RegularFile t m s)" by (cases y) auto
    moreover from this have "locate w full = Some (d @ ?cs)"
      unfolding full_def using locate_below [OF assms(2,1,4)] by simp
    ultimately show ?thesis unfolding full_def [symmetric] using storeFile_existing by blast
  next
    case None
    then have missing: "locate w full = None" unfolding full_def using locate_below [OF assms(2,1,4)] by simp
    have proper: "list_all proper_name ds" "x \<notin> {[], ''.'', ''..''}" using assms(4) by (auto simp: proper_name_def)
    obtain tl where tl: "names (parent_path full) = comps p @ (ds @ tl)" "tl = [] \<or> tl = [''.'']"
      and parent: "parent_path full \<noteq> []" and org: "origin w (parent_path full) = origin w p" and x: "filename full = x"
      using parent_below [OF assms(2,4)] unfolding full_def by metis
    have start: "node_at w (origin w p) \<noteq> None" using walk_start [OF p] .
    have found: "locate v (parent_path full) = Some (d @ ds)"
      if "tree_ok v" "walk v (origin w p) (comps p) = Some d" "node_at v (d @ ds) = Some Directory" "origin v (parent_path full) = origin w p" for v
    proof -
      have "node_at v d \<noteq> None" "node_at v (origin w p) \<noteq> None" using walk_normal [OF that(2)] walk_start [OF that(2)] by auto
      moreover from this have "walk v d ds = Some (d @ ds)" using walk_proper [OF that(1) proper(1)] that(3) by simp
      ultimately have "walk v d (ds @ tl) = Some (d @ ds)" using tl(2) that(3) by (auto simp: walk_append step_name_def)
      then show ?thesis using that parent \<open>node_at v (origin w p) \<noteq> None\<close> by (simp add: locate_def tl(1) walk_append)
    qed
    have "\<exists>v. createDirectoryIfNotExists (parent_path full) w = (Inr True, v) \<and> node_at v (d @ ds) = Some Directory
        \<and> node_at v (d @ ?cs) \<noteq> Some Directory"
    proof (cases "node_at w (d @ ds)")
      case (Some y)
      have "is_prefix ds ds" by simp
      with assms(5) Some have "node_at w (d @ ds) = Some Directory" unfolding free_way_def by fastforce
      then show ?thesis using found [OF assms(1) p _ org] assms(6)
        by (simp add: createDirectoryIfNotExists_def fs_exists_def)
    next
      case None
      then have nonempty: "ds \<noteq> []" using assms(3) by (cases ds) auto
      have "walk w d ds = None" using walk_proper [OF assms(1) proper(1)] assms(3) None by simp
      then have "locate w (parent_path full) = None"
        using parent org start p assms(3) by (simp add: locate_def tl(1) walk_append)
      moreover obtain made where "create_dirs w False (origin w p) (comps p @ (ds @ tl)) = create_dirs w made d (ds @ tl)"
        using create_dirs_walk [OF p] by blast
      moreover obtain made' v where v: "create_dirs w made d ds = (Some made', v)" "node_at v (d @ ds) = Some Directory"
        "made'" "\<forall>l. node_at v l = node_at w l \<or> is_prefix l (d @ ds)"
        using create_dirs_ok [OF assms(1) proper(1) assms(3,5), of made] nonempty None by auto
      moreover have "create_dirs w made d (ds @ tl) = (Some made', v)"
        using create_dirs_dot [OF v(1)] v(1) tl(2) by auto
      moreover have "node_at v (d @ ?cs) = node_at w (d @ ?cs)" using spec [OF v(4), of "d @ ?cs"] by (auto simp: is_prefix_append)
      ultimately show ?thesis using parent org assms(6) tl(1)
        by (simp add: createDirectoryIfNotExists_def create_directories_def fs_exists_def)
    qed
    then obtain v where v: "createDirectoryIfNotExists (parent_path full) w = (Inr True, v)" "node_at v (d @ ds) = Some Directory"
        "node_at v (d @ ?cs) \<noteq> Some Directory" by blast
    have grow: "grows w v" using createDirectoryIfNotExists_grows [OF v(1)] .
    have tree: "tree_ok v" using tree_ok_createDirectory [OF assms(1), of "parent_path full"] v(1) by simp
    have loc: "locate v p = Some d" using locate_grows [OF grow assms(2)] .
    then have "walk v (origin w p) (comps p) = Some d"
      using walk_names [of v "origin v p" p d] grows_origin [OF grow] by (simp add: locate_walk)
    then have "locate v (parent_path full) = Some (d @ ds)"
      using found [OF tree _ v(2)] grows_origin [OF grow] org by simp
    then have "\<exists>t m s. open_new full v = (Inr True, put_node (d @ ?cs) (RegularFile t m s) v)"
      using parent v(2,3) proper(2) x by (auto simp: open_new_def split: option.split node.split)
    then obtain t m s where u: "open_new full v = (Inr True, put_node (d @ ?cs) (RegularFile t m s) v)" by blast
    let ?u = "put_node (d @ ?cs) (RegularFile t m s) v"
    have "createFileIfNotExists full w = (Inr True, ?u)"
      using missing v(1) u by (simp add: createFileIfNotExists_def fs_exists_def io_bind_def)
    moreover have "node_at ?u (d @ ?cs) = Some (RegularFile t m s)" by (simp add: node_at_put)
    moreover have "tree_ok ?u" using tree_ok_open [OF tree, of full] u by simp
    moreover have "locate ?u p = Some d"
      by (rule locate_stores [OF stores_at_put loc]) (use v(3) in simp_all)
    ultimately show ?thesis unfolding full_def using storeFile_new locate_below [OF _ _ assms(4)] by (metis append_is_Nil_conv list.discI option.distinct(1))
  qed
qed

lemma storeFile_proper:
  assumes "tree_ok w" and "locate w p = Some d" and "node_at w d = Some Directory"
    and "list_all proper_name (ds @ [x])" and "free_way w d ds" and "node_at w (d @ ds @ [x]) \<noteq> Some Directory"
  obtains w' m where "storeFile (path_append p (join_names (ds @ [x]))) content w = (Inr (), w')"
    "node_at w' (d @ ds @ [x]) = Some (RegularFile content m (clock w))" "tree_ok w'" "locate w' p = Some d"
    "clock w' = clock w"
    "\<And>l. l \<noteq> d @ ds @ [x] \<Longrightarrow> node_at w' l = node_at w l
      \<or> (is_prefix l (d @ ds @ [x]) \<and> node_at w l = None \<and> node_at w' l = Some Directory)"
proof -
  obtain w' where w': "storeFile (path_append p (join_names (ds @ [x]))) content w = (Inr (), w')"
    using storeFile_ok [OF assms] by blast
  have canonical: "weakly_canonical w (path_append p (join_names (ds @ [x]))) = d @ ds @ [x]"
    using canonical_below [OF assms(2,4)] by simp
  from storeFile_effect [OF w'] have stores: "stores_at (d @ ds @ [x]) w w'"
    and file_at: "\<exists>m. node_at w' (d @ ds @ [x]) = Some (RegularFile content m (clock w))" by (simp_all add: canonical)
  have "tree_ok w'" using tree_ok_store [OF assms(1)] w' by (metis snd_conv)
  moreover have "node_at w' l = node_at w l
      \<or> (is_prefix l (d @ ds @ [x]) \<and> node_at w l = None \<and> node_at w' l = Some Directory)"
    if "l \<noteq> d @ ds @ [x]" for l
    using stores_at_other [OF stores that] storeFile_below [OF assms(2,4) w', of l] by fastforce
  moreover have "clock w' = clock w" using stores by (simp add: stores_at_def)
  ultimately show ?thesis using that w' file_at locate_stores [OF stores assms(2)] by blast
qed

text \<open>
  every operation on files keeps a file system a tree: nothing is ever left or put below a place
  that is not a directory, also when the operation fails half-way.
\<close>

theorem file_operations_keep_tree:
  assumes "tree_ok w"
  shows "tree_ok (snd (storeFile p content w)) \<and> tree_ok (snd (createDirectoryIfNotExists p w))
    \<and> tree_ok (snd (createFileIfNotExists p w)) \<and> tree_ok (snd (removeFileOrDirectory p w))
    \<and> tree_ok (snd (clearDirectory p w)) \<and> tree_ok (snd (setPermissions p mode w))"
  using assms by (simp add: tree_ok_store tree_ok_createDirectory tree_ok_createFile tree_ok_removals
      tree_ok_clear tree_ok_permissions)

theorem file_operations_keep_tree_witness:
  "tree_ok (snd (storeFile ''a/b/../c'' ''x'' \<lparr>nodes = [([''a''], RegularFile ''y'' 420 0)], cwd = [], clock = 1, new_permissions = 420\<rparr>))"
proof -
  let ?w = "\<lparr>nodes = [([''a''], RegularFile ''y'' 420 0)], cwd = [], clock = 1, new_permissions = 420\<rparr>"
  have "tree_ok ?w" by (auto simp: tree_ok_def node_at_def split: if_splits)
  then show ?thesis using file_operations_keep_tree [of ?w] by blast
qed

end
