(* ===== verification/Content_Sync.thy ===== *)
theory Content_Sync
  imports Content_Client File_Tree
begin

text \<open>
  What a synchronisation achieves.  The files of a content are a map from relative paths to texts and
  modes; a manifest describes such a map, and the changes between two manifests are those between the
  maps.  The client relies on a source that serves a map (a locale); the channel to a server with the
  content is such a source.
\<close>

section \<open>The files of a content\<close>

type_synonym files = "string \<rightharpoonup> string \<times> nat"

definition proper_path :: "string \<Rightarrow> bool" where
  "proper_path f \<longleftrightarrow> comps f \<noteq> [] \<and> list_all proper_name (comps f) \<and> f = join_names (comps f)"

lemma proper_pathE:
  assumes "proper_path f"
  obtains ds x where "comps f = ds @ [x]" "list_all proper_name (ds @ [x])" "f = join_names (ds @ [x])"
  using assms by (metis proper_path_def append_butlast_last_id)

lemma proper_path_inject: "proper_path f \<Longrightarrow> proper_path g \<Longrightarrow> comps f = comps g \<Longrightarrow> f = g"
  by (metis proper_path_def)

text \<open>The files below a directory, with their texts and modes, as a manifest lists them.\<close>

definition content_files :: "fs \<Rightarrow> place \<Rightarrow> files" where
  "content_files w d f =
     (if proper_path f \<and> f \<noteq> ''manifest.json''
      then (case node_at w (d @ comps f) of Some (RegularFile x m s) \<Rightarrow> Some (x, m) | _ \<Rightarrow> None) else None)"

fun entry_ok :: "(string \<Rightarrow> string) \<Rightarrow> (string \<times> nat) option \<Rightarrow> json option \<Rightarrow> bool" where
  "entry_ok sha None None = True"
| "entry_ok sha (Some (x, m)) (Some info) =
     (json_eq (getEntryField info ''sha256'') (JString (sha x)) \<and> json_eq (getEntryField info ''permissions'') (JUnsigned m))"
| "entry_ok sha _ _ = False"

definition describes :: "(string \<Rightarrow> string) \<Rightarrow> json \<Rightarrow> files \<Rightarrow> bool" where
  "describes sha j files \<longleftrightarrow> files_object j
     \<and> (\<forall>f. entry_ok sha (files f) (stored_file j f))
     \<and> (\<forall>f x m. files f = Some (x, m) \<longrightarrow> getPermissionsFromManifest j f = Inr m)"

text \<open>What a server may serve: proper paths, modes of twelve bits, and no file in the way of another.\<close>

definition served_ok :: "files \<Rightarrow> bool" where
  "served_ok files \<longleftrightarrow>
     (\<forall>f \<in> dom files. proper_path f \<and> f \<noteq> ''manifest.json'' \<and> snd (the (files f)) < 4096
        \<and> (\<forall>g \<in> dom files. is_prefix (comps f) (comps g) \<longrightarrow> f = g))"

text \<open>The change that is needed, from the files.\<close>

definition needed_change :: "(string \<Rightarrow> string) \<Rightarrow> (string \<times> nat) option \<Rightarrow> (string \<times> nat) option \<Rightarrow> change_type option" where
  "needed_change sha old_file new_file =
     (case (old_file, new_file) of
        (None, None) \<Rightarrow> None
      | (None, Some n) \<Rightarrow> Some ADDED
      | (Some o', None) \<Rightarrow> Some REMOVED
      | (Some (x, m), Some (y, k)) \<Rightarrow>
          if sha x \<noteq> sha y then Some MODIFIED else if m \<noteq> k then Some ATTRIBUTES_CHANGED else None)"

lemma json_eq_hash: "json_eq a (JString x) \<Longrightarrow> json_eq b (JString y) \<Longrightarrow> json_eq a b \<longleftrightarrow> x = y"
  by (auto simp: json_eq_def)

lemma json_eq_mode: "json_eq a (JUnsigned m) \<Longrightarrow> json_eq b (JUnsigned k) \<Longrightarrow> json_eq a b \<longleftrightarrow> m = k"
  by (auto simp: json_eq_def)

lemma entry_ok_None: "entry_ok sha None i \<longleftrightarrow> i = None"
  by (cases i) simp_all

lemma entry_ok_Some: "entry_ok sha (Some (x, m)) i \<longleftrightarrow> (\<exists>info. i = Some info
    \<and> json_eq (getEntryField info ''sha256'') (JString (sha x)) \<and> json_eq (getEntryField info ''permissions'') (JUnsigned m))"
  by (cases i) simp_all

lemma expected_needed:
  assumes "entry_ok sha a i" and "entry_ok sha b k"
  shows "expected_change i k = needed_change sha a b"
proof (cases a)
  case None
  with assms(1) have "i = None" by (simp add: entry_ok_None)
  with None assms(2) show ?thesis
    by (cases b; cases k) (auto simp: expected_change_def needed_change_def)
next
  case (Some xm)
  obtain x m where xm: "xm = (x, m)" by (cases xm)
  with Some assms(1) obtain info where i: "i = Some info" "json_eq (getEntryField info ''sha256'') (JString (sha x))"
    "json_eq (getEntryField info ''permissions'') (JUnsigned m)" by (auto simp: entry_ok_Some)
  show ?thesis
  proof (cases b)
    case None
    with assms(2) have "k = None" by (simp add: entry_ok_None)
    with None i(1) Some xm show ?thesis by (simp add: expected_change_def needed_change_def)
  next
    case (Some yl)
    obtain y l where yl: "yl = (y, l)" by (cases yl)
    with Some assms(2) obtain info' where k: "k = Some info'" "json_eq (getEntryField info' ''sha256'') (JString (sha y))"
      "json_eq (getEntryField info' ''permissions'') (JUnsigned l)" by (auto simp: entry_ok_Some)
    show ?thesis unfolding i(1) k(1) Some yl \<open>a = Some xm\<close> xm expected_change_def needed_change_def
      by (simp add: json_eq_hash [OF i(2) k(2)] json_eq_mode [OF i(3) k(3)])
  qed
qed

lemma changes_needed:
  assumes "describes sha j old_files" and "describes sha m new_files"
  shows "(ch, f) \<in> set (compareManifests j m) \<longleftrightarrow> needed_change sha (old_files f) (new_files f) = Some ch"
proof -
  have "files_object j" "files_object m" and entries: "entry_ok sha (old_files f) (stored_file j f)" "entry_ok sha (new_files f) (stored_file m f)"
    using assms unfolding describes_def by blast+
  then have "(ch, f) \<in> set (compareManifests j m) \<longleftrightarrow> expected_change (stored_file j f) (stored_file m f) = Some ch"
    using compareManifests_exact by blast
  then show ?thesis by (simp only: expected_needed [OF entries])
qed

text \<open>A comparison reports the removals after everything else, and every path once.\<close>

lemma changes_order:
  assumes "files_object j" and "files_object m"
  obtains news gone where "compareManifests j m = news @ gone" "\<forall>c \<in> set news. fst c \<noteq> REMOVED" "\<forall>c \<in> set gone. fst c = REMOVED"
    "distinct (map snd (news @ gone))"
proof (rule that)
  show "compareManifests j m = concat (map (new_change j) (file_infos m))
      @ map (\<lambda>e. (REMOVED, fst e)) (filter (\<lambda>e. \<not> has_file m (fst e)) (file_infos j))"
    by (rule compareManifests_infos [OF assms])
  then show "distinct (map snd (concat (map (new_change j) (file_infos m))
      @ map (\<lambda>e. (REMOVED, fst e)) (filter (\<lambda>e. \<not> has_file m (fst e)) (file_infos j))))"
    using compareManifests_exact [OF assms] by metis
  show "\<forall>c \<in> set (concat (map (new_change j) (file_infos m))). fst c \<noteq> REMOVED"
    by (auto simp: new_change_def split: prod.splits option.splits if_splits)
qed auto

section \<open>Applying the changes\<close>

definition can_store :: "fs \<Rightarrow> place \<Rightarrow> string \<Rightarrow> bool" where
  "can_store w d f \<longleftrightarrow> free_way w d (butlast (comps f)) \<and> node_at w (d @ comps f) \<noteq> Some Directory"

text \<open>What a step on the file \<open>f\<close> may change besides the file: it may make directories above it.\<close>

definition only_dirs_above :: "place set \<Rightarrow> fs \<Rightarrow> fs \<Rightarrow> bool" where
  "only_dirs_above ks w w' \<longleftrightarrow>
     (\<forall>l. l \<notin> ks \<longrightarrow> node_at w' l = node_at w l
        \<or> (node_at w l = None \<and> node_at w' l = Some Directory \<and> (\<exists>k \<in> ks. is_prefix l k)))"

lemma only_dirs_above_trans:
  assumes "only_dirs_above ks w v" and "only_dirs_above ls v u"
  shows "only_dirs_above (ks \<union> ls) w u"
  unfolding only_dirs_above_def
proof (intro allI impI)
  fix l
  assume "l \<notin> ks \<union> ls"
  then have "node_at v l = node_at w l \<or> (node_at w l = None \<and> node_at v l = Some Directory \<and> (\<exists>k \<in> ks. is_prefix l k))"
    "node_at u l = node_at v l \<or> (node_at v l = None \<and> node_at u l = Some Directory \<and> (\<exists>k \<in> ls. is_prefix l k))"
    using assms unfolding only_dirs_above_def by blast+
  then show "node_at u l = node_at w l
      \<or> (node_at w l = None \<and> node_at u l = Some Directory \<and> (\<exists>k \<in> ks \<union> ls. is_prefix l k))" by auto
qed

lemma setPermissions_below:
  assumes "tree_ok w" and "locate w p = Some d" and "proper_path f"
    and "node_at w (d @ comps f) = Some (RegularFile x k s)" and "m < 4096"
  obtains w' where "setPermissions (path_append p f) m w = (Inr (), w')" "tree_ok w'" "locate w' p = Some d"
    "node_at w' (d @ comps f) = Some (RegularFile x m s)" "only_dirs_above {d @ comps f} w w'"
proof -
  define w' where "w' = put_node (d @ comps f) (RegularFile x m s) w"
  obtain ds y where f: "comps f = ds @ [y]" "list_all proper_name (ds @ [y])" "f = join_names (ds @ [y])"
    using assms(3) by (rule proper_pathE)
  have "d @ comps f \<noteq> []" using f(1) by simp
  have "locate w (path_append p f) = Some (d @ comps f)"
    using locate_below [OF assms(2,1) f(2)] assms(4) f(1,3) by simp
  with assms(4,5) have "setPermissions (path_append p f) m w = (Inr (), w')"
    by (simp add: setPermissions_def w'_def)
  moreover have "tree_ok w'" unfolding w'_def by (rule tree_ok_rewrite [OF assms(1,4)])
  moreover have "locate w' p = Some d" unfolding w'_def by (rule locate_rewrite_file [OF assms(4,2)])
  moreover have "node_at w' (d @ comps f) = Some (RegularFile x m s)" "only_dirs_above {d @ comps f} w w'"
    using \<open>d @ comps f \<noteq> []\<close> by (simp_all add: w'_def node_at_put only_dirs_above_def)
  ultimately show ?thesis by (rule that)
qed

lemma storeFile_content:
  assumes "tree_ok w" and "locate w p = Some d" and "node_at w d = Some Directory"
    and "proper_path f" and "can_store w d f"
  obtains w' m where "storeFile (path_append p f) content w = (Inr (), w')" "tree_ok w'" "locate w' p = Some d"
    "node_at w' (d @ comps f) = Some (RegularFile content m (clock w))" "only_dirs_above {d @ comps f} w w'"
proof -
  obtain ds y where f: "comps f = ds @ [y]" "list_all proper_name (ds @ [y])" "f = join_names (ds @ [y])"
    using assms(4) by (rule proper_pathE)
  have free: "free_way w d ds" "node_at w (d @ ds @ [y]) \<noteq> Some Directory" using assms(5) f(1) by (auto simp: can_store_def)
  show ?thesis
  proof (rule storeFile_proper [OF assms(1-3) f(2) free, of content])
    fix w' m
    assume w': "storeFile (path_append p (join_names (ds @ [y]))) content w = (Inr (), w')"
      "node_at w' (d @ ds @ [y]) = Some (RegularFile content m (clock w))" "tree_ok w'" "locate w' p = Some d"
      and other: "\<And>l. l \<noteq> d @ ds @ [y] \<Longrightarrow> node_at w' l = node_at w l
        \<or> (is_prefix l (d @ ds @ [y]) \<and> node_at w l = None \<and> node_at w' l = Some Directory)"
    have "only_dirs_above {d @ comps f} w w'" unfolding only_dirs_above_def f(1) using other by blast
    with w' show ?thesis using that [of w' m] unfolding f(1) f(3) [symmetric] by blast
  qed
qed

lemma only_dirs_directory: "only_dirs_above ks w w' \<Longrightarrow> d \<notin> ks \<Longrightarrow> node_at w d = Some Directory \<Longrightarrow> node_at w' d = Some Directory"
  unfolding only_dirs_above_def by (metis option.distinct(1))

text \<open>The changes that are not removals, one by one.\<close>

definition step_ready :: "fs \<Rightarrow> place \<Rightarrow> files \<Rightarrow> change \<Rightarrow> bool" where
  "step_ready w d srv ch \<longleftrightarrow> fst ch \<noteq> REMOVED \<and> snd ch \<in> dom srv \<and> can_store w d (snd ch)
     \<and> (fst ch = ADDED \<longrightarrow> node_at w (d @ comps (snd ch)) = None)
     \<and> (fst ch = MODIFIED \<longrightarrow> (\<exists>x m s. node_at w (d @ comps (snd ch)) = Some (RegularFile x m s)))
     \<and> (fst ch = ATTRIBUTES_CHANGED \<longrightarrow>
          (\<exists>m s. node_at w (d @ comps (snd ch)) = Some (RegularFile (fst (the (srv (snd ch)))) m s)))"

text \<open>
  An action that applies changes to the file system in a state: an addition or change leaves the wanted
  file, a removal drops a file.  The content is at \<open>d\<close>, reached by the path \<open>p\<close>; \<open>put\<close> puts a file system
  into the state.
\<close>

definition applies :: "(change \<Rightarrow> ('x, unit) io) \<Rightarrow> (fs \<Rightarrow> 'x) \<Rightarrow> string \<Rightarrow> place \<Rightarrow> files \<Rightarrow> bool" where
  "applies act put p d goal \<longleftrightarrow>
     (\<forall>w ch. tree_ok w \<longrightarrow> locate w p = Some d \<longrightarrow> node_at w d = Some Directory \<longrightarrow> step_ready w d goal ch \<longrightarrow>
        (\<exists>w' z. act ch (put w) = (Inr (), put w') \<and> tree_ok w' \<and> locate w' p = Some d
           \<and> only_dirs_above {d @ comps (snd ch)} w w'
           \<and> node_at w' (d @ comps (snd ch)) = Some (RegularFile (fst (the (goal (snd ch)))) (snd (the (goal (snd ch)))) z)))
     \<and> (\<forall>w f x m s. tree_ok w \<longrightarrow> locate w p = Some d \<longrightarrow> proper_path f \<longrightarrow>
          node_at w (d @ comps f) = Some (RegularFile x m s) \<longrightarrow>
          act (REMOVED, f) (put w) = (Inr (), put (drop_tree (d @ comps f) w)))"

lemma applies_news:
  assumes "applies act put p d goal" and "tree_ok w" and "locate w p = Some d" and "node_at w d = Some Directory"
    and "step_ready w d goal ch"
  shows "\<exists>w' z. act ch (put w) = (Inr (), put w') \<and> tree_ok w' \<and> locate w' p = Some d
    \<and> only_dirs_above {d @ comps (snd ch)} w w'
    \<and> node_at w' (d @ comps (snd ch)) = Some (RegularFile (fst (the (goal (snd ch)))) (snd (the (goal (snd ch)))) z)"
  using assms unfolding applies_def by blast

lemma applies_gone:
  "applies act put p d goal \<Longrightarrow> tree_ok w \<Longrightarrow> locate w p = Some d \<Longrightarrow> proper_path f \<Longrightarrow>
    node_at w (d @ comps f) = Some (RegularFile x m s) \<Longrightarrow> act (REMOVED, f) (put w) = (Inr (), put (drop_tree (d @ comps f) w))"
  unfolding applies_def by blast

lemma step_ready_after:
  assumes "served_ok srv" and "step_ready w d srv ch" and "step_ready w d srv ch2" and "snd ch \<noteq> snd ch2"
    and "only_dirs_above {d @ comps (snd ch)} w w'" and "node_at w' (d @ comps (snd ch)) = Some (RegularFile x m z)"
  shows "step_ready w' d srv ch2"
proof -
  let ?f = "snd ch" and ?g = "snd ch2"
  have dom: "?f \<in> dom srv" "?g \<in> dom srv" using assms(2,3) by (auto simp: step_ready_def)
  have apart: "\<not> is_prefix (comps ?f) (comps ?g)" "\<not> is_prefix (comps ?g) (comps ?f)"
    using assms(1,4) dom unfolding served_ok_def by metis+
  have same: "node_at w' l = node_at w l \<or> (node_at w l = None \<and> node_at w' l = Some Directory \<and> is_prefix l (d @ comps ?f))"
    if "l \<noteq> d @ comps ?f" for l using assms(5) that unfolding only_dirs_above_def by blast
  have ne: "d @ comps ?g \<noteq> d @ comps ?f" using apart(1) by auto
  have at_g: "node_at w' (d @ comps ?g) = node_at w (d @ comps ?g)"
    using same [OF ne] apart(2) by (auto simp: is_prefix_append)
  have "free_way w' d (butlast (comps ?g))" unfolding free_way_def
  proof (intro allI impI)
    fix r
    assume r: "is_prefix r (butlast (comps ?g))"
    then have "is_prefix r (comps ?g)" by (metis is_prefix_append append.assoc append_butlast_last_id butlast.simps(1))
    then have "d @ r \<noteq> d @ comps ?f" using apart(1) by auto
    moreover have "node_at w (d @ r) \<in> {None, Some Directory}"
      using assms(3) r unfolding step_ready_def can_store_def free_way_def by blast
    ultimately show "node_at w' (d @ r) \<in> {None, Some Directory}" using same [of "d @ r"] by auto
  qed
  then show ?thesis using assms(3) at_g unfolding step_ready_def can_store_def by simp
qed

lemma served_distinct: "served_ok srv \<Longrightarrow> f \<in> dom srv \<Longrightarrow> g \<in> dom srv \<Longrightarrow> comps f = comps g \<Longrightarrow> f = g"
  unfolding served_ok_def by (metis proper_path_inject)

lemma only_dirs_other: "only_dirs_above ks w w' \<Longrightarrow> l \<notin> ks \<Longrightarrow>
    node_at w' l = node_at w l \<or> (node_at w l = None \<and> node_at w' l = Some Directory)"
  unfolding only_dirs_above_def by blast

lemma news_applied:
  assumes "served_ok goal" and act: "applies act put p d goal"
  shows "tree_ok w \<Longrightarrow> locate w p = Some d \<Longrightarrow> node_at w d = Some Directory \<Longrightarrow>
    distinct (map snd cs) \<Longrightarrow> \<forall>ch \<in> set cs. step_ready w d goal ch \<Longrightarrow>
    \<exists>w'. do_all act cs (put w) = (Inr (), put w') \<and> tree_ok w' \<and> locate w' p = Some d
      \<and> only_dirs_above ((\<lambda>ch. d @ comps (snd ch)) ` set cs) w w'
      \<and> (\<forall>ch \<in> set cs. \<exists>z. node_at w' (d @ comps (snd ch)) =
            Some (RegularFile (fst (the (goal (snd ch)))) (snd (the (goal (snd ch)))) z))"
proof (induction cs arbitrary: w)
  case Nil
  then show ?case by (auto simp: io_return_def only_dirs_above_def)
next
  case (Cons ch cs)
  have ready: "step_ready w d goal ch" using Cons.prems(5) by simp
  from applies_news [OF act Cons.prems(1-3) ready]
  obtain v z where v: "act ch (put w) = (Inr (), put v)"
    "tree_ok v" "locate v p = Some d" "only_dirs_above {d @ comps (snd ch)} w v"
    "node_at v (d @ comps (snd ch)) = Some (RegularFile (fst (the (goal (snd ch)))) (snd (the (goal (snd ch)))) z)" by blast
  have "snd ch \<in> dom goal" using ready by (simp add: step_ready_def)
  then have "comps (snd ch) \<noteq> []" using assms(1) unfolding served_ok_def proper_path_def by blast
  then have "d \<noteq> d @ comps (snd ch)" by simp
  then have dir: "node_at v d = Some Directory" using only_dirs_directory [OF v(4)] Cons.prems(3) by blast
  have rest: "\<forall>ch2 \<in> set cs. step_ready v d goal ch2"
  proof
    fix ch2 assume "ch2 \<in> set cs"
    then have "snd ch \<noteq> snd ch2" "step_ready w d goal ch2" using Cons.prems(4,5) by auto
    with step_ready_after [OF assms(1) ready _ _ v(4,5)] show "step_ready v d goal ch2" by blast
  qed
  have "distinct (map snd cs)" using Cons.prems(4) by simp
  from Cons.IH [OF v(2,3) dir this rest] obtain w' where w': "do_all act cs (put v) = (Inr (), put w')"
    "tree_ok w'" "locate w' p = Some d" "only_dirs_above ((\<lambda>ch. d @ comps (snd ch)) ` set cs) v w'"
    "\<forall>ch \<in> set cs. \<exists>z. node_at w' (d @ comps (snd ch)) =
            Some (RegularFile (fst (the (goal (snd ch)))) (snd (the (goal (snd ch)))) z)" by blast
  have apart: "d @ comps (snd ch) \<notin> (\<lambda>ch. d @ comps (snd ch)) ` set cs"
  proof
    assume "d @ comps (snd ch) \<in> (\<lambda>ch. d @ comps (snd ch)) ` set cs"
    then obtain ch2 where ch2: "ch2 \<in> set cs" "comps (snd ch) = comps (snd ch2)" by auto
    then have "snd ch2 \<in> dom goal" "snd ch \<noteq> snd ch2" using Cons.prems(4,5) by (auto simp: step_ready_def)
    with ch2(2) \<open>snd ch \<in> dom goal\<close> served_distinct [OF assms(1)] show False by blast
  qed
  then have "node_at w' (d @ comps (snd ch)) = node_at v (d @ comps (snd ch))"
    using only_dirs_other [OF w'(4) apart] v(5) by simp
  moreover have "only_dirs_above ((\<lambda>ch. d @ comps (snd ch)) ` set (ch # cs)) w w'"
    using only_dirs_above_trans [OF v(4) w'(4)] by simp
  moreover have "do_all act (ch # cs) (put w) = (Inr (), put w')"
    using v(1) w'(1) by (simp add: io_bind_def)
  moreover have "\<forall>ch2 \<in> set (ch # cs). \<exists>z. node_at w' (d @ comps (snd ch2)) =
      Some (RegularFile (fst (the (goal (snd ch2)))) (snd (the (goal (snd ch2)))) z)"
  proof
    fix ch2 assume "ch2 \<in> set (ch # cs)"
    then show "\<exists>z. node_at w' (d @ comps (snd ch2)) = Some (RegularFile (fst (the (goal (snd ch2)))) (snd (the (goal (snd ch2)))) z)"
      using calculation(1) v(5) w'(5) by (cases "ch2 = ch") (simp, auto)
  qed
  ultimately show ?case using w'(2,3) by blast
qed

text \<open>The removals.  A path without \<open>..\<close> only leads down, so nothing below its place is on the way.\<close>

lemma walk_down: "walk w k cs = Some d \<Longrightarrow> ''..'' \<notin> set cs \<Longrightarrow> is_prefix k d"
proof (induction cs arbitrary: k)
  case Nil
  then show ?case by (auto split: if_splits)
next
  case (Cons c cs)
  then obtain l where l: "step_name w k c = Some l" "walk w l cs = Some d" by (auto split: Option.bind_splits)
  have "is_prefix k l" using l(1) Cons.prems(2) by (auto simp: step_name_def is_prefix_append split: if_splits)
  moreover have "is_prefix l d" using Cons.IH [OF l(2)] Cons.prems(2) by simp
  ultimately show ?case by (rule is_prefix_trans)
qed

lemma walk_drop:
  assumes "\<not> is_prefix j d"
  shows "walk w k cs = Some d \<Longrightarrow> ''..'' \<notin> set cs \<Longrightarrow> walk (drop_tree j w) k cs = Some d"
proof (induction cs arbitrary: k)
  case Nil
  then show ?case using assms by (auto simp: node_at_drop split: if_splits)
next
  case (Cons c cs)
  then obtain l where l: "step_name w k c = Some l" "walk w l cs = Some d" by (auto split: Option.bind_splits)
  have "is_prefix k d" "is_prefix l d" using walk_down [OF Cons.prems] walk_down [OF l(2)] Cons.prems(2) by auto
  then have "\<not> is_prefix j k" "\<not> is_prefix j l" using assms is_prefix_trans by blast+
  with l(1) have "step_name (drop_tree j w) k c = Some l"
    by (auto simp: step_name_def node_at_drop split: if_splits)
  with Cons.IH [OF l(2)] Cons.prems(2) show ?case by simp
qed

lemma locate_drop:
  assumes "locate w p = Some d" and "''..'' \<notin> set (comps p)" and "\<not> is_prefix j d"
  shows "locate (drop_tree j w) p = Some d"
proof -
  have "''..'' \<notin> set (names p)" using assms(2) by (simp add: names_comps)
  moreover have "p \<noteq> []" "walk w (origin w p) (names p) = Some d" using assms(1) by (simp_all add: locate_walk)
  moreover have "origin (drop_tree j w) p = origin w p" by (simp add: origin_def drop_tree_def)
  ultimately show ?thesis using walk_drop [OF assms(3)] by (simp only: locate_walk) simp
qed

lemma gone_applied:
  assumes act: "applies act put p d goal" and down: "''..'' \<notin> set (comps p)"
  shows "tree_ok w \<Longrightarrow> locate w p = Some d \<Longrightarrow> distinct (map snd cs) \<Longrightarrow>
    \<forall>ch \<in> set cs. fst ch = REMOVED \<and> proper_path (snd ch) \<and> (\<exists>x m s. node_at w (d @ comps (snd ch)) = Some (RegularFile x m s)) \<Longrightarrow>
    \<exists>w'. do_all act cs (put w) = (Inr (), put w') \<and> tree_ok w' \<and> locate w' p = Some d
      \<and> (\<forall>l. node_at w' l = (if \<exists>ch \<in> set cs. is_prefix (d @ comps (snd ch)) l then None else node_at w l))"
proof (induction cs arbitrary: w)
  case Nil
  then show ?case by (auto simp: io_return_def)
next
  case (Cons ch cs)
  let ?k = "d @ comps (snd ch)"
  obtain f where ch: "ch = (REMOVED, f)" "proper_path f" using Cons.prems(4) by (cases ch) auto
  obtain x m s where file_f: "node_at w ?k = Some (RegularFile x m s)" using Cons.prems(4) by auto
  have "comps f \<noteq> []" using ch(2) unfolding proper_path_def by blast
  define v where "v = drop_tree ?k w"
  have run: "act ch (put w) = (Inr (), put v)"
    using applies_gone [OF act Cons.prems(1,2) ch(2)] file_f ch(1) by (simp add: v_def)
  have v_at: "node_at v l = (if is_prefix ?k l then None else node_at w l)" for l
    using \<open>comps f \<noteq> []\<close> ch(1) by (auto simp: v_def node_at_drop is_prefix_append)
  have "tree_ok v" using Cons.prems(1) tree_ok_drop by (simp add: v_def)
  moreover have "locate v p = Some d"
    using \<open>comps f \<noteq> []\<close> ch(1) locate_drop [OF Cons.prems(2) down, of ?k] by (simp add: v_def is_prefix_append)
  moreover have "\<forall>ch2 \<in> set cs. fst ch2 = REMOVED \<and> proper_path (snd ch2)
      \<and> (\<exists>x m s. node_at v (d @ comps (snd ch2)) = Some (RegularFile x m s))"
  proof
    fix ch2 assume ch2: "ch2 \<in> set cs"
    with Cons.prems(4) obtain y a b where g: "fst ch2 = REMOVED" "proper_path (snd ch2)"
      "node_at w (d @ comps (snd ch2)) = Some (RegularFile y a b)" by auto
    have "\<not> is_prefix ?k (d @ comps (snd ch2))"
    proof
      assume "is_prefix ?k (d @ comps (snd ch2))"
      then obtain r where r: "comps (snd ch2) = comps f @ r" using ch(1) by (auto simp: is_prefix_append)
      show False
      proof (cases "r = []")
        case True
        then have "f = snd ch2" using proper_path_inject ch(2) g(2) r by simp
        with Cons.prems(3) ch(1) ch2 show False by auto
      next
        case False
        from tree_ok_file_above [OF Cons.prems(1) file_f False] g(3) r ch(1) show False by simp
      qed
    qed
    with v_at g show "fst ch2 = REMOVED \<and> proper_path (snd ch2)
      \<and> (\<exists>x m s. node_at v (d @ comps (snd ch2)) = Some (RegularFile x m s))" by simp
  qed
  moreover have "distinct (map snd cs)" using Cons.prems(3) by simp
  ultimately obtain w' where w': "do_all act cs (put v) = (Inr (), put w')" "tree_ok w'" "locate w' p = Some d"
    "\<forall>l. node_at w' l = (if \<exists>ch \<in> set cs. is_prefix (d @ comps (snd ch)) l then None else node_at v l)"
    using Cons.IH by blast
  have "do_all act (ch # cs) (put w) = (Inr (), put w')"
    using run w'(1) by (simp add: io_bind_def)
  moreover have "node_at w' l = (if \<exists>ch \<in> set (ch # cs). is_prefix (d @ comps (snd ch)) l then None else node_at w l)" for l
    using spec [OF w'(4), of l] v_at [of l] by auto
  ultimately show ?case using w'(2,3) by blast
qed

lemma do_all_append: "do_all act (xs @ ys) w = io_bind (do_all act xs) (\<lambda>_. do_all act ys) w"
  by (induction xs arbitrary: w) (simp_all add: io_bind_def io_return_def split: prod.split sum.split)

text \<open>
  Applying the changes between two manifests: the files below the directory become those of the second,
  if nothing stands in the way of one and texts with equal hashes are equal.
\<close>

lemma changes_applied:
  assumes act: "applies act put p d srv" and down: "''..'' \<notin> set (comps p)" and ok: "served_ok srv"
    and J: "describes sha J (content_files w d)" and M: "describes sha M srv"
    and place: "tree_ok w" "locate w p = Some d" "node_at w d = Some Directory"
    and room: "\<And>f. f \<in> dom srv \<Longrightarrow> can_store w d f"
    and inj: "\<And>f x m y k. srv f = Some (x, m) \<Longrightarrow> content_files w d f = Some (y, k) \<Longrightarrow> sha x = sha y \<Longrightarrow> x = y"
  obtains u where "do_all act (compareManifests J M) (put w) = (Inr (), put u)" "tree_ok u" "locate u p = Some d"
    "content_files u d = srv"
proof -
  let ?loc = "content_files w d" and ?w = w
  obtain news gone where changes: "compareManifests J M = news @ gone" "\<forall>ch \<in> set news. fst ch \<noteq> REMOVED"
    "\<forall>ch \<in> set gone. fst ch = REMOVED" "distinct (map snd (news @ gone))"
    using changes_order J M unfolding describes_def by metis
  have needed: "(ch, f) \<in> set (news @ gone) \<longleftrightarrow> needed_change sha (?loc f) (srv f) = Some ch" for ch f
    using changes_needed [OF J M, of ch f] changes(1) by simp
  have loc_node: "?loc f = Some (y, k) \<Longrightarrow> proper_path f \<and> (\<exists>z. node_at ?w (d @ comps f) = Some (RegularFile y k z))" for f y k
    by (auto simp: content_files_def split: if_splits option.splits node.splits)
  have new: "step_ready ?w d srv ch" if "ch \<in> set news" for ch
  proof -
    obtain k f where ch: "ch = (k, f)" by (cases ch)
    have "k \<noteq> REMOVED" using changes(2) that ch by auto
    have need: "needed_change sha (?loc f) (srv f) = Some k" using needed [of k f] that ch by auto
    then obtain x m where f: "srv f = Some (x, m)"
      using \<open>k \<noteq> REMOVED\<close> by (auto simp: needed_change_def split: option.splits)
    have same: "\<exists>m s. node_at ?w (d @ comps f) = Some (RegularFile x m s)" if "k = ATTRIBUTES_CHANGED"
    proof -
      from need f that obtain y l where "?loc f = Some (y, l)" "sha y = sha x"
        by (auto simp: needed_change_def split: option.splits prod.splits if_splits)
      with inj [OF f, of y l] loc_node [of f y l] show ?thesis by metis
    qed
    have "node_at ?w (d @ comps f) = None" if "k = ADDED"
    proof -
      have "f \<in> dom srv" using f by blast
      then have "proper_path f" "f \<noteq> ''manifest.json''" using ok unfolding served_ok_def by blast+
      moreover have "?loc f = None" using need f that by (auto simp: needed_change_def split: option.splits if_splits)
      moreover have "node_at ?w (d @ comps f) \<noteq> Some Directory" using room [OF \<open>f \<in> dom srv\<close>] unfolding can_store_def by blast
      ultimately show ?thesis by (auto simp: content_files_def split: option.splits node.splits)
    qed
    moreover have "\<exists>y l z. node_at ?w (d @ comps f) = Some (RegularFile y l z)" if "k = MODIFIED"
    proof -
      from need f that obtain y l where "?loc f = Some (y, l)"
        by (auto simp: needed_change_def split: option.splits prod.splits if_splits)
      with loc_node [of f y l] show ?thesis by blast
    qed
    moreover note same
    ultimately show ?thesis using f room [of f] \<open>k \<noteq> REMOVED\<close> unfolding ch step_ready_def by auto
  qed
  have "distinct (map snd news)" using changes(4) by simp
  from news_applied [OF ok act place this] new obtain v where v:
    "do_all act news (put w) = (Inr (), put v)"
    "tree_ok v" "locate v p = Some d" "only_dirs_above ((\<lambda>ch. d @ comps (snd ch)) ` set news) ?w v"
    "\<forall>ch \<in> set news. \<exists>z. node_at v (d @ comps (snd ch)) =
        Some (RegularFile (fst (the (srv (snd ch)))) (snd (the (srv (snd ch)))) z)" by blast
  have old: "fst ch = REMOVED \<and> proper_path (snd ch) \<and> snd ch \<in> dom ?loc \<and> snd ch \<notin> dom srv" if "ch \<in> set gone" for ch
  proof -
    have "fst ch = REMOVED" using changes(3) that by blast
    then obtain f where ch: "ch = (REMOVED, f)" by (cases ch) simp
    then have "needed_change sha (?loc f) (srv f) = Some REMOVED" using needed [of REMOVED f] that by auto
    then have "srv f = None" "?loc f \<noteq> None"
      by (auto simp: needed_change_def split: option.splits prod.splits if_splits)
    then show ?thesis using loc_node [of f] ch by auto
  qed
  have standing: "\<forall>ch \<in> set gone. fst ch = REMOVED \<and> proper_path (snd ch)
      \<and> (\<exists>x m s. node_at v (d @ comps (snd ch)) = Some (RegularFile x m s))"
  proof
    fix ch assume "ch \<in> set gone"
    from old [OF this] obtain y k where g: "fst ch = REMOVED" "proper_path (snd ch)" "?loc (snd ch) = Some (y, k)" "snd ch \<notin> dom srv"
      by auto
    then obtain z where z: "node_at w (d @ comps (snd ch)) = Some (RegularFile y k z)" using loc_node by blast
    have "d @ comps (snd ch) \<notin> (\<lambda>ch. d @ comps (snd ch)) ` set news"
    proof
      assume "d @ comps (snd ch) \<in> (\<lambda>ch. d @ comps (snd ch)) ` set news"
      then obtain ch2 where ch2: "ch2 \<in> set news" "comps (snd ch) = comps (snd ch2)" by auto
      then have "snd ch2 \<in> dom srv" using new by (simp add: step_ready_def)
      moreover from this have "proper_path (snd ch2)" using ok unfolding served_ok_def by blast
      ultimately show False using proper_path_inject [OF g(2)] ch2(2) g(4) by metis
    qed
    from only_dirs_other [OF v(4) this] z g(1,2)
    show "fst ch = REMOVED \<and> proper_path (snd ch) \<and> (\<exists>x m s. node_at v (d @ comps (snd ch)) = Some (RegularFile x m s))" by auto
  qed
  have "distinct (map snd gone)" using changes(4) by simp
  from gone_applied [OF act down v(2,3) this standing] obtain u where u:
    "do_all act gone (put v) = (Inr (), put u)"
    "\<forall>l. node_at u l = (if \<exists>ch \<in> set gone. is_prefix (d @ comps (snd ch)) l then None else node_at v l)"
    "tree_ok u" "locate u p = Some d" by blast
  have "content_files u d f = srv f" for f
  proof (cases "srv f")
    case (Some xm)
    obtain x m where f: "srv f = Some (x, m)" using Some by (cases xm) simp
    have "f \<in> dom srv" using f by blast
    then have proper: "proper_path f" "f \<noteq> ''manifest.json''" using ok unfolding served_ok_def by blast+
    have kept: "\<not> is_prefix (d @ comps (snd ch)) (d @ comps f)" if "ch \<in> set gone" for ch
    proof
      assume "is_prefix (d @ comps (snd ch)) (d @ comps f)"
      then obtain r where r: "comps f = comps (snd ch) @ r" by (auto simp: is_prefix_append)
      have g: "proper_path (snd ch)" "snd ch \<in> dom ?loc" "snd ch \<notin> dom srv" using old [OF that] by blast+
      have "r \<noteq> []" using proper_path_inject [OF proper(1) g(1)] r g(3) \<open>f \<in> dom srv\<close> by auto
      then have "is_prefix (comps (snd ch)) (butlast (comps f))" by (simp add: r butlast_append is_prefix_append)
      with room [OF \<open>f \<in> dom srv\<close>] have "node_at ?w (d @ comps (snd ch)) \<in> {None, Some Directory}"
        unfolding can_store_def free_way_def by blast
      with g(2) loc_node show False by fastforce
    qed
    then have u_at: "node_at u (d @ comps f) = node_at v (d @ comps f)" using u(2) by auto
    have "\<exists>z. node_at v (d @ comps f) = Some (RegularFile x m z)"
    proof (cases "f \<in> snd ` set news")
      case True
      then obtain ch where "ch \<in> set news" "snd ch = f" by blast
      with v(5) f show ?thesis by fastforce
    next
      case False
      have "needed_change sha (?loc f) (srv f) = None"
      proof (rule ccontr)
        assume "needed_change sha (?loc f) (srv f) \<noteq> None"
        then obtain ch where need: "needed_change sha (?loc f) (srv f) = Some ch" by blast
        then have "(ch, f) \<in> set gone" using needed False by force
        with old f show False by fastforce
      qed
      with f obtain y k where "?loc f = Some (y, k)" "sha x = sha y" "k = m"
        by (auto simp: needed_change_def split: option.splits prod.splits if_splits)
      with inj [OF f, of y k] loc_node [of f y k] obtain z where z: "node_at ?w (d @ comps f) = Some (RegularFile x m z)" by auto
      have "d @ comps f \<notin> (\<lambda>ch. d @ comps (snd ch)) ` set news"
      proof
        assume "d @ comps f \<in> (\<lambda>ch. d @ comps (snd ch)) ` set news"
        then obtain ch where ch: "ch \<in> set news" "comps f = comps (snd ch)" by auto
        then have "snd ch \<in> dom srv" using new by (simp add: step_ready_def)
        then show False using served_distinct [OF ok \<open>f \<in> dom srv\<close> _ ch(2)] ch(1) False by auto
      qed
      from only_dirs_other [OF v(4) this] z show ?thesis by auto
    qed
    then show ?thesis using u_at proper f by (auto simp: content_files_def)
  next
    case None
    show ?thesis
    proof (cases "proper_path f \<and> f \<noteq> ''manifest.json''")
      case True
      show ?thesis
      proof (cases "?loc f")
        case (Some yk)
        then have "needed_change sha (?loc f) (srv f) = Some REMOVED" using None by (cases yk) (simp add: needed_change_def)
        then have "(REMOVED, f) \<in> set gone" using needed changes(2) by fastforce
        then have "node_at u (d @ comps f) = None" using u(2) by fastforce
        then show ?thesis using None by (simp add: content_files_def)
      next
        case no: None
        then have plain: "node_at ?w (d @ comps f) \<noteq> Some (RegularFile y k z)" for y k z
          using True by (auto simp: content_files_def)
        have "d @ comps f \<notin> (\<lambda>ch. d @ comps (snd ch)) ` set news"
        proof
          assume "d @ comps f \<in> (\<lambda>ch. d @ comps (snd ch)) ` set news"
          then obtain ch where ch: "ch \<in> set news" "comps f = comps (snd ch)" by auto
          then have g: "snd ch \<in> dom srv" using new by (simp add: step_ready_def)
          then have "proper_path (snd ch)" using ok unfolding served_ok_def by blast
          then have "f = snd ch" using proper_path_inject True ch(2) by blast
          with g None show False by auto
        qed
        from only_dirs_other [OF v(4) this] have "node_at v (d @ comps f) \<noteq> Some (RegularFile y k z)" for y k z
          using plain [of y k z] by auto
        then have "node_at u (d @ comps f) \<noteq> Some (RegularFile y k z)" for y k z using u(2) by auto
        then show ?thesis using None by (auto simp: content_files_def split: option.splits node.splits)
      qed
    qed (use None in \<open>auto simp: content_files_def\<close>)
  qed
  then have "content_files u d = srv" by blast
  moreover have "do_all act (compareManifests J M) (put w) = (Inr (), put u)"
    unfolding changes(1) do_all_append using v(1) u(1) by (simp add: io_bind_def)
  ultimately show ?thesis using that u(3,4) by blast
qed

section \<open>The changes of a synchronisation\<close>

definition serves_now :: "'s content_stub \<Rightarrow> string \<Rightarrow> string \<Rightarrow> json \<Rightarrow> files \<Rightarrow> 's \<Rightarrow> bool" where
  "serves_now stub t c M srv s \<longleftrightarrow>
     (\<forall>f x m. srv f = Some (x, m) \<longrightarrow>
        getPermissionsFromManifest M f = Inr m \<and> stub_getFile stub t c f s = (Inr (Inr x), s))"

lemma sync_step:
  assumes "tree_ok (node_files n)" and "locate (node_files n) p = Some d" and "node_at (node_files n) d = Some Directory"
    and "served_ok srv" and "step_ready (node_files n) d srv ch"
    and serves: "serves_now stub t c M srv s"
  shows "\<exists>w' z. sync_change stub t c p M ch (n, s) = (Inr (), (n\<lparr>node_files := w'\<rparr>, s))
    \<and> tree_ok w' \<and> locate w' p = Some d \<and> only_dirs_above {d @ comps (snd ch)} (node_files n) w'
    \<and> node_at w' (d @ comps (snd ch)) = Some (RegularFile (fst (the (srv (snd ch)))) (snd (the (srv (snd ch)))) z)"
proof -
  let ?w = "node_files n"
  obtain k f where ch: "ch = (k, f)" by (cases ch)
  have "f \<in> dom srv" using assms(5) unfolding ch step_ready_def snd_conv by blast
  then obtain x m where f: "srv f = Some (x, m)" by (metis domD prod.exhaust)
  from \<open>f \<in> dom srv\<close> assms(4) have "proper_path f \<and> snd (the (srv f)) < 4096" unfolding served_ok_def by blast
  then have proper: "proper_path f" "m < 4096" unfolding f option.sel snd_conv by blast+
  have perm: "getPermissionsFromManifest M f = Inr m" and get: "stub_getFile stub t c f s = (Inr (Inr x), s)"
    using serves f unfolding serves_now_def by blast+
  have store: "can_store ?w d f" using assms(5) unfolding ch step_ready_def snd_conv by blast
  have fetch: "\<exists>w' z. fetch_file stub t c p M f (n, s) = (Inr (), (n\<lparr>node_files := w'\<rparr>, s))
    \<and> tree_ok w' \<and> locate w' p = Some d \<and> only_dirs_above {d @ comps f} ?w w' \<and> node_at w' (d @ comps f) = Some (RegularFile x m z)"
  proof -
    obtain v mode where v: "storeFile (path_append p f) x ?w = (Inr (), v)" "tree_ok v" "locate v p = Some d"
      "node_at v (d @ comps f) = Some (RegularFile x mode (clock ?w))" "only_dirs_above {d @ comps f} ?w v"
      by (rule storeFile_content [OF assms(1-3) proper(1) store, of x])
    obtain w' where
      w': "setPermissions (path_append p f) m v = (Inr (), w')" "tree_ok w'" "locate w' p = Some d"
      "node_at w' (d @ comps f) = Some (RegularFile x m (clock ?w))" "only_dirs_above {d @ comps f} v w'"
      by (rule setPermissions_below [OF v(2,3) proper(1) v(4) proper(2)])
    have "fetch_file stub t c p M f (n, s) = (Inr (), (n\<lparr>node_files := w'\<rparr>, s))"
      using v(1) w'(1) get perm
      by (simp add: fetch_file_def getFileFromServer_def io_bind_def remote_def expect_def io_lift_def locally_def on_files_def)
    moreover have "only_dirs_above {d @ comps f} ?w w'" using only_dirs_above_trans [OF v(5) w'(5)] by simp
    ultimately show ?thesis using w'(2-4) by blast
  qed
  show ?thesis
  proof (cases k)
    case ATTRIBUTES_CHANGED
    then obtain mode z where at: "node_at ?w (d @ comps f) = Some (RegularFile x mode z)"
      using assms(5) unfolding ch step_ready_def snd_conv fst_conv f option.sel by blast
    obtain w' where
      w': "setPermissions (path_append p f) m ?w = (Inr (), w')" "tree_ok w'" "locate w' p = Some d"
      "node_at w' (d @ comps f) = Some (RegularFile x m z)" "only_dirs_above {d @ comps f} ?w w'"
      by (rule setPermissions_below [OF assms(1,2) proper(1) at proper(2)])
    then have "sync_change stub t c p M ch (n, s) = (Inr (), (n\<lparr>node_files := w'\<rparr>, s))"
      using perm ch ATTRIBUTES_CHANGED by (simp add: io_bind_def io_lift_def locally_def on_files_def)
    with w'(2-5) show ?thesis unfolding ch snd_conv f option.sel fst_conv by blast
  next
    case REMOVED
    with assms(5) ch show ?thesis by (simp add: step_ready_def)
  next
    case ADDED
    show ?thesis unfolding ch ADDED snd_conv f option.sel fst_conv sync_change.simps by (rule fetch)
  next
    case MODIFIED
    show ?thesis unfolding ch MODIFIED snd_conv f option.sel fst_conv sync_change.simps by (rule fetch)
  qed
qed

lemma sync_applies:
  assumes "served_ok srv" and serves: "serves_now stub t c M srv s"
  shows "applies (sync_change stub t c p M) (\<lambda>w. (n\<lparr>node_files := w\<rparr>, s)) p d srv"
  unfolding applies_def
proof (intro conjI allI impI)
  fix w ch
  assume w: "tree_ok w" "locate w p = Some d" "node_at w d = Some Directory" "step_ready w d srv ch"
  let ?n = "n\<lparr>node_files := w\<rparr>"
  have sel: "node_files ?n = w" and upd: "?n\<lparr>node_files := v\<rparr> = n\<lparr>node_files := v\<rparr>" for v by simp_all
  show "\<exists>w' z. sync_change stub t c p M ch (?n, s) = (Inr (), (n\<lparr>node_files := w'\<rparr>, s)) \<and> tree_ok w' \<and> locate w' p = Some d
    \<and> only_dirs_above {d @ comps (snd ch)} w w'
    \<and> node_at w' (d @ comps (snd ch)) = Some (RegularFile (fst (the (srv (snd ch)))) (snd (the (srv (snd ch)))) z)"
    using sync_step [of ?n p d srv ch stub t c M s, unfolded sel upd, OF w(1-3) assms(1) w(4) serves] .
next
  fix w f x m a
  assume w: "tree_ok w" "locate w p = Some d" "proper_path f" "node_at w (d @ comps f) = Some (RegularFile x m a)"
  obtain ds y where f: "comps f = ds @ [y]" "list_all proper_name (ds @ [y])" "f = join_names (ds @ [y])"
    using w(3) by (rule proper_pathE)
  have "locate w (path_append p f) = Some (d @ comps f)"
    using locate_below [OF w(2,1) f(2)] w(4) f(1,3) by simp
  then show "sync_change stub t c p M (REMOVED, f) (n\<lparr>node_files := w\<rparr>, s) = (Inr (), (n\<lparr>node_files := drop_tree (d @ comps f) w\<rparr>, s))"
    by (simp add: locally_def on_files_def removeFileOrDirectory_def)
qed

section \<open>Synchronising from a source of contents\<close>

text \<open>
  What the client relies on: in a state that serves some files, asking for the manifest describes them
  and goes on serving them, and asking for one of the files returns its text.
\<close>

locale content_source =
  fixes stub :: "'s content_stub"
    and t :: string
    and c :: string
    and sha :: "string \<Rightarrow> string"
    and serves :: "'s \<Rightarrow> files \<Rightarrow> bool"
  assumes source_ok: "serves s srv \<Longrightarrow> served_ok srv"
    and source_manifest: "serves s srv \<Longrightarrow>
      \<exists>M s'. stub_getManifest stub t c s = (Inr (Inr M), s') \<and> describes sha M srv \<and> serves s' srv"
    and source_file: "serves s srv \<Longrightarrow> srv f = Some (x, m) \<Longrightarrow> stub_getFile stub t c f s = (Inr (Inr x), s)"
begin

lemma sync_reaches:
  assumes "serves s srv" and "getPathToContentDirectory env t c = Inr p"
    and manifest: "with_manifest env t c manifest_toJson n = (Inr J, n1)"
    and J: "describes sha J (content_files (node_files n1) d)"
    and place: "tree_ok (node_files n1)" "locate (node_files n1) p = Some d" "node_at (node_files n1) d = Some Directory"
    and "''..'' \<notin> set (comps p)"
    and room: "\<And>f. f \<in> dom srv \<Longrightarrow> can_store (node_files n1) d f"
    and inj: "\<And>f x m y k. srv f = Some (x, m) \<Longrightarrow> content_files (node_files n1) d f = Some (y, k) \<Longrightarrow> sha x = sha y \<Longrightarrow> x = y"
  shows "\<exists>n2 s2. syncContent env stub t c (n, s) = (Inr (), (n2, s2)) \<and> content_files (node_files n2) d = srv
    \<and> serves s2 srv"
proof -
  obtain M s1 where M: "stub_getManifest stub t c s = (Inr (Inr M), s1)" "describes sha M srv" "serves s1 srv"
    using source_manifest [OF assms(1)] by blast
  have now: "serves_now stub t c M srv s1"
    using M(2) source_file [OF M(3)] unfolding serves_now_def describes_def by blast
  obtain u where u: "do_all (sync_change stub t c p M) (compareManifests J M) (n1\<lparr>node_files := node_files n1\<rparr>, s1) =
      (Inr (), (n1\<lparr>node_files := u\<rparr>, s1))" "content_files u d = srv"
    by (rule changes_applied [OF sync_applies [OF source_ok [OF assms(1)] now] assms(8) source_ok [OF assms(1)] J M(2) place room inj])
  have "syncContent env stub t c (n, s) = do_all (sync_change stub t c p M) (compareManifests J M) (n1, s1)"
    using assms(2) M(1) manifest
    by (simp add: syncContent_def local_content_path_def getPathToContentDirectory_def getManifestFromServer_def
        local_manifest_def io_bind_def io_lift_def remote_def expect_def locally_def)
  with u M(3) show ?thesis by auto
qed

end

end
