(* ===== verification/Zip.thy ===== *)
theory Zip
  imports Content_Sync "HOL-Library.Word"
begin

unbundle bit_operations_syntax

text \<open>
  Zip archives: \<open>packDirectoryToZip\<close> and \<open>unpackZipToDirectory\<close> of \<open>modules/shared/utils/src/filesystem.cpp\<close>.

  Of libzip the code sees an archive as the list of its entries; how archives are laid out in a file is a parameter.
  Closing a new archive writes it, unless it has no entries: then libzip removes the file, as its manual says.
  Allocation does not fail, and the disk does not fill up.
\<close>

section \<open>Archives\<close>

text \<open>
  An entry: its name, which may be unreadable, whether it opens, what successive reads return before the last,
  whether the last read is an error, and the attributes for Unix, if they are that.
\<close>

record archive_entry =
  entry_name :: "string option"
  entry_opens :: bool
  entry_reads :: "string list"
  entry_broken :: bool
  entry_attributes :: "32 word option"

record libzip =
  zip_can_create :: "fs \<Rightarrow> string \<Rightarrow> bool"
  zip_can_add :: "string \<Rightarrow> bool"
  zip_bytes :: "archive_entry list \<Rightarrow> string"
  zip_read :: "string \<Rightarrow> archive_entry list option"

definition zip_close :: "libzip \<Rightarrow> string \<Rightarrow> archive_entry list \<Rightarrow> (fs, bool) io" where
  "zip_close lib p es =
     (if es = [] then io_bind (fs_remove p) (\<lambda>_. io_return True)
      else io_bind (open_new p) (\<lambda>opened. if opened then io_bind (write_file p (zip_bytes lib es)) (\<lambda>_. io_return True) else io_return False))"

section \<open>Packing\<close>

text \<open>The regular files below a directory: the names that lead to it, its text and its mode.\<close>

fun file_below :: "place \<Rightarrow> place \<times> node \<Rightarrow> (string list \<times> string \<times> nat) list" where
  "file_below d (k, Directory) = []"
| "file_below d (k, RegularFile t m s) = (if is_prefix d k \<and> k \<noteq> d then [(drop (length d) k, t, m)] else [])"

definition files_below :: "fs \<Rightarrow> place \<Rightarrow> (string list \<times> string \<times> nat) list" where
  "files_below w d = concat (map (file_below d) (nodes w))"

text \<open>The mode of a regular file, \<open>S_IFREG\<close> and its permissions, in the upper half of the attributes.\<close>

definition regular_mode :: "nat \<Rightarrow> 32 word" where
  "regular_mode m = of_nat (32768 + m)"

definition pack_entry :: "string list \<times> string \<times> nat \<Rightarrow> archive_entry" where
  "pack_entry f =
     \<lparr>entry_name = Some (join_names (fst f)), entry_opens = True, entry_reads = [fst (snd f)], entry_broken = False,
      entry_attributes = Some (push_bit 16 (regular_mode (snd (snd f))))\<rparr>"

text \<open>A name libzip refuses ends the packing: the archive is closed with the files before it.\<close>

fun pack_files ::
    "libzip \<Rightarrow> string \<Rightarrow> (string list \<times> string \<times> nat) list \<Rightarrow> archive_entry list \<Rightarrow> (fs, archive_entry list) io" where
  "pack_files lib zip_path [] es = io_return es"
| "pack_files lib zip_path (f # fs) es =
     (if \<not> zip_can_add lib (join_names (fst f))
      then io_bind (zip_close lib zip_path es) (\<lambda>_. io_lift (Inl (RuntimeError (''Failed to add file to zip: '' @ join_names (fst f)))))
      else pack_files lib zip_path fs (es @ [pack_entry f]))"

definition packDirectoryToZip :: "libzip \<Rightarrow> string \<Rightarrow> string \<Rightarrow> (fs, unit) io" where
  "packDirectoryToZip lib directory_path zip_path w =
     (if \<not> zip_can_create lib w zip_path then (Inl (RuntimeError (''Failed to create zip file: '' @ zip_path)), w)
      else case locate w directory_path of
        None \<Rightarrow> (Inl (FilesystemError ''recursive directory iterator cannot open directory''), w)
      | Some d \<Rightarrow>
          if node_at w d \<noteq> Some Directory
          then (Inl (FilesystemError ''recursive directory iterator cannot open directory''), w)
          else io_bind (pack_files lib zip_path (files_below w d) []) (\<lambda>es.
               io_bind (zip_close lib zip_path es) (\<lambda>closed.
                 if closed then io_return () else io_lift (Inl (RuntimeError (''Failed to close zip file: '' @ zip_path))))) w)"

section \<open>Unpacking\<close>

definition entry_mode :: "archive_entry \<Rightarrow> nat" where
  "entry_mode e = (case entry_attributes e of None \<Rightarrow> 0 | Some attr \<Rightarrow> unat (drop_bit 16 attr AND 0xFFFF))"

definition unpack_entry :: "string \<Rightarrow> archive_entry \<Rightarrow> (fs, unit) io" where
  "unpack_entry directory_path e =
     (case entry_name e of
        None \<Rightarrow> io_lift (Inl (RuntimeError ''Failed to get name of entry''))
      | Some name \<Rightarrow>
          (let file_path = path_append directory_path name in
           if name = [] then io_lift (Inl UndefinedBehaviour)
           else if last name = CHR ''/'' then io_bind (create_directories file_path) (\<lambda>_. io_return ())
           else if \<not> entry_opens e then io_lift (Inl (RuntimeError (''Failed to open entry: '' @ name)))
           else
             io_bind (create_directories (parent_path file_path)) (\<lambda>_.
             io_bind (open_new file_path) (\<lambda>opened.
               if \<not> opened then io_lift (Inl (RuntimeError (''Failed to open output file: '' @ file_path)))
               else io_bind (write_file file_path (concat (entry_reads e))) (\<lambda>_.
                 if entry_broken e then io_lift (Inl (RuntimeError (''Read error in zip entry: '' @ name)))
                 else if entry_mode e \<noteq> 0 then setPermissions file_path (entry_mode e)
                 else io_return ())))))"

fun unpack_entries :: "string \<Rightarrow> archive_entry list \<Rightarrow> (fs, unit) io" where
  "unpack_entries directory_path [] = io_return ()"
| "unpack_entries directory_path (e # es) =
     io_bind (unpack_entry directory_path e) (\<lambda>_. unpack_entries directory_path es)"

definition open_archive :: "libzip \<Rightarrow> fs \<Rightarrow> string \<Rightarrow> archive_entry list option" where
  "open_archive lib w p = (case node_of w p of Some (RegularFile t m s) \<Rightarrow> zip_read lib t | _ \<Rightarrow> None)"

definition unpackZipToDirectory :: "libzip \<Rightarrow> string \<Rightarrow> string \<Rightarrow> (fs, unit) io" where
  "unpackZipToDirectory lib zip_path directory_path w =
     (if \<not> fs_exists w zip_path then (Inl (RuntimeError (''Zip file does not exist: '' @ zip_path)), w)
      else case open_archive lib w zip_path of
        None \<Rightarrow> (Inl (RuntimeError (''Failed to open zip file: '' @ zip_path)), w)
      | Some es \<Rightarrow> io_bind (create_directories directory_path) (\<lambda>_. unpack_entries directory_path es) w)"

section \<open>One entry\<close>

text \<open>The bits above the permissions do not reach them.\<close>

lemma upper_mode: "(32768 + m) mod 4096 = m mod 4096" for m :: nat
proof -
  have "32768 + m = m + 8 * 4096" by simp
  then show ?thesis by (simp only: mod_mult_self1)
qed

lemma upper_half: "drop_bit 16 (push_bit 16 x) AND 0xFFFF = take_bit 16 x" for x :: "32 word"
proof -
  have "(0xFFFF :: 32 word) = mask 16" by (simp add: mask_eq_exp_minus_1)
  then have "drop_bit 16 (push_bit 16 x) AND 0xFFFF = take_bit 16 (drop_bit 16 (push_bit 16 x))"
    by (simp only: take_bit_eq_mask)
  also have "\<dots> = take_bit 16 x" by (rule bit_word_eqI) (auto simp: bit_simps)
  finally show ?thesis .
qed

lemma entry_mode_packed: "m < 4096 \<Longrightarrow> entry_mode (pack_entry (cs, t, m)) = 32768 + m"
proof -
  assume "m < 4096"
  then have "entry_mode (pack_entry (cs, t, m)) = unat (take_bit 16 (of_nat (32768 + m) :: 32 word))"
    using upper_half [of "of_nat (32768 + m)"] by (simp add: entry_mode_def pack_entry_def regular_mode_def)
  also have "\<dots> = take_bit 16 (32768 + m)" by (simp only: unsigned_take_bit_eq unat_of_nat) (simp add: take_bit_nat_def mod_mod_cancel)
  also have "\<dots> = 32768 + m" using \<open>m < 4096\<close> by (simp add: take_bit_nat_def)
  finally show ?thesis .
qed

lemma create_dirs_existing:
  "walk w k cs = Some l \<Longrightarrow> node_at w l = Some Directory \<Longrightarrow> \<exists>m. create_dirs w made k cs = (Some m, w)"
proof (induction cs arbitrary: k made)
  case Nil
  then show ?case by (auto split: if_splits)
next
  case (Cons c cs)
  then obtain m where m: "step_name w k c = Some m" "walk w m cs = Some l" by (auto split: Option.bind_splits)
  from Cons.IH [OF m(2) Cons.prems(2)] m(1) show ?case by (auto simp: step_name_def split: if_splits)
qed

lemma create_directories_existing:
  assumes "locate w p = Some k" and "node_at w k = Some Directory"
  shows "\<exists>m. create_directories p w = (Inr m, w)"
proof -
  have "p \<noteq> []" "walk w (origin w p) (names p) = Some k" using assms(1) by (auto simp: locate_def split: if_splits)
  from create_dirs_existing [OF this(2) assms(2), of False] this(1) show ?thesis by (auto simp: create_directories_def)
qed

text \<open>Writing an entry to a place where nothing is does what storing its text there does.\<close>

lemma unpack_stores:
  assumes "storeFile p text w = (Inr (), w')" and "locate w p = None" and "parent_path p \<noteq> []"
  shows "io_bind (create_directories (parent_path p)) (\<lambda>_. io_bind (open_new p) (\<lambda>opened.
      if \<not> opened then io_lift (Inl e) else io_bind (write_file p text) f)) w = f () w'"
proof -
  obtain b u where u: "createFileIfNotExists p w = (Inr b, u)"
    "(if \<not> b then io_lift (Inl (RuntimeError (''Failed to create file: '' @ p))) else write_file p text) u = (Inr (), w')"
    using assms(1) unfolding storeFile_def by (rule io_bind_InrE) blast
  then have b: b "write_file p text u = (Inr (), w')" by (auto simp: io_lift_def split: if_splits)
  have "io_bind (createDirectoryIfNotExists (parent_path p)) (\<lambda>made. if \<not> made then io_return False else open_new p) w = (Inr True, u)"
    using u(1) b(1) assms(2) by (simp add: createFileIfNotExists_def fs_exists_def)
  then obtain made v where v: "createDirectoryIfNotExists (parent_path p) w = (Inr made, v)"
    "(if \<not> made then io_return False else open_new p) v = (Inr True, u)" by (rule io_bind_InrE)
  then have opened: "open_new p v = (Inr True, u)" by (auto simp: io_return_def split: if_splits)
  have "\<exists>m. create_directories (parent_path p) w = (Inr m, v)"
  proof (cases "fs_exists w (parent_path p)")
    case True
    then have "v = w" using v(1) by (simp add: createDirectoryIfNotExists_def)
    moreover from opened assms(3) obtain d where "locate v (parent_path p) = Some d" "node_at v d = Some Directory"
      by (auto simp: open_new_def split: option.splits if_splits)
    ultimately show ?thesis using create_directories_existing by blast
  qed (use v(1) in \<open>auto simp: createDirectoryIfNotExists_def\<close>)
  with opened b(2) show ?thesis by (auto simp: io_bind_def)
qed


lemma unpack_entry_ok:
  assumes "tree_ok w" and "locate w q = Some b" and "node_at w b = Some Directory"
    and "list_all proper_name cs" and "cs \<noteq> []" and "can_store w b (join_names cs)" and "node_at w (b @ cs) = None" and "m < 4096"
  obtains w' s where "unpack_entry q (pack_entry (cs, t, m)) w = (Inr (), w')" "tree_ok w'" "locate w' q = Some b"
    "node_at w' (b @ cs) = Some (RegularFile t m s)" "only_dirs_above {b @ cs} w w'"
proof -
  let ?f = "join_names cs"
  have comps: "comps ?f = cs" by (rule comps_join [OF assms(4)])
  then have f: "proper_path ?f" using assms(4,5) by (simp add: proper_path_def)
  have ends: "?f \<noteq> []" "last ?f \<noteq> CHR ''/''" using join_names_ends [OF assms(4,5)] by blast+
  obtain w1 k where w1: "storeFile (path_append q ?f) t w = (Inr (), w1)" "tree_ok w1" "locate w1 q = Some b"
    "node_at w1 (b @ cs) = Some (RegularFile t k (clock w))" "only_dirs_above {b @ cs} w w1"
    by (rule storeFile_content [OF assms(1-3) f assms(6), of t, unfolded comps])
  obtain w2 where w2: "setPermissions (path_append q ?f) (32768 + m) w1 = (Inr (), w2)" "tree_ok w2" "locate w2 q = Some b"
    "node_at w2 (b @ cs) = Some (RegularFile t m (clock w))" "only_dirs_above {b @ cs} w1 w2"
  proof -
    obtain w2 where
      w2: "setPermissions (path_append q ?f) m w1 = (Inr (), w2)" "tree_ok w2" "locate w2 q = Some b"
      "node_at w2 (b @ cs) = Some (RegularFile t m (clock w))" "only_dirs_above {b @ cs} w1 w2"
      by (rule setPermissions_below [OF w1(2,3) f, unfolded comps, OF w1(4) assms(8)])
    have "setPermissions (path_append q ?f) (32768 + m) w1 = setPermissions (path_append q ?f) m w1"
      by (simp only: setPermissions_def upper_mode)
    with w2 that show ?thesis by simp
  qed
  have missing1: "locate w (path_append q ?f) = None" using locate_below [OF assms(2,1,4,5)] assms(7) by simp
  have missing2: "parent_path (path_append q ?f) \<noteq> []"
  proof -
    obtain ds x where "cs = ds @ [x]" using assms(5) by (cases cs rule: rev_cases) auto
    then have "list_all proper_name (ds @ [x])" using assms(4) by simp
    then show ?thesis unfolding \<open>cs = ds @ [x]\<close> by (rule parent_below [OF assms(2)])
  qed
  note missing = missing1 missing2
  have "unpack_entry q (pack_entry (cs, t, m)) w =
      io_bind (create_directories (parent_path (path_append q ?f))) (\<lambda>_.
        io_bind (open_new (path_append q ?f)) (\<lambda>opened.
          if \<not> opened then io_lift (Inl (RuntimeError (''Failed to open output file: '' @ path_append q ?f)))
          else io_bind (write_file (path_append q ?f) t) (\<lambda>_. setPermissions (path_append q ?f) (32768 + m)))) w"
    using ends entry_mode_packed [OF assms(8), of cs t]
    by (simp add: unpack_entry_def pack_entry_def Let_def cong: if_cong)
  also have "\<dots> = (Inr (), w2)"
    by (subst unpack_stores [OF w1(1) missing]) (rule w2(1))
  finally have "unpack_entry q (pack_entry (cs, t, m)) w = (Inr (), w2)" .
  moreover have "only_dirs_above {b @ cs} w w2" using only_dirs_above_trans [OF w1(5) w2(5)] by simp
  ultimately show ?thesis using that w2(2-4) by blast
qed

section \<open>All of them\<close>

lemma unpack_files:
  assumes "tree_ok w" and "locate w q = Some b" and "node_at w b = Some Directory" and "distinct (map fst fs)"
    and "\<forall>f\<in>set fs. list_all proper_name (fst f) \<and> fst f \<noteq> [] \<and> snd (snd f) < 4096
      \<and> node_at w (b @ fst f) = None \<and> free_way w b (butlast (fst f))"
    and "\<forall>f\<in>set fs. \<forall>g\<in>set fs. is_prefix (fst f) (fst g) \<longrightarrow> fst f = fst g"
  shows "\<exists>w'. unpack_entries q (map pack_entry fs) w = (Inr (), w') \<and> only_dirs_above ((\<lambda>f. b @ fst f) ` set fs) w w'
    \<and> (\<forall>f\<in>set fs. \<exists>s. node_at w' (b @ fst f) = Some (RegularFile (fst (snd f)) (snd (snd f)) s))"
  using assms
proof (induction fs arbitrary: w)
  case Nil
  then show ?case by (simp add: io_return_def only_dirs_above_def)
next
  case (Cons f fs)
  obtain cs t m where f: "f = (cs, t, m)" by (cases f)
  have cs: "list_all proper_name cs" "cs \<noteq> []" "m < 4096" "node_at w (b @ cs) = None" "free_way w b (butlast cs)"
    using Cons.prems(5) f by auto
  have "can_store w b (join_names cs)" using cs(1,4,5) by (simp add: can_store_def comps_join)
  then obtain v s where v: "unpack_entry q (pack_entry (cs, t, m)) w = (Inr (), v)" "tree_ok v" "locate v q = Some b"
      "node_at v (b @ cs) = Some (RegularFile t m s)" "only_dirs_above {b @ cs} w v"
    by (rule unpack_entry_ok [OF Cons.prems(1-3) cs(1,2) _ cs(4,3)])
  have dir: "node_at v b = Some Directory" using only_dirs_directory [OF v(5) _ Cons.prems(3)] cs(2) by simp
  have apart: "\<not> is_prefix cs (fst g)" "\<not> is_prefix (fst g) cs" if "g \<in> set fs" for g
    using Cons.prems(4,6) f that by (auto simp: image_iff)
  have rest: "\<forall>g\<in>set fs. list_all proper_name (fst g) \<and> fst g \<noteq> [] \<and> snd (snd g) < 4096
      \<and> node_at v (b @ fst g) = None \<and> free_way v b (butlast (fst g))"
  proof
    fix g assume g: "g \<in> set fs"
    have "node_at v (b @ fst g) = None"
    proof (rule ccontr)
      assume "node_at v (b @ fst g) \<noteq> None"
      moreover have "node_at w (b @ fst g) = None" "fst g \<noteq> cs" using Cons.prems(5) g apart [OF g] by auto
      ultimately have "is_prefix (b @ fst g) (b @ cs)"
        using v(5) unfolding only_dirs_above_def by (metis append_same_eq same_append_eq singletonD)
      then show False using apart(2) [OF g] by (auto simp: is_prefix_append)
    qed
    moreover have "free_way v b (butlast (fst g))"
      unfolding free_way_def
    proof (intro allI impI)
      fix r assume r: "is_prefix r (butlast (fst g))"
      then have "is_prefix r (fst g)" using Cons.prems(5) g
        by (auto simp: is_prefix_append) (metis append_assoc append_butlast_last_id)
      then have "b @ r \<noteq> b @ cs" using apart(1) [OF g] by auto
      moreover have "node_at w (b @ r) \<in> {None, Some Directory}"
        using Cons.prems(5) g r unfolding free_way_def by simp
      ultimately show "node_at v (b @ r) \<in> {None, Some Directory}"
        using only_dirs_other [OF v(5), of "b @ r"] by auto
    qed
    ultimately show "list_all proper_name (fst g) \<and> fst g \<noteq> [] \<and> snd (snd g) < 4096
      \<and> node_at v (b @ fst g) = None \<and> free_way v b (butlast (fst g))" using Cons.prems(5) g by simp
  qed
  obtain w' where w': "unpack_entries q (map pack_entry fs) v = (Inr (), w')" "only_dirs_above ((\<lambda>f. b @ fst f) ` set fs) v w'"
    "\<forall>f\<in>set fs. \<exists>s. node_at w' (b @ fst f) = Some (RegularFile (fst (snd f)) (snd (snd f)) s)"
    using Cons.IH [OF v(2,3) dir _ rest] Cons.prems(4,6) by auto
  have "b @ cs \<notin> (\<lambda>f. b @ fst f) ` set fs" using Cons.prems(4) f by auto
  from only_dirs_other [OF w'(2) this] v(4) have "node_at w' (b @ cs) = Some (RegularFile t m s)" by simp
  moreover have "only_dirs_above ((\<lambda>f. b @ fst f) ` set (f # fs)) w w'"
    using only_dirs_above_trans [OF v(5) w'(2)] f by simp
  ultimately show ?case using v(1) w'(1,3) f by (simp add: io_bind_def)
qed


section \<open>What packing finds\<close>

lemma file_below_iff: "(cs, t, m) \<in> set (file_below d e) \<longleftrightarrow> cs \<noteq> [] \<and> fst e = d @ cs \<and> (\<exists>s. snd e = RegularFile t m s)"
  by (cases "(d, e)" rule: file_below.cases) (auto simp: is_prefix_append)

lemma file_below_place: "f \<in> set (file_below d e) \<Longrightarrow> fst e = d @ fst f"
  using file_below_iff [of "fst f" "fst (snd f)" "snd (snd f)" d e] by simp

lemma files_below_iff:
  assumes "distinct (map fst (nodes w))"
  shows "(cs, t, m) \<in> set (files_below w d) \<longleftrightarrow> cs \<noteq> [] \<and> (\<exists>s. node_at w (d @ cs) = Some (RegularFile t m s))"
proof -
  have "(cs, t, m) \<in> set (files_below w d) \<longleftrightarrow> cs \<noteq> [] \<and> (\<exists>s. (d @ cs, RegularFile t m s) \<in> set (nodes w))"
    unfolding files_below_def using file_below_iff [of cs t m d] by (auto simp del: file_below.simps) (metis fst_conv snd_conv)
  also have "\<dots> \<longleftrightarrow> cs \<noteq> [] \<and> (\<exists>s. node_at w (d @ cs) = Some (RegularFile t m s))"
    using assms by (auto simp: node_at_def)
  finally show ?thesis .
qed

lemma files_below_distinct:
  assumes "distinct (map fst (nodes w))"
  shows "distinct (map fst (files_below w d))"
proof -
  have "distinct (map fst ns) \<Longrightarrow> distinct (map fst (concat (map (file_below d) ns)))" for ns
  proof (induction ns)
    case (Cons e ns)
    have "distinct (map fst (file_below d e))" by (cases "(d, e)" rule: file_below.cases) auto
    moreover have "fst ` set (file_below d e) \<inter> fst ` set (concat (map (file_below d) ns)) = {}"
    proof (rule ccontr)
      assume "fst ` set (file_below d e) \<inter> fst ` set (concat (map (file_below d) ns)) \<noteq> {}"
      then obtain f g x where f: "f \<in> set (file_below d e)" "x \<in> set ns" "g \<in> set (file_below d x)" "fst f = fst g"
        by fastforce
      then have "fst e = d @ fst f" "fst x = d @ fst g" using file_below_place by blast+
      with f(2,4) Cons.prems show False by force
    qed
    ultimately show ?case using Cons by simp
  qed simp
  with assms show ?thesis by (simp add: files_below_def)
qed

lemma pack_files_Inr:
  "pack_files lib p fs es w = (Inr es', w') \<Longrightarrow> es' = es @ map pack_entry fs \<and> w' = w"
proof (induction fs arbitrary: es)
  case (Cons f fs)
  show ?case
  proof (cases "zip_can_add lib (join_names (fst f))")
    case True
    with Cons.IH [of "es @ [pack_entry f]"] Cons.prems show ?thesis by simp
  next
    case False
    with Cons.prems show ?thesis by (auto elim!: io_bind_InrE simp: io_lift_def)
  qed
qed (simp add: io_return_def)

lemma pack_files_all:
  "(\<And>f. f \<in> set fs \<Longrightarrow> zip_can_add lib (join_names (fst f))) \<Longrightarrow> pack_files lib p fs es w = (Inr (es @ map pack_entry fs), w)"
  by (induction fs arbitrary: es) (simp_all add: io_return_def)

lemma write_file_reads:
  assumes "write_file p x u = (Inr (), v)"
  shows "\<exists>m s. node_of v p = Some (RegularFile x m s)"
proof -
  from assms obtain k t m s where k: "locate u p = Some k" "node_at u k = Some (RegularFile t m s)"
    "v = put_node k (RegularFile x m (clock u)) u"
    by (auto simp: write_file_def split: option.splits node.splits)
  have "k \<noteq> []" using k(2) by (auto simp: node_at_def)
  with k locate_rewrite_file [OF k(2,1)] show ?thesis by (simp add: node_of_def node_at_put)
qed

text \<open>A successful packing of at least one file leaves an archive of all of them.\<close>

lemma packed:
  assumes "packDirectoryToZip lib src p w = (Inr (), w1)" and "locate w src = Some d" and "files_below w d \<noteq> []"
  shows "\<exists>m s. node_of w1 p = Some (RegularFile (zip_bytes lib (map pack_entry (files_below w d))) m s)"
    and "tree_ok w \<Longrightarrow> tree_ok w1"
proof -
  let ?es = "map pack_entry (files_below w d)"
  have "io_bind (pack_files lib p (files_below w d) []) (\<lambda>es. io_bind (zip_close lib p es) (\<lambda>closed.
      if closed then io_return () else io_lift (Inl (RuntimeError (''Failed to close zip file: '' @ p))))) w = (Inr (), w1)"
    using assms(1,2) by (auto simp: packDirectoryToZip_def split: if_splits)
  then obtain es v where es: "pack_files lib p (files_below w d) [] w = (Inr es, v)"
    "io_bind (zip_close lib p es) (\<lambda>closed.
      if closed then io_return () else io_lift (Inl (RuntimeError (''Failed to close zip file: '' @ p)))) v = (Inr (), w1)"
    by (rule io_bind_InrE)
  from pack_files_Inr [OF es(1)] have v: "es = ?es" "v = w" by simp_all
  from es(2) obtain closed u where u: "zip_close lib p es v = (Inr closed, u)"
    "(if closed then io_return () else io_lift (Inl (RuntimeError (''Failed to close zip file: '' @ p)))) u = (Inr (), w1)"
    by (rule io_bind_InrE)
  then have "zip_close lib p ?es w = (Inr True, w1)" using v by (auto simp: io_return_def io_lift_def split: if_splits)
  then have "io_bind (open_new p) (\<lambda>opened. if opened then io_bind (write_file p (zip_bytes lib ?es)) (\<lambda>_. io_return True) else io_return False) w
      = (Inr True, w1)"
    using assms(3) by (simp add: zip_close_def)
  then obtain opened u' where u': "open_new p w = (Inr opened, u')"
    "(if opened then io_bind (write_file p (zip_bytes lib ?es)) (\<lambda>_. io_return True) else io_return False) u' = (Inr True, w1)"
    by (rule io_bind_InrE)
  then have "io_bind (write_file p (zip_bytes lib ?es)) (\<lambda>_. io_return True) u' = (Inr True, w1)"
    by (auto simp: io_return_def split: if_splits)
  then have written: "write_file p (zip_bytes lib ?es) u' = (Inr (), w1)"
    by (rule io_bind_InrE) (simp add: io_return_def)
  from write_file_reads [OF this] show "\<exists>m s. node_of w1 p = Some (RegularFile (zip_bytes lib ?es) m s)" .
  show "tree_ok w1" if "tree_ok w"
    using tree_ok_write [OF tree_ok_open [OF that, of p], of p "zip_bytes lib ?es"] u'(1) written by simp
qed

section \<open>Properties\<close>

text \<open>
  C20: what is packed can be unpacked.  Pack a directory with at least one file, all with proper names, and unpack the
  archive into a directory that is new or empty: unpacking succeeds, and below the new directory are, under the same paths, exactly
  the files of the old one with their texts and permissions.
\<close>

theorem pack_unpack:
  assumes library: "zip_read lib (zip_bytes lib (map pack_entry (files_below w d))) = Some (map pack_entry (files_below w d))"
    and "tree_ok w" and "distinct (map fst (nodes w))" and "locate w src = Some d"
    and "\<And>cs t m s. node_at w (d @ cs) = Some (RegularFile t m s) \<Longrightarrow> list_all proper_name cs \<and> m < 4096"
    and "files_below w d \<noteq> []" and "packDirectoryToZip lib src p w = (Inr (), w1)"
    and "create_directories q w1 = (Inr made, v)" and "locate v q = Some b" and "node_at v b = Some Directory"
    and "\<And>r. r \<noteq> [] \<Longrightarrow> node_at v (b @ r) = None"
  shows "\<exists>w2. unpackZipToDirectory lib p q w1 = (Inr (), w2)
    \<and> (\<forall>cs t m. cs \<noteq> [] \<longrightarrow> (\<exists>s. node_at w2 (b @ cs) = Some (RegularFile t m s)) = (\<exists>s. node_at w (d @ cs) = Some (RegularFile t m s)))"
proof -
  let ?fs = "files_below w d"
  note below = files_below_iff [OF assms(3), of _ _ _ d]
  from packed [OF assms(7,4,6)] assms(2) obtain m s where
    archive: "node_of w1 p = Some (RegularFile (zip_bytes lib (map pack_entry ?fs)) m s)" and tree: "tree_ok w1" by blast
  have tree_v: "tree_ok v" using tree_ok_create_directories [OF tree, of q] assms(8) by simp
  have one: "\<forall>f\<in>set ?fs. list_all proper_name (fst f) \<and> fst f \<noteq> [] \<and> snd (snd f) < 4096
      \<and> node_at v (b @ fst f) = None \<and> free_way v b (butlast (fst f))"
  proof
    fix f assume "f \<in> set ?fs"
    then have f: "fst f \<noteq> []" "\<exists>s. node_at w (d @ fst f) = Some (RegularFile (fst (snd f)) (snd (snd f)) s)"
      using below [of "fst f" "fst (snd f)" "snd (snd f)"] by simp_all
    have "free_way v b (butlast (fst f))"
      unfolding free_way_def using assms(10,11) by (metis append_Nil2 insertCI)
    with f assms(5,11) show "list_all proper_name (fst f) \<and> fst f \<noteq> [] \<and> snd (snd f) < 4096
      \<and> node_at v (b @ fst f) = None \<and> free_way v b (butlast (fst f))" by blast
  qed
  have two: "\<forall>f\<in>set ?fs. \<forall>g\<in>set ?fs. is_prefix (fst f) (fst g) \<longrightarrow> fst f = fst g"
  proof (intro ballI impI)
    fix f g assume fg: "f \<in> set ?fs" "g \<in> set ?fs" "is_prefix (fst f) (fst g)"
    obtain r where r: "fst g = fst f @ r" using fg(3) by (auto simp: is_prefix_append)
    have "\<exists>s. node_at w (d @ fst f) = Some (RegularFile (fst (snd f)) (snd (snd f)) s)" "node_at w (d @ fst g) \<noteq> None"
      using below [of "fst f" "fst (snd f)" "snd (snd f)"] below [of "fst g" "fst (snd g)" "snd (snd g)"] fg by auto
    then have "r = []" using tree_ok_file_above [OF assms(2), of "d @ fst f" _ _ _ r] r by (metis append_assoc)
    with r show "fst f = fst g" by simp
  qed
  obtain w2 where w2: "unpack_entries q (map pack_entry ?fs) v = (Inr (), w2)" "only_dirs_above ((\<lambda>f. b @ fst f) ` set ?fs) v w2"
    "\<forall>f\<in>set ?fs. \<exists>s. node_at w2 (b @ fst f) = Some (RegularFile (fst (snd f)) (snd (snd f)) s)"
    using unpack_files [OF tree_v assms(9,10) files_below_distinct [OF assms(3)] one two] by blast
  have "fs_exists w1 p" using archive by (cases "locate w1 p") (simp_all add: fs_exists_def node_of_def)
  moreover have "open_archive lib w1 p = Some (map pack_entry ?fs)" using archive library by (simp add: open_archive_def)
  ultimately have run: "unpackZipToDirectory lib p q w1 = (Inr (), w2)"
    using assms(8) w2(1) by (simp add: unpackZipToDirectory_def io_bind_def)
  have same: "(\<exists>s. node_at w2 (b @ cs) = Some (RegularFile t m s)) \<longleftrightarrow> (cs, t, m) \<in> set ?fs" if cs: "cs \<noteq> []" for cs t m
  proof
    assume "(cs, t, m) \<in> set ?fs"
    with w2(3) show "\<exists>s. node_at w2 (b @ cs) = Some (RegularFile t m s)" by fastforce
  next
    assume "\<exists>s. node_at w2 (b @ cs) = Some (RegularFile t m s)"
    then obtain s where s: "node_at w2 (b @ cs) = Some (RegularFile t m s)" ..
    have "b @ cs \<in> (\<lambda>f. b @ fst f) ` set ?fs"
      using only_dirs_other [OF w2(2), of "b @ cs"] s assms(11) [OF cs] by auto
    then obtain f where f: "f \<in> set ?fs" "fst f = cs" by auto
    with w2(3) s have "fst (snd f) = t" "snd (snd f) = m" by fastforce+
    with f show "(cs, t, m) \<in> set ?fs" by (metis prod.collapse)
  qed
  then have "\<forall>cs t m. cs \<noteq> [] \<longrightarrow> (\<exists>s. node_at w2 (b @ cs) = Some (RegularFile t m s)) = (\<exists>s. node_at w (d @ cs) = Some (RegularFile t m s))"
    using below by simp
  with run show ?thesis by blast
qed


definition sample_library :: "archive_entry list \<Rightarrow> libzip" where
  "sample_library es = \<lparr>zip_can_create = (\<lambda>w p. True), zip_can_add = (\<lambda>n. True), zip_bytes = (\<lambda>es. ''PK''),
     zip_read = (\<lambda>t. if t = ''PK'' then Some es else None)\<rparr>"

definition sample_source :: fs where
  "sample_source =
     put_node [''a'', ''b'', ''y''] (RegularFile ''inner'' 420 0) (put_node [''a'', ''b''] Directory
       (put_node [''a'', ''x''] (RegularFile ''top'' 493 0) (put_node [''a''] Directory
         \<lparr>nodes = [], cwd = [], clock = 5, new_permissions = 420\<rparr>)))"

lemma sample_source_node:
  "node_at sample_source l = (if l = [''a'', ''b'', ''y''] then Some (RegularFile ''inner'' 420 0)
     else if l \<in> {[''a'', ''b''], [''a''], []} then Some Directory
     else if l = [''a'', ''x''] then Some (RegularFile ''top'' 493 0) else None)"
  by (simp add: sample_source_def node_at_put) (simp add: node_at_def)

lemma sample_source_tree: "tree_ok sample_source"
proof -
  have "l = [] \<or> l = [''a''] \<or> l = [''a'', ''b'']" if "node_at sample_source (l @ [x]) \<noteq> None" for l x
    using that by (auto simp: sample_source_node append_eq_Cons_conv split: if_splits)
  then show ?thesis unfolding tree_ok_def by (auto simp: sample_source_node)
qed

lemma sample_packed:
  "packDirectoryToZip (sample_library es) ''a'' ''a.zip'' sample_source =
     (Inr (), put_node [''a.zip''] (RegularFile ''PK'' 420 5) (put_node [''a.zip''] (RegularFile [] 420 5) sample_source))"
proof -
  have "files_below sample_source [''a''] \<noteq> []" by code_simp
  moreover have "locate sample_source ''a'' = Some [''a'']" by code_simp
  moreover have "open_new ''a.zip'' sample_source = (Inr True, put_node [''a.zip''] (RegularFile [] 420 5) sample_source)" by code_simp
  moreover have "write_file ''a.zip'' ''PK'' (put_node [''a.zip''] (RegularFile [] 420 5) sample_source) =
      (Inr (), put_node [''a.zip''] (RegularFile ''PK'' 420 5) (put_node [''a.zip''] (RegularFile [] 420 5) sample_source))" by code_simp
  ultimately show ?thesis
    by (simp add: packDirectoryToZip_def sample_library_def sample_source_node pack_files_all zip_close_def io_bind_def io_return_def)
qed

theorem pack_unpack_witness:
  "\<exists>w1 w2 s. packDirectoryToZip (sample_library (map pack_entry (files_below sample_source [''a'']))) ''a'' ''a.zip'' sample_source = (Inr (), w1)
    \<and> unpackZipToDirectory (sample_library (map pack_entry (files_below sample_source [''a'']))) ''a.zip'' ''c'' w1 = (Inr (), w2)
    \<and> node_at w2 [''c'', ''b'', ''y''] = Some (RegularFile ''inner'' 420 s)"
proof -
  let ?lib = "sample_library (map pack_entry (files_below sample_source [''a'']))"
  have files: "files_below sample_source [''a''] = [([''b'', ''y''], ''inner'', 420), ([''x''], ''top'', 493)]" by code_simp
  let ?w1 = "put_node [''a.zip''] (RegularFile ''PK'' 420 5) (put_node [''a.zip''] (RegularFile [] 420 5) sample_source)"
  let ?v = "put_node [''c''] Directory ?w1"
  have packed: "packDirectoryToZip ?lib ''a'' ''a.zip'' sample_source = (Inr (), ?w1)" by (rule sample_packed)
  have made: "create_directories ''c'' ?w1 = (Inr True, ?v)" by code_simp
  have at: "locate ?v ''c'' = Some [''c'']" "node_at ?v [''c''] = Some Directory" "locate sample_source ''a'' = Some [''a'']" by code_simp+
  have empty: "node_at ?v ([''c''] @ r) = None" if "r \<noteq> []" for r
    using that by (simp add: node_at_put sample_source_node)
  have proper: "list_all proper_name cs \<and> m < 4096" if "node_at sample_source ([''a''] @ cs) = Some (RegularFile t m s)" for cs t m s
    using that by (auto simp: sample_source_node proper_name_def split: if_splits)
  have keys: "distinct (map fst (nodes sample_source))" "files_below sample_source [''a''] \<noteq> []" by (simp add: sample_source_def put_node_def) (simp add: files)
  have library: "zip_read ?lib (zip_bytes ?lib (map pack_entry (files_below sample_source [''a'']))) = Some (map pack_entry (files_below sample_source [''a'']))"
    by (simp add: sample_library_def)
  have "\<exists>w2. unpackZipToDirectory ?lib ''a.zip'' ''c'' ?w1 = (Inr (), w2)
    \<and> (\<forall>cs t m. cs \<noteq> [] \<longrightarrow> (\<exists>s. node_at w2 ([''c''] @ cs) = Some (RegularFile t m s)) = (\<exists>s. node_at sample_source ([''a''] @ cs) = Some (RegularFile t m s)))"
    by (rule pack_unpack [OF library sample_source_tree keys(1) at(3) _ keys(2) packed made at(1,2)]) (erule proper, erule empty)
  then obtain w2 where
    w2: "unpackZipToDirectory ?lib ''a.zip'' ''c'' ?w1 = (Inr (), w2)"
    "\<forall>cs t m. cs \<noteq> [] \<longrightarrow> (\<exists>s. node_at w2 ([''c''] @ cs) = Some (RegularFile t m s)) = (\<exists>s. node_at sample_source ([''a''] @ cs) = Some (RegularFile t m s))"
    by blast
  have "\<exists>s. node_at sample_source ([''a''] @ [''b'', ''y'']) = Some (RegularFile ''inner'' 420 s)"
    by (simp add: sample_source_node)
  then have "\<exists>s. node_at w2 ([''c''] @ [''b'', ''y'']) = Some (RegularFile ''inner'' 420 s)" using w2(2) by blast
  with packed w2(1) show ?thesis by auto
qed

text \<open>
  packing a directory without files succeeds and leaves no archive, so that unpacking it fails: a test package without files
  is gone, and so is any directory that holds none.
\<close>

theorem pack_empty_leaves_nothing:
  assumes "zip_can_create lib w p" and "locate w src = Some d" and "node_at w d = Some Directory"
    and "files_below w d = []" and "locate w p = None"
  shows "packDirectoryToZip lib src p w = (Inr (), w)
    \<and> unpackZipToDirectory lib p q w = (Inl (RuntimeError (''Zip file does not exist: '' @ p)), w)"
  using assms by (simp add: packDirectoryToZip_def zip_close_def fs_remove_def io_bind_def io_return_def
      unpackZipToDirectory_def fs_exists_def)

theorem pack_empty_leaves_nothing_witness:
  "packDirectoryToZip (sample_library []) ''e'' ''e.zip'' \<lparr>nodes = [([''e''], Directory)], cwd = [], clock = 5, new_permissions = 420\<rparr>
    = (Inr (), \<lparr>nodes = [([''e''], Directory)], cwd = [], clock = 5, new_permissions = 420\<rparr>)"
proof (rule pack_empty_leaves_nothing [THEN conjunct1])
  show "zip_can_create (sample_library []) \<lparr>nodes = [([''e''], Directory)], cwd = [], clock = 5, new_permissions = 420\<rparr> ''e.zip''"
    by (simp add: sample_library_def)
  show "locate \<lparr>nodes = [([''e''], Directory)], cwd = [], clock = 5, new_permissions = 420\<rparr> ''e'' = Some [''e'']" by code_simp
qed code_simp+

text \<open>
  C34: an archive decides where its files go.  An entry whose name starts with two dots is written outside of the directory the
  archive is unpacked into: a file beside this directory is overwritten, and even gets the permissions the archive asks for.
\<close>

theorem unpack_escapes_directory:
  assumes "open_archive lib w p = Some [\<lparr>entry_name = Some (''../'' @ x), entry_opens = True, entry_reads = [evil],
      entry_broken = False, entry_attributes = Some (push_bit 16 (regular_mode mode))\<rparr>]" and "mode < 4096"
    and "locate w q = Some (b @ [c])" and "node_at w (b @ [c]) = Some Directory" and "node_at w b = Some Directory"
    and "proper_name x" and "x \<noteq> c" and "node_at w (b @ [x]) = Some (RegularFile old m s)"
  shows "\<exists>w'. unpackZipToDirectory lib p q w = (Inr (), w') \<and> \<not> is_prefix (b @ [c]) (b @ [x])
    \<and> node_at w' (b @ [x]) = Some (RegularFile evil mode (clock w))"
proof -
  define f where "f = ''../'' @ x"
  let ?full = "path_append q f" and ?up = "path_append q ''..''"
  have x: "x \<noteq> []" "CHR ''/'' \<notin> set x" "x \<noteq> ''.''" "x \<noteq> ''..''" using assms(6) by (auto simp: proper_name_def)
  have last_x: "last x \<noteq> CHR ''/''" using x last_in_set by metis
  have full: "?full = ?up @ CHR ''/'' # x" using path_append_longer [of "''..''" q "''/'' @ x"] by (simp add: f_def)
  have up: "?up \<noteq> []" "last ?up \<noteq> CHR ''/''" by (auto simp: path_append_def)
  have names: "names f = [''..'', x]" "names ''..'' = [''..'']"
    using comps_append [of "''..''" x] x last_x by (simp_all add: f_def names_comps comps_single)
  have rel: "\<not> is_absolute f" "\<not> is_absolute ''..''" "f \<noteq> []" "last f \<noteq> CHR ''/''"
    using last_x x(1) by (simp_all add: f_def is_absolute_def)
  have loc_up: "locate w ?up = Some b"
    using locate_append [OF assms(3) rel(2)] assms(4,5) by (simp add: names step_name_def)
  have loc: "locate v ?full = Some (b @ [x])"
    if "locate v q = Some (b @ [c])" "node_at v (b @ [c]) = Some Directory" "node_at v b = Some Directory" "node_at v (b @ [x]) \<noteq> None" for v
    using locate_append [OF that(1) rel(1,3)] that(2-4) x by (simp add: names step_name_def)
  let ?u = "put_node (b @ [x]) (RegularFile [] m (clock w)) w"
  let ?v = "put_node (b @ [x]) (RegularFile evil m (clock w)) ?u"
  have parent: "parent_path ?full = ?up" and file_name: "filename ?full = x"
    unfolding full using parent_path_append [OF x(2) up] filename_append [OF x(2)] by simp_all
  obtain made where dirs: "create_directories (parent_path ?full) w = (Inr made, w)"
    unfolding parent using create_directories_existing [OF loc_up assms(5)] by blast
  obtain made' where target: "create_directories q w = (Inr made', w)"
    using create_directories_existing [OF assms(3,4)] by blast
  have opened: "open_new ?full w = (Inr True, ?u)"
    using up loc_up assms(5,8) x by (simp add: open_new_def parent file_name)
  have node_u: "node_at ?u l = (if l = b @ [x] then Some (RegularFile [] m (clock w)) else node_at w l)" for l
    by (simp add: node_at_put)
  have "locate ?u q = Some (b @ [c])" by (rule locate_rewrite_file [OF assms(8,3)])
  then have loc_u: "locate ?u ?full = Some (b @ [x])" by (rule loc) (use node_u assms(4,5,7) in auto)
  then have written: "write_file ?full evil ?u = (Inr (), ?v)" by (simp add: write_file_def node_u)
  have node_v: "node_at ?v l = (if l = b @ [x] then Some (RegularFile evil m (clock w)) else node_at ?u l)" for l
    by (simp add: node_at_put)
  have "locate ?v q = Some (b @ [c])"
    using locate_rewrite_file [of ?u "b @ [x]" "[]" m "clock w" q] node_u \<open>locate ?u q = Some (b @ [c])\<close> by simp
  then have "locate ?v ?full = Some (b @ [x])" by (rule loc) (use node_v node_u assms(4,5,7) in auto)
  then have perms: "setPermissions ?full (32768 + mode) ?v = (Inr (), put_node (b @ [x]) (RegularFile evil mode (clock w)) ?v)"
    using node_v assms(2) by (simp add: setPermissions_def upper_mode)
  let ?e = "\<lparr>entry_name = Some f, entry_opens = True, entry_reads = [evil], entry_broken = False,
      entry_attributes = Some (push_bit 16 (regular_mode mode))\<rparr>"
  have "entry_mode ?e = 32768 + mode"
    using entry_mode_packed [OF assms(2), of "[]" "[]"] by (simp add: entry_mode_def pack_entry_def)
  then have "unpack_entry q ?e w = setPermissions ?full (32768 + mode) ?v"
    using rel(3,4) dirs opened written by (simp add: unpack_entry_def Let_def io_bind_def cong: if_cong)
  with perms have "unpack_entries q [?e] w = (Inr (), put_node (b @ [x]) (RegularFile evil mode (clock w)) ?v)"
    by (simp add: io_bind_def io_return_def)
  moreover have "fs_exists w p"
    using assms(1) [folded f_def] by (cases "locate w p") (simp_all add: open_archive_def fs_exists_def node_of_def)
  ultimately have "unpackZipToDirectory lib p q w = (Inr (), put_node (b @ [x]) (RegularFile evil mode (clock w)) ?v)"
    using assms(1) [folded f_def] target by (simp add: unpackZipToDirectory_def io_bind_def)
  then show ?thesis using assms(7) by (simp add: node_at_put is_prefix_append)
qed

theorem unpack_escapes_directory_witness:
  "\<exists>w'. unpackZipToDirectory (sample_library [\<lparr>entry_name = Some (''../'' @ ''key''), entry_opens = True, entry_reads = [''mine''],
        entry_broken = False, entry_attributes = Some (push_bit 16 (regular_mode 420))\<rparr>]) ''a.zip'' ''in''
      \<lparr>nodes = [([''a.zip''], RegularFile ''PK'' 420 0), ([''in''], Directory), ([''key''], RegularFile ''theirs'' 384 0)],
       cwd = [], clock = 9, new_permissions = 420\<rparr> = (Inr (), w')
    \<and> node_at w' [''key''] = Some (RegularFile ''mine'' 420 9)"
proof -
  let ?e = "\<lparr>entry_name = Some (''../'' @ ''key''), entry_opens = True, entry_reads = [''mine''],
        entry_broken = False, entry_attributes = Some (push_bit 16 (regular_mode 420))\<rparr>"
  let ?w = "\<lparr>nodes = [([''a.zip''], RegularFile ''PK'' 420 0), ([''in''], Directory), ([''key''], RegularFile ''theirs'' 384 0)],
       cwd = [], clock = 9, new_permissions = 420\<rparr>"
  have "node_of ?w ''a.zip'' = Some (RegularFile ''PK'' 420 0)" by code_simp
  then have "open_archive (sample_library [?e]) ?w ''a.zip'' = Some [?e]" by (simp add: open_archive_def sample_library_def)
  note archive = this
  have at: "locate ?w ''in'' = Some ([] @ [''in''])" by code_simp
  have "\<exists>w'. unpackZipToDirectory (sample_library [?e]) ''a.zip'' ''in'' ?w = (Inr (), w')
      \<and> \<not> is_prefix ([] @ [''in'']) ([] @ [''key'']) \<and> node_at w' ([] @ [''key'']) = Some (RegularFile ''mine'' 420 (clock ?w))"
    by (rule unpack_escapes_directory [OF archive _ at, where old = "''theirs''" and m = 384 and s = 0])
      (simp_all add: node_at_def proper_name_def)
  then show ?thesis by auto
qed

end
