(* ===== verification/Logger.thy ===== *)
theory Logger
  imports Config
begin

text \<open>
  The logger: \<open>modules/logger/src/{logger,python_logger}.cpp\<close> and \<open>configureLogger\<close> of
  \<open>modules/config/src/logger_utils.cpp\<close>.

  The state is the singleton's fields with the text written to the output stream.  The timestamp is
  an argument: it is the clock's value formatted by the standard library.  A source location is its
  file name, function name and line.  Lengths are compared as 32-bit words, as the casts of the
  source do.
\<close>

section \<open>State\<close>

datatype log_type = DEBUG | INFO | SUCCESS | WARNING | ERROR | CRITICAL

record source_location =
  loc_file :: string
  loc_function :: string
  loc_line :: nat

record location_options =
  strip_params_on_level :: uint32
  strip_return_type_on_level :: uint32
  strip_namespace_on_level :: uint32

definition default_location_options :: location_options where
  "default_location_options =
     \<lparr>strip_params_on_level = 4294967295, strip_return_type_on_level = 4294967295,
      strip_namespace_on_level = 4294967295\<rparr>"

record logger =
  log_levels :: "(string \<times> uint32) list"
  color_map :: "(string \<times> string) list"
  min_location_length :: uint32
  min_module_length :: uint32
  timestamp_format :: string
  location_format_options :: "(string \<times> location_options) list"
  out_stream :: string

definition esc :: "string \<Rightarrow> string" where
  "esc code = CHR 0x1B # ''['' @ code @ ''m''"

definition DEFAULT_COLOR_MAP :: "(string \<times> string) list" where
  "DEFAULT_COLOR_MAP =
     [(''CRITICAL'', esc ''2;31''), (''DEBUG'', esc ''36''), (''ERROR'', esc ''31''), (''INFO'', esc ''0''),
      (''LOCATION'', esc ''94''), (''RESET'', esc ''0''), (''SUCCESS'', esc ''32''),
      (''TIMESTAMP'', esc ''90''), (''WARNING'', esc ''33'')]"

definition initial_logger :: logger where
  "initial_logger =
     \<lparr>log_levels = [], color_map = DEFAULT_COLOR_MAP, min_location_length = 40, min_module_length = 20,
      timestamp_format = ''%Y-%m-%d %H:%M:%S'', location_format_options = [], out_stream = []\<rparr>"

section \<open>Settings\<close>

definition setLogLevel :: "logger \<Rightarrow> string \<Rightarrow> uint32 \<Rightarrow> logger" where
  "setLogLevel lg modname level = lg\<lparr>log_levels := put_member modname level (log_levels lg)\<rparr>"

definition setColorMap :: "logger \<Rightarrow> (string \<times> string) list \<Rightarrow> logger" where
  "setColorMap lg m = lg\<lparr>color_map := m\<rparr>"

definition setMinLocationLength :: "logger \<Rightarrow> uint32 \<Rightarrow> logger" where
  "setMinLocationLength lg n = lg\<lparr>min_location_length := n\<rparr>"

definition setMinModuleLength :: "logger \<Rightarrow> uint32 \<Rightarrow> logger" where
  "setMinModuleLength lg n = lg\<lparr>min_module_length := n\<rparr>"

definition setTimestampFormat :: "logger \<Rightarrow> string \<Rightarrow> logger" where
  "setTimestampFormat lg f = lg\<lparr>timestamp_format := f\<rparr>"

definition setLocationFormatOptions :: "logger \<Rightarrow> string \<Rightarrow> location_options \<Rightarrow> logger" where
  "setLocationFormatOptions lg modname opts =
     lg\<lparr>location_format_options := put_member modname opts (location_format_options lg)\<rparr>"

definition getLogLevel :: "logger \<Rightarrow> string \<Rightarrow> uint32" where
  "getLogLevel lg modname =
     (case map_of (log_levels lg) modname of
        Some l \<Rightarrow> l
      | None \<Rightarrow> (case map_of (log_levels lg) ''default'' of Some l \<Rightarrow> l | None \<Rightarrow> 0))"

definition getLocationFormatOptions :: "logger \<Rightarrow> string \<Rightarrow> location_options" where
  "getLocationFormatOptions lg modname =
     (case map_of (location_format_options lg) modname of
        Some opts \<Rightarrow> opts
      | None \<Rightarrow>
          (case map_of (location_format_options lg) ''default'' of
             Some opts \<Rightarrow> opts | None \<Rightarrow> default_location_options))"

definition isLoggingEnabled :: "logger \<Rightarrow> string \<Rightarrow> uint32 \<Rightarrow> bool" where
  "isLoggingEnabled lg modname level \<longleftrightarrow>
     (level \<le> getLogLevel lg ''default'' \<and> map_of (log_levels lg) modname = None)
     \<or> level \<le> getLogLevel lg modname"

definition disableColors :: "logger \<Rightarrow> logger" where
  "disableColors lg =
     setColorMap lg (fold (\<lambda>(key, v) m. put_member key [] m) (color_map lg) [])"

definition enableColors :: "logger \<Rightarrow> (string \<times> string) list \<Rightarrow> logger" where
  "enableColors lg m = setColorMap lg m"

definition configureLogger :: "LoggerConfig \<Rightarrow> logger \<Rightarrow> logger" where
  "configureLogger config lg =
     (let lg = fold (\<lambda>(modname, level) l. setLogLevel l modname level) (cfg_log_levels config) lg;
          lg = (case cfg_min_module_length config of None \<Rightarrow> lg | Some n \<Rightarrow> setMinModuleLength lg n);
          lg = (case cfg_min_location_length config of None \<Rightarrow> lg | Some n \<Rightarrow> setMinLocationLength lg n)
      in (case cfg_color_map config of None \<Rightarrow> lg | Some m \<Rightarrow> setColorMap lg m))"

section \<open>Formatting\<close>

definition safeGetColor :: "logger \<Rightarrow> string \<Rightarrow> string" where
  "safeGetColor lg key = (case map_of (color_map lg) key of Some c \<Rightarrow> c | None \<Rightarrow> [])"

fun log_type_label :: "log_type \<Rightarrow> string \<times> string" where
  "log_type_label DEBUG = (''DEBUG'', ''DEBUG'')"
| "log_type_label INFO = (''INFO'', ''INFO '')"
| "log_type_label SUCCESS = (''SUCCESS'', ''SUCC '')"
| "log_type_label WARNING = (''WARNING'', ''WARN '')"
| "log_type_label ERROR = (''ERROR'', ''ERROR'')"
| "log_type_label CRITICAL = (''CRITICAL'', ''CRIT '')"

definition formatLogType :: "logger \<Rightarrow> log_type \<Rightarrow> string" where
  "formatLogType lg ty =
     (case log_type_label ty of (color, label) \<Rightarrow> safeGetColor lg color @ label @ safeGetColor lg ''RESET'')"

text \<open>\<open>while (static_cast<uint32_t>(s.length()) < n) s += " ";\<close>\<close>

function pad_to :: "uint32 \<Rightarrow> string \<Rightarrow> string" where
  "pad_to n s = (if (of_nat (length s) :: uint32) < n then pad_to n (s @ '' '') else s)"
  by pat_completeness auto
termination
proof (relation "measure (\<lambda>(n, s). unat n - unat (of_nat (length s) :: uint32))")
  fix n :: uint32 and s :: string
  assume "(of_nat (length s) :: uint32) < n"
  then have lt: "length s mod 2 ^ 32 < unat n"
    by (simp add: word_less_nat_alt unat_of_nat)
  moreover have "unat n < 2 ^ 32" using unsigned_less [of n] by simp
  ultimately have "Suc (length s) mod 2 ^ 32 = Suc (length s mod 2 ^ 32)"
    by (simp add: mod_Suc)
  with lt show "((n, s @ '' ''), n, s) \<in> measure (\<lambda>(n, s). unat n - unat (of_nat (length s) :: uint32))"
    by (simp add: unat_of_nat del: of_nat_Suc)
qed simp

declare pad_to.simps [simp del]

text \<open>The text after the last character of a kind, and the text before it.\<close>

definition after_last :: "(char \<Rightarrow> bool) \<Rightarrow> string \<Rightarrow> string" where
  "after_last p s = rev (takeWhile (\<lambda>c. \<not> p c) (rev s))"

definition before_last :: "char \<Rightarrow> string \<Rightarrow> string" where
  "before_last d s = (if d \<in> set s then rev (drop 1 (dropWhile (\<lambda>c. c \<noteq> d) (rev s))) else s)"

fun after_last_colons :: "string \<Rightarrow> string option" where
  "after_last_colons (a # b # cs) =
     (case after_last_colons (b # cs) of
        Some r \<Rightarrow> Some r
      | None \<Rightarrow> if a = CHR '':'' \<and> b = CHR '':'' then Some cs else None)"
| "after_last_colons _ = None"

definition strip_function :: "location_options \<Rightarrow> uint32 \<Rightarrow> string \<Rightarrow> string" where
  "strip_function opts level f =
     (let f = (if level < strip_params_on_level opts then takeWhile (\<lambda>c. c \<noteq> CHR ''('') f else f);
          f = (if level < strip_return_type_on_level opts then after_last (\<lambda>c. c = CHR '' '') f else f)
      in if level < strip_namespace_on_level opts
         then (case after_last_colons f of Some r \<Rightarrow> r | None \<Rightarrow> f) else f)"

definition formatLocation :: "logger \<Rightarrow> string \<Rightarrow> source_location \<Rightarrow> uint32 \<Rightarrow> string" where
  "formatLocation lg modname loc level =
     (let file_name = before_last (CHR ''.'') (after_last (\<lambda>c. c = CHR ''/'' \<or> c = backslash) (loc_file loc));
          function_name = strip_function (getLocationFormatOptions lg modname) level (loc_function loc);
          location_str = file_name @ ''.'' @ function_name @ '':'' @ nat_to_string (loc_line loc)
      in safeGetColor lg ''LOCATION'' @ pad_to (min_location_length lg) location_str @ safeGetColor lg ''RESET'')"

definition formatModule :: "logger \<Rightarrow> string \<Rightarrow> string" where
  "formatModule lg modname = pad_to (min_module_length lg) modname"

definition formatEntry ::
    "logger \<Rightarrow> string \<Rightarrow> string \<Rightarrow> string \<Rightarrow> log_type \<Rightarrow> uint32 \<Rightarrow> source_location \<Rightarrow> string" where
  "formatEntry lg timestamp modname message ty level loc =
     safeGetColor lg ''TIMESTAMP'' @ ''['' @ timestamp @ '']'' @ safeGetColor lg ''RESET'' @ '' | '' @
     formatLogType lg ty @ '' | '' @ formatLocation lg modname loc level @ '' | '' @
     formatModule lg modname @ '' | '' @
     (if ty = CRITICAL then safeGetColor lg ''CRITICAL'' else []) @
     message @ (if ty = CRITICAL then safeGetColor lg ''RESET'' else []) @ [CHR 0x0A]"

section \<open>Logging\<close>

definition print_entry :: "logger \<Rightarrow> string \<Rightarrow> logger" where
  "print_entry lg message = lg\<lparr>out_stream := out_stream lg @ message\<rparr>"

definition log_entry ::
    "logger \<Rightarrow> string \<Rightarrow> string \<Rightarrow> string \<Rightarrow> log_type \<Rightarrow> uint32 \<Rightarrow> source_location \<Rightarrow> logger" where
  "log_entry lg timestamp modname message ty level loc =
     (if \<not> isLoggingEnabled lg modname level then lg
      else print_entry lg (formatEntry lg timestamp modname message ty level loc))"

text \<open>The Python logger's call: the level it is given, or nothing when logging is disabled.\<close>

fun logTypeToPythonLevel :: "log_type \<Rightarrow> int" where
  "logTypeToPythonLevel DEBUG = 10"
| "logTypeToPythonLevel INFO = 20"
| "logTypeToPythonLevel SUCCESS = 20"
| "logTypeToPythonLevel WARNING = 30"
| "logTypeToPythonLevel ERROR = 40"
| "logTypeToPythonLevel CRITICAL = 50"

definition python_log :: "logger \<Rightarrow> string \<Rightarrow> string \<Rightarrow> log_type \<Rightarrow> uint32 \<Rightarrow> (string \<times> int \<times> string) option" where
  "python_log lg modname message ty level =
     (if \<not> isLoggingEnabled lg modname level then None
      else Some (modname, logTypeToPythonLevel ty, message))"

text \<open>
  \<open>logMessage\<close> takes the Python logger when the interpreter runs (\<open>py_initialized\<close>, from \<open>Py_IsInitialized\<close>)
  and the C++ logger otherwise.  The result is the logger with the call made to Python, if any.
\<close>

type_synonym python_call = "string \<times> int \<times> string"

definition logMessage ::
    "bool \<Rightarrow> logger \<Rightarrow> string \<Rightarrow> string \<Rightarrow> string \<Rightarrow> log_type \<Rightarrow> uint32 \<Rightarrow> source_location
     \<Rightarrow> logger \<times> python_call option" where
  "logMessage py_initialized lg timestamp modname message ty level loc =
     (if py_initialized then (lg, python_log lg modname message ty level)
      else (log_entry lg timestamp modname message ty level loc, None))"

definition logDebug ::
    "bool \<Rightarrow> logger \<Rightarrow> string \<Rightarrow> string \<Rightarrow> string \<Rightarrow> uint32 \<Rightarrow> source_location \<Rightarrow> logger \<times> python_call option" where
  "logDebug py lg timestamp modname message level loc = logMessage py lg timestamp modname message DEBUG level loc"

definition logInfo ::
    "bool \<Rightarrow> logger \<Rightarrow> string \<Rightarrow> string \<Rightarrow> string \<Rightarrow> uint32 \<Rightarrow> source_location \<Rightarrow> logger \<times> python_call option" where
  "logInfo py lg timestamp modname message level loc = logMessage py lg timestamp modname message INFO level loc"

definition logSuccess ::
    "bool \<Rightarrow> logger \<Rightarrow> string \<Rightarrow> string \<Rightarrow> string \<Rightarrow> uint32 \<Rightarrow> source_location \<Rightarrow> logger \<times> python_call option" where
  "logSuccess py lg timestamp modname message level loc = logMessage py lg timestamp modname message SUCCESS level loc"

definition logWarning ::
    "bool \<Rightarrow> logger \<Rightarrow> string \<Rightarrow> string \<Rightarrow> string \<Rightarrow> uint32 \<Rightarrow> source_location \<Rightarrow> logger \<times> python_call option" where
  "logWarning py lg timestamp modname message level loc = logMessage py lg timestamp modname message WARNING level loc"

definition logError ::
    "bool \<Rightarrow> logger \<Rightarrow> string \<Rightarrow> string \<Rightarrow> string \<Rightarrow> uint32 \<Rightarrow> source_location \<Rightarrow> logger \<times> python_call option" where
  "logError py lg timestamp modname message level loc = logMessage py lg timestamp modname message ERROR level loc"

definition logCritical ::
    "bool \<Rightarrow> logger \<Rightarrow> string \<Rightarrow> string \<Rightarrow> string \<Rightarrow> uint32 \<Rightarrow> source_location \<Rightarrow> logger \<times> python_call option" where
  "logCritical py lg timestamp modname message level loc = logMessage py lg timestamp modname message CRITICAL level loc"

section \<open>Properties\<close>

lemma isLoggingEnabled_iff: "isLoggingEnabled lg modname level \<longleftrightarrow> level \<le> getLogLevel lg modname"
  by (auto simp: isLoggingEnabled_def getLogLevel_def split: option.splits)

lemma map_of_fold_levels:
  "log_levels (fold (\<lambda>(modname, level) l. setLogLevel l modname level) xs lg) =
     fold (\<lambda>(k, v) m. put_member k v m) xs (log_levels lg)"
  by (induction xs arbitrary: lg) (auto simp: setLogLevel_def)

lemma map_of_fold_put:
  "map_of (fold (\<lambda>(k, v) m. put_member k v m) xs m) = map_of m ++ map_of (rev xs)"
  by (induction xs arbitrary: m) (auto simp: map_of_put_member)

lemma log_levels_settings [simp]:
  "log_levels (setMinModuleLength lg n) = log_levels lg"
  "log_levels (setMinLocationLength lg n) = log_levels lg"
  "log_levels (setColorMap lg m) = log_levels lg"
  by (simp_all add: setMinModuleLength_def setMinLocationLength_def setColorMap_def)

text \<open>
  a message is written, by either logger, exactly when its level is at most the level of its
  module: the module's own level when it has one, else the default one, else zero.  A written entry
  is appended to the output and changes nothing else.
\<close>

theorem logging_threshold:
  "(python_log lg modname message ty level \<noteq> None) = (level \<le> getLogLevel lg modname)
   \<and> log_entry lg ts modname message ty level loc =
      (if level \<le> getLogLevel lg modname
       then lg\<lparr>out_stream := out_stream lg @ formatEntry lg ts modname message ty level loc\<rparr> else lg)"
  by (simp add: python_log_def log_entry_def print_entry_def isLoggingEnabled_iff)

lemma pad_to_eq:
  assumes "length s < 2 ^ 32"
  shows "pad_to n s = s @ replicate (unat n - length s) (CHR '' '')"
  using assms
proof (induction "unat n - length s" arbitrary: s)
  case 0
  then have "\<not> (of_nat (length s) :: uint32) < n"
    by (simp add: word_less_nat_alt unat_of_nat)
  with 0 show ?case by (simp add: pad_to.simps [of n s])
next
  case (Suc k)
  then have "(of_nat (length s) :: uint32) < n"
    by (simp add: word_less_nat_alt unat_of_nat)
  moreover have "unat n < 2 ^ 32" using unsigned_less [of n] by simp
  moreover from this Suc(2) have "length (s @ '' '') < 2 ^ 32" by simp
  moreover have "k = unat n - length (s @ '' '')" using Suc(2) by simp
  ultimately have "pad_to n s = (s @ '' '') @ replicate k (CHR '' '')"
    using Suc(1) [of "s @ '' ''"] by (simp add: pad_to.simps [of n s])
  moreover have "'' '' @ replicate k (CHR '' '') = replicate (Suc k) (CHR '' '')" by simp
  ultimately show ?case using Suc(2) by (metis append_assoc)
qed

text \<open>
  C40: the padding loops end, and a module name or location shorter than the configured length is
  filled up with blanks to exactly that length, while a longer one is left alone.
\<close>

theorem formatModule_pads:
  assumes "length modname < 2 ^ 32"
  shows "formatModule lg modname = modname @ replicate (unat (min_module_length lg) - length modname) (CHR '' '')
    \<and> length (formatModule lg modname) = max (length modname) (unat (min_module_length lg))"
  using pad_to_eq [OF assms, of "min_module_length lg"] by (simp add: formatModule_def)

theorem formatModule_pads_witness:
  "formatModule initial_logger ''ab'' = ''ab'' @ replicate (unat (min_module_length initial_logger) - length ''ab'') (CHR '' '')
   \<and> length (formatModule initial_logger ''ab'') = max (length ''ab'') (unat (min_module_length initial_logger))"
  by (rule formatModule_pads) simp

lemma color_map_settings [simp]:
  "color_map (setMinModuleLength lg n) = color_map lg"
  "color_map (setMinLocationLength lg n) = color_map lg"
  by (simp_all add: setMinModuleLength_def setMinLocationLength_def)

lemma out_stream_settings:
  "out_stream (setMinModuleLength lg n) = out_stream lg"
  "out_stream (setMinLocationLength lg n) = out_stream lg"
  "out_stream (setColorMap lg m) = out_stream lg"
  by (simp_all add: setMinModuleLength_def setMinLocationLength_def setColorMap_def)

text \<open>
  after \<open>configureLogger\<close> every module named by the configuration has the configured level and
  the others keep theirs.  The configured output stream is not looked at: two configurations that
  differ only in it configure the logger in the same way.
\<close>

theorem configureLogger_levels:
  "map_of (log_levels (configureLogger c lg)) = map_of (log_levels lg) ++ map_of (rev (cfg_log_levels c))
   \<and> configureLogger (c\<lparr>output_stream := other\<rparr>) lg = configureLogger c lg"
  by (simp add: configureLogger_def Let_def map_of_fold_levels map_of_fold_put split: option.splits)

end
