(* ===== verification/Plugin_Manager.thy ===== *)
theory Plugin_Manager
  imports Filesystem Config
begin

text \<open>
  Plugins: \<open>modules/plugin_manager/src/{plugin_manager,config_utils}.cpp\<close> and the loop of the starters that
  loads them.

  The dynamic linker is a record of operations over a world \<open>'w\<close> (which holds what registration
  functions change: the factories).  Handles that were closed are kept as history.
\<close>

section \<open>Finding plugins\<close>

text \<open>\<open>path::extension\<close> of a file name: from its last dot, unless that is its first character.\<close>

definition extension :: "string \<Rightarrow> string" where
  "extension name =
     (let rest = takeWhile (\<lambda>c. c \<noteq> CHR ''.'') (rev name)
      in if length rest \<ge> length name - 1 \<or> name = ''..'' then [] else ''.'' @ rev rest)"

definition directory_files :: "fs \<Rightarrow> place \<Rightarrow> string list" where
  "directory_files w d =
     map (last \<circ> fst) (filter (\<lambda>(k, x). x \<noteq> Directory \<and> is_prefix d k \<and> length k = Suc (length d)) (nodes w))"

definition getAllPluginPaths :: "json \<Rightarrow> fs \<Rightarrow> string list" where
  "getAllPluginPaths config w =
     (case rbind (getDirectoryPath config ''plugins'') required of
        Inl e \<Rightarrow> []
      | Inr plugins_dir \<Rightarrow>
          (case locate w plugins_dir of
             None \<Rightarrow> []
           | Some d \<Rightarrow>
               if node_at w d \<noteq> Some Directory then []
               else map (path_append plugins_dir) (filter (\<lambda>name. extension name = ''.so'') (directory_files w d))))"

section \<open>Loading them\<close>

record ('h, 'w) linker =
  dlopen :: "string \<Rightarrow> 'w \<Rightarrow> 'h option \<times> 'w"
  dlsym :: "'h \<Rightarrow> string \<Rightarrow> ('w \<Rightarrow> 'w) option"

record ('h, 'w) plugin_manager =
  handles :: "'h list"
  closed :: "'h list"
  plugin_world :: 'w

definition load :: "('h, 'w) linker \<Rightarrow> string \<Rightarrow> ('h, 'w) plugin_manager \<Rightarrow> bool \<times> ('h, 'w) plugin_manager" where
  "load dl path m =
     (case dlopen dl path (plugin_world m) of
        (None, w) \<Rightarrow> (False, m\<lparr>plugin_world := w\<rparr>)
      | (Some h, w) \<Rightarrow>
          let m = m\<lparr>handles := handles m @ [h], plugin_world := w\<rparr> in
          (case dlsym dl h ''registerTypes'' of
             None \<Rightarrow> (False, m\<lparr>closed := closed m @ [h]\<rparr>)
           | Some register_types \<Rightarrow> (True, m\<lparr>plugin_world := register_types (plugin_world m)\<rparr>)))"

text \<open>The loop of the starters goes on after a plugin that cannot be loaded.\<close>

fun load_all :: "('h, 'w) linker \<Rightarrow> string list \<Rightarrow> ('h, 'w) plugin_manager \<Rightarrow> ('h, 'w) plugin_manager" where
  "load_all dl [] m = m"
| "load_all dl (p # ps) m = load_all dl ps (snd (load dl p m))"

definition destroy :: "('h, 'w) plugin_manager \<Rightarrow> ('h, 'w) plugin_manager" where
  "destroy m = m\<lparr>closed := closed m @ handles m\<rparr>"

definition new_plugin_manager :: "'w \<Rightarrow> ('h, 'w) plugin_manager" where
  "new_plugin_manager w = \<lparr>handles = [], closed = [], plugin_world = w\<rparr>"

section \<open>What is found and closed\<close>

lemma directory_files_iff:
  assumes "distinct (map fst (nodes w))"
  shows "x \<in> set (directory_files w d) \<longleftrightarrow> (\<exists>t m s. node_at w (d @ [x]) = Some (RegularFile t m s))"
proof -
  have "x \<in> set (directory_files w d) \<longleftrightarrow> (\<exists>n. (d @ [x], n) \<in> set (nodes w) \<and> n \<noteq> Directory)"
  proof
    assume "x \<in> set (directory_files w d)"
    then obtain k n where "(k, n) \<in> set (nodes w)" "n \<noteq> Directory" "is_prefix d k" "length k = Suc (length d)" "x = last k"
      by (auto simp: directory_files_def)
    moreover from this obtain r where "k = d @ r" "length r = Suc 0" by (auto simp: is_prefix_append)
    moreover from this obtain y where "k = d @ [y]" by (auto simp: length_Suc_conv)
    ultimately show "\<exists>n. (d @ [x], n) \<in> set (nodes w) \<and> n \<noteq> Directory" by auto
  next
    assume "\<exists>n. (d @ [x], n) \<in> set (nodes w) \<and> n \<noteq> Directory"
    then obtain n where "(d @ [x], n) \<in> set (nodes w)" "n \<noteq> Directory" by blast
    then show "x \<in> set (directory_files w d)"
      by (auto simp: directory_files_def is_prefix_append intro!: image_eqI [of x _ "(d @ [x], n)"])
  qed
  also have "\<dots> \<longleftrightarrow> (\<exists>n. node_at w (d @ [x]) = Some n \<and> n \<noteq> Directory)"
    using assms by (simp add: node_at_def)
  finally show ?thesis by (metis node.distinct(1) node.exhaust)
qed

text \<open>
  the plugins are the shared objects of the plugin directory: a path is found if and only if it is the
  path of a regular file directly in the directory whose name ends in \<open>.so\<close>.
\<close>

theorem plugin_paths_exact:
  assumes "getDirectoryPath config ''plugins'' = Inr (Some dir)" and "locate w dir = Some d"
    and "node_at w d = Some Directory" and "distinct (map fst (nodes w))"
  shows "set (getAllPluginPaths config w) =
    {path_append dir x | x t m s. node_at w (d @ [x]) = Some (RegularFile t m s) \<and> extension x = ''.so''}"
  using assms directory_files_iff [OF assms(4)] by (auto simp: getAllPluginPaths_def requireHasValue_def)

lemma load_closed:
  "load dl p m = (ok, m') \<Longrightarrow>
    \<exists>hs. handles m' = handles m @ hs \<and> closed m' = closed m @ filter (\<lambda>h. dlsym dl h ''registerTypes'' = None) hs"
  by (auto simp: load_def Let_def split: prod.splits option.splits)

lemma load_all_closed:
  "\<exists>hs. handles (load_all dl ps m) = handles m @ hs
     \<and> mset (closed (load_all dl ps m)) = mset (closed m) + mset (filter (\<lambda>h. dlsym dl h ''registerTypes'' = None) hs)"
proof (induction ps arbitrary: m)
  case Nil
  then show ?case by simp
next
  case (Cons p ps)
  obtain ok m' where m': "load dl p m = (ok, m')" by fastforce
  obtain hs where hs: "handles m' = handles m @ hs" "closed m' = closed m @ filter (\<lambda>h. dlsym dl h ''registerTypes'' = None) hs"
    using load_closed [OF m'] by blast
  obtain ks where "handles (load_all dl ps m') = handles m' @ ks"
     "mset (closed (load_all dl ps m')) = mset (closed m') + mset (filter (\<lambda>h. dlsym dl h ''registerTypes'' = None) ks)"
    using Cons.IH by blast
  then show ?case using m' hs by (intro exI [of _ "hs @ ks"]) simp
qed

text \<open>
  handles are not closed once.  Over the life of a plugin manager every handle it opened is closed once
  at the end, and one more time for each plugin that has no \<open>registerTypes\<close>.
\<close>

theorem plugin_handles_closed:
  "count (mset (closed (destroy (load_all dl ps (new_plugin_manager w))))) h =
     count (mset (handles (load_all dl ps (new_plugin_manager w)))) h * (if dlsym dl h ''registerTypes'' = None then 2 else 1)"
proof -
  obtain hs where hs: "handles (load_all dl ps (new_plugin_manager w)) = hs"
    "mset (closed (load_all dl ps (new_plugin_manager w))) = mset (filter (\<lambda>h. dlsym dl h ''registerTypes'' = None) hs)"
    using load_all_closed [of dl ps "new_plugin_manager w"] by (auto simp: new_plugin_manager_def)
  have "mset (closed (destroy (load_all dl ps (new_plugin_manager w)))) = mset (filter (\<lambda>h. dlsym dl h ''registerTypes'' = None) hs) + mset hs"
    using hs by (simp add: destroy_def)
  then show ?thesis unfolding hs(1) by (auto simp: mset_filter)
qed

theorem plugin_paths_exact_witness:
  "set (getAllPluginPaths (JObject [(''directories'', JObject [(''plugins'', JString ''/p'')])])
      \<lparr>nodes = [([''p''], Directory), ([''p'', ''a.so''], RegularFile [] 420 0), ([''p'', ''.so''], RegularFile [] 420 0)],
       cwd = [], clock = 0, new_permissions = 420\<rparr>) = {''/p/a.so''}"
proof -
  let ?w = "\<lparr>nodes = [([''p''], Directory), ([''p'', ''a.so''], RegularFile [] 420 0), ([''p'', ''.so''], RegularFile [] 420 0)],
       cwd = [], clock = 0, new_permissions = 420\<rparr>"
  have facts: "getDirectoryPath (JObject [(''directories'', JObject [(''plugins'', JString ''/p'')])]) ''plugins'' = Inr (Some ''/p'')"
    "locate ?w ''/p'' = Some [''p'']" "node_at ?w [''p''] = Some Directory" by code_simp+
  have names: "extension ''a.so'' = ''.so''" "extension ''.so'' = []" "path_append ''/p'' ''a.so'' = ''/p/a.so''" by code_simp+
  have "distinct (map fst (nodes ?w))" by simp
  from plugin_paths_exact [OF facts this] have "set (getAllPluginPaths (JObject [(''directories'', JObject [(''plugins'', JString ''/p'')])]) ?w) =
    {path_append ''/p'' x | x t m s. node_at ?w ([''p''] @ [x]) = Some (RegularFile t m s) \<and> extension x = ''.so''}" .
  also have "\<dots> = path_append ''/p'' ` {x. (\<exists>t m s. node_at ?w ([''p''] @ [x]) = Some (RegularFile t m s)) \<and> extension x = ''.so''}"
    by blast
  also have "{x. (\<exists>t m s. node_at ?w ([''p''] @ [x]) = Some (RegularFile t m s)) \<and> extension x = ''.so''} = {''a.so''}"
  proof (intro equalityI subsetI)
    fix x
    assume "x \<in> {x. (\<exists>t m s. node_at ?w ([''p''] @ [x]) = Some (RegularFile t m s)) \<and> extension x = ''.so''}"
    then have "x = ''a.so'' \<or> x = ''.so''" and x: "extension x = ''.so''" by (auto simp: node_at_def split: if_splits)
    then show "x \<in> {''a.so''}" using names(2) by (metis list.distinct(1) singletonI)
  qed (simp add: names node_at_def)
  finally show ?thesis by (simp only: image_insert image_empty names)
qed

end
