(* ===== verification/Grpc_Types.thy ===== *)
theory Grpc_Types
  imports Config Factory Filesystem
begin

text \<open>
  The gRPC types that configurations name: \<open>modules/shared/utils/grpc/src/{base_types,config_utils,
  auth_metadata_plugin,auth_server_interceptor}.cpp\<close>.

  The gRPC library is a record of the constructors the code calls.  The factories are arguments: creating
  from a specification runs the function registered for its name (\<open>create_parameterized\<close>).
\<close>

section \<open>The library\<close>

record ('ch, 'cc, 'call, 'sc) grpc =
  CreateChannel :: "string \<Rightarrow> 'cc \<Rightarrow> 'ch"
  CreateCustomChannel :: "string \<Rightarrow> 'cc \<Rightarrow> (string \<times> channel_argument) list \<Rightarrow> 'ch"
  CompositeChannelCredentials :: "'cc \<Rightarrow> 'call \<Rightarrow> 'cc"
  InsecureChannelCredentials :: 'cc
  SslCredentials :: "string \<Rightarrow> 'cc"
  SslServerCredentials :: "string \<Rightarrow> string \<Rightarrow> 'sc"
  MetadataCredentials :: "string \<Rightarrow> 'call"

section \<open>Channels\<close>

text \<open>The loop over the call credentials that follow the channel credentials; a creator may return null.\<close>

fun add_credentials ::
    "('cc \<Rightarrow> 'call \<Rightarrow> 'cc) \<Rightarrow> (string \<Rightarrow> 'call option result) \<Rightarrow> 'cc \<Rightarrow> string list \<Rightarrow> 'cc result" where
  "add_credentials composite create_call current [] = Inr current"
| "add_credentials composite create_call current (p # ps) =
     rbind (create_call p) (\<lambda>additional.
       case additional of
         Some a \<Rightarrow> add_credentials composite create_call (composite current a) ps
       | None \<Rightarrow> Inl (InvalidArgument (''Failed to create credentials for parameter: '' @ p)))"

definition create_channel ::
    "('ch, 'cc, 'call, 'sc) grpc \<Rightarrow> (string \<Rightarrow> 'cc result) \<Rightarrow> (string \<Rightarrow> 'call option result) \<Rightarrow> string \<Rightarrow> 'ch result" where
  "create_channel g create_credentials create_call params =
     (let parts = parseParameters params '','' in
      if length parts < 2
      then Inl (InvalidArgument ''Insecure channel requires at least 2 parameters: endpoint, channel_credentials, [call_credentials...]'')
      else
        let endpoint = normalizeArgument (parts ! 0) True in
        rbind (create_credentials (parts ! 1)) (\<lambda>current.
        rbind (add_credentials (CompositeChannelCredentials g) create_call current (drop 2 parts)) (\<lambda>current.
          Inr (CreateChannel g endpoint current))))"

definition getChannelArguments :: "json \<Rightarrow> string \<Rightarrow> (string \<times> channel_argument) list option result" where
  "getChannelArguments config_data configuration_name = getChannelArgumentsList config_data configuration_name"

definition create_custom_channel ::
    "('ch, 'cc, 'call, 'sc) grpc \<Rightarrow> json \<Rightarrow> (string \<Rightarrow> 'cc result) \<Rightarrow> (string \<Rightarrow> 'call option result) \<Rightarrow> string \<Rightarrow> 'ch result" where
  "create_custom_channel g config_data create_credentials create_call params =
     (let parts = parseParameters params '','' in
      if length parts < 3
      then Inl (InvalidArgument ''Custom channel requires at least 3 parameters: endpoint, arguments_configuration, channel_credentials, [call_credentials...]'')
      else
        let endpoint = normalizeArgument (parts ! 0) True;
            arguments_configuration = normalizeArgument (parts ! 1) True in
        rbind (getChannelArguments config_data arguments_configuration) (\<lambda>arguments.
        case arguments of
          None \<Rightarrow> Inl (InvalidArgument (''Failed to get channel arguments for configuration: '' @ arguments_configuration))
        | Some as \<Rightarrow>
            rbind (create_credentials (parts ! 2)) (\<lambda>current.
            rbind (add_credentials (CompositeChannelCredentials g) create_call current (drop 3 parts)) (\<lambda>current.
              Inr (CreateCustomChannel g endpoint current as)))))"

section \<open>Credentials\<close>

definition create_insecure :: "('ch, 'cc, 'call, 'sc) grpc \<Rightarrow> string \<Rightarrow> 'cc result" where
  "create_insecure g params = Inr (InsecureChannelCredentials g)"

text \<open>The designated initialisers are evaluated in order: the private key is read first.\<close>

definition create_ssl_server :: "('ch, 'cc, 'call, 'sc) grpc \<Rightarrow> fs \<Rightarrow> string \<Rightarrow> 'sc result" where
  "create_ssl_server g w params =
     (let parts = parseParameters params '','' in
      if length parts \<noteq> 2
      then Inl (InvalidArgument ''SSL server credentials require exactly 2 parameters: pem_root_certs, private_key'')
      else rbind (loadFile w (normalizeArgument (parts ! 1) True)) (\<lambda>private_key.
           rbind (loadFile w (normalizeArgument (parts ! 0) True)) (\<lambda>cert_chain.
             Inr (SslServerCredentials g private_key cert_chain))))"

definition create_ssl_client :: "('ch, 'cc, 'call, 'sc) grpc \<Rightarrow> fs \<Rightarrow> string \<Rightarrow> 'cc result" where
  "create_ssl_client g w params =
     (let parts = parseParameters params '','' in
      if length parts \<noteq> 1
      then Inl (InvalidArgument ''SSL client credentials require exactly 1 parameter: pem_root_certs'')
      else rbind (loadFile w (normalizeArgument (parts ! 0) True)) (\<lambda>pem_root_certs. Inr (SslCredentials g pem_root_certs)))"

text \<open>The token a parameter names in the credentials file.\<close>

definition token_of :: "json \<Rightarrow> string \<Rightarrow> string result" where
  "token_of credentials path_to_token =
     rbind (getTokenFromCredentials credentials path_to_token) (\<lambda>token_opt.
       case token_opt of
         None \<Rightarrow> Inl (InvalidArgument (''Failed to retrieve token from credentials for parameter: '' @ path_to_token))
       | Some token \<Rightarrow> Inr token)"

definition create_auth_credentials :: "('ch, 'cc, 'call, 'sc) grpc \<Rightarrow> json \<Rightarrow> string \<Rightarrow> 'call option result" where
  "create_auth_credentials g credentials params =
     (let parts = parseParameters params '','' in
      if length parts \<noteq> 1
      then Inl (InvalidArgument ''Auth credentials require exactly 1 parameter: auth_token'')
      else rbind (token_of credentials (normalizeArgument (parts ! 0) True)) (\<lambda>token. Inr (Some (MetadataCredentials g token))))"

text \<open>The factory of server interceptors is the token it expects.\<close>

definition create_auth_interceptor :: "json \<Rightarrow> string \<Rightarrow> string result" where
  "create_auth_interceptor credentials params =
     (let parts = parseParameters params '','' in
      if length parts \<noteq> 1
      then Inl (InvalidArgument ''Auth server interceptor factory requires exactly 1 parameter: expected_token'')
      else token_of credentials (normalizeArgument (parts ! 0) True))"

section \<open>Configured servers\<close>

fun create_each :: "(string \<Rightarrow> 'a result) \<Rightarrow> string list \<Rightarrow> 'a list result" where
  "create_each create_type [] = Inr []"
| "create_each create_type (t # ts) = rbind (create_type t) (\<lambda>x. rbind (create_each create_type ts) (\<lambda>xs. Inr (x # xs)))"

definition getInterceptorsForServer :: "json \<Rightarrow> (string \<Rightarrow> 'a result) \<Rightarrow> 'a list result" where
  "getInterceptorsForServer config_data create_interceptor =
     rbind (getServerInterceptorTypes config_data) (create_each create_interceptor)"

definition getServerCredentials :: "json \<Rightarrow> (string \<Rightarrow> 'sc option result) \<Rightarrow> 'sc option result" where
  "getServerCredentials config_data create_type =
     rbind (getServerCredentialsType config_data) (\<lambda>credentials_type.
       case credentials_type of None \<Rightarrow> Inr None | Some t \<Rightarrow> create_type t)"

definition applyServerChannelArguments ::
    "json \<Rightarrow> (string \<times> channel_argument) list \<Rightarrow> (string \<times> channel_argument) list result" where
  "applyServerChannelArguments config_data builder =
     rbind (getServerChannelArguments config_data) (\<lambda>arguments_list.
       case arguments_list of
         None \<Rightarrow> Inl (RuntimeError ''Failed to get server channel arguments list'')
       | Some as \<Rightarrow> Inr (builder @ as))"

section \<open>Authentication\<close>

text \<open>
  Metadata is a multimap: the pairs in the order of the keys, equal keys in the order of insertion.
\<close>

type_synonym metadata = "(string \<times> string) list"

definition multimap_insert :: "string \<Rightarrow> string \<Rightarrow> metadata \<Rightarrow> metadata" where
  "multimap_insert k v m = takeWhile (\<lambda>e. fst e \<le> k) m @ (k, v) # dropWhile (\<lambda>e. fst e \<le> k) m"

definition GetMetadata :: "string \<Rightarrow> metadata \<Rightarrow> status \<times> metadata" where
  "GetMetadata token m = (StatusOK, multimap_insert ''authorization'' token m)"

datatype hook = POST_RECV_INITIAL_METADATA | OtherHook

datatype interception = FailHijackedRecvMessage | ModifySendStatus status | Proceed

text \<open>The calls an interceptor makes on the batch of methods it is given.\<close>

definition Intercept :: "string \<Rightarrow> hook set \<Rightarrow> metadata \<Rightarrow> interception list" where
  "Intercept expected_token hooks client_metadata =
     (if POST_RECV_INITIAL_METADATA \<in> hooks
         \<and> (case map_of client_metadata ''authorization'' of None \<Rightarrow> True | Some v \<Rightarrow> v \<noteq> expected_token)
      then [FailHijackedRecvMessage, ModifySendStatus (StatusUnauthenticated ''Invalid or missing authorization token''), Proceed]
      else [Proceed])"

section \<open>What is accepted and built\<close>

lemma map_of_multimap_insert: "k \<notin> fst ` set m \<Longrightarrow> map_of (multimap_insert k v m) k = Some v"
proof -
  assume "k \<notin> fst ` set m"
  then have "map_of (takeWhile (\<lambda>e. fst e \<le> k) m) k = None"
    by (auto simp: map_of_eq_None_iff dest: set_takeWhileD)
  then show ?thesis by (simp add: multimap_insert_def map_add_def)
qed

lemma token_of_lookup: "token_of credentials p = (case lookup_string credentials (split_dots p) of
    None \<Rightarrow> Inl (InvalidArgument (''Failed to retrieve token from credentials for parameter: '' @ p)) | Some t \<Rightarrow> Inr t)"
  by (simp add: token_of_def getTokenFromCredentials_lookup)

text \<open>
  C23: a call is let through for its token.  A client whose call credentials were created from its
  credentials file and a server whose interceptor was created from another: the interceptor lets the call
  proceed if and only if the two files have the same token at the two configured paths, and otherwise
  answers that the call is not authenticated.
\<close>

theorem auth_accepts_token:
  assumes "create_auth_credentials (g\<lparr>MetadataCredentials := (\<lambda>t. t)\<rparr>) client_file client_params = Inr (Some token)"
    and "create_auth_interceptor server_file server_params = Inr expected"
    and "''authorization'' \<notin> fst ` set m" and "POST_RECV_INITIAL_METADATA \<in> hooks"
  shows "Intercept expected hooks (snd (GetMetadata token m)) =
     (if lookup_string client_file (split_dots (normalizeArgument (parseParameters client_params '','' ! 0) True))
           = lookup_string server_file (split_dots (normalizeArgument (parseParameters server_params '','' ! 0) True))
      then [Proceed]
      else [FailHijackedRecvMessage, ModifySendStatus (StatusUnauthenticated ''Invalid or missing authorization token''), Proceed])"
proof -
  let ?at = "\<lambda>credentials params. lookup_string credentials (split_dots (normalizeArgument (parseParameters params '','' ! 0) True))"
  have "?at client_file client_params = Some token" "?at server_file server_params = Some expected"
    using assms(1,2)
    by (auto simp: create_auth_credentials_def create_auth_interceptor_def Let_def token_of_lookup rbind_eq_Inr
        split: if_splits option.splits)
  moreover have "map_of (snd (GetMetadata token m)) ''authorization'' = Some token"
    using map_of_multimap_insert [OF assms(3)] by (simp add: GetMetadata_def)
  ultimately show ?thesis using assms(4) by (auto simp: Intercept_def)
qed

lemma add_credentials_all:
  "\<forall>p \<in> set ps. create_call p = Inr (Some (f p)) \<Longrightarrow>
    add_credentials composite create_call c ps = Inr (foldl composite c (map f ps))"
  by (induction ps arbitrary: c) simp_all

text \<open>
  a channel is what its specification says.  From the parameters \<open>endpoint,credentials,calls\<close>, split only
  at commas outside parentheses, the channel goes to the endpoint with the credentials created from the
  second part, to which the call credentials created from the others are added in order.
\<close>

theorem channel_from_specification:
  assumes "\<forall>p \<in> set (e # c # calls). scan '','' 0 p = Some 0" and "last (e # c # calls) \<noteq> []"
    and "create_credentials c = Inr current" and "\<forall>p \<in> set calls. create_call p = Inr (Some (f p))"
  shows "create_channel g create_credentials create_call (join CHR '','' (e # c # calls)) =
    Inr (CreateChannel g (normalizeArgument e True) (foldl (CompositeChannelCredentials g) current (map f calls)))"
proof -
  have "parseParameters (join CHR '','' (e # c # calls)) '','' = e # c # calls"
    using parseParameters_join [of "e # c # calls" "CHR '',''"] assms(1,2) by (auto split: if_splits)
  then show ?thesis using assms(3) add_credentials_all [OF assms(4), of "CompositeChannelCredentials g" current] by (simp add: create_channel_def)
qed

definition sample_grpc :: "(string, string, string, string) grpc" where
  "sample_grpc =
     \<lparr>CreateChannel = (\<lambda>e c. e @ ''|'' @ c), CreateCustomChannel = (\<lambda>e c as. e @ ''|'' @ c),
      CompositeChannelCredentials = (\<lambda>c a. c @ ''+'' @ a), InsecureChannelCredentials = ''insecure'',
      SslCredentials = (\<lambda>p. ''ssl:'' @ p), SslServerCredentials = (\<lambda>k c. k @ c), MetadataCredentials = (\<lambda>t. t)\<rparr>"

theorem auth_accepts_token_witness:
  "Intercept ''s3'' {POST_RECV_INITIAL_METADATA} (snd (GetMetadata ''s3'' [(''b'', ''c'')])) = [Proceed]"
proof -
  let ?client = "JObject [(''judge'', JObject [(''token'', JString ''s3'')])]" and ?server = "JObject [(''token'', JString ''s3'')]"
  have a: "create_auth_credentials (sample_grpc\<lparr>MetadataCredentials := (\<lambda>t. t)\<rparr>) ?client '' judge.token'' = Inr (Some ''s3'')"
    "create_auth_interceptor ?server ''token'' = Inr ''s3''"
    by code_simp+
  have same: "lookup_string ?client (split_dots (normalizeArgument (parseParameters '' judge.token'' '','' ! 0) True))
      = lookup_string ?server (split_dots (normalizeArgument (parseParameters ''token'' '','' ! 0) True))" by code_simp
  have other: "''authorization'' \<notin> fst ` set [(''b'', ''c'')]" by simp
  from auth_accepts_token [OF a other, of "{POST_RECV_INITIAL_METADATA}"] show ?thesis unfolding same by simp
qed

theorem channel_from_specification_witness:
  "create_channel sample_grpc (\<lambda>p. Inr p) (\<lambda>p. Inr (Some p)) ''host:1 ,ssl(a,b),auth(x)'' = Inr ''host:1|ssl(a,b)+auth(x)''"
proof -
  have parts: "\<forall>p \<in> set [''host:1 '', ''ssl(a,b)'', ''auth(x)'']. scan '','' 0 p = Some 0" by code_simp
  have "last [''host:1 '', ''ssl(a,b)'', ''auth(x)''] \<noteq> []" by simp
  from channel_from_specification [OF parts this, of "\<lambda>p. Inr p" "''ssl(a,b)''" "\<lambda>p. Inr (Some p)" "\<lambda>p. p" sample_grpc]
  have "create_channel sample_grpc (\<lambda>p. Inr p) (\<lambda>p. Inr (Some p)) (join CHR '','' [''host:1 '', ''ssl(a,b)'', ''auth(x)'']) =
      Inr (CreateChannel sample_grpc (normalizeArgument ''host:1 '' True)
        (foldl (CompositeChannelCredentials sample_grpc) ''ssl(a,b)'' (map (\<lambda>p. p) [''auth(x)''])))" by simp
  moreover have "join CHR '','' [''host:1 '', ''ssl(a,b)'', ''auth(x)''] = ''host:1 ,ssl(a,b),auth(x)''" by simp
  moreover have "normalizeArgument ''host:1 '' True = ''host:1''" by code_simp
  ultimately show ?thesis by (simp add: sample_grpc_def)
qed

end
