(* ===== verification/Starter.thy ===== *)
theory Starter
  imports Logger Plugin_Manager Grpc_Types Test_Node
begin

text \<open>
  The programs: \<open>main\<close> of \<open>modules/dispatcher/src/server_starter.cpp\<close>, of
  \<open>modules/content_service/src/server/server_starter.cpp\<close> and of \<open>modules/test_node/src/test_node_starter.cpp\<close>.

  Each reads its configuration, configures the logger, loads the plugins and then builds what it runs.  An exception ends the
  program; what it runs afterwards, the handlers and the session, is modelled in the theories of the services.
\<close>

section \<open>The host\<close>

text \<open>
  What a program finds: its files, the parser of the json library, the dynamic linker, and the factories, which the plugins
  that were loaded have changed (\<open>'w\<close>).
\<close>

record ('h, 'w, 'sc, 'i, 'stub) host =
  host_files :: fs
  host_parse :: "string \<Rightarrow> json result"
  host_linker :: "('h, 'w) linker"
  host_factories :: 'w
  server_credential_factory :: "'w \<Rightarrow> string \<Rightarrow> 'sc option result"
  server_interceptor_factory :: "'w \<Rightarrow> string \<Rightarrow> 'i result"
  queue_manager_stub_factory :: "'w \<Rightarrow> string \<Rightarrow> 'stub result"

datatype 'a program = Usage | Runs 'a

text \<open>An input stream also opens on a directory; reading from it then fails, as from an empty file.\<close>

definition open_input :: "fs \<Rightarrow> string \<Rightarrow> string option" where
  "open_input w p = (case node_of w p of None \<Rightarrow> None | Some Directory \<Rightarrow> Some [] | Some (RegularFile t m s) \<Rightarrow> Some t)"

definition no_config :: config_state where
  "no_config = \<lparr>config_file_path = [], credentials_file_path = [], config_instance = None, credentials_instance = None\<rparr>"

definition read_config :: "('h, 'w, 'sc, 'i, 'stub) host \<Rightarrow> string list \<Rightarrow> json result" where
  "read_config hs argv =
     rbind (Config_config (open_input (host_files hs)) (host_parse hs)
        (setCredentialsFilePath (setConfigFilePath no_config (argv ! 1)) (argv ! 2)))
       (\<lambda>(j, c). Inr j)"

definition configure :: "('h, 'w, 'sc, 'i, 'stub) host \<Rightarrow> string list \<Rightarrow> (json \<times> logger) result" where
  "configure hs argv =
     rbind (read_config hs argv) (\<lambda>j.
     rbind (rbind (getLoggerConfig j) required) (\<lambda>config.
       Inr (j, configureLogger config initial_logger)))"

definition load_plugins :: "('h, 'w, 'sc, 'i, 'stub) host \<Rightarrow> json \<Rightarrow> ('h, 'w) plugin_manager" where
  "load_plugins hs j =
     load_all (host_linker hs) (getAllPluginPaths j (host_files hs)) (new_plugin_manager (host_factories hs))"

section \<open>The servers\<close>

record ('sc, 'i) server =
  address :: string
  credentials :: 'sc
  arguments :: "(string \<times> channel_argument) list"
  services :: "string list"
  interceptors :: "'i list"
  handlers :: "string list"
  server_logger :: logger

definition main_dispatcher :: "('h, 'w, 'sc, 'i, 'stub) host \<Rightarrow> string list \<Rightarrow> ('sc, 'i) server program result" where
  "main_dispatcher hs argv =
     (if length argv < 3 then Inr Usage
      else rbind (configure hs argv) (\<lambda>(j, lg).
           rbind (rbind (getMyEndpoint j) required) (\<lambda>server_address.
           let factories = plugin_world (load_plugins hs j) in
           rbind (rbind (getServerCredentials j (server_credential_factory hs factories)) required) (\<lambda>server_credentials.
           rbind (applyServerChannelArguments j []) (\<lambda>args.
           rbind (getInterceptorsForServer j (server_interceptor_factory hs factories)) (\<lambda>is.
             Inr (Runs \<lparr>address = server_address, credentials = server_credentials, arguments = args,
               services = [''DispatcherService'', ''QueueManagerService''], interceptors = is,
               handlers = [''HandleSubmission'', ''Connect''], server_logger = lg\<rparr>)))))))"

definition main_content_service :: "('h, 'w, 'sc, 'i, 'stub) host \<Rightarrow> string list \<Rightarrow> ('sc, 'i) server program result" where
  "main_content_service hs argv =
     (if length argv < 3 then Inr Usage
      else rbind (configure hs argv) (\<lambda>(j, lg).
           rbind (rbind (getMyEndpoint j) required) (\<lambda>server_address.
           let factories = plugin_world (load_plugins hs j) in
           rbind (rbind (getServerCredentials j (server_credential_factory hs factories)) required) (\<lambda>server_credentials.
           rbind (getInterceptorsForServer j (server_interceptor_factory hs factories)) (\<lambda>is.
             Inr (Runs \<lparr>address = server_address, credentials = server_credentials, arguments = [],
               services = [''ContentService''], interceptors = is,
               handlers = [''GetManifest'', ''SetPermissions'', ''GetFile'', ''CreateFile'', ''UpdateFile'', ''DeleteFile'',
                 ''CreateContent'', ''ListContent''], server_logger = lg\<rparr>))))))"

section \<open>The test node\<close>

text \<open>What it runs: one session under its id and type; the result of the session is thrown away.\<close>

definition main_test_node ::
    "('h, 'w, 'sc, 'i, 'stub) host \<Rightarrow> string list \<Rightarrow> ('stub \<times> string \<times> string) program result" where
  "main_test_node hs argv =
     (if length argv < 3 then Inr Usage
      else rbind (configure hs argv) (\<lambda>(j, lg).
           let factories = plugin_world (load_plugins hs j) in
           rbind (rbind (getQueueManagerServiceStubType j) required) (\<lambda>stub_type.
           rbind (queue_manager_stub_factory hs factories stub_type) (\<lambda>stub.
           rbind (rbind (getMyTestNodeId j) required) (\<lambda>test_node_id.
           rbind (rbind (getMyTestNodeType j) required) (\<lambda>test_node_type.
             Inr (Runs (stub, test_node_id, test_node_type))))))))"

section \<open>What a server is started with\<close>

lemma create_each_map: "create_each f ts = Inr xs \<longleftrightarrow> map f ts = map Inr xs"
  by (induction ts arbitrary: xs) (auto simp: rbind_eq_Inr Cons_eq_map_conv)

lemma main_started:
  assumes "main_dispatcher hs argv = Inr (Runs s) \<or> main_content_service hs argv = Inr (Runs s)"
  shows "\<exists>j. read_config hs argv = Inr j \<and> getMyEndpoint j = Inr (Some (address s))
    \<and> getServerCredentials j (server_credential_factory hs (plugin_world (load_plugins hs j))) = Inr (Some (credentials s))
    \<and> getInterceptorsForServer j (server_interceptor_factory hs (plugin_world (load_plugins hs j))) = Inr (interceptors s)"
  using assms
  by (auto simp: main_dispatcher_def main_content_service_def configure_def rbind_eq_Inr Let_def requireHasValue_def split: if_splits prod.splits option.splits)

lemma collect_strings_ok:
  "collect_strings xs acc = Inr ts \<Longrightarrow> \<exists>ss. xs = map JString ss \<and> ts = acc @ ss"
proof (induction xs arbitrary: acc)
  case (Cons x xs)
  obtain v where v: "x = JString v" using Cons.prems by (cases x) simp_all
  with Cons.prems Cons.IH [of "acc @ [v]"] obtain ss where "xs = map JString ss" "ts = (acc @ [v]) @ ss" by auto
  with v show ?case by (intro exI [of _ "v # ss"]) simp
qed simp

definition configured_interceptors :: "json \<Rightarrow> json list" where
  "configured_interceptors j =
     (case jlookup j [''grpc'', ''server_interceptors''] of Some (JArray xs) \<Rightarrow> xs | _ \<Rightarrow> [])"

lemma interceptor_types:
  assumes "getServerInterceptorTypes j = Inr ts"
  shows "configured_interceptors j = map JString ts"
proof (cases "checkObjectIsArray j [''grpc'', ''server_interceptors'']")
  case True
  then obtain v where "jlookup j [''grpc'', ''server_interceptors''] = Some v" "json_type v = array_t"
    by (auto simp: checkObjectIsArray_def checkPath_def checkPathWith_iff split: option.splits)
  then obtain xs where v: "jlookup j [''grpc'', ''server_interceptors''] = Some (JArray xs)" by (cases v) simp_all
  with assms True have "collect_strings xs [] = Inr ts"
    by (simp add: getServerInterceptorTypes_def jpath_lookup [OF v] del: jpath.simps jlookup.simps)
  from collect_strings_ok [OF this] v show ?thesis by (auto simp: configured_interceptors_def)
next
  case False
  then have "\<nexists>xs. jlookup j [''grpc'', ''server_interceptors''] = Some (JArray xs)"
    by (auto simp: checkObjectIsArray_def checkPath_def checkPathWith_iff split: option.splits)
  moreover have "ts = []" using assms False by (simp add: getServerInterceptorTypes_def)
  ultimately show ?thesis by (auto simp: configured_interceptors_def split: option.splits json.splits)
qed

text \<open>
  C33: a server that starts has what its configuration asks for.  Its address is the configured endpoint, its credentials
  are made from the configured type, and its interceptors are made, by the factories as the plugins have left them, from
  all the entries of the configured array and in their order.  Without an array there is no interceptor, also when a single
  one is given as a string.
\<close>

theorem started_server_access:
  assumes "main_dispatcher hs argv = Inr (Runs s) \<or> main_content_service hs argv = Inr (Runs s)"
  shows "\<exists>j t es. read_config hs argv = Inr j
    \<and> lookup_string j [''grpc'', ''my_endpoint''] = Some (address s)
    \<and> lookup_string j [''grpc'', ''server_credentials''] = Some t
    \<and> server_credential_factory hs (plugin_world (load_plugins hs j)) t = Inr (Some (credentials s))
    \<and> configured_interceptors j = map JString es
    \<and> map (server_interceptor_factory hs (plugin_world (load_plugins hs j))) es = map Inr (interceptors s)"
proof -
  obtain j where j: "read_config hs argv = Inr j" "getMyEndpoint j = Inr (Some (address s))"
    "getServerCredentials j (server_credential_factory hs (plugin_world (load_plugins hs j))) = Inr (Some (credentials s))"
    "getInterceptorsForServer j (server_interceptor_factory hs (plugin_world (load_plugins hs j))) = Inr (interceptors s)"
    using main_started [OF assms] by blast
  from j(2) have "lookup_string j [''grpc'', ''my_endpoint''] = Some (address s)"
    by (simp add: getMyEndpoint_def read_string_eq)
  moreover from j(3) obtain t where "lookup_string j [''grpc'', ''server_credentials''] = Some t"
    "server_credential_factory hs (plugin_world (load_plugins hs j)) t = Inr (Some (credentials s))"
    by (auto simp: getServerCredentials_def getServerCredentialsType_def read_string_eq split: option.splits)
  moreover from j(4) obtain es where "getServerInterceptorTypes j = Inr es"
    "map (server_interceptor_factory hs (plugin_world (load_plugins hs j))) es = map Inr (interceptors s)"
    by (auto simp: getInterceptorsForServer_def rbind_eq_Inr create_each_map)
  ultimately show ?thesis using j(1) interceptor_types by blast
qed

definition sample_host :: "json \<Rightarrow> (unit, unit, string, string, string) host" where
  "sample_host interceptor_types =
     \<lparr>host_files = \<lparr>nodes = [([''c''], RegularFile ''cfg'' 420 0)], cwd = [], clock = 0, new_permissions = 420\<rparr>,
      host_parse = (\<lambda>t. Inr (JObject [
        (''grpc'', JObject [(''my_endpoint'', JString ''0.0.0.0:1''), (''server_credentials'', JString ''Insecure''),
                            (''server_interceptors'', interceptor_types)]),
        (''logger'', JObject [(''log_levels'', JObject [])])])),
      host_linker = \<lparr>dlopen = (\<lambda>p w. (None, w)), dlsym = (\<lambda>h n. None)\<rparr>, host_factories = (),
      server_credential_factory = (\<lambda>w t. Inr (Some t)), server_interceptor_factory = (\<lambda>w t. Inr (''new '' @ t)),
      queue_manager_stub_factory = (\<lambda>w t. Inr t)\<rparr>"

lemma sample_host_starts:
  assumes "v = JString ''auth(a)'' \<or> v = JArray [JString ''auth(a)'', JString ''auth(b)'']"
  shows "\<exists>s. main_content_service (sample_host v) [''content_service'', ''c'', ''d''] = Inr (Runs s)"
proof -
  have "case main_content_service (sample_host (JString ''auth(a)'')) [''content_service'', ''c'', ''d''] of Inr (Runs s) \<Rightarrow> True | _ \<Rightarrow> False"
    by code_simp
  moreover have "case main_content_service (sample_host (JArray [JString ''auth(a)'', JString ''auth(b)''])) [''content_service'', ''c'', ''d''] of
      Inr (Runs s) \<Rightarrow> True | _ \<Rightarrow> False"
    by code_simp
  ultimately show ?thesis using assms by (auto split: sum.splits program.splits)
qed

lemma sample_host_config:
  "read_config (sample_host v) [''content_service'', ''c'', ''d''] = Inr j \<Longrightarrow> jlookup j [''grpc'', ''server_interceptors''] = Some v"
proof -
  let ?r = "\<lambda>v. read_config (sample_host v) [''content_service'', ''c'', ''d'']"
  have open_c: "open_input (host_files (sample_host v)) ''c'' = Some ''cfg''" for v
    by (simp add: sample_host_def) code_simp
  assume "?r v = Inr j"
  then show ?thesis
    by (simp add: read_config_def Config_config_def Config_load_def no_config_def setConfigFilePath_def setCredentialsFilePath_def open_c)
       (auto simp: sample_host_def)
qed

text \<open>Two interceptors in an array are made in their order; one given as a string is not made.\<close>

theorem started_server_access_witness:
  "(\<exists>s. main_content_service (sample_host (JArray [JString ''auth(a)'', JString ''auth(b)''])) [''content_service'', ''c'', ''d''] = Inr (Runs s)
      \<and> interceptors s = [''new auth(a)'', ''new auth(b)''])
   \<and> (\<exists>s. main_content_service (sample_host (JString ''auth(a)'')) [''content_service'', ''c'', ''d''] = Inr (Runs s)
      \<and> interceptors s = [])"
proof -
  let ?argv = "[''content_service'', ''c'', ''d'']"
  have made: "\<exists>s. main_content_service (sample_host v) ?argv = Inr (Runs s) \<and> interceptors s = map ((@) ''new '') es"
    if v: "v = JString ''auth(a)'' \<or> v = JArray [JString ''auth(a)'', JString ''auth(b)'']"
      and es: "(case v of JArray xs \<Rightarrow> xs | _ \<Rightarrow> []) = map JString es" for v es
  proof -
    obtain s where s: "main_content_service (sample_host v) ?argv = Inr (Runs s)" using sample_host_starts [OF v] by blast
    have factory: "server_interceptor_factory (sample_host v) w = (\<lambda>t. Inr (''new '' @ t))" for w
      by (simp add: sample_host_def)
    obtain j fs where
      j: "read_config (sample_host v) ?argv = Inr j" "configured_interceptors j = map JString fs"
        "map (\<lambda>t. Inr (''new '' @ t) :: string result) fs = map Inr (interceptors s)"
      using started_server_access [of "sample_host v" ?argv s, unfolded factory, OF disjI2, OF s] by blast
    have "map JString fs = map JString es"
      using j(2) es sample_host_config [OF j(1)] by (simp add: configured_interceptors_def)
    then have "fs = es" by (simp add: inj_map_eq_map inj_def)
    moreover have "interceptors s = map ((@) ''new '') fs"
    proof -
      from j(3) have "map (Inr :: string \<Rightarrow> string result) (map ((@) ''new '') fs) = map Inr (interceptors s)"
        by (simp add: comp_def del: append.simps)
      then show ?thesis unfolding inj_map_eq_map [OF inj_Inr] by (rule sym)
    qed
    ultimately show ?thesis using s by blast
  qed
  show ?thesis
    using made [of "JArray [JString ''auth(a)'', JString ''auth(b)'']" "[''auth(a)'', ''auth(b)'']"]
      made [of "JString ''auth(a)''" "[]"] by simp
qed

end
