(* ===== verification/Awaitable_Bridge.thy ===== *)
theory Awaitable_Bridge
  imports Prelude
begin

text \<open>
  The bridge between the coroutines of the judge and Python's event loops, of
  \<open>modules/shared/python_binding/awaitable_support\<close>: \<open>awaitable_bridge.cpp\<close>, of which several may be active on a
  thread, one inside the other, and \<open>awaitable_binder.inl\<close>, which hands a coroutine to the current one and
  resolves a future with what it returns.

  A bridge is known by its address.  Python's objects are what the code does with them: references to the event loop, and the
  references to futures and whether they are settled.  \<open>jobs\<close> are the coroutines in the io contexts of the bridges, with the
  raw pointer to its future each of them owns; when a coroutine is through is up to what it waits for, so \<open>poll\<close> is given those that are
  and what came of them.
\<close>

section \<open>Bridges\<close>

record bridge =
  cached_loop :: "nat option"
  previous :: "nat option"

datatype 'v settlement = Result 'v | Exception string | Cancelled

record 'v future =
  refs :: nat
  settled :: "'v settlement option"

record ('t, 'v) python =
  bridges :: "nat \<Rightarrow> bridge option"
  current :: "nat option"
  running_loop :: "nat option"
  loop_refs :: "nat \<Rightarrow> nat"
  futures :: "nat \<Rightarrow> 'v future option"
  next_future :: nat
  jobs :: "(nat \<times> nat \<times> 't) list"

definition new_bridge :: bridge where
  "new_bridge = \<lparr>cached_loop = None, previous = None\<rparr>"

definition initial_python :: "('t, 'v) python" where
  "initial_python = \<lparr>bridges = Map.empty, current = None, running_loop = None, loop_refs = (\<lambda>_. 0), futures = Map.empty,
     next_future = 0, jobs = []\<rparr>"

definition create_bridge :: "nat \<Rightarrow> (('t, 'v) python, unit) io" where
  "create_bridge b = io_do (\<lambda>st. st\<lparr>bridges := (bridges st)(b \<mapsto> new_bridge)\<rparr>)"

text \<open>A bridge that was cached for another loop is overwritten, and its reference to that loop with it.\<close>

definition activate :: "nat \<Rightarrow> (('t, 'v) python, unit) io" where
  "activate b st =
     (case bridges st b of
        None \<Rightarrow> (Inl UndefinedBehaviour, st)
      | Some r \<Rightarrow>
          if current st = Some b then (Inl (RuntimeError ''AwaitableBridge: already active on this thread''), st)
          else (case running_loop st of
              None \<Rightarrow> (Inl (RuntimeError ''RuntimeError: no running event loop''), st)
            | Some l \<Rightarrow>
                (Inr (), st\<lparr>loop_refs := (loop_refs st)(l := loop_refs st l + 1),
                   bridges := (bridges st)(b \<mapsto> r\<lparr>cached_loop := Some l, previous := current st\<rparr>),
                   current := Some b\<rparr>)))"

definition release_loop :: "nat option \<Rightarrow> (nat \<Rightarrow> nat) \<Rightarrow> nat \<Rightarrow> nat" where
  "release_loop l counts = (case l of None \<Rightarrow> counts | Some k \<Rightarrow> counts(k := counts k - 1))"

text \<open>Stopping and restarting the io context while nobody runs it changes nothing: what is in it stays.\<close>

definition deactivate :: "nat \<Rightarrow> (('t, 'v) python, unit) io" where
  "deactivate b st =
     (case bridges st b of
        None \<Rightarrow> (Inl UndefinedBehaviour, st)
      | Some r \<Rightarrow>
          if current st \<noteq> Some b then (Inl (RuntimeError ''AwaitableBridge: not the active bridge on this thread''), st)
          else (Inr (), st\<lparr>current := previous r, bridges := (bridges st)(b \<mapsto> \<lparr>cached_loop = None, previous = None\<rparr>),
                  loop_refs := release_loop (cached_loop r) (loop_refs st)\<rparr>))"

text \<open>
  The destructor deactivates a bridge only if it is the current one.  Its io context destroys the coroutines in it; the futures they
  had pointers to are left as they are.
\<close>

definition destroy_bridge :: "nat \<Rightarrow> (('t, 'v) python, unit) io" where
  "destroy_bridge b st =
     (case bridges st b of
        None \<Rightarrow> (Inl UndefinedBehaviour, st)
      | Some r \<Rightarrow>
          (let st1 = (if current st = Some b then snd (deactivate b st) else st)
           in (Inr (), st1\<lparr>bridges := (bridges st1)(b := None), jobs := filter (\<lambda>j. fst j \<noteq> b) (jobs st1)\<rparr>)))"

definition current_of :: "('t, 'v) python \<Rightarrow> nat result" where
  "current_of st =
     (case current st of
        None \<Rightarrow> Inl (RuntimeError ''AwaitableBridge: no active bridge on this thread. Did you forget `async with bridge:`?'')
      | Some b \<Rightarrow> Inr b)"

definition hasCurrent :: "('t, 'v) python \<Rightarrow> bool" where
  "hasCurrent st = (current st \<noteq> None)"

section \<open>Futures\<close>

definition createFuture :: "nat \<Rightarrow> (('t, 'v) python, nat) io" where
  "createFuture b st =
     (case bridges st b of
        None \<Rightarrow> (Inl UndefinedBehaviour, st)
      | Some r \<Rightarrow>
          if cached_loop r = None then (Inl (RuntimeError ''AwaitableBridge: not active - call activate() first''), st)
          else (Inr (next_future st),
                st\<lparr>futures := (futures st)(next_future st \<mapsto> \<lparr>refs = 1, settled = None\<rparr>), next_future := next_future st + 1\<rparr>))"

definition incref :: "nat \<Rightarrow> (('t, 'v) python, unit) io" where
  "incref f st =
     (case futures st f of
        None \<Rightarrow> (Inl UndefinedBehaviour, st)
      | Some u \<Rightarrow> (Inr (), st\<lparr>futures := (futures st)(f \<mapsto> u\<lparr>refs := refs u + 1\<rparr>)\<rparr>))"

definition decref :: "nat \<Rightarrow> (('t, 'v) python, unit) io" where
  "decref f st =
     (case futures st f of
        None \<Rightarrow> (Inl UndefinedBehaviour, st)
      | Some u \<Rightarrow> (Inr (), st\<lparr>futures := (futures st)(f := (if refs u \<le> 1 then None else Some (u\<lparr>refs := refs u - 1\<rparr>)))\<rparr>))"

text \<open>\<open>set_result\<close> and \<open>set_exception\<close> of asyncio: they raise on a future that is settled, a cancelled one included.\<close>

definition settle :: "nat \<Rightarrow> 'v settlement \<Rightarrow> (('t, 'v) python, unit) io" where
  "settle f x st =
     (case futures st f of
        None \<Rightarrow> (Inl UndefinedBehaviour, st)
      | Some u \<Rightarrow>
          if settled u \<noteq> None then (Inl (RuntimeError ''InvalidStateError: invalid state''), st)
          else (Inr (), st\<lparr>futures := (futures st)(f \<mapsto> u\<lparr>settled := Some x\<rparr>)\<rparr>))"

text \<open>
  A stolen reference is given up when its owner goes out of scope, returning or unwinding.
\<close>

definition stolen :: "nat \<Rightarrow> (('t, 'v) python, 'a) io \<Rightarrow> (('t, 'v) python, 'a) io" where
  "stolen f m st =
     (case m st of
        (Inr x, st1) \<Rightarrow> io_bind (decref f) (\<lambda>_. io_return x) st1
      | (Inl e, st1) \<Rightarrow> if catchable e then io_bind (decref f) (\<lambda>_. io_lift (Inl e)) st1 else (Inl e, st1))"

definition setFutureException :: "nat \<Rightarrow> exn \<Rightarrow> (('t, 'v) python, unit) io" where
  "setFutureException raw_future e = stolen raw_future (settle raw_future (Exception (what e)))"

text \<open>\<open>cast\<close> is the conversion of the result to a Python object, which may throw.\<close>

definition awaitAndResolve :: "('r \<Rightarrow> 'v result) \<Rightarrow> nat \<Rightarrow> 'r result \<Rightarrow> (('t, 'v) python, unit) io" where
  "awaitAndResolve cast raw_future task st =
     (case task of
        Inl e \<Rightarrow> if catchable e then setFutureException raw_future e st else (Inl e, st)
      | Inr v \<Rightarrow>
          (case stolen raw_future (io_bind (io_lift (cast v)) (\<lambda>x. settle raw_future (Result x))) st of
             (Inr _, st1) \<Rightarrow> (Inr (), st1)
           | (Inl e, st1) \<Rightarrow> if catchable e then setFutureException raw_future e st1 else (Inl e, st1)))"

text \<open>The reference \<open>createFuture\<close> returns goes to the caller, the other is owned by the coroutine.\<close>

definition spawn :: "'t \<Rightarrow> (('t, 'v) python, nat) io" where
  "spawn task st =
     (case current_of st of
        Inl e \<Rightarrow> (Inl e, st)
      | Inr b \<Rightarrow>
          io_bind (createFuture b) (\<lambda>f.
          io_bind (incref f) (\<lambda>_.
          io_bind (io_do (\<lambda>w. w\<lparr>jobs := jobs w @ [(b, f, task)]\<rparr>)) (\<lambda>_. io_return f))) st)"

text \<open>
  \<open>poll\<close> runs what is ready.  A coroutine of the bridge that is through resolves its future; an exception that leaves it is dropped by
  \<open>detached\<close>.
\<close>

fun poll_loop :: "('r \<Rightarrow> 'v result) \<Rightarrow> nat \<Rightarrow> (nat \<times> 'r result) list \<Rightarrow> (('t, 'v) python, unit) io" where
  "poll_loop cast b [] st = (Inr (), st)"
| "poll_loop cast b ((f, task) # ready) st =
     (if \<not> (\<exists>j\<in>set (jobs st). fst j = b \<and> fst (snd j) = f) then poll_loop cast b ready st
      else io_bind (io_catch (awaitAndResolve cast f task) ()) (\<lambda>_. poll_loop cast b ready)
             (st\<lparr>jobs := filter (\<lambda>j. \<not> (fst j = b \<and> fst (snd j) = f)) (jobs st)\<rparr>))"

definition poll :: "('r \<Rightarrow> 'v result) \<Rightarrow> nat \<Rightarrow> (nat \<times> 'r result) list \<Rightarrow> (('t, 'v) python, unit) io" where
  "poll cast b ready st = (if bridges st b = None then (Inl UndefinedBehaviour, st) else poll_loop cast b ready st)"

section \<open>Bridges are a stack\<close>

text \<open>
  What the bridges of a thread stand for: those that exist, and the active ones with their loops, the current one first.
\<close>

primrec chain :: "(nat \<Rightarrow> bridge option) \<Rightarrow> nat option \<Rightarrow> (nat \<times> nat) list \<Rightarrow> bool" where
  "chain br p [] = (p = None)"
| "chain br p (x # xs) = (p = Some (fst x) \<and>
     (\<exists>r. br (fst x) = Some r \<and> cached_loop r = Some (snd x) \<and> chain br (previous r) xs))"

record stack =
  alive :: "nat set"
  active :: "(nat \<times> nat) list"
  event_loop :: "nat option"

definition represents :: "('t, 'v) python \<Rightarrow> stack \<Rightarrow> bool" where
  "represents st S \<longleftrightarrow> chain (bridges st) (current st) (active S) \<and> distinct (map fst (active S))
     \<and> (\<forall>b. bridges st b \<noteq> None \<longleftrightarrow> b \<in> alive S)
     \<and> (\<forall>b r. bridges st b = Some r \<longrightarrow> b \<notin> fst ` set (active S) \<longrightarrow> r = new_bridge)
     \<and> (\<forall>l. loop_refs st l = count_list (map snd (active S)) l)
     \<and> running_loop st = event_loop S"

datatype bridge_op = Create nat | Activate nat | Deactivate nat | Destroy nat | Enter "nat option"

fun bridge_step :: "bridge_op \<Rightarrow> (('t, 'v) python, unit) io" where
  "bridge_step (Create b) st = create_bridge b st"
| "bridge_step (Activate b) st = activate b st"
| "bridge_step (Deactivate b) st = deactivate b st"
| "bridge_step (Destroy b) st = destroy_bridge b st"
| "bridge_step (Enter l) st = (Inr (), st\<lparr>running_loop := l\<rparr>)"

definition on_top :: "nat \<Rightarrow> stack \<Rightarrow> bool" where
  "on_top b S = (case active S of [] \<Rightarrow> False | x # xs \<Rightarrow> fst x = b)"

fun stack_step :: "bridge_op \<Rightarrow> stack \<Rightarrow> unit result \<times> stack" where
  "stack_step (Create b) S = (Inr (), S\<lparr>alive := insert b (alive S)\<rparr>)"
| "stack_step (Activate b) S =
     (if on_top b S then (Inl (RuntimeError ''AwaitableBridge: already active on this thread''), S)
      else (case event_loop S of
          None \<Rightarrow> (Inl (RuntimeError ''RuntimeError: no running event loop''), S)
        | Some l \<Rightarrow> (Inr (), S\<lparr>active := (b, l) # active S\<rparr>)))"
| "stack_step (Deactivate b) S =
     (if on_top b S then (Inr (), S\<lparr>active := tl (active S)\<rparr>)
      else (Inl (RuntimeError ''AwaitableBridge: not the active bridge on this thread''), S))"
| "stack_step (Destroy b) S =
     (Inr (), S\<lparr>alive := alive S - {b}, active := (if on_top b S then tl (active S) else active S)\<rparr>)"
| "stack_step (Enter l) S = (Inr (), S\<lparr>event_loop := l\<rparr>)"

text \<open>How bridges must be used: only the innermost active one may be touched among those that are active.\<close>

fun orderly :: "bridge_op \<Rightarrow> stack \<Rightarrow> bool" where
  "orderly (Create b) S = (b \<notin> alive S)"
| "orderly (Enter l) S = True"
| "orderly (Deactivate b) S = (b \<in> alive S)"
| "orderly (Activate b) S = (b \<in> alive S \<and> b \<notin> fst ` set (tl (active S)))"
| "orderly (Destroy b) S = (b \<in> alive S \<and> b \<notin> fst ` set (tl (active S)))"

fun bridge_run :: "bridge_op list \<Rightarrow> ('t, 'v) python \<Rightarrow> unit result list \<times> ('t, 'v) python" where
  "bridge_run [] st = ([], st)"
| "bridge_run (a # as) st = (case bridge_step a st of (r, st1) \<Rightarrow> (case bridge_run as st1 of (rs, st2) \<Rightarrow> (r # rs, st2)))"

fun stack_run :: "bridge_op list \<Rightarrow> stack \<Rightarrow> unit result list \<times> stack" where
  "stack_run [] S = ([], S)"
| "stack_run (a # as) S = (case stack_step a S of (r, S1) \<Rightarrow> (case stack_run as S1 of (rs, S2) \<Rightarrow> (r # rs, S2)))"

fun orderly_run :: "bridge_op list \<Rightarrow> stack \<Rightarrow> bool" where
  "orderly_run [] S = True"
| "orderly_run (a # as) S = (orderly a S \<and> orderly_run as (snd (stack_step a S)))"

lemma chain_other: "b \<notin> fst ` set xs \<Longrightarrow> chain (br(b := x)) p xs = chain br p xs"
  by (induction xs arbitrary: p) auto

lemma chain_current: "chain br p xs \<Longrightarrow> p = (case xs of [] \<Rightarrow> None | x # _ \<Rightarrow> Some (fst x))"
  by (cases xs) simp_all

lemma chain_alive: "chain br p xs \<Longrightarrow> x \<in> set xs \<Longrightarrow> br (fst x) \<noteq> None"
  by (induction xs arbitrary: p) auto

lemma represents_top: "represents st S \<Longrightarrow> current st = Some b \<longleftrightarrow> on_top b S"
  by (auto simp: represents_def on_top_def dest!: chain_current split: list.splits)

lemma represents_alive: "represents st S \<Longrightarrow> b \<in> alive S \<Longrightarrow> \<exists>r. bridges st b = Some r"
  by (auto simp: represents_def)

lemma not_active: "\<not> on_top b S \<Longrightarrow> b \<notin> fst ` set (tl (active S)) \<Longrightarrow> b \<notin> fst ` set (active S)"
  by (cases "active S") (auto simp: on_top_def)

lemma activate_pushes:
  assumes "represents st S" "orderly (Activate b) S"
  shows "fst (activate b st) = fst (stack_step (Activate b) S) \<and> represents (snd (activate b st)) (snd (stack_step (Activate b) S))"
proof -
  obtain r where r: "bridges st b = Some r" using represents_alive [OF assms(1)] assms(2) by auto
  show ?thesis
  proof (cases "on_top b S \<or> event_loop S = None")
    case True
    then show ?thesis using assms represents_top [OF assms(1), of b] r
      by (auto simp: activate_def represents_def split: option.splits)
  next
    case False
    then obtain l where l: "event_loop S = Some l" "\<not> on_top b S" by auto
    then have b: "b \<notin> fst ` set (active S)" using assms(2) by (intro not_active) auto
    show ?thesis using assms(1) represents_top [OF assms(1), of b] r l b
      by (auto simp: activate_def represents_def chain_other)
  qed
qed

lemma deactivate_pops:
  assumes "represents st S" "b \<in> alive S"
  shows "fst (deactivate b st) = fst (stack_step (Deactivate b) S) \<and> represents (snd (deactivate b st)) (snd (stack_step (Deactivate b) S))"
proof -
  obtain r where r: "bridges st b = Some r" using represents_alive [OF assms] by auto
  show ?thesis
  proof (cases "on_top b S")
    case False
    then show ?thesis using assms represents_top [OF assms(1), of b] r by (simp add: deactivate_def)
  next
    case True
    then obtain l xs where xs: "active S = (b, l) # xs" by (auto simp: on_top_def split: list.splits)
    then show ?thesis using assms(1) r True represents_top [OF assms(1), of b]
      by (auto simp: deactivate_def represents_def chain_other release_loop_def new_bridge_def)
  qed
qed

lemma represents_forget:
  assumes "represents st S" "b \<notin> fst ` set (active S)"
  shows "represents (st\<lparr>bridges := (bridges st)(b := None), jobs := js\<rparr>) (S\<lparr>alive := alive S - {b}\<rparr>)"
  using assms by (auto simp: represents_def chain_other)

lemma destroy_pops:
  assumes "represents st S" "orderly (Destroy b) S"
  shows "fst (destroy_bridge b st) = fst (stack_step (Destroy b) S) \<and> represents (snd (destroy_bridge b st)) (snd (stack_step (Destroy b) S))"
proof -
  have b: "b \<in> alive S" using assms(2) by simp
  obtain r where r: "bridges st b = Some r" using represents_alive [OF assms(1) b] by auto
  define st1 where "st1 = (if current st = Some b then snd (deactivate b st) else st)"
  define S1 where "S1 = S\<lparr>active := (if on_top b S then tl (active S) else active S)\<rparr>"
  have st1: "represents st1 S1"
    using deactivate_pops [OF assms(1) b] assms(1) represents_top [OF assms(1), of b]
    by (auto simp: st1_def S1_def split: if_splits)
  have off: "b \<notin> fst ` set (active S1)"
    using assms(2) not_active [of b S] by (auto simp: S1_def)
  have "destroy_bridge b st = (Inr (), st1\<lparr>bridges := (bridges st1)(b := None), jobs := filter (\<lambda>j. fst j \<noteq> b) (jobs st1)\<rparr>)"
    using r by (simp add: destroy_bridge_def st1_def Let_def)
  moreover have "alive S1 = alive S" by (simp add: S1_def)
  moreover have "snd (stack_step (Destroy b) S) = S1\<lparr>alive := alive S1 - {b}\<rparr>" by (simp add: S1_def)
  ultimately show ?thesis using represents_forget [OF st1 off] by simp
qed

lemma create_adds:
  assumes "represents st S" "b \<notin> alive S"
  shows "represents (st\<lparr>bridges := (bridges st)(b \<mapsto> new_bridge)\<rparr>) (S\<lparr>alive := insert b (alive S)\<rparr>)"
proof -
  have "b \<notin> fst ` set (active S)" using assms by (auto simp: represents_def dest: chain_alive)
  with assms show ?thesis by (auto simp: represents_def chain_other)
qed

lemma bridge_step_refines:
  assumes "represents st S" "orderly a S" "bridge_step a st = (r, st1)"
  obtains S1 where "stack_step a S = (r, S1)" "represents st1 S1"
proof -
  have "fst (bridge_step a st) = fst (stack_step a S) \<and> represents (snd (bridge_step a st)) (snd (stack_step a S))"
  proof (cases a)
    case (Create b)
    with assms(1,2) show ?thesis by (simp add: create_bridge_def io_do_def create_adds)
  next
    case (Activate b)
    with activate_pushes [OF assms(1), of b] assms(2) show ?thesis by (simp del: stack_step.simps)
  next
    case (Deactivate b)
    with deactivate_pops [OF assms(1), of b] assms(2) show ?thesis by (simp del: stack_step.simps)
  next
    case (Destroy b)
    with destroy_pops [OF assms(1), of b] assms(2) show ?thesis by (simp del: stack_step.simps)
  next
    case (Enter l)
    with assms(1) show ?thesis by (auto simp: represents_def)
  qed
  with assms(3) that [of "snd (stack_step a S)"] show thesis by (cases "stack_step a S") simp
qed

definition no_bridges :: stack where
  "no_bridges = \<lparr>alive = {}, active = [], event_loop = None\<rparr>"

lemma represents_initial: "represents initial_python no_bridges"
  by (simp add: represents_def initial_python_def no_bridges_def)

text \<open>
  C26: as long as of the active bridges of a thread only the innermost is activated again, deactivated or destroyed, the bridges
  are a stack: activating pushes a bridge with the running loop, deactivating pops it and gives the reference to
  its loop back, a call that is out of order is answered by the error the code documents and changes nothing, and a bridge that
  is not active is as new.
\<close>

theorem bridges_are_a_stack:
  assumes "represents st S" "orderly_run as S" "bridge_run as st = (rs, st')"
  shows "\<exists>S'. stack_run as S = (rs, S') \<and> represents st' S'"
  using assms
proof (induction as arbitrary: st S rs st')
  case (Cons a as)
  obtain r st1 where 1: "bridge_step a st = (r, st1)" by (cases "bridge_step a st")
  obtain rs1 st2 where 2: "bridge_run as st1 = (rs1, st2)" by (cases "bridge_run as st1")
  have "orderly a S" using Cons.prems(2) by simp
  from Cons.prems(1) this 1 obtain S1 where S1: "stack_step a S = (r, S1)" "represents st1 S1" by (rule bridge_step_refines)
  have rest: "rs = r # rs1" "st' = st2" using Cons.prems(3) 1 2 by simp_all
  have "orderly_run as S1" using Cons.prems(2) S1(1) by simp
  from Cons.IH [OF S1(2) this 2] obtain S' where "stack_run as S1 = (rs1, S')" "represents st2 S'" by blast
  with S1(1) rest show ?case by auto
qed simp

definition nested_use :: "bridge_op list" where
  "nested_use = [Create 0, Create 1, Activate 0, Enter (Some 7), Activate 0, Activate 1, Deactivate 0, Deactivate 1, Deactivate 0, Destroy 1]"

lemma nested_use_stack:
  "orderly_run nested_use no_bridges"
  "case stack_run nested_use no_bridges of (rs, S) \<Rightarrow> active S = [] \<and> alive S = {0}
     \<and> map is_ok rs = [True, True, False, True, True, True, False, True, True, True]"
  by (simp_all add: nested_use_def no_bridges_def on_top_def)

theorem bridges_are_a_stack_witness:
  "\<exists>rs st' S'. bridge_run nested_use (initial_python :: (unit, unit) python) = (rs, st')
     \<and> stack_run nested_use no_bridges = (rs, S') \<and> represents st' S' \<and> active S' = [] \<and> alive S' = {0}
     \<and> map is_ok rs = [True, True, False, True, True, True, False, True, True, True]"
proof -
  obtain rs st' where run: "bridge_run nested_use (initial_python :: (unit, unit) python) = (rs, st')"
    by (rule prod.exhaust)
  from bridges_are_a_stack [OF represents_initial nested_use_stack(1) run] obtain S' where
    S': "stack_run nested_use no_bridges = (rs, S')" "represents st' S'" by blast
  show ?thesis
    using run S' nested_use_stack(2) by (intro exI [of _ rs] exI [of _ st'] exI [of _ S']) simp
qed

text \<open>
  Out of order.  An outer bridge can be activated again, since only the current one is refused: the bridges then form a cycle,
  and when each has been deactivated the thread is left with a current bridge that is not active.  An outer bridge that is destroyed
  leaves its address to the bridge inside it, which makes it current again.
\<close>

lemma two_active:
  assumes "represents st S" "active S = [(b1, l1), (b0, l0)]"
  shows "\<exists>r1 r0. current st = Some b1 \<and> b1 \<noteq> b0 \<and> bridges st b1 = Some r1 \<and> previous r1 = Some b0 \<and> bridges st b0 = Some r0"
  using assms by (auto simp: represents_def)

lemma reactivated_outer_bridge:
  assumes "represents st S" "active S = [(b1, l1), (b0, l0)]" "running_loop st = Some l"
  shows "\<exists>st1 st2 st3. activate b0 st = (Inr (), st1) \<and> deactivate b0 st1 = (Inr (), st2) \<and> deactivate b1 st2 = (Inr (), st3)
    \<and> hasCurrent st3 \<and> current_of st3 = Inr b0 \<and> is_ok (fst (createFuture b0 st3)) = False
    \<and> fst (activate b0 st3) = Inl (RuntimeError ''AwaitableBridge: already active on this thread'')"
proof -
  obtain r1 r0 where r: "current st = Some b1" "b1 \<noteq> b0" "bridges st b1 = Some r1" "previous r1 = Some b0" "bridges st b0 = Some r0"
    using two_active [OF assms(1,2)] by metis
  show ?thesis
    by (simp add: r assms(3) r(2) [symmetric] activate_def deactivate_def hasCurrent_def current_of_def createFuture_def)
qed

lemma destroyed_outer_bridge:
  assumes "represents st S" "active S = [(b1, l1), (b0, l0)]"
  shows "\<exists>st1 st2. destroy_bridge b0 st = (Inr (), st1) \<and> deactivate b1 st1 = (Inr (), st2) \<and> current_of st2 = Inr b0
    \<and> fst (spawn task st2) = Inl UndefinedBehaviour"
proof -
  obtain r1 r0 where r: "current st = Some b1" "b1 \<noteq> b0" "bridges st b1 = Some r1" "previous r1 = Some b0" "bridges st b0 = Some r0"
    using two_active [OF assms] by metis
  show ?thesis
    by (simp add: r r(2) [symmetric] destroy_bridge_def deactivate_def current_of_def spawn_def createFuture_def io_bind_def)
qed

section \<open>References to futures\<close>

text \<open>\<open>held\<close> is what Python's side holds; besides, each coroutine owns one reference to its future.\<close>

definition owned :: "('t, 'v) python \<Rightarrow> nat \<Rightarrow> nat" where
  "owned st f = (if f \<in> (fst \<circ> snd) ` set (jobs st) then 1 else 0)"

definition counted :: "(nat \<Rightarrow> nat) \<Rightarrow> ('t, 'v) python \<Rightarrow> bool" where
  "counted held st \<longleftrightarrow> (\<forall>f. held f + owned st f = (case futures st f of None \<Rightarrow> 0 | Some u \<Rightarrow> refs u))
     \<and> (\<forall>f u. futures st f = Some u \<longrightarrow> 0 < refs u \<and> f < next_future st)
     \<and> (\<forall>j\<in>set (jobs st). \<forall>u. futures st (fst (snd j)) = Some u \<longrightarrow> settled u = None)
     \<and> distinct (map (fst \<circ> snd) (jobs st))"

text \<open>What came of a coroutine can be handed to Python: it is an exception, or a result that converts.\<close>

fun resolvable :: "('r \<Rightarrow> 'v result) \<Rightarrow> 'r result \<Rightarrow> bool" where
  "resolvable cast (Inl e) = catchable e"
| "resolvable cast (Inr v) = is_ok (cast v)"

fun settlement_of :: "('r \<Rightarrow> 'v result) \<Rightarrow> 'r result \<Rightarrow> 'v settlement" where
  "settlement_of cast (Inl e) = Exception (what e)"
| "settlement_of cast (Inr v) = (case cast v of Inr x \<Rightarrow> Result x | Inl e \<Rightarrow> Exception (what e))"

text \<open>
  A run without cancellation: coroutines are spawned and come through, Python drops references, and bridges are made, activated and
  deactivated in any order.
\<close>

fun keeps_bridges :: "bridge_op \<Rightarrow> bool" where
  "keeps_bridges (Destroy b) = False"
| "keeps_bridges (Create b) = True"
| "keeps_bridges (Activate b) = True"
| "keeps_bridges (Deactivate b) = True"
| "keeps_bridges (Enter l) = True"

inductive reached :: "('r \<Rightarrow> 'v result) \<Rightarrow> (nat \<Rightarrow> nat) \<Rightarrow> ('t, 'v) python \<Rightarrow> bool" for cast :: "'r \<Rightarrow> 'v result" where
  start: "reached cast (\<lambda>_. 0) initial_python"
| spawns: "reached cast held st \<Longrightarrow> spawn task st = (Inr f, st') \<Longrightarrow> reached cast (held(f := held f + 1)) st'"
| through: "reached cast held st \<Longrightarrow> (b, f, task) \<in> set (jobs st) \<Longrightarrow> resolvable cast out \<Longrightarrow>
    poll cast b [(f, out)] st = (r, st') \<Longrightarrow> reached cast held st'"
| drops: "reached cast held st \<Longrightarrow> 0 < held f \<Longrightarrow> decref f st = (r, st') \<Longrightarrow> reached cast (held(f := held f - 1)) st'"
| bridges: "reached cast held st \<Longrightarrow> keeps_bridges a \<Longrightarrow> bridge_step a st = (r, st') \<Longrightarrow> reached cast held st'"

lemma counted_initial: "counted (\<lambda>_. 0) initial_python"
  by (simp add: counted_def owned_def initial_python_def)

lemma counted_same:
  assumes "counted held st" "futures st' = futures st" "next_future st' = next_future st" "jobs st' = jobs st"
  shows "counted held st'"
  using assms by (simp add: counted_def owned_def)

lemma bridge_step_same:
  assumes "bridge_step a st = (r, st')" "keeps_bridges a"
  shows "futures st' = futures st \<and> next_future st' = next_future st \<and> jobs st' = jobs st"
  using assms by (cases a) (auto simp: create_bridge_def io_do_def activate_def deactivate_def split: option.splits if_splits)

lemma countedD:
  assumes "counted held st"
  shows "futures st f = None \<Longrightarrow> held f = 0 \<and> owned st f = 0"
    and "futures st f = Some u \<Longrightarrow> refs u = held f + owned st f \<and> 0 < refs u \<and> f < next_future st"
    and "(b, f, task) \<in> set (jobs st) \<Longrightarrow> futures st f = Some u \<Longrightarrow> settled u = None"
    and "distinct (map (fst \<circ> snd) (jobs st))"
proof -
  have "held f + owned st f = (case futures st f of None \<Rightarrow> 0 | Some u \<Rightarrow> refs u)" using assms by (simp add: counted_def)
  then show "futures st f = None \<Longrightarrow> held f = 0 \<and> owned st f = 0"
    and "futures st f = Some u \<Longrightarrow> refs u = held f + owned st f \<and> 0 < refs u \<and> f < next_future st"
    using assms by (auto simp: counted_def)
qed (use assms in \<open>force simp: counted_def\<close>)+

lemma countedI:
  assumes "\<And>f. futures st f = None \<Longrightarrow> held f = 0 \<and> owned st f = 0"
    and "\<And>f u. futures st f = Some u \<Longrightarrow> refs u = held f + owned st f \<and> 0 < refs u \<and> f < next_future st"
    and "\<And>b f task u. (b, f, task) \<in> set (jobs st) \<Longrightarrow> futures st f = Some u \<Longrightarrow> settled u = None"
    and "distinct (map (fst \<circ> snd) (jobs st))"
  shows "counted held st"
proof -
  have "held f + owned st f = (case futures st f of None \<Rightarrow> 0 | Some u \<Rightarrow> refs u)" for f
    using assms(1,2) [of f] by (cases "futures st f") simp_all
  moreover have "futures st f = Some u \<longrightarrow> 0 < refs u \<and> f < next_future st" for f u using assms(2) by blast
  moreover have "j \<in> set (jobs st) \<Longrightarrow> futures st (fst (snd j)) = Some u \<Longrightarrow> settled u = None" for j u
    using assms(3) by (cases j) simp
  ultimately show ?thesis using assms(4) by (simp add: counted_def)
qed

lemma counted_fresh:
  assumes "counted held st"
  shows "futures st (next_future st) = None \<and> held (next_future st) = 0 \<and> next_future st \<notin> (fst \<circ> snd) ` set (jobs st)"
proof -
  have "futures st (next_future st) = None" using countedD(2) [OF assms, of "next_future st"] by (cases "futures st (next_future st)") auto
  with countedD(1) [OF assms this] show ?thesis by (simp add: owned_def split: if_splits)
qed

lemma spawn_ok:
  assumes "spawn task st = (Inr f, st')"
  obtains b where "f = next_future st" "next_future st' = next_future st + 1" "jobs st' = jobs st @ [(b, f, task)]"
    "futures st' = (futures st)(f \<mapsto> \<lparr>refs = 2, settled = None\<rparr>)"
proof -
  obtain b where b: "current_of st = Inr b" using assms by (cases "current_of st") (simp_all add: spawn_def)
  obtain r where r: "bridges st b = Some r" "cached_loop r \<noteq> None"
    using assms b by (auto simp: spawn_def createFuture_def io_bind_def split: option.splits if_splits)
  show thesis
    using assms b r by (intro that [of b]) (auto simp: spawn_def createFuture_def incref_def io_bind_def io_do_def io_return_def numeral_2_eq_2)
qed

lemma spawn_job:
  assumes "spawn task st = (Inr f, st')"
  obtains b where "f = next_future st" "jobs st' = jobs st @ [(b, f, task)]" "current_of st = Inr b"
proof -
  obtain b where b: "current_of st = Inr b" using assms by (cases "current_of st") (simp_all add: spawn_def)
  obtain r where "bridges st b = Some r" "cached_loop r \<noteq> None"
    using assms b by (auto simp: spawn_def createFuture_def io_bind_def split: option.splits if_splits)
  with b assms show thesis
    by (intro that [of b]) (auto simp: spawn_def createFuture_def incref_def io_bind_def io_do_def io_return_def)
qed

lemma spawn_throws: "spawn task st = (Inl e, st') \<Longrightarrow> st' = st"
  by (auto simp: spawn_def createFuture_def incref_def io_bind_def io_do_def io_return_def split: sum.splits option.splits if_splits)

lemma counted_spawn:
  assumes "counted held st" "spawn task st = (Inr f, st')"
  shows "counted (held(f := held f + 1)) st'"
proof -
  obtain b where st': "f = next_future st" "next_future st' = next_future st + 1" "jobs st' = jobs st @ [(b, f, task)]"
    "futures st' = (futures st)(f \<mapsto> \<lparr>refs = 2, settled = None\<rparr>)" using assms(2) by (rule spawn_ok)
  note fresh = counted_fresh [OF assms(1), folded st'(1)]
  have o: "owned st' g = (if g = f then 1 else owned st g)" for g by (auto simp: owned_def st'(3))
  show ?thesis
  proof (rule countedI)
    show "distinct (map (fst \<circ> snd) (jobs st'))" using fresh countedD(4) [OF assms(1)] by (auto simp: st'(3))
    fix g u assume "futures st' g = Some u"
    then show "refs u = (held(f := held f + 1)) g + owned st' g \<and> 0 < refs u \<and> g < next_future st'"
      using fresh countedD(2) [OF assms(1), of g u] by (auto simp: o st'(1,2,4) split: if_splits)
  next
    fix g assume "futures st' g = None"
    then show "(held(f := held f + 1)) g = 0 \<and> owned st' g = 0"
      using countedD(1) [OF assms(1), of g] by (auto simp: o st'(4) split: if_splits)
  next
    fix c g t u assume "(c, g, t) \<in> set (jobs st')" "futures st' g = Some u"
    then show "settled u = None"
      using fresh countedD(3) [OF assms(1), of c g t u] by (force simp: st'(3,4) split: if_splits)
  qed
qed

text \<open>A reference that Python or a coroutine that has gone gives up.\<close>

lemma counted_release:
  assumes "\<And>f. futures st f = None \<Longrightarrow> held f = 0 \<and> owned st f = 0"
    and "\<And>f u. futures st f = Some u \<Longrightarrow> refs u = held f + owned st f + (if f = g then 1 else 0) \<and> 0 < refs u \<and> f < next_future st"
    and "\<And>b f task u. (b, f, task) \<in> set (jobs st) \<Longrightarrow> futures st f = Some u \<Longrightarrow> settled u = None"
    and "distinct (map (fst \<circ> snd) (jobs st))"
    and "decref g st = (r, st')" "futures st g \<noteq> None"
  shows "counted held st'"
proof -
  obtain v where v: "futures st g = Some v" using assms(6) by auto
  have st': "st' = st\<lparr>futures := (futures st)(g := (if refs v \<le> 1 then None else Some (v\<lparr>refs := refs v - 1\<rparr>)))\<rparr>"
    using assms(5) v by (simp add: decref_def)
  have rv: "refs v = held g + owned st g + 1" using assms(2) [OF v] by simp
  have o: "owned st' h = owned st h" for h by (simp add: owned_def st')
  show ?thesis
  proof (rule countedI)
    fix f assume "futures st' f = None"
    then show "held f = 0 \<and> owned st' f = 0"
      using assms(1) [of f] rv by (auto simp: o) (auto simp: st' split: if_splits)
  next
    fix f u assume u: "futures st' f = Some u"
    show "refs u = held f + owned st' f \<and> 0 < refs u \<and> f < next_future st'"
    proof (cases "f = g")
      case True
      with u have "u = v\<lparr>refs := refs v - 1\<rparr>" "1 < refs v" by (auto simp: st' split: if_splits)
      with True rv assms(2) [OF v] show ?thesis by (simp add: o) (simp add: st')
    next
      case False
      with u have "futures st f = Some u" by (simp add: st')
      from assms(2) [OF this] have "refs u = held f + owned st f + (if f = g then 1 else 0)" "0 < refs u" "f < next_future st" by blast+
      moreover have "next_future st' = next_future st" by (simp add: st')
      ultimately show ?thesis using False unfolding o by auto
    qed
  next
    fix b f task u assume "(b, f, task) \<in> set (jobs st')" "futures st' f = Some u"
    then show "settled u = None" using assms(3) [of b f task] v by (auto simp: st' split: if_splits)
  next
    show "distinct (map (fst \<circ> snd) (jobs st'))" using assms(4) by (simp add: st')
  qed
qed

lemma counted_drop:
  assumes "counted held st" "0 < held f" "decref f st = (r, st')"
  shows "counted (held(f := held f - 1)) st'"
proof (rule counted_release [OF _ _ _ _ assms(3)])
  show "futures st f \<noteq> None" using countedD(1) [OF assms(1), of f] assms(2) by auto
  fix g assume "futures st g = None"
  then show "(held(f := held f - 1)) g = 0 \<and> owned st g = 0"
    using countedD(1) [OF assms(1), of g] assms(2) by (cases "g = f") simp_all
next
  fix g u assume "futures st g = Some u"
  then show "refs u = (held(f := held f - 1)) g + owned st g + (if g = f then 1 else 0) \<and> 0 < refs u \<and> g < next_future st"
    using countedD(2) [OF assms(1), of g u] assms(2) by auto
qed (use countedD(3,4) [OF assms(1)] in auto)

lemma count_releases:
  assumes "counted held st" "(b, f, task) \<in> set (jobs st)"
  obtains u where "futures st f = Some u" "refs u = held f + 1" "settled u = None"
proof -
  have o: "owned st f = 1" using assms(2) by (force simp: owned_def)
  then obtain u where u: "futures st f = Some u" using countedD(1) [OF assms(1), of f] by (cases "futures st f") auto
  from countedD(2) [OF assms(1) u] countedD(3) [OF assms(1,2) u] o show thesis by (intro that [OF u]) simp_all
qed

text \<open>The job of a future leaves the io context: the reference it owned is not accounted for any more.\<close>

definition take_job :: "nat \<Rightarrow> nat \<Rightarrow> ('t, 'v) python \<Rightarrow> ('t, 'v) python" where
  "take_job b f st = st\<lparr>jobs := filter (\<lambda>j. \<not> (fst j = b \<and> fst (snd j) = f)) (jobs st)\<rparr>"

lemma taken:
  assumes "counted held st" "(b, f, task) \<in> set (jobs st)"
  shows "owned (take_job b f st) g = (if g = f then 0 else owned st g)"
    and "(c, g, t) \<in> set (jobs (take_job b f st)) \<Longrightarrow> g \<noteq> f"
proof -
  have d: "distinct (map (fst \<circ> snd) (jobs st))" using countedD(4) [OF assms(1)] .
  show only: "(c, g, t) \<in> set (jobs (take_job b f st)) \<Longrightarrow> g \<noteq> f" for c g t
    using inj_onD [OF conjunct2 [OF d [unfolded distinct_map]], of "(c, g, t)" "(b, f, task)"] assms(2) by (auto simp: take_job_def)
  show "owned (take_job b f st) g = (if g = f then 0 else owned st g)"
    using only by (force simp: owned_def take_job_def)
qed

text \<open>A future that is resolved as it should be: it is settled, and the reference of the coroutine is given up.\<close>

lemma resolves:
  assumes u: "futures st f = Some u" "settled u = None" and out: "resolvable cast out"
  shows "awaitAndResolve cast f out st
    = decref f (st\<lparr>futures := (futures st)(f \<mapsto> u\<lparr>settled := Some (settlement_of cast out)\<rparr>)\<rparr>)"
proof (cases out)
  case (Inl e)
  then show ?thesis using u out by (simp add: awaitAndResolve_def setFutureException_def stolen_def settle_def io_bind_def io_return_def decref_def)
next
  case (Inr v)
  then obtain x where "cast v = Inr x" using out by (auto simp: is_ok_iff)
  with Inr show ?thesis using u
    by (simp add: awaitAndResolve_def stolen_def settle_def io_bind_def io_return_def io_lift_def decref_def)
qed

lemma poll_resolves:
  assumes "counted held st" "(b, f, task) \<in> set (jobs st)" "bridges st b \<noteq> None" "resolvable cast out"
  obtains u st1 where "futures st f = Some u" "refs u = held f + 1"
    "st1 = (take_job b f st)\<lparr>futures := (futures st)(f \<mapsto> u\<lparr>settled := Some (settlement_of cast out)\<rparr>)\<rparr>"
    "poll cast b [(f, out)] st = (Inr (), snd (decref f st1))" "fst (decref f st1) = Inr ()"
proof -
  obtain u where u: "futures st f = Some u" "refs u = held f + 1" "settled u = None"
    using count_releases [OF assms(1,2)] by metis
  define st1 where "st1 = (take_job b f st)\<lparr>futures := (futures st)(f \<mapsto> u\<lparr>settled := Some (settlement_of cast out)\<rparr>)\<rparr>"
  have d: "fst (decref f st1) = Inr ()" by (simp add: st1_def decref_def)
  have "awaitAndResolve cast f out (take_job b f st) = decref f st1"
    using resolves [OF _ u(3) assms(4), of "take_job b f st"] u(1) by (simp add: take_job_def st1_def)
  moreover have "\<exists>j\<in>set (jobs st). fst j = b \<and> fst (snd j) = f" using assms(2) by force
  ultimately have "poll cast b [(f, out)] st = (Inr (), snd (decref f st1))"
    using assms(3) d by (cases "decref f st1") (simp add: poll_def take_job_def io_bind_def io_catch_def)
  from that [OF u(1,2) st1_def this d] show thesis .
qed

lemma counted_poll:
  assumes "counted held st" "(b, f, task) \<in> set (jobs st)" "resolvable cast out" "poll cast b [(f, out)] st = (r, st')"
  shows "counted held st'"
proof (cases "bridges st b = None")
  case True
  with assms show ?thesis by (simp add: poll_def)
next
  case False
  obtain u st1 where p: "futures st f = Some u" "refs u = held f + 1"
    "st1 = (take_job b f st)\<lparr>futures := (futures st)(f \<mapsto> u\<lparr>settled := Some (settlement_of cast out)\<rparr>)\<rparr>"
    "poll cast b [(f, out)] st = (Inr (), snd (decref f st1))" "fst (decref f st1) = Inr ()"
    using assms(1,2) False assms(3) by (rule poll_resolves)
  have jobs: "jobs st1 = jobs (take_job b f st)" and new: "next_future st1 = next_future st" by (simp_all add: p(3) take_job_def)
  have o: "owned st1 g = (if g = f then 0 else owned st g)" for g
    using taken(1) [OF assms(1,2), of g] by (simp add: owned_def jobs)
  have st': "decref f st1 = (Inr (), st')" using p(4,5) assms(4) by (cases "decref f st1") simp
  show ?thesis
  proof (rule counted_release [OF _ _ _ _ st'])
    show "futures st1 f \<noteq> None" by (simp add: p(3))
    show "distinct (map (fst \<circ> snd) (jobs st1))"
      using countedD(4) [OF assms(1)] by (simp add: jobs take_job_def distinct_map_filter)
    fix g assume "futures st1 g = None"
    then have "futures st g = None" "g \<noteq> f" by (auto simp: p(3) split: if_splits)
    then show "held g = 0 \<and> owned st1 g = 0" using countedD(1) [OF assms(1), of g] by (simp add: o)
  next
    fix g v assume v: "futures st1 g = Some v"
    show "refs v = held g + owned st1 g + (if g = f then 1 else 0) \<and> 0 < refs v \<and> g < next_future st1"
    proof (cases "g = f")
      case True
      with v have "refs v = refs u" by (auto simp: p(3))
      with True show ?thesis using countedD(2) [OF assms(1) p(1)] p(2) by (simp add: o new)
    next
      case False
      with v have "futures st g = Some v" by (simp add: p(3))
      from countedD(2) [OF assms(1) this] False show ?thesis by (auto simp: o new)
    qed
  next
    fix c g t v assume "(c, g, t) \<in> set (jobs st1)" "futures st1 g = Some v"
    with taken(2) [OF assms(1,2), of c g t] have "(c, g, t) \<in> set (jobs st)" "futures st g = Some v"
      by (auto simp: jobs p(3) take_job_def)
    then show "settled v = None" by (rule countedD(3) [OF assms(1)])
  qed
qed

lemma reached_counted: "reached cast held st \<Longrightarrow> counted held st"
proof (induction rule: reached.induct)
  case start
  then show ?case by (rule counted_initial)
next
  case (spawns held st task f st')
  then show ?case by (blast intro: counted_spawn)
next
  case (through held st b f task out r st')
  then show ?case by (blast intro: counted_poll)
next
  case (drops held st f r st')
  then show ?case by (blast intro: counted_drop)
next
  case (bridges held st a r st')
  then show ?case using bridge_step_same [OF bridges.hyps(3,2)] counted_same by blast
qed

text \<open>
  C21: a coroutine that was handed to a bridge settles its future: in every state that coroutines spawned and resolved, references
  dropped and bridges activated and deactivated lead to, polling the bridge when the coroutine is through sets its result or its
  exception on the future, unless Python has dropped it, and afterwards the future has exactly the references Python
  holds.
\<close>

theorem spawned_future_settles:
  assumes "reached cast held st" "(b, f, task) \<in> set (jobs st)" "bridges st b \<noteq> None" "resolvable cast out"
  shows "\<exists>st'. poll cast b [(f, out)] st = (Inr (), st') \<and> f \<notin> (fst \<circ> snd) ` set (jobs st')
    \<and> futures st' f = (if held f = 0 then None else Some \<lparr>refs = held f, settled = Some (settlement_of cast out)\<rparr>)"
proof -
  note c = reached_counted [OF assms(1)]
  obtain u st1 where p: "futures st f = Some u" "refs u = held f + 1"
    "st1 = (take_job b f st)\<lparr>futures := (futures st)(f \<mapsto> u\<lparr>settled := Some (settlement_of cast out)\<rparr>)\<rparr>"
    "poll cast b [(f, out)] st = (Inr (), snd (decref f st1))" "fst (decref f st1) = Inr ()"
    using c assms(2-4) by (rule poll_resolves)
  have "futures (snd (decref f st1)) f = (if held f = 0 then None else Some \<lparr>refs = held f, settled = Some (settlement_of cast out)\<rparr>)"
    using p(2) by (cases u) (simp add: p(3) decref_def)
  moreover have "jobs (snd (decref f st1)) = jobs (take_job b f st)" by (simp add: p(3) decref_def)
  moreover have "f \<notin> (fst \<circ> snd) ` set (jobs (take_job b f st))" using taken(2) [OF c assms(2)] by force
  ultimately show ?thesis using p(4) by auto
qed

lemma reached_run:
  "reached cast held st \<Longrightarrow> list_all keeps_bridges as \<Longrightarrow> reached cast held (snd (bridge_run as st))"
proof (induction as arbitrary: st)
  case (Cons a as)
  obtain r st1 where 1: "bridge_step a st = (r, st1)" by (cases "bridge_step a st")
  with Cons.prems have "reached cast held st1" by (auto intro: reached.bridges)
  with Cons.IH [OF this] Cons.prems(2) 1 show ?case by (cases "bridge_run as st1") simp
qed simp

definition sample_python :: "(unit, string) python" where
  "sample_python = snd (spawn () (snd (bridge_run [Create 0, Enter (Some 7), Activate 0] initial_python)))"

lemma sample_python_reached: "reached Inr ((\<lambda>_. 0)(0 := 1)) sample_python"
proof -
  have "reached Inr (\<lambda>_. 0) (snd (bridge_run [Create 0, Enter (Some 7), Activate 0] (initial_python :: (unit, string) python)))"
    by (rule reached_run [OF reached.start]) simp
  moreover have "fst (spawn () (snd (bridge_run [Create 0, Enter (Some 7), Activate 0] (initial_python :: (unit, string) python)))) = Inr 0"
    by (simp add: create_bridge_def io_do_def activate_def initial_python_def new_bridge_def spawn_def current_of_def createFuture_def
      incref_def io_bind_def io_return_def)
  ultimately have "reached Inr ((\<lambda>_. 0)(0 := (\<lambda>_. 0) 0 + 1)) sample_python"
    unfolding sample_python_def by (metis reached.spawns prod.collapse)
  then show ?thesis by simp
qed

lemma sample_python_job: "(0, 0, ()) \<in> set (jobs sample_python)" "bridges sample_python 0 \<noteq> None"
  by (simp_all add: sample_python_def create_bridge_def io_do_def activate_def initial_python_def new_bridge_def spawn_def current_of_def
    createFuture_def incref_def io_bind_def io_return_def)

theorem spawned_future_settles_witness:
  "\<exists>st'. poll Inr 0 [(0, Inr ''rows'')] sample_python = (Inr (), st') \<and> futures st' 0 = Some \<lparr>refs = 1, settled = Some (Result ''rows'')\<rparr>"
  using spawned_future_settles [OF sample_python_reached sample_python_job, of "Inr ''rows''"] by auto

text \<open>
  C24: a future that Python cancelled, as every time limit on an awaited call does, is released twice when its coroutine
  returns all the same: \<open>set_result\<close> throws, unwinding gives up the stolen reference, and the handler steals it again.  Python then
  holds one reference more than the future has, and a future it holds once is freed under it.
\<close>

theorem cancelled_future_released_twice:
  assumes "reached cast held st" "(b, f, task) \<in> set (jobs st)" "bridges st b \<noteq> None" "0 < held f"
    "settle f Cancelled st = (Inr (), st1)" "resolvable cast (Inr v)"
  shows "\<exists>st2. poll cast b [(f, Inr v)] st1 = (Inr (), st2)
    \<and> futures st2 f = (if held f = 1 then None else Some \<lparr>refs = held f - 1, settled = Some Cancelled\<rparr>)"
proof -
  obtain u where u: "futures st f = Some u" "refs u = held f + 1" "settled u = None"
    using count_releases [OF reached_counted [OF assms(1)] assms(2)] by metis
  obtain x where x: "cast v = Inr x" using assms(6) by (auto simp: is_ok_iff)
  have st1: "st1 = st\<lparr>futures := (futures st)(f \<mapsto> u\<lparr>settled := Some Cancelled\<rparr>)\<rparr>" using assms(5) u by (simp add: settle_def)
  have job: "\<exists>j\<in>set (jobs st). fst j = b \<and> fst (snd j) = f" using assms(2) by force
  show ?thesis
    using assms(3,4) u(2) job
    by (cases u) (auto simp: poll_def st1 awaitAndResolve_def setFutureException_def stolen_def x settle_def io_bind_def io_lift_def
      io_return_def decref_def io_catch_def)
qed

theorem cancelled_future_released_twice_witness:
  "\<exists>st1 st2. settle 0 Cancelled sample_python = (Inr (), st1) \<and> poll Inr 0 [(0, Inr ''rows'')] st1 = (Inr (), st2) \<and> futures st2 0 = None"
proof -
  obtain st1 where st1: "settle 0 Cancelled sample_python = (Inr (), st1)"
    by (simp add: settle_def sample_python_def create_bridge_def io_do_def activate_def initial_python_def new_bridge_def spawn_def
      current_of_def createFuture_def incref_def io_bind_def io_return_def)
  from cancelled_future_released_twice [OF sample_python_reached sample_python_job _ st1, of "''rows''"] show ?thesis
    using st1 by auto
qed

end
