(* ===== verification/Pool.thy ===== *)
theory Pool
  imports Libpq
begin

text \<open>
  The connection pool: \<open>modules/database/src/{connection_pool,pooled_connection}.cpp\<close>.

  A pool operation is an effect on the pool and the world of libpq.  It runs here as one coroutine to
  its end; \<open>NeverResumes\<close> is the outcome of waiting for a slot that no other coroutine gives back.  The
  interleaving of several coroutines on the server's single thread is the step relation \<open>pool_step\<close>
  below, whose steps are the stretches of \<open>acquire\<close> between two suspension points.
\<close>

section \<open>State\<close>

record slot =
  slot_connection :: LibpqConnection
  in_use :: bool

record pool =
  pool_config :: DatabaseConfig
  pool_conninfo :: string
  initialized :: bool
  statement_log :: StatementActionLog
  slots :: "slot list"
  pool_blocks :: "string set"

definition ConnectionPool :: "json \<Rightarrow> json \<Rightarrow> DatabaseConfig option \<Rightarrow> pool result" where
  "ConnectionPool config_data credentials_data config =
     rbind (case config of Some c \<Rightarrow> Inr c | None \<Rightarrow> rbind (getDatabaseConfig config_data credentials_data) required)
       (\<lambda>c. Inr \<lparr>pool_config = c, pool_conninfo = buildConnectionString c, initialized = False,
                 statement_log = empty_log, slots = [], pool_blocks = {}\<rparr>)"

type_synonym ('w, 'a) pool_io = "(pool \<times> 'w, 'a) io"

section \<open>The blocks of the pool\<close>

text \<open>The name is inserted into, or erased from, \<open>prepared_blocks_\<close> before the log is asked.\<close>

definition pool_prepareStatements :: "StatementsBlock \<Rightarrow> ('w, unit) pool_io" where
  "pool_prepareStatements b s =
     (case s of (p, w) \<Rightarrow>
        let p' = p\<lparr>pool_blocks := insert (block_name b) (pool_blocks p)\<rparr> in
        (case appendPrepare (statement_log p') b of
           Inl e \<Rightarrow> (Inl e, p', w)
         | Inr (n, l) \<Rightarrow> (Inr (), p'\<lparr>statement_log := l\<rparr>, w)))"

definition pool_unprepareStatements :: "string \<Rightarrow> ('w, unit) pool_io" where
  "pool_unprepareStatements name s =
     (case s of (p, w) \<Rightarrow>
        let p' = p\<lparr>pool_blocks := pool_blocks p - {name}\<rparr> in
        (case appendUnprepare (statement_log p') name of
           Inl e \<Rightarrow> (Inl e, p', w)
         | Inr (n, l) \<Rightarrow> (Inr (), p'\<lparr>statement_log := l\<rparr>, w)))"

definition pool_isPrepared :: "string \<Rightarrow> pool \<Rightarrow> bool" where
  "pool_isPrepared name p \<longleftrightarrow> name \<in> pool_blocks p"

section \<open>Slots\<close>

definition copyStatementActions :: "pool \<Rightarrow> StatementAction list" where
  "copyStatementActions p = actions (statement_log p)"

definition createSlot :: "'w pg \<Rightarrow> ('w, nat) pool_io" where
  "createSlot pg s =
     (case s of (p, w) \<Rightarrow>
        (case connectAsync pg new_connection (pool_conninfo p) w of
           (Inl e, lc, w1) \<Rightarrow> (Inl e, p, w1)
         | (Inr u, lc, w1) \<Rightarrow>
             (case syncStatements pg lc (copyStatementActions p) w1 of
                (Inl e, lc', w2) \<Rightarrow> (Inl e, p, w2)
              | (Inr u, lc', w2) \<Rightarrow>
                  (Inr (length (slots p)), p\<lparr>slots := slots p @ [\<lparr>slot_connection = lc', in_use = False\<rparr>]\<rparr>, w2))))"

definition mark_in_use :: "nat \<Rightarrow> bool \<Rightarrow> pool \<Rightarrow> pool" where
  "mark_in_use i b p = p\<lparr>slots := (slots p)[i := (slots p ! i)\<lparr>in_use := b\<rparr>]\<rparr>"

definition tryAcquireExistingSlot :: "pool \<Rightarrow> nat option \<times> pool" where
  "tryAcquireExistingSlot p =
     (case first_index (\<lambda>s. \<not> in_use s) (slots p) of
        None \<Rightarrow> (None, p)
      | Some i \<Rightarrow> (Some i, mark_in_use i True p))"

fun create_slots :: "'w pg \<Rightarrow> nat \<Rightarrow> ('w, unit) pool_io" where
  "create_slots pg 0 s = (Inr (), s)"
| "create_slots pg (Suc n) s = io_bind (createSlot pg) (\<lambda>_. create_slots pg n) s"

definition pool_initialize :: "'w pg \<Rightarrow> ('w, unit) pool_io" where
  "pool_initialize pg s =
     (if initialized (fst s) then (Inr (), s)
      else io_bind (io_do (\<lambda>(p, w). (p\<lparr>pool_conninfo := buildConnectionString (pool_config p)\<rparr>, w))) (\<lambda>_.
           io_bind (create_slots pg (nat (pool_min (pool_config (fst s))))) (\<lambda>_.
             io_do (\<lambda>(p, w). (p\<lparr>initialized := True\<rparr>, w)))) s)"

definition pool_requireInitialized :: "'w pg \<Rightarrow> ('w, unit) pool_io" where
  "pool_requireInitialized pg s = (if \<not> initialized (fst s) then pool_initialize pg s else (Inr (), s))"

definition connectionAt :: "pool \<Rightarrow> nat \<Rightarrow> LibpqConnection result" where
  "connectionAt p i =
     (if i \<ge> length (slots p) then Inl (RuntimeError ''invalid pool slot index'')
      else Inr (slot_connection (slots p ! i)))"

definition releaseSlot :: "nat \<Rightarrow> pool \<Rightarrow> unit result \<times> pool" where
  "releaseSlot i p =
     (if i \<ge> length (slots p) then (Inl (RuntimeError ''invalid pool slot index''), p)
      else (Inr (), mark_in_use i False p))"

text \<open>\<open>connectionAt(i)->syncStatements(actions)\<close>: the slot's connection is changed in place.\<close>

definition sync_slot :: "'w pg \<Rightarrow> nat \<Rightarrow> ('w, unit) pool_io" where
  "sync_slot pg i s =
     (case s of (p, w) \<Rightarrow>
        (case connectionAt p i of
           Inl e \<Rightarrow> (Inl e, p, w)
         | Inr lc \<Rightarrow>
             (case syncStatements pg lc (copyStatementActions p) w of
                (r, lc', w') \<Rightarrow> (r, p\<lparr>slots := (slots p)[i := (slots p ! i)\<lparr>slot_connection := lc'\<rparr>]\<rparr>, w'))))"

text \<open>\<open>waitForAvailableSlot\<close> of a coroutine that runs alone.\<close>

definition waitForAvailableSlot :: "('w, nat) pool_io" where
  "waitForAvailableSlot s =
     (case tryAcquireExistingSlot (fst s) of
        (Some i, p) \<Rightarrow> (Inr i, p, snd s)
      | (None, p) \<Rightarrow> (Inl NeverResumes, s))"

definition take_slot :: "'w pg \<Rightarrow> ('w, nat) pool_io" where
  "take_slot pg s =
     (case tryAcquireExistingSlot (fst s) of
        (Some i, p) \<Rightarrow> (Inr i, p, snd s)
      | (None, p) \<Rightarrow>
          if int (length (slots p)) < pool_max (pool_config p)
          then io_bind (createSlot pg) (\<lambda>i.
               io_bind (io_do (\<lambda>(q, w). (mark_in_use i True q, w))) (\<lambda>_. io_return i)) s
          else waitForAvailableSlot s)"

definition acquire :: "'w pg \<Rightarrow> ('w, nat) pool_io" where
  "acquire pg =
     io_bind (pool_requireInitialized pg) (\<lambda>_.
     io_bind (take_slot pg) (\<lambda>i.
     io_bind (sync_slot pg i) (\<lambda>_. io_return i)))"

section \<open>Operations through a lease\<close>

text \<open>A lease is a slot's index; what it runs on its connection changes only libpq's world.\<close>

definition on_connection :: "(LibpqConnection \<Rightarrow> ('w, 'a) io) \<Rightarrow> nat \<Rightarrow> ('w, 'a) pool_io" where
  "on_connection f i s =
     (case s of (p, w) \<Rightarrow>
        (case connectionAt p i of
           Inl e \<Rightarrow> (Inl e, p, w)
         | Inr lc \<Rightarrow> (case f lc w of (r, w') \<Rightarrow> (r, p, w'))))"

definition lease_execute ::
    "'w pg \<Rightarrow> json \<Rightarrow> json \<Rightarrow> nat \<Rightarrow> ExecuteOptions \<Rightarrow> string \<Rightarrow> QueryParam list \<Rightarrow> ('w, QueryResult) pool_io" where
  "lease_execute pg config cred i options stmt params =
     on_connection (\<lambda>lc. connection_execute pg config cred lc options stmt params) i"

definition lease_executeSQL ::
    "'w pg \<Rightarrow> json \<Rightarrow> json \<Rightarrow> nat \<Rightarrow> ExecuteOptions \<Rightarrow> string \<Rightarrow> QueryParam list \<Rightarrow> ('w, QueryResult) pool_io" where
  "lease_executeSQL pg config cred i options sql params =
     on_connection (\<lambda>lc. connection_executeSQL pg config cred lc options sql params) i"

definition lease_quote :: "'w pg \<Rightarrow> nat \<Rightarrow> string \<Rightarrow> ('w, string) pool_io" where
  "lease_quote pg i v = on_connection (\<lambda>lc. quoteLiteral pg lc v) i"

definition lease_prepareStatements :: "'w pg \<Rightarrow> nat \<Rightarrow> StatementsBlock \<Rightarrow> ('w, unit) pool_io" where
  "lease_prepareStatements pg i b = io_bind (pool_prepareStatements b) (\<lambda>_. sync_slot pg i)"

definition lease_unprepareStatements :: "'w pg \<Rightarrow> nat \<Rightarrow> string \<Rightarrow> ('w, unit) pool_io" where
  "lease_unprepareStatements pg i name = io_bind (pool_unprepareStatements name) (\<lambda>_. sync_slot pg i)"

definition lease_isPrepared :: "nat \<Rightarrow> string \<Rightarrow> pool \<Rightarrow> bool result" where
  "lease_isPrepared i name p = rbind (connectionAt p i) (\<lambda>lc. Inr (connection_isPrepared lc name))"

text \<open>The destructor of the lease runs whether the operation returns or throws.\<close>

definition with_lease :: "'w pg \<Rightarrow> (nat \<Rightarrow> ('w, 'a) pool_io) \<Rightarrow> ('w, 'a) pool_io" where
  "with_lease pg f =
     io_bind (acquire pg) (\<lambda>i s.
       case f i s of (r, p, w) \<Rightarrow> (r, snd (releaseSlot i p), w))"

definition pool_execute ::
    "'w pg \<Rightarrow> json \<Rightarrow> json \<Rightarrow> ExecuteOptions \<Rightarrow> string \<Rightarrow> QueryParam list \<Rightarrow> ('w, QueryResult) pool_io" where
  "pool_execute pg config cred options stmt params =
     with_lease pg (\<lambda>i. lease_execute pg config cred i options stmt params)"

definition pool_executeSQL ::
    "'w pg \<Rightarrow> json \<Rightarrow> json \<Rightarrow> ExecuteOptions \<Rightarrow> string \<Rightarrow> QueryParam list \<Rightarrow> ('w, QueryResult) pool_io" where
  "pool_executeSQL pg config cred options sql params =
     with_lease pg (\<lambda>i. lease_executeSQL pg config cred i options sql params)"

definition pool_quote :: "'w pg \<Rightarrow> string \<Rightarrow> ('w, string) pool_io" where
  "pool_quote pg v = with_lease pg (\<lambda>i. lease_quote pg i v)"

section \<open>The pool as an executor\<close>

definition pool_executor :: "'w pg \<Rightarrow> json \<Rightarrow> json \<Rightarrow> (pool \<times> 'w) executor" where
  "pool_executor pg config cred =
     \<lparr>isPrepared = (\<lambda>n s. pool_isPrepared n (fst s)),
      prepareStatements = pool_prepareStatements,
      unprepareStatements = pool_unprepareStatements,
      execute = pool_execute pg config cred,
      executeSQL = pool_executeSQL pg config cred\<rparr>"

definition blocks_agree :: "pool \<Rightarrow> bool" where
  "blocks_agree p \<longleftrightarrow> log_ok (statement_log p) \<and> pool_blocks p = dom (log_blocks (statement_log p))"

text \<open>Effects that leave the log and the blocks of the pool alone.\<close>

definition keeps_log :: "('w, 'a) pool_io \<Rightarrow> bool" where
  "keeps_log m \<longleftrightarrow> (\<forall>s. statement_log (fst (snd (m s))) = statement_log (fst s)
     \<and> pool_blocks (fst (snd (m s))) = pool_blocks (fst s))"

named_theorems keeps \<open>effects that leave the log and the blocks alone\<close>

lemma keeps_bind [keeps]: "keeps_log m \<Longrightarrow> (\<And>x. keeps_log (f x)) \<Longrightarrow> keeps_log (io_bind m f)"
proof -
  assume m: "keeps_log m" and f: "\<And>x. keeps_log (f x)"
  have "statement_log (fst (snd (io_bind m f s))) = statement_log (fst s)
      \<and> pool_blocks (fst (snd (io_bind m f s))) = pool_blocks (fst s)" for s
  proof -
    obtain r s1 where Pair: "m s = (r, s1)" by (cases "m s")
    with m have 1: "statement_log (fst s1) = statement_log (fst s)" "pool_blocks (fst s1) = pool_blocks (fst s)"
      by (metis keeps_log_def snd_conv)+
    show ?thesis
    proof (cases r)
      case (Inr x)
      with Pair 1 f [of x] show ?thesis by (cases s1) (simp add: io_bind_def keeps_log_def)
    qed (use Pair 1 in \<open>simp add: io_bind_def\<close>)
  qed
  then show ?thesis by (simp add: keeps_log_def)
qed

lemma keeps_return [keeps]: "keeps_log (io_return x)"
  by (simp add: keeps_log_def io_basics)

lemma mark_in_use_log [simp]:
  "statement_log (mark_in_use i b p) = statement_log p" "pool_blocks (mark_in_use i b p) = pool_blocks p"
  "pool_config (mark_in_use i b p) = pool_config p" "length (slots (mark_in_use i b p)) = length (slots p)"
  "initialized (mark_in_use i b p) = initialized p"
  by (simp_all add: mark_in_use_def)

lemma keeps_do [keeps]:
  "keeps_log (io_do (\<lambda>(p, w). (p\<lparr>pool_conninfo := f p\<rparr>, w)))"
  "keeps_log (io_do (\<lambda>(p, w). (p\<lparr>initialized := b\<rparr>, w)))"
  "keeps_log (io_do (\<lambda>(p, w). (mark_in_use i b p, w)))"
  by (simp_all add: keeps_log_def io_basics split: prod.splits)

lemma keeps_createSlot [keeps]: "keeps_log (createSlot pg)"
  by (simp add: keeps_log_def createSlot_def split: prod.splits sum.splits)

lemma keeps_create_slots [keeps]: "keeps_log (create_slots pg n)"
proof (induction n)
  case 0
  then show ?case by (simp add: keeps_log_def)
next
  case (Suc n)
  have "create_slots pg (Suc n) = io_bind (createSlot pg) (\<lambda>_. create_slots pg n)" by (rule ext) simp
  with Suc show ?case by (simp add: keeps)
qed

lemma keeps_initialize [keeps]: "keeps_log (pool_requireInitialized pg)"
proof -
  have "keeps_log (io_bind (io_do (\<lambda>(p, w). (p\<lparr>pool_conninfo := buildConnectionString (pool_config p)\<rparr>, w))) (\<lambda>_.
           io_bind (create_slots pg n) (\<lambda>_. io_do (\<lambda>(p, w). (p\<lparr>initialized := True\<rparr>, w)))))" for n
    by (intro keeps)
  then show ?thesis by (simp add: keeps_log_def pool_requireInitialized_def pool_initialize_def)
qed

lemma keeps_take_slot [keeps]: "keeps_log (take_slot pg)"
proof -
  have "keeps_log (io_bind (createSlot pg) (\<lambda>i. io_bind (io_do (\<lambda>(q, w). (mark_in_use i True q, w))) (\<lambda>_. io_return i)))"
    by (intro keeps)
  then show ?thesis
    by (simp add: keeps_log_def take_slot_def waitForAvailableSlot_def tryAcquireExistingSlot_def
        split: option.splits prod.splits)
qed

lemma keeps_sync_slot [keeps]: "keeps_log (sync_slot pg i)"
  by (simp add: keeps_log_def sync_slot_def split: prod.splits sum.splits)

lemma keeps_acquire [keeps]: "keeps_log (acquire pg)"
  unfolding acquire_def by (intro keeps)

lemma keeps_on_connection [keeps]: "keeps_log (on_connection f i)"
  by (simp add: keeps_log_def on_connection_def split: prod.splits sum.splits)

lemma keeps_with_lease:
  assumes "\<And>i. keeps_log (f i)"
  shows "keeps_log (with_lease pg f)"
proof -
  have "keeps_log (\<lambda>s. case f i s of (r, p, w) \<Rightarrow> (r, snd (releaseSlot i p), w))" for i
    using assms by (simp add: keeps_log_def releaseSlot_def split: prod.splits) (metis fst_conv snd_conv)
  then show ?thesis unfolding with_lease_def by (intro keeps)
qed

lemma keeps_queries [keeps]:
  "keeps_log (pool_execute pg config cred options stmt params)"
  "keeps_log (pool_executeSQL pg config cred options sql params)"
  "keeps_log (pool_quote pg v)"
  unfolding pool_execute_def pool_executeSQL_def pool_quote_def lease_execute_def lease_executeSQL_def lease_quote_def
  by (intro keeps_with_lease keeps)+

lemma keeps_logD:
  "keeps_log m \<Longrightarrow> m (p, w) = (r, p', w') \<Longrightarrow> statement_log p' = statement_log p \<and> pool_blocks p' = pool_blocks p"
  by (metis fst_conv keeps_log_def snd_conv)

lemma pool_prepare_cases:
  assumes "blocks_agree p"
  shows "pool_prepareStatements b (p, w) =
    (if block_name b \<in> pool_blocks p
     then (Inl (RuntimeError (''statements block already prepared: '' @ block_name b)), p, w)
     else (Inr (), p\<lparr>pool_blocks := insert (block_name b) (pool_blocks p),
             statement_log := \<lparr>actions = actions (statement_log p) @ [PREPARE b],
               log_blocks = (log_blocks (statement_log p))(block_name b \<mapsto> b)\<rparr>\<rparr>, w))"
  using assms
  by (auto simp: pool_prepareStatements_def Let_def appendPrepare_def blocks_agree_def insert_absorb)

lemma pool_unprepare_cases:
  assumes "blocks_agree p"
  shows "pool_unprepareStatements name (p, w) =
    (case log_blocks (statement_log p) name of
       None \<Rightarrow> (Inl (RuntimeError (''statements block not prepared: '' @ name)), p, w)
     | Some b \<Rightarrow> (Inr (), p\<lparr>pool_blocks := pool_blocks p - {name},
             statement_log := \<lparr>actions = actions (statement_log p) @ [UNPREPARE b],
               log_blocks = (log_blocks (statement_log p))(name := None)\<rparr>\<rparr>, w))"
  using assms
  by (auto simp: pool_unprepareStatements_def Let_def appendUnprepare_def blocks_agree_def domIff
      split: option.splits)

lemma pool_prepare_agree:
  assumes "blocks_agree p" and "pool_prepareStatements b (p, w) = (r, p', w')"
  shows "blocks_agree p'"
proof (cases "block_name b \<in> pool_blocks p")
  case True
  with assms show ?thesis by (simp add: pool_prepare_cases)
next
  case False
  with assms(1) have "log_blocks (statement_log p) (block_name b) = None" by (auto simp: blocks_agree_def)
  then have ap: "appendPrepare (statement_log p) b =
      Inr (Suc (length (actions (statement_log p))),
        \<lparr>actions = actions (statement_log p) @ [PREPARE b], log_blocks = (log_blocks (statement_log p))(block_name b \<mapsto> b)\<rparr>)"
    by (simp add: appendPrepare_def)
  from assms(1) have "log_ok (statement_log p)" by (simp add: blocks_agree_def)
  from appendPrepare_ok [OF this ap] have ok: "log_ok \<lparr>actions = actions (statement_log p) @ [PREPARE b],
      log_blocks = (log_blocks (statement_log p))(block_name b \<mapsto> b)\<rparr>" by (rule conjunct1)
  from assms(1) have "pool_blocks p = dom (log_blocks (statement_log p))" by (simp add: blocks_agree_def)
  with ok assms(2) False show ?thesis
    unfolding pool_prepare_cases [OF assms(1)] by (auto simp: blocks_agree_def)
qed

lemma pool_unprepare_agree:
  assumes "blocks_agree p" and "pool_unprepareStatements name (p, w) = (r, p', w')"
  shows "blocks_agree p'"
proof (cases "log_blocks (statement_log p) name")
  case None
  with assms show ?thesis by (simp add: pool_unprepare_cases)
next
  case (Some b)
  then have ap: "appendUnprepare (statement_log p) name =
      Inr (Suc (length (actions (statement_log p))),
        \<lparr>actions = actions (statement_log p) @ [UNPREPARE b], log_blocks = (log_blocks (statement_log p))(name := None)\<rparr>)"
    by (simp add: appendUnprepare_def)
  have "dom (log_blocks (statement_log p)) - {name} = dom ((log_blocks (statement_log p))(name := None))" by auto
  moreover from assms(1) have "log_ok (statement_log p)" "pool_blocks p = dom (log_blocks (statement_log p))"
    by (simp_all add: blocks_agree_def)
  moreover from appendUnprepare_ok [OF this(1) ap] have "log_ok \<lparr>actions = actions (statement_log p) @ [UNPREPARE b],
      log_blocks = (log_blocks (statement_log p))(name := None)\<rparr>" by (rule conjunct1)
  ultimately show ?thesis
    using assms(2) Some unfolding pool_unprepare_cases [OF assms(1)]
    by (auto simp: blocks_agree_def split: if_splits)
qed

lemma pool_query_blocks:
  assumes "keeps_log m" and "m s = (q, s')" and "blocks_agree (fst s)"
  shows "blocks_agree (fst s') \<and> (\<forall>n. pool_isPrepared n (fst s') = pool_isPrepared n (fst s))"
proof -
  obtain p w where s: "s = (p, w)" by (cases s)
  obtain p' w' where s': "s' = (p', w')" by (cases s')
  from assms(1,2) s s' keeps_logD [of m p w q p' w']
  have "statement_log p' = statement_log p" "pool_blocks p' = pool_blocks p" by simp_all
  with assms(3) s s' show ?thesis by (simp add: blocks_agree_def pool_isPrepared_def)
qed

lemma pool_prepare_blocks:
  assumes "pool_prepareStatements b s = (r, s')" and "blocks_agree (fst s)"
  shows "blocks_agree (fst s') \<and>
     (if pool_isPrepared (block_name b) (fst s)
      then is_ok r = False \<and> (\<forall>n. pool_isPrepared n (fst s') = pool_isPrepared n (fst s))
      else r = Inr () \<and> (\<forall>n. pool_isPrepared n (fst s') = (n = block_name b \<or> pool_isPrepared n (fst s))))"
proof -
  obtain p w where s: "s = (p, w)" by (cases s)
  obtain p' w' where s': "s' = (p', w')" by (cases s')
  from assms s s' have 1: "pool_prepareStatements b (p, w) = (r, p', w')" and 2: "blocks_agree p" by simp_all
  from pool_prepare_agree [OF 2 1] 1 show ?thesis
    unfolding pool_prepare_cases [OF 2] s s' pool_isPrepared_def by (auto split: if_splits)
qed

lemma pool_executor_simps [simp]:
  "isPrepared (pool_executor pg config cred) n s = pool_isPrepared n (fst s)"
  "prepareStatements (pool_executor pg config cred) = pool_prepareStatements"
  "unprepareStatements (pool_executor pg config cred) = pool_unprepareStatements"
  "execute (pool_executor pg config cred) = pool_execute pg config cred"
  "executeSQL (pool_executor pg config cred) = pool_executeSQL pg config cred"
  by (simp_all add: pool_executor_def)

interpretation pool_ex: executor_contract "pool_executor pg config cred" "\<lambda>s. blocks_agree (fst s)"
  by unfold_locales
    (simp_all only: pool_executor_simps, (rule pool_prepare_blocks pool_query_blocks keeps_queries | assumption)+)

section \<open>What the pool calls prepared\<close>

datatype pool_op =
    PoolPrepare StatementsBlock
  | PoolUnprepare string
  | PoolExecute ExecuteOptions string "QueryParam list"
  | PoolExecuteSQL ExecuteOptions string "QueryParam list"

text \<open>The pool after an operation, whatever the operation returned or threw.\<close>

fun pool_run :: "'w pg \<Rightarrow> json \<Rightarrow> json \<Rightarrow> pool_op \<Rightarrow> pool \<times> 'w \<Rightarrow> pool \<times> 'w" where
  "pool_run pg config cred (PoolPrepare b) s = snd (pool_prepareStatements b s)"
| "pool_run pg config cred (PoolUnprepare n) s = snd (pool_unprepareStatements n s)"
| "pool_run pg config cred (PoolExecute options stmt ps) s = snd (pool_execute pg config cred options stmt ps s)"
| "pool_run pg config cred (PoolExecuteSQL options q ps) s = snd (pool_executeSQL pg config cred options q ps s)"

lemma pool_run_agree:
  assumes "blocks_agree (fst s)"
  shows "blocks_agree (fst (pool_run pg config cred a s))"
proof -
  obtain p w where s: "s = (p, w)" by (cases s)
  show ?thesis
  proof (cases a)
    case (PoolPrepare b)
    obtain r p' w' where "pool_prepareStatements b (p, w) = (r, p', w')" by (cases "pool_prepareStatements b (p, w)")
    with pool_prepare_agree assms s PoolPrepare show ?thesis by (metis fst_conv pool_run.simps(1) snd_conv)
  next
    case (PoolUnprepare n)
    obtain r p' w' where "pool_unprepareStatements n (p, w) = (r, p', w')" by (cases "pool_unprepareStatements n (p, w)")
    with pool_unprepare_agree assms s PoolUnprepare show ?thesis by (metis fst_conv pool_run.simps(2) snd_conv)
  next
    case (PoolExecute opts stmt ps)
    with assms s keeps_queries(1) [of pg config cred opts stmt ps] show ?thesis
      by (simp add: keeps_log_def blocks_agree_def)
  next
    case (PoolExecuteSQL opts stmt ps)
    with assms s keeps_queries(2) [of pg config cred opts stmt ps] show ?thesis
      by (simp add: keeps_log_def blocks_agree_def)
  qed
qed

lemma pool_runs_agree: "blocks_agree (fst s) \<Longrightarrow> blocks_agree (fst (fold (pool_run pg config cred) ops s))"
  by (induction ops arbitrary: s) (simp_all add: pool_run_agree)

text \<open>
  what the pool reports as prepared is what its log leaves prepared.  After any operations on a
  new pool, successful or not, a block is reported as prepared exactly when replaying the log's
  actions, which a session can always do, leaves it prepared; a block registered twice or removed
  without being there does not disturb this, although the set is changed before the log refuses.
\<close>

theorem pool_blocks_replay:
  "case ConnectionPool config cred (Some c) of
     Inl e \<Rightarrow> False
   | Inr p \<Rightarrow>
       (let p' = fst (fold (pool_run pg config cred) ops (p, w)) in
        pool_isPrepared n p' = (n \<in> dom (replay (actions (statement_log p'))))
        \<and> actions_ok Map.empty (actions (statement_log p')))"
proof -
  obtain p where p: "ConnectionPool config cred (Some c) = Inr p" by (simp add: ConnectionPool_def)
  then have "blocks_agree (fst (p, w))" using empty_log_ok
    by (auto simp: ConnectionPool_def blocks_agree_def empty_log_def)
  from pool_runs_agree [OF this, of pg config cred ops]
  have "blocks_agree (fst (fold (pool_run pg config cred) ops (p, w)))" .
  then show ?thesis
    by (simp only: p sum.case Let_def blocks_agree_def pool_isPrepared_def log_ok_def)
qed

section \<open>Acquiring\<close>

lemma acquire_first_free:
  assumes "initialized p" and "first_index (\<lambda>s. \<not> in_use s) (slots p) = Some i"
  shows "acquire pg (p, w) =
    (case syncStatements pg (slot_connection (slots p ! i)) (actions (statement_log p)) w of
       (r, lc, w') \<Rightarrow> ((case r of Inl e \<Rightarrow> Inl e | Inr u \<Rightarrow> Inr i),
         p\<lparr>slots := (slots p)[i := \<lparr>slot_connection = lc, in_use = True\<rparr>]\<rparr>, w'))"
proof -
  from assms(2) have i: "i < length (slots p)" by (simp add: first_index_SomeD)
  have "\<exists>s. slots p ! i = s" by simp
  with i assms show ?thesis
    by (cases "slots p ! i")
      (simp add: acquire_def io_bind_def pool_requireInitialized_def take_slot_def tryAcquireExistingSlot_def
        sync_slot_def connectionAt_def mark_in_use_def copyStatementActions_def io_return_def
        split: prod.splits sum.splits)
qed

text \<open>
  acquiring takes the first free slot and brings its connection up to date.  When the connection
  of that slot is idle and has replayed a prefix of the log, and the server accepts the log's
  statements, \<open>acquire\<close> returns that slot marked in use, its session then has exactly the statements the
  log leaves prepared, and no other slot is touched.
\<close>

theorem acquire_syncs:
  assumes "sessions_documented pg idle view f g"
    and "initialized p" and "first_index (\<lambda>s. \<not> in_use s) (slots p) = Some i"
    and "conn (slot_connection (slots p ! i)) = Some c" and "idle c w"
    and "synced_prefix view f g (actions (statement_log p)) (slot_connection (slots p ! i)) w"
    and "session_replay f g (actions (statement_log p)) Map.empty = Some m"
  shows "\<exists>lc w'. acquire pg (p, w) = (Inr i, p\<lparr>slots := (slots p)[i := \<lparr>slot_connection = lc, in_use = True\<rparr>]\<rparr>, w')
    \<and> conn lc = Some c \<and> idle c w' \<and> view c w' = m
    \<and> conn_blocks lc = dom (replay (actions (statement_log p)))"
proof -
  from syncStatements_replays [OF assms(1,4,5,6,7)] show ?thesis
    by (auto simp: acquire_first_free [OF assms(2,3)])
qed

definition sample_slot :: slot where
  "sample_slot = \<lparr>slot_connection = new_connection\<lparr>conn := Some 0\<rparr>, in_use = False\<rparr>"

definition sample_pool_config :: DatabaseConfig where
  "sample_pool_config = \<lparr>host = ''h'', port = 5432, username = ''u'', password = ''p'', database_name = ''d'',
     pool_min = 1, pool_max = 1, connect_timeout_sec = 10, query_read_only_default = None,
     query_timeout_sec = None, query_retries = None, default_executor = None\<rparr>"

definition sample_pool :: pool where
  "sample_pool = \<lparr>pool_config = sample_pool_config, pool_conninfo = buildConnectionString sample_pool_config,
     initialized = True, statement_log = \<lparr>actions = sample_actions, log_blocks = replay sample_actions\<rparr>,
     slots = [sample_slot], pool_blocks = {''b''}\<rparr>"

lemmas sample_pool_simps = sample_pool_def sample_slot_def new_connection_def

theorem acquire_syncs_witness:
  "\<exists>lc w'. acquire sample_pg (sample_pool, (Map.empty, None)) =
      (Inr 0, sample_pool\<lparr>slots := (slots sample_pool)[0 := \<lparr>slot_connection = lc, in_use = True\<rparr>]\<rparr>, w')
    \<and> conn lc = Some 0 \<and> snd w' = None \<and> fst w' = [''x'' \<mapsto> ''SELECT 1'', ''y'' \<mapsto> ''SELECT 2'']
    \<and> conn_blocks lc = dom (replay (actions (statement_log sample_pool)))"
proof (rule acquire_syncs [OF sample_documented])
  show "initialized sample_pool" "first_index (\<lambda>s. \<not> in_use s) (slots sample_pool) = Some 0"
    "conn (slot_connection (slots sample_pool ! 0)) = Some 0" "snd (Map.empty :: session, None) = None"
    by (simp_all add: sample_pool_simps)
  show "synced_prefix (\<lambda>c w. fst w) (\<lambda>q. True) (\<lambda>n. True) (actions (statement_log sample_pool))
      (slot_connection (slots sample_pool ! 0)) (Map.empty, None)"
    by (simp add: synced_prefix_def sample_pool_simps replay_def)
  show "session_replay (\<lambda>q. True) (\<lambda>n. True) (actions (statement_log sample_pool)) Map.empty
      = Some [''x'' \<mapsto> ''SELECT 1'', ''y'' \<mapsto> ''SELECT 2'']"
    by (simp add: sample_pool_def sample_block_simps fun_upd_twist fun_eq_iff)
qed

definition free_slots :: "pool \<Rightarrow> nat" where
  "free_slots p = length (filter (\<lambda>s. \<not> in_use s) (slots p))"

lemma filter_update_count:
  "i < length xs \<Longrightarrow> P (xs ! i) \<Longrightarrow> \<not> P y \<Longrightarrow> Suc (length (filter P (xs[i := y]))) = length (filter P xs)"
proof (induction xs arbitrary: i)
  case Nil
  then show ?case by simp
next
  case (Cons x xs)
  then show ?case by (cases i) auto
qed

text \<open>
  an \<open>acquire\<close> that throws while synchronising keeps its slot.  The caller gets no lease, so nobody
  will release the slot: the pool has one free slot less for good, and once none is left and the pool
  has its maximal size, every later \<open>acquire\<close> waits for ever.
\<close>

theorem failed_acquire_leaks:
  assumes "initialized p" and "first_index (\<lambda>s. \<not> in_use s) (slots p) = Some i"
    and "syncStatements pg (slot_connection (slots p ! i)) (actions (statement_log p)) w = (Inl e, lc, w')"
  shows "\<exists>p'. acquire pg (p, w) = (Inl e, p', w') \<and> Suc (free_slots p') = free_slots p
    \<and> (if free_slots p' = 0 \<and> pool_max (pool_config p) \<le> int (length (slots p))
       then fst (acquire pg (p', w')) = Inl NeverResumes else True)"
proof -
  let ?p = "p\<lparr>slots := (slots p)[i := \<lparr>slot_connection = lc, in_use = True\<rparr>]\<rparr>"
  from assms(2) have i: "i < length (slots p)" "\<not> in_use (slots p ! i)" by (auto dest: first_index_SomeD)
  have acq: "acquire pg (p, w) = (Inl e, ?p, w')"
    by (simp add: acquire_first_free [OF assms(1,2)] assms(3))
  have free: "Suc (free_slots ?p) = free_slots p"
    using filter_update_count [OF i(1), where P = "\<lambda>s. \<not> in_use s" and y = "\<lparr>slot_connection = lc, in_use = True\<rparr>"] i(2)
    by (simp add: free_slots_def)
  have "fst (acquire pg (?p, w')) = Inl NeverResumes"
    if "free_slots ?p = 0" "pool_max (pool_config p) \<le> int (length (slots p))"
  proof -
    from that(1) have "first_index (\<lambda>s. \<not> in_use s) (slots ?p) = None"
      by (simp add: free_slots_def first_index_None filter_empty_conv)
    with that(2) assms(1) show ?thesis
      by (simp add: acquire_def io_bind_def pool_requireInitialized_def take_slot_def tryAcquireExistingSlot_def
          waitForAvailableSlot_def)
  qed
  with acq free show ?thesis by auto
qed

theorem failed_acquire_leaks_witness:
  "\<exists>p'. acquire sample_pg (sample_pool, ([''x'' \<mapsto> ''old''], None)) =
       (Inl (RuntimeError ''already exists''), p', ([''x'' \<mapsto> ''old''], Some []))
     \<and> Suc (free_slots p') = free_slots sample_pool
     \<and> (if free_slots p' = 0 \<and> pool_max (pool_config sample_pool) \<le> int (length (slots sample_pool))
        then fst (acquire sample_pg (p', ([''x'' \<mapsto> ''old''], Some []))) = Inl NeverResumes else True)"
proof (rule failed_acquire_leaks)
  show "initialized sample_pool" "first_index (\<lambda>s. \<not> in_use s) (slots sample_pool) = Some 0"
    by (simp_all add: sample_pool_simps)
  show "syncStatements sample_pg (slot_connection (slots sample_pool ! 0)) (actions (statement_log sample_pool))
      ([''x'' \<mapsto> ''old''], None)
    = (Inl (RuntimeError ''already exists''), slot_connection (slots sample_pool ! 0), ([''x'' \<mapsto> ''old''], Some []))"
    by (simp add: syncStatements_def sample_pool_simps sample_block_simps prepareAsync_def io_bind_def run_command_def
        consumeResults_def sample_pg_def sample_send_def)
qed

section \<open>A pool after one failed query\<close>

text \<open>The first slot is free and up to date, and its connection is busy.\<close>

definition first_slot_busy :: "(nat \<Rightarrow> 'w \<Rightarrow> bool) \<Rightarrow> nat \<Rightarrow> pool \<times> 'w \<Rightarrow> bool" where
  "first_slot_busy busy c s \<longleftrightarrow>
     (case s of (p, w) \<Rightarrow> initialized p \<and> busy c w
        \<and> (case slots p of [] \<Rightarrow> False
            | sl # sls \<Rightarrow> \<not> in_use sl \<and> conn (slot_connection sl) = Some c
                \<and> length (actions (statement_log p)) \<le> statement_cursor (slot_connection sl)))"

lemma run_checked_Inr:
  "run_checked config cred options m w = (Inr x, w') \<Longrightarrow> m w = (Inr x, w')"
  by (auto simp: run_checked_def io_bind_def io_lift_def split: prod.splits sum.splits option.splits)

lemma run_checked_cases:
  "run_checked config cred options m w = m w \<or> (\<exists>e. run_checked config cred options m w = (Inl e, w))"
  by (auto simp: run_checked_def io_bind_def io_lift_def split: prod.splits sum.splits option.splits)

lemma pool_execute_first:
  assumes "initialized p" and "slots p = sl # sls" and "\<not> in_use sl"
    and "length (actions (statement_log p)) \<le> statement_cursor (slot_connection sl)"
  shows "pool_execute pg config cred options stmt ps (p, w) =
    (case connection_execute pg config cred (slot_connection sl) options stmt ps w of (r, w') \<Rightarrow> (r, p, w'))"
proof -
  have "first_index (\<lambda>s. \<not> in_use s) (slots p) = Some 0" using assms(2,3) by simp
  from acquire_first_free [OF assms(1) this, of pg w] assms(2,4)
  have "acquire pg (p, w) = (Inr 0, p\<lparr>slots := \<lparr>slot_connection = slot_connection sl, in_use = True\<rparr> # sls\<rparr>, w)"
    by (simp add: syncStatements_def)
  with assms(2,3) show ?thesis
    by (cases sl) (simp add: pool_execute_def with_lease_def io_bind_Inr lease_execute_def on_connection_def
        connectionAt_def releaseSlot_def mark_in_use_def split: prod.splits)
qed

lemma first_slot_busy_execute:
  assumes "busy_documented pg busy" and "first_slot_busy busy c s"
  shows "\<exists>e s'. pool_execute pg config cred options stmt ps s = (Inl e, s') \<and> first_slot_busy busy c s'"
proof -
  obtain p w where s: "s = (p, w)" by (cases s)
  with assms(2) obtain sl sls where sl: "initialized p" "slots p = sl # sls" "\<not> in_use sl"
      "length (actions (statement_log p)) \<le> statement_cursor (slot_connection sl)"
      "conn (slot_connection sl) = Some c" "busy c w"
    by (auto simp: first_slot_busy_def split: list.splits)
  from busy_command [OF assms(1) sl(6), of "SendQueryPrepared stmt (encodeParams (pg_show_double pg) ps)"]
  obtain e w' where "executePrepared pg (slot_connection sl) stmt ps w = (Inl e, w')" "busy c w'"
    unfolding executePrepared_def sl(5) by blast
  with run_checked_cases [of config cred options "executePrepared pg (slot_connection sl) stmt ps" w] sl(6)
  have "\<exists>e w'. connection_execute pg config cred (slot_connection sl) options stmt ps w = (Inl e, w') \<and> busy c w'"
    by (auto simp: connection_execute_def)
  then show ?thesis
    using sl by (auto simp: s pool_execute_first first_slot_busy_def)
qed

fun pool_queries ::
    "'w pg \<Rightarrow> json \<Rightarrow> json \<Rightarrow> (ExecuteOptions \<times> string \<times> QueryParam list) list \<Rightarrow> pool \<times> 'w \<Rightarrow> QueryResult result list" where
  "pool_queries pg config cred [] s = []"
| "pool_queries pg config cred ((options, stmt, ps) # qs) s =
     (case pool_execute pg config cred options stmt ps s of (r, s') \<Rightarrow> r # pool_queries pg config cred qs s')"

lemma busy_pool_queries:
  assumes "busy_documented pg busy"
  shows "first_slot_busy busy c s \<Longrightarrow> \<forall>r \<in> set (pool_queries pg config cred qs s). \<not> is_ok r"
proof (induction qs arbitrary: s)
  case Nil
  then show ?case by simp
next
  case (Cons q qs)
  obtain options stmt ps where q: "q = (options, stmt, ps)" by (cases q)
  from first_slot_busy_execute [OF assms Cons.prems, of config cred options stmt ps] obtain e s' where
    "pool_execute pg config cred options stmt ps s = (Inl e, s')" "first_slot_busy busy c s'" by blast
  with Cons.IH [of s'] show ?case by (simp add: q)
qed

text \<open>
  C27: one failed query disables a pool.  When the server reports an error for a query run on the pool's
  first slot (free and up to date), the slot goes back with its connection still busy, the next
  queries get that same slot, and every later query throws, although the pool has room for others.
\<close>

theorem failed_query_disables_pool:
  assumes "busy_documented pg busy"
    and "initialized p" and "slots p = sl # sls" and "\<not> in_use sl" and "conn (slot_connection sl) = Some c"
    and "length (actions (statement_log p)) \<le> statement_cursor (slot_connection sl)"
    and "pg_send pg c (SendQueryPrepared stmt (encodeParams (pg_show_double pg) ps)) w = (True, w1)"
    and "fillWithDefaults config cred options = Inr o'" and "read_only o' \<noteq> None"
    and "pool_execute pg config cred options stmt ps (p, w) = (Inl e, s')"
  shows "\<forall>r \<in> set (pool_queries pg config cred qs s'). \<not> is_ok r"
proof -
  have "connection_execute pg config cred (slot_connection sl) options stmt ps w =
      run_command pg (Some c) (SendQueryPrepared stmt (encodeParams (pg_show_double pg) ps)) w"
    using assms(5,8,9) by (auto simp: connection_execute_def run_checked_def executePrepared_def io_simps)
  with assms(10) obtain w2 where
    w2: "run_command pg (Some c) (SendQueryPrepared stmt (encodeParams (pg_show_double pg) ps)) w = (Inl e, w2)"
      "s' = (p, w2)"
    by (auto simp: pool_execute_first [OF assms(2,3,4,6)] split: prod.splits)
  from failed_command_busy [OF assms(1,7) w2(1)] assms w2(2) have "first_slot_busy busy c s'"
    by (simp add: first_slot_busy_def)
  then show ?thesis by (rule busy_pool_queries [OF assms(1)])
qed

definition sample_db_config :: json where
  "sample_db_config = JObject [(''database'', JObject
     [(''dbname'', JString ''d''), (''host'', JString ''h''), (''port'', JUnsigned 5432), (''username'', JString ''u'')])]"

definition sample_db_credentials :: json where
  "sample_db_credentials = JObject [(''database'', JObject [(''password'', JString ''p'')])]"

lemma sample_options:
  "fillWithDefaults sample_db_config sample_db_credentials no_options
     = Inr \<lparr>read_only = Some False, timeout_sec = Some 0, retries = Some 0\<rparr>"
  by code_simp

definition ready_pool :: pool where
  "ready_pool = sample_pool\<lparr>slots :=
     [\<lparr>slot_connection = \<lparr>conn = Some 0, conninfo = [], statement_cursor = 3, conn_blocks = {''b''}\<rparr>, in_use = False\<rparr>]\<rparr>"

theorem failed_query_disables_pool_witness:
  "list_all (\<lambda>r. \<not> is_ok r)
     (pool_queries sample_pg sample_db_config sample_db_credentials [(no_options, ''x'', []), (no_options, ''y'', [])]
        (snd (pool_execute sample_pg sample_db_config sample_db_credentials no_options ''z'' []
           (ready_pool, [''x'' \<mapsto> ''SELECT 1'', ''y'' \<mapsto> ''SELECT 2''], None))))"
proof -
  let ?w = "([''x'' \<mapsto> ''SELECT 1'', ''y'' \<mapsto> ''SELECT 2''], None) :: sample_world"
  let ?sl = "\<lparr>slot_connection = \<lparr>conn = Some 0, conninfo = [], statement_cursor = 3, conn_blocks = {''b''}\<rparr>, in_use = False\<rparr>"
  have p: "initialized ready_pool" "slots ready_pool = ?sl # []" "\<not> in_use ?sl" "conn (slot_connection ?sl) = Some 0"
      "length (actions (statement_log ready_pool)) \<le> statement_cursor (slot_connection ?sl)"
    by (simp_all add: ready_pool_def sample_pool_def sample_actions_def)
  have send: "pg_send sample_pg 0 (SendQueryPrepared ''z'' (encodeParams (pg_show_double sample_pg) [])) ?w
      = (True, fst ?w, Some [FailedResult ''does not exist''])"
    by (simp add: sample_pg_def sample_send_def)
  have ex: "pool_execute sample_pg sample_db_config sample_db_credentials no_options ''z'' [] (ready_pool, ?w)
      = (Inl (RuntimeError ''does not exist''), ready_pool, (fst ?w, Some []))"
    unfolding pool_execute_first [OF p(1,2,3,5)]
    by (simp add: connection_execute_def run_checked_def sample_options executePrepared_def io_simps run_command_def
        consumeResults_def sample_pg_def sample_send_def encodeParams_def)
  from failed_query_disables_pool [OF sample_busy p send sample_options _ ex]
  show ?thesis by (simp add: ex list_all_iff del: pool_queries.simps)
qed

section \<open>Coroutines that acquire and release\<close>

text \<open>
  The phases of a coroutine in \<open>acquire\<close>: before it, initialising the pool with so many slots still to
  create, creating a slot, waiting for one, synchronising the slot it took, or holding the lease.  The
  server runs its coroutines on one thread, so a step is the code between two suspension points; the
  new slot is appended and marked in one step because the return of \<open>createSlot\<close> does not suspend.
\<close>

datatype phase = Outside | Initializing nat | Creating | Waiting | Syncing nat | Holding nat

definition add_slot :: "LibpqConnection \<Rightarrow> pool \<Rightarrow> pool" where
  "add_slot lc p = p\<lparr>slots := slots p @ [\<lparr>slot_connection = lc, in_use = False\<rparr>]\<rparr>"

definition set_connection :: "nat \<Rightarrow> LibpqConnection \<Rightarrow> pool \<Rightarrow> pool" where
  "set_connection i lc p = p\<lparr>slots := (slots p)[i := (slots p ! i)\<lparr>slot_connection := lc\<rparr>]\<rparr>"

text \<open>What \<open>acquire\<close> does once the pool is initialised, up to its next suspension.\<close>

definition search_slot :: "pool \<Rightarrow> pool \<times> phase" where
  "search_slot p =
     (case tryAcquireExistingSlot p of
        (Some i, p') \<Rightarrow> (p', Syncing i)
      | (None, p') \<Rightarrow> (p', if int (length (slots p')) < pool_max (pool_config p') then Creating else Waiting))"

text \<open>The first lines of \<open>initialize\<close>, before it creates a slot, and its last.\<close>

definition begin_initialize :: "pool \<Rightarrow> pool" where
  "begin_initialize p = p\<lparr>pool_conninfo := buildConnectionString (pool_config p)\<rparr>"

definition end_initialize :: "pool \<Rightarrow> pool" where
  "end_initialize p = p\<lparr>initialized := True\<rparr>"

inductive pool_step :: "pool \<times> ('t \<Rightarrow> phase) \<Rightarrow> pool \<times> ('t \<Rightarrow> phase) \<Rightarrow> bool" where
  begin_ready: "ph t = Outside \<Longrightarrow> initialized p \<Longrightarrow> search_slot p = (p', x) \<Longrightarrow> pool_step (p, ph) (p', ph(t := x))"
| begin_without_slots: "ph t = Outside \<Longrightarrow> \<not> initialized p \<Longrightarrow> pool_min (pool_config p) \<le> 0 \<Longrightarrow>
    search_slot (end_initialize (begin_initialize p)) = (p', x) \<Longrightarrow> pool_step (p, ph) (p', ph(t := x))"
| begin_with_slots: "ph t = Outside \<Longrightarrow> \<not> initialized p \<Longrightarrow> 0 < pool_min (pool_config p) \<Longrightarrow>
    pool_step (p, ph) (begin_initialize p, ph(t := Initializing (nat (pool_min (pool_config p)))))"
| init_slot: "ph t = Initializing (Suc (Suc k)) \<Longrightarrow> pool_step (p, ph) (add_slot lc p, ph(t := Initializing (Suc k)))"
| init_done: "ph t = Initializing (Suc 0) \<Longrightarrow> search_slot (end_initialize (add_slot lc p)) = (p', x) \<Longrightarrow>
    pool_step (p, ph) (p', ph(t := x))"
| init_failed: "ph t = Initializing k \<Longrightarrow> pool_step (p, ph) (p, ph(t := Outside))"
| created: "ph t = Creating \<Longrightarrow>
    pool_step (p, ph) (mark_in_use (length (slots p)) True (add_slot lc p), ph(t := Syncing (length (slots p))))"
| creation_failed: "ph t = Creating \<Longrightarrow> pool_step (p, ph) (p, ph(t := Outside))"
| poll: "ph t = Waiting \<Longrightarrow> tryAcquireExistingSlot p = (Some i, p') \<Longrightarrow> pool_step (p, ph) (p', ph(t := Syncing i))"
| synced: "ph t = Syncing i \<Longrightarrow> pool_step (p, ph) (set_connection i lc p, ph(t := Holding i))"
| sync_failed: "ph t = Syncing i \<Longrightarrow> pool_step (p, ph) (set_connection i lc p, ph(t := Outside))"
| released: "ph t = Holding i \<Longrightarrow> releaseSlot i p = (r, p') \<Longrightarrow> pool_step (p, ph) (p', ph(t := Outside))"

definition pool_start :: "pool \<Rightarrow> bool" where
  "pool_start p \<longleftrightarrow> (\<forall>s \<in> set (slots p). \<not> in_use s)"

inductive pool_reachable :: "pool \<Rightarrow> pool \<times> ('t \<Rightarrow> phase) \<Rightarrow> bool" for p0 where
  start: "pool_start p0 \<Longrightarrow> pool_reachable p0 (p0, \<lambda>t. Outside)"
| more_steps: "pool_reachable p0 s \<Longrightarrow> pool_step s s' \<Longrightarrow> pool_reachable p0 s'"

fun leases :: "phase \<Rightarrow> nat option" where
  "leases (Syncing i) = Some i"
| "leases (Holding i) = Some i"
| "leases _ = None"

text \<open>No two coroutines have one slot, and a slot a coroutine has is in use.\<close>

definition leases_ok :: "pool \<times> ('t \<Rightarrow> phase) \<Rightarrow> bool" where
  "leases_ok s \<longleftrightarrow>
     (\<forall>t i. leases (snd s t) = Some i \<longrightarrow> i < length (slots (fst s)) \<and> in_use (slots (fst s) ! i))
     \<and> (\<forall>t u i. leases (snd s t) = Some i \<longrightarrow> leases (snd s u) = Some i \<longrightarrow> t = u)"

lemma tryAcquire_Some:
  "tryAcquireExistingSlot p = (Some i, p') \<Longrightarrow>
     i < length (slots p) \<and> \<not> in_use (slots p ! i) \<and> p' = mark_in_use i True p"
  by (auto simp: tryAcquireExistingSlot_def dest: first_index_SomeD split: option.splits)

lemma tryAcquire_None: "tryAcquireExistingSlot p = (None, p') \<Longrightarrow> p' = p"
  by (auto simp: tryAcquireExistingSlot_def split: option.splits)

lemma in_use_mark:
  "j < length (slots p) \<Longrightarrow> in_use (slots (mark_in_use i b p) ! j) = (if i = j then b else in_use (slots p ! j))"
  by (simp add: mark_in_use_def nth_list_update)

lemma in_use_set_connection [simp]:
  "length (slots (set_connection i lc p)) = length (slots p)"
  "j < length (slots p) \<Longrightarrow> in_use (slots (set_connection i lc p) ! j) = in_use (slots p ! j)"
  by (simp add: set_connection_def) (cases "i = j", simp_all add: set_connection_def)

lemma leases_take:
  assumes "leases_ok (p, ph)" and "leases (ph t) = None" and "i < length (slots p)" and "\<not> in_use (slots p ! i)"
  shows "leases_ok (mark_in_use i True p, ph(t := Syncing i))"
  using assms unfolding leases_ok_def by (auto simp: in_use_mark split: if_splits)

lemma leases_drop:
  assumes "leases_ok (p, ph)" and "leases new = None"
  shows "leases_ok (p, ph(t := new))"
  using assms unfolding leases_ok_def by (auto split: if_splits)

lemma leases_set_connection: "leases_ok (set_connection i lc p, ph) = leases_ok (p, ph)"
proof -
  have "(i' < length (slots p) \<and> in_use (slots (set_connection i lc p) ! i')) =
      (i' < length (slots p) \<and> in_use (slots p ! i'))" for i' by auto
  then show ?thesis unfolding leases_ok_def by simp
qed

lemma leases_add:
  assumes "leases_ok (p, ph)" and "leases (ph t) = None"
  shows "leases_ok (mark_in_use (length (slots p)) True (add_slot lc p), ph(t := Syncing (length (slots p))))"
proof -
  let ?q = "mark_in_use (length (slots p)) True (add_slot lc p)"
  have len: "length (slots ?q) = Suc (length (slots p))" by (simp add: add_slot_def)
  have old: "in_use (slots ?q ! j) = in_use (slots p ! j)" if "j < length (slots p)" for j
    using that by (simp add: mark_in_use_def add_slot_def nth_append)
  have new: "in_use (slots ?q ! length (slots p))"
    by (simp add: mark_in_use_def add_slot_def)
  have lt: "i < length (slots p)" if "leases (ph u) = Some i" for u i
    using assms(1) that by (auto simp: leases_ok_def)
  show ?thesis
    unfolding leases_ok_def
  proof (intro conjI allI impI)
    fix u i
    assume "leases (snd (?q, ph(t := Syncing (length (slots p)))) u) = Some i"
    then show "i < length (slots (fst (?q, ph(t := Syncing (length (slots p))))))"
      using len lt by (auto split: if_splits) (metis less_Suc_eq)
    show "in_use (slots (fst (?q, ph(t := Syncing (length (slots p))))) ! i)"
      using \<open>leases (snd (?q, ph(t := Syncing (length (slots p)))) u) = Some i\<close> old new assms(1) lt
      by (auto simp: leases_ok_def split: if_splits)
  next
    fix u v i
    assume "leases (snd (?q, ph(t := Syncing (length (slots p)))) u) = Some i"
      and "leases (snd (?q, ph(t := Syncing (length (slots p)))) v) = Some i"
    then show "u = v" using assms(1) lt by (fastforce simp: leases_ok_def split: if_splits)
  qed
qed

lemma leases_release:
  assumes "leases_ok (p, ph)" and "ph t = Holding i" and "releaseSlot i p = (r, p')"
  shows "leases_ok (p', ph(t := Outside))"
proof (cases "i < length (slots p)")
  case True
  with assms(3) have "p' = mark_in_use i False p" by (simp add: releaseSlot_def)
  with assms(1,2) True show ?thesis
    unfolding leases_ok_def by (fastforce simp: in_use_mark split: if_splits)
next
  case False
  with assms(1,2) show ?thesis unfolding leases_ok_def by (metis fst_conv leases.simps(2) snd_conv)
qed

lemma leases_slots: "slots q = slots p \<Longrightarrow> leases_ok (q, ph) = leases_ok (p, ph)"
  by (simp add: leases_ok_def)

lemma slots_initialize [simp]:
  "slots (begin_initialize p) = slots p" "slots (end_initialize p) = slots p"
  "pool_config (begin_initialize p) = pool_config p" "pool_config (end_initialize p) = pool_config p"
  "initialized (begin_initialize p) = initialized p" "initialized (end_initialize p)"
  by (simp_all add: begin_initialize_def end_initialize_def)

lemma slots_add [simp]:
  "length (slots (add_slot lc p)) = Suc (length (slots p))" "pool_config (add_slot lc p) = pool_config p"
  "initialized (add_slot lc p) = initialized p"
  by (simp_all add: add_slot_def)

lemma leases_add_free:
  assumes "leases_ok (p, ph)"
  shows "leases_ok (add_slot lc p, ph)"
proof -
  have "in_use (slots (add_slot lc p) ! i) = in_use (slots p ! i)" if "i < length (slots p)" for i
    using that by (simp add: add_slot_def nth_append)
  with assms show ?thesis by (simp add: leases_ok_def less_Suc_eq)
qed

lemma search_slot_cases:
  assumes "search_slot p = (p', x)"
  obtains (found) i where "x = Syncing i" "i < length (slots p)" "\<not> in_use (slots p ! i)" "p' = mark_in_use i True p"
  | (none) "p' = p" "x = Creating \<or> x = Waiting" "\<forall>s \<in> set (slots p). in_use s"
proof (cases "tryAcquireExistingSlot p")
  case (Pair r q)
  show thesis
  proof (cases r)
    case (Some i)
    with Pair assms have "x = Syncing i" "q = p'" by (simp_all add: search_slot_def)
    with Pair Some tryAcquire_Some [of p i q] show ?thesis by (intro found) simp_all
  next
    case None
    then have "q = p" "\<forall>s \<in> set (slots p). in_use s" using Pair
      by (auto simp: tryAcquireExistingSlot_def first_index_None split: option.splits)
    with Pair None assms none show ?thesis by (auto simp: search_slot_def split: if_splits)
  qed
qed

lemma leases_search:
  assumes "leases_ok (p, ph)" and "leases (ph t) = None" and "search_slot p = (p', x)"
  shows "leases_ok (p', ph(t := x))"
  using assms(3)
proof (cases rule: search_slot_cases)
  case (found i)
  with assms(1,2) show ?thesis by (simp add: leases_take)
next
  case none
  with assms(1) show ?thesis by (auto intro: leases_drop)
qed

lemma pool_step_leases:
  assumes "pool_step s s'" and "leases_ok s"
  shows "leases_ok s'"
  using assms
proof (cases rule: pool_step.cases)
  case (begin_ready ph t p p' x)
  with assms(2) show ?thesis by (simp add: leases_search)
next
  case (begin_without_slots ph t p p' x)
  with assms(2) have "leases_ok (end_initialize (begin_initialize p), ph)" by (subst leases_slots [of _ p]) simp_all
  with begin_without_slots show ?thesis by (simp add: leases_search)
next
  case (begin_with_slots ph t p)
  with assms(2) have "leases_ok (begin_initialize p, ph)" by (subst leases_slots [of _ p]) simp_all
  with begin_with_slots show ?thesis by (simp add: leases_drop del: fun_upd_apply)
next
  case (init_slot ph t k p lc)
  with assms(2) show ?thesis by (simp add: leases_drop leases_add_free)
next
  case (init_done ph t lc p p' x)
  with assms(2) have "leases_ok (end_initialize (add_slot lc p), ph)" by (subst leases_slots [of _ "add_slot lc p"]) (simp_all add: leases_add_free)
  with init_done show ?thesis by (simp add: leases_search)
next
  case (poll ph t p i p')
  with tryAcquire_Some [of p i p'] assms(2) show ?thesis by (simp add: leases_take)
next
  case (created ph t p lc)
  with assms(2) show ?thesis by (simp add: leases_add)
next
  case (synced ph t i p lc)
  then have "leases ((ph(t := Holding i)) u) = leases (ph u)" for u by simp
  then have "leases_ok (p, ph(t := Holding i)) = leases_ok (p, ph)" unfolding leases_ok_def snd_conv by (simp only: fst_conv)
  with assms(2) synced have "leases_ok (p, ph(t := Holding i))" by simp
  with synced show ?thesis by (simp add: leases_set_connection)
next
  case (released ph t i p r p')
  with assms(2) show ?thesis by (simp add: leases_release)
next
  case (init_failed ph t k p)
  with assms(2) show ?thesis by (simp add: leases_drop)
next
  case (creation_failed ph t p)
  with assms(2) show ?thesis by (simp add: leases_drop)
next
  case (sync_failed ph t i p lc)
  with assms(2) show ?thesis by (simp add: leases_drop leases_set_connection)
qed

lemma pool_reachable_leases: "pool_reachable p0 s \<Longrightarrow> leases_ok s"
proof (induction rule: pool_reachable.induct)
  case start
  then show ?case by (simp add: leases_ok_def)
qed (rule pool_step_leases)

text \<open>
  C11: a lease is exclusive.  However the coroutines interleave at their suspension points, and whichever
  creations and synchronisations fail, two coroutines never have the same slot, and the slot of a
  lease exists and is marked in use.
\<close>

theorem pool_leases_exclusive:
  assumes "pool_reachable p0 (p, ph)" and "leases (ph t) = Some i"
  shows "i < length (slots p) \<and> in_use (slots p ! i) \<and> {u. leases (ph u) = Some i} = {t}"
  using pool_reachable_leases [OF assms(1)] assms(2) unfolding leases_ok_def by auto

lemma pool_reachable_create:
  assumes "pool_start p0" and "initialized p0" and "slots p0 = []" and "0 < pool_max (pool_config p0)"
  shows "pool_reachable p0 (mark_in_use 0 True (add_slot lc p0), (\<lambda>t. Outside)(True := Syncing 0, False := Creating))"
proof -
  have none: "search_slot p0 = (p0, Creating)" using assms(3,4) by (simp add: search_slot_def tryAcquireExistingSlot_def)
  have 0: "pool_reachable p0 (p0, \<lambda>t. Outside)" using assms(1) by (rule start)
  have 1: "pool_reachable p0 (p0, (\<lambda>t. Outside)(True := Creating))"
    by (rule more_steps [OF 0], rule begin_ready) (use none assms(2) in simp_all)
  have 2: "pool_reachable p0 (p0, (\<lambda>t. Outside)(True := Creating, False := Creating))"
    by (rule more_steps [OF 1], rule begin_ready) (use none assms(2) in simp_all)
  have "pool_reachable p0 (mark_in_use (length (slots p0)) True (add_slot lc p0),
      ((\<lambda>t. Outside)(True := Creating, False := Creating))(True := Syncing (length (slots p0))))"
    by (rule more_steps [OF 2], rule created) simp
  with assms(3) show ?thesis by (simp add: fun_upd_twist)
qed

text \<open>A pool that creates no slots when it is initialised, after that.\<close>

definition empty_pool :: pool where
  "empty_pool = sample_pool\<lparr>pool_config := sample_pool_config\<lparr>pool_min := 0\<rparr>, slots := []\<rparr>"

lemma empty_pool_start:
  "pool_start empty_pool" "initialized empty_pool" "slots empty_pool = []" "0 < pool_max (pool_config empty_pool)"
  by (simp_all add: pool_start_def empty_pool_def sample_pool_def sample_pool_config_def)

theorem pool_leases_exclusive_witness:
  "(let p = mark_in_use 0 True (add_slot new_connection empty_pool);
        ph = (\<lambda>t. Outside)(True := Syncing 0, False := Creating)
    in (0::nat) < length (slots p) \<and> in_use (slots p ! 0) \<and> {u. leases (ph u) = Some 0} = {True})"
  unfolding Let_def
  by (rule pool_leases_exclusive [OF pool_reachable_create [OF empty_pool_start]]) simp

section \<open>Coroutines that start together\<close>

text \<open>One that has begun to initialise the pool creates all its slots, whatever the others have created meanwhile.\<close>

lemma initialize_finishes:
  assumes "pool_reachable p0 (p, ph)" and "ph t = Initializing (Suc k)"
  shows "\<exists>p' i. pool_reachable p0 (p', ph(t := Syncing i)) \<and> length (slots p') = length (slots p) + Suc k"
  using assms
proof (induction k arbitrary: p ph)
  case 0
  obtain p' x where found: "search_slot (end_initialize (add_slot new_connection p)) = (p', x)" by (cases "search_slot (end_initialize (add_slot new_connection p))")
  then obtain i where "x = Syncing i" "length (slots p') = Suc (length (slots p))"
    by (cases rule: search_slot_cases) (auto simp: add_slot_def)
  moreover have "pool_reachable p0 (p', ph(t := x))"
    by (rule more_steps [OF 0(1)], rule init_done) (use 0(2) found in simp_all)
  ultimately have "pool_reachable p0 (p', ph(t := Syncing i)) \<and> length (slots p') = length (slots p) + Suc 0"
    by (simp del: fun_upd_apply)
  then show ?case by blast
next
  case (Suc k)
  have "pool_reachable p0 (add_slot new_connection p, ph(t := Initializing (Suc k)))"
    by (rule more_steps [OF Suc.prems(1)], rule init_slot) (use Suc.prems(2) in simp)
  from Suc.IH [OF this fun_upd_same, unfolded fun_upd_upd] show ?case by (simp del: fun_upd_apply)
qed

lemma all_initialize:
  assumes "pool_reachable p0 (p, ph)" and "\<forall>t\<in>set us. ph t = Initializing (Suc k)" and "distinct us"
  shows "\<exists>p' ph'. pool_reachable p0 (p', ph') \<and> length (slots p') = length (slots p) + length us * Suc k
    \<and> (\<forall>t\<in>set us. \<exists>i. ph' t = Syncing i) \<and> (\<forall>t. t \<notin> set us \<longrightarrow> ph' t = ph t)"
  using assms
proof (induction us arbitrary: p ph)
  case (Cons t us)
  from initialize_finishes [OF Cons.prems(1), of t k] Cons.prems(2) obtain p1 i where
    p1: "pool_reachable p0 (p1, ph(t := Syncing i))" "length (slots p1) = length (slots p) + Suc k" by auto
  have "\<forall>u\<in>set us. (ph(t := Syncing i)) u = Initializing (Suc k)" "distinct us" using Cons.prems(2,3) by auto
  from Cons.IH [OF p1(1) this] obtain p' ph' where
    p': "pool_reachable p0 (p', ph')" "length (slots p') = length (slots p1) + length us * Suc k"
      "\<forall>u\<in>set us. \<exists>i. ph' u = Syncing i" "\<forall>u. u \<notin> set us \<longrightarrow> ph' u = (ph(t := Syncing i)) u" by blast
  moreover have "ph' t = Syncing i" using p'(4) Cons.prems(3) by simp
  ultimately show ?case using p1(2) by (intro exI [of _ p'] exI [of _ ph']) auto
qed auto

lemma all_begin:
  assumes "pool_reachable p0 (p, ph)" and "\<not> initialized p" and "0 < pool_min (pool_config p)"
    and "\<forall>t\<in>set us. ph t = Outside" and "distinct us"
  shows "\<exists>p' ph'. pool_reachable p0 (p', ph') \<and> slots p' = slots p
    \<and> (\<forall>t\<in>set us. ph' t = Initializing (nat (pool_min (pool_config p)))) \<and> (\<forall>t. t \<notin> set us \<longrightarrow> ph' t = ph t)"
  using assms
proof (induction us arbitrary: p ph)
  case (Cons t us)
  let ?x = "Initializing (nat (pool_min (pool_config p)))"
  have "pool_reachable p0 (begin_initialize p, ph(t := ?x))"
    by (rule more_steps [OF Cons.prems(1)], rule begin_with_slots) (use Cons.prems in simp_all)
  moreover have "\<forall>u\<in>set us. (ph(t := ?x)) u = Outside" using Cons.prems(4,5) by auto
  ultimately obtain p' ph' where
    p': "pool_reachable p0 (p', ph')" "slots p' = slots p" "\<forall>u\<in>set us. ph' u = ?x"
      "\<forall>u. u \<notin> set us \<longrightarrow> ph' u = (ph(t := ?x)) u"
    using Cons.IH [of "begin_initialize p" "ph(t := ?x)"] Cons.prems(2,3,5) by (auto simp del: fun_upd_apply)
  moreover have "ph' t = ?x" using p'(4) Cons.prems(5) by simp
  ultimately show ?case by (intro exI [of _ p'] exI [of _ ph']) auto
qed auto

lemma all_start_creating:
  assumes "pool_reachable p0 (p, ph)" and "slots p = []" and "pool_min (pool_config p) \<le> 0" and "0 < pool_max (pool_config p)"
    and "\<forall>t\<in>set us. ph t = Outside" and "distinct us"
  shows "\<exists>p' ph'. pool_reachable p0 (p', ph') \<and> slots p' = []
    \<and> (\<forall>t\<in>set us. ph' t = Creating) \<and> (\<forall>t. t \<notin> set us \<longrightarrow> ph' t = ph t)"
  using assms
proof (induction us arbitrary: p ph)
  case (Cons t us)
  have none: "search_slot q = (q, Creating)" if "slots q = []" "pool_config q = pool_config p" for q
    using that Cons.prems(4) by (simp add: search_slot_def tryAcquireExistingSlot_def)
  obtain q where q: "pool_step (p, ph) (q, ph(t := Creating))" "slots q = []" "pool_config q = pool_config p"
  proof (cases "initialized p")
    case True
    with Cons.prems that [of p] none [of p] show ?thesis by (simp add: begin_ready)
  next
    case False
    with Cons.prems that [of "end_initialize (begin_initialize p)"] none [of "end_initialize (begin_initialize p)"]
    show ?thesis by (simp add: begin_without_slots)
  qed
  have "\<forall>u\<in>set us. (ph(t := Creating)) u = Outside" using Cons.prems(5,6) by auto
  then obtain p' ph' where
    p': "pool_reachable p0 (p', ph')" "slots p' = []" "\<forall>u\<in>set us. ph' u = Creating"
      "\<forall>u. u \<notin> set us \<longrightarrow> ph' u = (ph(t := Creating)) u"
    using Cons.IH [OF more_steps [OF Cons.prems(1) q(1)] q(2)] q(3) Cons.prems(3,4,6) by (auto simp del: fun_upd_apply)
  moreover have "ph' t = Creating" using p'(4) Cons.prems(6) by simp
  ultimately show ?case by (intro exI [of _ p'] exI [of _ ph']) auto
qed auto

lemma all_create:
  assumes "pool_reachable p0 (p, ph)" and "\<forall>t\<in>set us. ph t = Creating" and "distinct us"
  shows "\<exists>p' ph'. pool_reachable p0 (p', ph') \<and> length (slots p') = length (slots p) + length us
    \<and> (\<forall>t\<in>set us. \<exists>i. ph' t = Syncing i) \<and> (\<forall>t. t \<notin> set us \<longrightarrow> ph' t = ph t)"
  using assms
proof (induction us arbitrary: p ph)
  case (Cons t us)
  let ?x = "Syncing (length (slots p))"
  have "pool_reachable p0 (mark_in_use (length (slots p)) True (add_slot new_connection p), ph(t := ?x))"
    by (rule more_steps [OF Cons.prems(1)], rule created) (use Cons.prems in simp)
  moreover have "\<forall>u\<in>set us. (ph(t := ?x)) u = Creating" using Cons.prems(2,3) by auto
  ultimately obtain p' ph' where
    p': "pool_reachable p0 (p', ph')" "length (slots p') = Suc (length (slots p)) + length us"
      "\<forall>u\<in>set us. \<exists>i. ph' u = Syncing i" "\<forall>u. u \<notin> set us \<longrightarrow> ph' u = (ph(t := ?x)) u"
    using Cons.IH [of _ "ph(t := ?x)"] Cons.prems(3) by (force simp del: fun_upd_apply)
  moreover have "ph' t = ?x" using p'(4) Cons.prems(3) by simp
  ultimately show ?case by (intro exI [of _ p'] exI [of _ ph']) auto
qed auto

lemma new_pool_empty:
  assumes "ConnectionPool config_data credentials_data config = Inr p"
  shows "slots p = []" and "\<not> initialized p"
proof -
  obtain c where "p = \<lparr>pool_config = c, pool_conninfo = buildConnectionString c, initialized = False,
                 statement_log = empty_log, slots = [], pool_blocks = {}\<rparr>"
    using assms unfolding ConnectionPool_def by (auto simp only: rbind_eq_Inr sum.inject)
  then show "slots p = []" and "\<not> initialized p" by simp_all
qed

text \<open>
  C39: the maximal size of a pool is not a bound.  Take any new pool whose configuration has sensible
  bounds, and any number of coroutines.  If they call \<open>acquire\<close> together, each finds the pool not yet
  initialised and creates all \<open>pool_min\<close> slots, or, when there are none to create, each finds no slot and
  room for one, because the check comes before the suspension in \<open>createSlot\<close>.  Every coroutine ends up
  with a slot of its own, and the pool with \<open>pool_min\<close> slots for each of them, or one, whatever \<open>pool_max\<close> is.
\<close>

theorem pool_max_exceeded:
  assumes "ConnectionPool config_data credentials_data config = Inr p0" and "pool_bounds_ok (pool_config p0)"
    and "distinct ts"
  shows "\<exists>p ph. pool_reachable p0 (p, ph)
    \<and> length (slots p) = length ts * nat (max 1 (pool_min (pool_config p0)))
    \<and> (\<forall>t\<in>set ts. \<exists>i. ph t = Syncing i) \<and> (\<forall>t. t \<notin> set ts \<longrightarrow> ph t = Outside)"
proof -
  have new: "slots p0 = []" "\<not> initialized p0" using new_pool_empty [OF assms(1)] .
  have bounds: "0 \<le> pool_min (pool_config p0)" "0 < pool_max (pool_config p0)" using assms(2) by (simp_all add: pool_bounds_ok_def)
  have start: "pool_reachable p0 (p0, \<lambda>t. Outside)" by (rule start) (simp add: pool_start_def new)
  show ?thesis
  proof (cases "pool_min (pool_config p0) = 0")
    case True
    then have "pool_min (pool_config p0) \<le> 0" by simp
    from all_start_creating [OF start new(1) this bounds(2) ballI assms(3)] obtain p ph where
      p: "pool_reachable p0 (p, ph)" "slots p = []" "\<forall>t\<in>set ts. ph t = Creating" "\<forall>t. t \<notin> set ts \<longrightarrow> ph t = Outside" by blast
    from all_create [OF p(1,3) assms(3)] obtain p' ph' where
      p': "pool_reachable p0 (p', ph')" "length (slots p') = length (slots p) + length ts"
      "\<forall>t\<in>set ts. \<exists>i. ph' t = Syncing i" "\<forall>t. t \<notin> set ts \<longrightarrow> ph' t = ph t" by blast
    from True have "nat (max 1 (pool_min (pool_config p0))) = 1" by (simp only: max_def) simp
    with p' p(2,4) show ?thesis by (intro exI [of _ p'] exI [of _ ph']) simp
  next
    case False
    then have min: "0 < pool_min (pool_config p0)" using bounds(1) by simp
    then obtain k where k: "nat (pool_min (pool_config p0)) = Suc k" by (metis Suc_pred zero_less_nat_eq)
    have "max 1 (pool_min (pool_config p0)) = pool_min (pool_config p0)" using min by (simp only: max_def) simp
    then have "nat (max 1 (pool_min (pool_config p0))) = Suc k" using k by (simp only:)
    moreover from all_begin [OF start new(2) min ballI assms(3), unfolded k new(1)] obtain p ph where
      p: "pool_reachable p0 (p, ph)" "slots p = []" "\<forall>t\<in>set ts. ph t = Initializing (Suc k)" "\<forall>t. t \<notin> set ts \<longrightarrow> ph t = Outside" by blast
    from all_initialize [OF p(1,3) assms(3)] obtain p' ph' where
      "pool_reachable p0 (p', ph')" "length (slots p') = length (slots p) + length ts * Suc k"
      "\<forall>t\<in>set ts. \<exists>i. ph' t = Syncing i" "\<forall>t. t \<notin> set ts \<longrightarrow> ph' t = ph t" by blast
    ultimately show ?thesis using p(2,4) by (intro exI [of _ p'] exI [of _ ph']) simp
  qed
qed

text \<open>Two coroutines and a pool of at most one connection.\<close>

theorem pool_max_exceeded_witness:
  "\<exists>p0 p ph. ConnectionPool JNull JNull (Some sample_pool_config) = Inr p0 \<and> pool_max (pool_config p0) = 1
    \<and> pool_reachable p0 (p, ph) \<and> length (slots p) = 2 \<and> (\<forall>t::bool. \<exists>i. ph t = Syncing i)"
proof -
  obtain p0 where p0: "ConnectionPool JNull JNull (Some sample_pool_config) = Inr p0" "pool_config p0 = sample_pool_config"
    by (simp add: ConnectionPool_def)
  have "pool_bounds_ok (pool_config p0)" by (simp add: p0(2) pool_bounds_ok_def sample_pool_config_def)
  from pool_max_exceeded [OF p0(1) this, of "[True, False]"] obtain p ph where
    "pool_reachable p0 (p, ph)" "length (slots p) = 2" "\<forall>t\<in>set [True, False]. \<exists>i. ph t = Syncing i"
    by (auto simp: p0(2) sample_pool_config_def)
  with p0 show ?thesis by (intro exI [of _ p0] exI [of _ p] exI [of _ ph]) (auto simp: sample_pool_config_def all_bool_eq)
qed

end
