(* ===== verification/Table_Submissions.thy ===== *)
theory Table_Submissions
  imports Pool
begin

text \<open>
  The table of submissions: \<open>modules/database/src/{table_submissions,table_execute_options}.cpp\<close>.

  Every operation takes the executor it runs on and the two configuration documents its options are
  completed from (the overloads without options pass empty ones and the default executor).  A time
  point is its nanoseconds.  \<open>read_time\<close> is \<open>std::get_time\<close> with the table's format followed by
  \<open>std::mktime\<close>, in seconds, and \<open>now\<close> the clock.
\<close>

section \<open>Rows\<close>

record SubmissionRow =
  row_id :: string
  row_username :: string
  row_problem_id :: string
  row_language :: string
  row_verdict_type :: string
  row_score :: rat
  row_send_time :: int

definition to_time_t :: "int \<Rightarrow> int" where
  "to_time_t n = (if n \<ge> 0 then n div 1000000000 else - ((- n) div 1000000000))"

definition parseTimestamp :: "(string \<Rightarrow> int option) \<Rightarrow> int \<Rightarrow> string \<Rightarrow> int" where
  "parseTimestamp read_time now v = (case read_time v of None \<Rightarrow> now | Some t \<Rightarrow> t * 1000000000)"

definition read_row ::
    "(string \<Rightarrow> int option) \<Rightarrow> int \<Rightarrow> QueryResult \<Rightarrow> string option list \<Rightarrow> SubmissionRow result" where
  "read_row read_time now r row =
     rbind (rbind (field_named r row ''id'') as_string) (\<lambda>i.
     rbind (rbind (field_named r row ''username'') as_string) (\<lambda>u.
     rbind (rbind (field_named r row ''problem_id'') as_string) (\<lambda>p.
     rbind (rbind (field_named r row ''language'') as_string) (\<lambda>l.
     rbind (rbind (field_named r row ''verdict_type'') as_string) (\<lambda>v.
     rbind (rbind (field_named r row ''score'') as_double) (\<lambda>s.
     rbind (rbind (field_named r row ''send_time'') as_string) (\<lambda>t.
       Inr \<lparr>row_id = i, row_username = u, row_problem_id = p, row_language = l, row_verdict_type = v,
            row_score = s, row_send_time = parseTimestamp read_time now t\<rparr>)))))))"

fun read_rows ::
    "(string \<Rightarrow> int option) \<Rightarrow> int \<Rightarrow> QueryResult \<Rightarrow> string option list list \<Rightarrow> SubmissionRow list result" where
  "read_rows read_time now r [] = Inr []"
| "read_rows read_time now r (row # rs) =
     rbind (read_row read_time now r row) (\<lambda>x. rbind (read_rows read_time now r rs) (\<lambda>xs. Inr (x # xs)))"

section \<open>The statements of the table\<close>

definition STATEMENTS_BLOCK_NAME :: string where
  "STATEMENTS_BLOCK_NAME = ''table_submissions__initialize''"

definition create_sql :: string where
  "create_sql =
     ''CREATE TABLE IF NOT EXISTS submissions (id TEXT PRIMARY KEY,username TEXT,problem_id TEXT,language TEXT,'' @
     ''verdict_type TEXT,score REAL,send_time TIMESTAMP WITHOUT TIME ZONE DEFAULT CURRENT_TIMESTAMP);''"

definition stmt :: "string \<Rightarrow> string \<Rightarrow> Statement" where
  "stmt n q = \<lparr>stmt_name = n, stmt_sql = q\<rparr>"

definition submissions_block :: StatementsBlock where
  "submissions_block = foldl addStatement (make_block STATEMENTS_BLOCK_NAME)
     [stmt ''submissions__select_whose'' ''SELECT username FROM submissions WHERE id = $1'',
      stmt ''submissions__select_problem'' ''SELECT problem_id FROM submissions WHERE id = $1'',
      stmt ''submissions__select_language'' ''SELECT language FROM submissions WHERE id = $1'',
      stmt ''submissions__select_verdict_type'' ''SELECT verdict_type FROM submissions WHERE id = $1'',
      stmt ''submissions__select_score'' ''SELECT score FROM submissions WHERE id = $1'',
      stmt ''submissions__select_by_user_problem''
        (''SELECT id, username, problem_id, language, verdict_type, score, send_time '' @
         ''FROM submissions WHERE username = $1 AND problem_id = $2 ORDER BY send_time DESC''),
      stmt ''submissions__insert''
        (''INSERT INTO submissions (id, username, problem_id, language, verdict_type, score, send_time) '' @
         ''VALUES ($1, $2, $3, $4, $5, $6, to_timestamp($7))''),
      stmt ''submissions__update_verdict_type'' ''UPDATE submissions SET verdict_type = $2 WHERE id = $1'',
      stmt ''submissions__update_score'' ''UPDATE submissions SET score = $2 WHERE id = $1'',
      stmt ''submissions__update_verdict_and_score''
        ''UPDATE submissions SET verdict_type = $2, score = $3 WHERE id = $1'']"

section \<open>Initialisation\<close>

definition table_initialize :: "'w executor \<Rightarrow> json \<Rightarrow> json \<Rightarrow> ExecuteOptions \<Rightarrow> ('w, bool) io" where
  "table_initialize ex config cred options =
     io_bind (io_lift (fillWithDefaults config cred options)) (\<lambda>o'.
     io_bind (io_get (isPrepared ex STATEMENTS_BLOCK_NAME)) (\<lambda>prepared.
       if prepared then io_return True
       else io_catch
         (io_bind (executeSQL ex o' create_sql []) (\<lambda>_.
          io_bind (prepareStatements ex submissions_block) (\<lambda>_. io_return True))) False))"

definition requireInitialized :: "'w executor \<Rightarrow> json \<Rightarrow> json \<Rightarrow> ExecuteOptions \<Rightarrow> ('w, bool) io" where
  "requireInitialized ex config cred options =
     io_bind (io_lift (fillWithDefaults config cred options)) (\<lambda>o'.
     io_bind (io_get (isPrepared ex STATEMENTS_BLOCK_NAME)) (\<lambda>prepared.
       if \<not> prepared then table_initialize ex config cred o' else io_return True))"

text \<open>The frame every operation has: complete the options, initialise, and run the body in a \<open>try\<close>.\<close>

definition table_op ::
    "'w executor \<Rightarrow> json \<Rightarrow> json \<Rightarrow> ExecuteOptions \<Rightarrow> 'a \<Rightarrow> (ExecuteOptions \<Rightarrow> ('w, 'a) io) \<Rightarrow> ('w, 'a) io" where
  "table_op ex config cred options failed body =
     io_bind (io_lift (fillWithDefaults config cred options)) (\<lambda>o'.
     io_bind (requireInitialized ex config cred o') (\<lambda>ok.
       if \<not> ok then io_return failed else io_catch (body o') failed))"

section \<open>Operations\<close>

definition addSubmission :: "'w executor \<Rightarrow> json \<Rightarrow> json \<Rightarrow> ExecuteOptions \<Rightarrow> SubmissionRow \<Rightarrow> ('w, bool) io" where
  "addSubmission ex config cred options row =
     table_op ex config cred options False (\<lambda>o'.
       io_bind (execute ex o' ''submissions__insert''
         [QString (row_id row), QString (row_username row), QString (row_problem_id row), QString (row_language row),
          QString (row_verdict_type row), QDouble (row_score row), QInt64 (to_time_t (row_send_time row))]) (\<lambda>_.
         io_return True))"

definition loadSubmissionsByUserAndProblem ::
    "(string \<Rightarrow> int option) \<Rightarrow> int \<Rightarrow> 'w executor \<Rightarrow> json \<Rightarrow> json \<Rightarrow> ExecuteOptions \<Rightarrow> string \<Rightarrow> string
     \<Rightarrow> ('w, SubmissionRow list option) io" where
  "loadSubmissionsByUserAndProblem read_time now ex config cred options user problem =
     table_op ex config cred options None (\<lambda>o'.
       io_bind (execute ex (o'\<lparr>read_only := Some True\<rparr>) ''submissions__select_by_user_problem''
         [QString user, QString problem]) (\<lambda>r.
         io_lift (rbind (read_rows read_time now r (rows r)) (\<lambda>xs. Inr (Some xs)))))"

definition updateSubmissionVerdict ::
    "'w executor \<Rightarrow> json \<Rightarrow> json \<Rightarrow> ExecuteOptions \<Rightarrow> string \<Rightarrow> string \<Rightarrow> rat \<Rightarrow> ('w, bool) io" where
  "updateSubmissionVerdict ex config cred options submission_id verdict_type score =
     table_op ex config cred options False (\<lambda>o'.
       io_bind (execute ex o' ''submissions__update_verdict_and_score''
         [QString submission_id, QString verdict_type, QDouble score]) (\<lambda>_. io_return True))"

text \<open>The readers of one column share the treatment of the result.\<close>

definition read_column ::
    "(string option \<Rightarrow> 'a result) \<Rightarrow> string \<Rightarrow> 'w executor \<Rightarrow> json \<Rightarrow> json \<Rightarrow> ExecuteOptions \<Rightarrow> string
     \<Rightarrow> ('w, 'a option) io" where
  "read_column as_type statement ex config cred options submission_id =
     table_op ex config cred options None (\<lambda>o'.
       io_bind (execute ex (o'\<lparr>read_only := Some True\<rparr>) statement [QString submission_id]) (\<lambda>r.
         case firstRow r of
           None \<Rightarrow> io_return None
         | Some row \<Rightarrow> io_lift (rbind (as_type (field_at row 0)) (\<lambda>v. Inr (Some v)))))"

definition whoseSubmission :: "'w executor \<Rightarrow> json \<Rightarrow> json \<Rightarrow> ExecuteOptions \<Rightarrow> string \<Rightarrow> ('w, string option) io" where
  "whoseSubmission = read_column as_string ''submissions__select_whose''"

definition problemOfSubmission :: "'w executor \<Rightarrow> json \<Rightarrow> json \<Rightarrow> ExecuteOptions \<Rightarrow> string \<Rightarrow> ('w, string option) io" where
  "problemOfSubmission = read_column as_string ''submissions__select_problem''"

definition languageOfSubmission :: "'w executor \<Rightarrow> json \<Rightarrow> json \<Rightarrow> ExecuteOptions \<Rightarrow> string \<Rightarrow> ('w, string option) io" where
  "languageOfSubmission = read_column as_string ''submissions__select_language''"

definition verdictTypeOfSubmission ::
    "'w executor \<Rightarrow> json \<Rightarrow> json \<Rightarrow> ExecuteOptions \<Rightarrow> string \<Rightarrow> ('w, string option) io" where
  "verdictTypeOfSubmission = read_column as_string ''submissions__select_verdict_type''"

definition scoreOfSubmission :: "'w executor \<Rightarrow> json \<Rightarrow> json \<Rightarrow> ExecuteOptions \<Rightarrow> string \<Rightarrow> ('w, rat option) io" where
  "scoreOfSubmission = read_column as_double ''submissions__select_score''"

definition setVerdictType ::
    "'w executor \<Rightarrow> json \<Rightarrow> json \<Rightarrow> ExecuteOptions \<Rightarrow> string \<Rightarrow> string \<Rightarrow> ('w, bool) io" where
  "setVerdictType ex config cred options submission_id verdict_type =
     table_op ex config cred options False (\<lambda>o'.
       io_bind (execute ex o' ''submissions__update_verdict_type'' [QString submission_id, QString verdict_type])
         (\<lambda>_. io_return True))"

definition setScore :: "'w executor \<Rightarrow> json \<Rightarrow> json \<Rightarrow> ExecuteOptions \<Rightarrow> string \<Rightarrow> rat \<Rightarrow> ('w, bool) io" where
  "setScore ex config cred options submission_id score =
     table_op ex config cred options False (\<lambda>o'.
       io_bind (execute ex o' ''submissions__update_score'' [QString submission_id, QDouble score])
         (\<lambda>_. io_return True))"

section \<open>Initialising once\<close>

lemma fillOptions_idem: "fillOptions (fillOptions o1 d) d = fillOptions o1 d"
  by (simp add: fillOptions_def or_else_def split: option.splits)

lemma fillWithDefaults_idem:
  "fillWithDefaults config cred o1 = Inr o2 \<Longrightarrow> fillWithDefaults config cred o2 = Inr o2"
  by (auto simp: fillWithDefaults_def rbind_eq_Inr fillOptions_idem)

lemma block_name_submissions [simp]: "block_name submissions_block = STATEMENTS_BLOCK_NAME"
  by (simp add: submissions_block_def addStatement_def make_block_def)

lemma requireInitialized_prepared:
  assumes "fillWithDefaults config cred options = Inr o'" and "isPrepared ex STATEMENTS_BLOCK_NAME w"
  shows "requireInitialized ex config cred options w = (Inr True, w)"
  using assms by (simp add: requireInitialized_def io_simps)

lemma table_op_prepared:
  assumes "fillWithDefaults config cred options = Inr o'" and "isPrepared ex STATEMENTS_BLOCK_NAME w"
  shows "table_op ex config cred options failed body w = io_catch (body o') failed w"
  using assms(1) requireInitialized_prepared [OF fillWithDefaults_idem [OF assms(1)] assms(2)]
  by (simp add: table_op_def io_simps)

context executor_contract
begin

lemma initialize_prepares:
  assumes "ready w" and "fillWithDefaults config cred options = Inr o'"
    and "requireInitialized ex config cred options w = (Inr b, w')"
  shows "ready w' \<and> (b \<longrightarrow> isPrepared ex STATEMENTS_BLOCK_NAME w')
    \<and> (\<not> isPrepared ex STATEMENTS_BLOCK_NAME w \<longrightarrow>
        b = (\<exists>q v. executeSQL ex o' create_sql [] w = (Inr q, v)))"
proof (cases "isPrepared ex STATEMENTS_BLOCK_NAME w")
  case True
  with requireInitialized_prepared [OF assms(2) True] assms(1,3) show ?thesis by auto
next
  case False
  obtain q v where q: "executeSQL ex o' create_sql [] w = (q, v)" by (cases "executeSQL ex o' create_sql [] w")
  from query_ready [OF assms(1) q] False have v: "ready v" "\<not> isPrepared ex STATEMENTS_BLOCK_NAME v" by auto
  obtain r u where r: "prepareStatements ex submissions_block v = (r, u)" by (cases "prepareStatements ex submissions_block v")
  from prepare_ready [OF v(1) r] v(2) have u: "ready u" "r = Inr ()" "isPrepared ex STATEMENTS_BLOCK_NAME u" by auto
  from assms(3) False fillWithDefaults_idem [OF assms(2)]
  have "io_catch (io_bind (executeSQL ex o' create_sql []) (\<lambda>_.
          io_bind (prepareStatements ex submissions_block) (\<lambda>_. io_return True))) False w = (Inr b, w')"
    by (simp add: requireInitialized_def table_initialize_def io_simps assms(2))
  with q r u v(1) False show ?thesis
    by (cases q) (auto simp: io_catch_def io_bind_def io_return_def split: if_splits)
qed

lemma initialized_stays:
  assumes "ready w" and "isPrepared ex STATEMENTS_BLOCK_NAME w" and "execute ex opts s ps w = (r, w')"
  shows "ready w' \<and> isPrepared ex STATEMENTS_BLOCK_NAME w'"
  using execute_ready [OF assms(1,3)] assms(2) by simp

end

text \<open>A pool with one idle connection and an empty log, and the world of the sample server.\<close>

definition table_pool :: pool where
  "table_pool = sample_pool\<lparr>statement_log := empty_log, pool_blocks := {}\<rparr>"

abbreviation table_state :: "pool \<times> sample_world" where
  "table_state \<equiv> (table_pool, (Map.empty, None))"

lemma table_pool_facts:
  "blocks_agree table_pool" "\<not> pool_isPrepared STATEMENTS_BLOCK_NAME table_pool"
  using empty_log_ok by (simp_all add: table_pool_def blocks_agree_def pool_isPrepared_def empty_log_def)

lemma table_create:
  "pool_executeSQL sample_pg sample_db_config sample_db_credentials
     \<lparr>read_only = Some False, timeout_sec = Some 0, retries = Some 0\<rparr> q [] table_state
   = (Inr empty_result, table_state)"
proof -
  have first: "first_index (\<lambda>s. \<not> in_use s) (slots table_pool) = Some 0" "initialized table_pool"
    by (simp_all add: table_pool_def sample_pool_simps)
  have acq: "acquire sample_pg table_state =
      (Inr 0, table_pool\<lparr>slots := [\<lparr>slot_connection = slot_connection sample_slot, in_use = True\<rparr>]\<rparr>, Map.empty, None)"
    unfolding acquire_first_free [OF first(2,1)]
    by (simp add: table_pool_def sample_pool_def empty_log_def syncStatements_def)
  have cmd: "run_command sample_pg (Some 0) (SendQueryParams q ps) (Map.empty, None) = (Inr empty_result, (Map.empty, None))" for ps
    by (simp add: run_command_def consumeResults_def sample_pg_def sample_send_def)
  have "lease_executeSQL sample_pg sample_db_config sample_db_credentials 0
      \<lparr>read_only = Some False, timeout_sec = Some 0, retries = Some 0\<rparr> q []
      (table_pool\<lparr>slots := [\<lparr>slot_connection = slot_connection sample_slot, in_use = True\<rparr>]\<rparr>, Map.empty, None)
    = (Inr empty_result, (table_pool\<lparr>slots := [\<lparr>slot_connection = slot_connection sample_slot, in_use = True\<rparr>]\<rparr>, Map.empty, None))"
    by (simp add: lease_executeSQL_def on_connection_def connectionAt_def connection_executeSQL_def run_checked_def
        fillWithDefaults_idem [OF sample_options] io_bind_basics executeRawSQL_def sample_slot_def cmd)
  moreover have "table_pool\<lparr>slots := [\<lparr>slot_connection = slot_connection sample_slot, in_use = False\<rparr>]\<rparr> = table_pool"
    by (simp add: table_pool_def sample_pool_def sample_slot_def)
  ultimately show ?thesis
    unfolding pool_executeSQL_def with_lease_def io_bind_def acq
    by (simp add: releaseSlot_def mark_in_use_def)
qed

text \<open>
  the table is initialised once.  On the pool, when an operation's initialisation succeeded, the
  block of statements is prepared, a further initialisation changes nothing and sends nothing, and an
  operation then is its body alone; and initialisation fails exactly when the table could not be
  created.
\<close>

theorem table_initialized_once:
  assumes "blocks_agree (fst s)" and "fillWithDefaults config cred options = Inr o'"
    and "requireInitialized (pool_executor pg config cred) config cred options s = (Inr b, s')"
    and "\<not> pool_isPrepared STATEMENTS_BLOCK_NAME (fst s)"
  shows "b = (\<exists>q v. pool_executeSQL pg config cred o' create_sql [] s = (Inr q, v))
    \<and> (if b then pool_isPrepared STATEMENTS_BLOCK_NAME (fst s')
          \<and> requireInitialized (pool_executor pg config cred) config cred options s' = (Inr True, s')
          \<and> addSubmission (pool_executor pg config cred) config cred options row s' =
              io_catch (io_bind (pool_execute pg config cred o' ''submissions__insert''
                [QString (row_id row), QString (row_username row), QString (row_problem_id row), QString (row_language row),
                 QString (row_verdict_type row), QDouble (row_score row), QInt64 (to_time_t (row_send_time row))])
                (\<lambda>_. io_return True)) False s'
       else True)"
  using pool_ex.initialize_prepares [OF assms(1-3)] assms(2,4)
  by (auto simp: requireInitialized_prepared addSubmission_def table_op_prepared)

theorem table_initialized_once_witness:
  "\<exists>s'. requireInitialized (pool_executor sample_pg sample_db_config sample_db_credentials)
      sample_db_config sample_db_credentials no_options table_state = (Inr True, s')
    \<and> pool_isPrepared STATEMENTS_BLOCK_NAME (fst s')
    \<and> requireInitialized (pool_executor sample_pg sample_db_config sample_db_credentials)
      sample_db_config sample_db_credentials no_options s' = (Inr True, s')"
proof -
  let ?ex = "pool_executor sample_pg sample_db_config sample_db_credentials"
  obtain s' where prep: "pool_prepareStatements submissions_block table_state = (Inr (), s')"
    unfolding pool_prepare_cases [OF table_pool_facts(1)] by (simp add: table_pool_def)
  have r: "requireInitialized ?ex sample_db_config sample_db_credentials no_options table_state = (Inr True, s')"
    using table_pool_facts(2)
    by (simp add: requireInitialized_def table_initialize_def io_bind_basics sample_options fillWithDefaults_idem [OF sample_options]
        io_catch_def io_bind_def table_create prep io_basics)
  from table_initialized_once [OF _ sample_options r] table_pool_facts r show ?thesis by auto
qed

text \<open>
  An executor on which, while a statement without a name waits for the server, another coroutine runs
  its own initialisation to the end.
\<close>

definition interrupted :: "'w executor \<Rightarrow> 'w executor" where
  "interrupted ex = ex\<lparr>executeSQL := (\<lambda>o' q ps.
     io_bind (executeSQL ex o' q ps) (\<lambda>r. io_bind (prepareStatements ex submissions_block) (\<lambda>_. io_return r)))\<rparr>"

context executor_contract
begin

lemma initialize_interrupted:
  assumes "ready w" and "\<not> isPrepared ex STATEMENTS_BLOCK_NAME w" and "fillWithDefaults config cred options = Inr o'"
    and "executeSQL ex o' create_sql [] w = (Inr q, w1)"
    and "\<And>v u e. prepareStatements ex submissions_block v = (Inl e, u) \<Longrightarrow> catchable e"
  shows "\<exists>w'. requireInitialized (interrupted ex) config cred options w = (Inr False, w')
    \<and> isPrepared ex STATEMENTS_BLOCK_NAME w'"
proof -
  from query_ready [OF assms(1,4)] assms(2) have 1: "ready w1" "\<not> isPrepared ex STATEMENTS_BLOCK_NAME w1" by auto
  obtain r w2 where p1: "prepareStatements ex submissions_block w1 = (r, w2)"
    by (cases "prepareStatements ex submissions_block w1")
  from prepare_ready [OF 1(1) p1] 1(2) have 2: "ready w2" "r = Inr ()" "isPrepared ex STATEMENTS_BLOCK_NAME w2" by auto
  obtain r' w3 where p2: "prepareStatements ex submissions_block w2 = (r', w3)"
    by (cases "prepareStatements ex submissions_block w2")
  from prepare_ready [OF 2(1) p2] 2(3) have 3: "is_ok r' = False" "isPrepared ex STATEMENTS_BLOCK_NAME w3" by auto
  then obtain e where e: "r' = Inl e" by (cases r') auto
  have "catchable e" using assms(5) p2 e by blast
  then show ?thesis
    using assms(2,4) p1 p2 2(2) 3(2) e fillWithDefaults_idem [OF assms(3)]
    by (simp add: requireInitialized_def table_initialize_def interrupted_def io_simps assms(3))
qed

end

text \<open>
  two coroutines that initialise the table at the same time disturb each other.  The first checks
  that the statements are not prepared and waits for \<open>CREATE TABLE\<close>; when the second has prepared them
  meanwhile, the first's preparation throws \<open>already prepared\<close>, its initialisation counts as failed, and
  its submission is not inserted although the table is ready: \<open>addSubmission\<close> returns false without
  having run the insertion.
\<close>

theorem initialize_race_loses_submission:
  assumes "blocks_agree (fst s)" and "\<not> pool_isPrepared STATEMENTS_BLOCK_NAME (fst s)"
    and "fillWithDefaults config cred options = Inr o'"
    and "pool_executeSQL pg config cred o' create_sql [] s = (Inr q, s1)"
  shows "\<exists>s'. addSubmission (interrupted (pool_executor pg config cred)) config cred options row s = (Inr False, s')
    \<and> requireInitialized (interrupted (pool_executor pg config cred)) config cred o' s = (Inr False, s')
    \<and> pool_isPrepared STATEMENTS_BLOCK_NAME (fst s')"
proof -
  have c: "catchable e" if "prepareStatements (pool_executor pg config cred) submissions_block v = (Inl e, u)" for v u e
    using that by (cases v) (auto simp: pool_prepareStatements_def appendPrepare_def Let_def split: if_splits)
  have "\<exists>s'. requireInitialized (interrupted (pool_executor pg config cred)) config cred o' s = (Inr False, s')
      \<and> isPrepared (pool_executor pg config cred) STATEMENTS_BLOCK_NAME s'"
    by (rule pool_ex.initialize_interrupted [OF _ _ fillWithDefaults_idem [OF assms(3)]])
      (use assms c in auto)
  then obtain s' where s': "requireInitialized (interrupted (pool_executor pg config cred)) config cred o' s = (Inr False, s')"
      "pool_isPrepared STATEMENTS_BLOCK_NAME (fst s')" by auto
  moreover have "addSubmission (interrupted (pool_executor pg config cred)) config cred options row s = (Inr False, s')"
    unfolding addSubmission_def table_op_def assms(3) io_bind_basics
    by (simp add: io_bind_def s'(1) io_return_def)
  ultimately show ?thesis by blast
qed

theorem initialize_race_loses_submission_witness:
  "\<exists>s'. addSubmission (interrupted (pool_executor sample_pg sample_db_config sample_db_credentials))
        sample_db_config sample_db_credentials no_options
        \<lparr>row_id = ''1'', row_username = ''u'', row_problem_id = ''p'', row_language = ''cpp'', row_verdict_type = [],
         row_score = 0, row_send_time = 0\<rparr> table_state = (Inr False, s')
      \<and> requireInitialized (interrupted (pool_executor sample_pg sample_db_config sample_db_credentials))
        sample_db_config sample_db_credentials \<lparr>read_only = Some False, timeout_sec = Some 0, retries = Some 0\<rparr>
        table_state = (Inr False, s')
      \<and> pool_isPrepared STATEMENTS_BLOCK_NAME (fst s')"
  by (rule initialize_race_loses_submission [OF _ _ sample_options table_create]) (simp_all add: table_pool_facts)

section \<open>Reading rows\<close>

lemma field_named_catchable: "field_named r row n = Inl e \<Longrightarrow> catchable e"
  by (auto simp: field_named_def split: option.splits)

lemma stod_catchable: "stod t = Inl e \<Longrightarrow> catchable e"
  by (auto simp: stod_def Let_def split: if_splits prod.splits option.splits)

lemma as_string_catchable: "as_string f = Inl e \<Longrightarrow> catchable e"
  by (auto simp: as_string_def split: option.splits)

lemma as_double_catchable: "as_double f = Inl e \<Longrightarrow> catchable e"
  by (auto simp: as_double_def rbind_eq_Inl dest: as_string_catchable stod_catchable)

lemma read_row_catchable: "read_row read_time now r row = Inl e \<Longrightarrow> catchable e"
  by (auto simp: read_row_def rbind_eq_Inl dest: field_named_catchable as_string_catchable as_double_catchable)

lemma read_rows_outcome:
  "read_rows read_time now r rs =
     (if \<forall>row \<in> set rs. is_ok (read_row read_time now r row)
      then Inr (map (\<lambda>row. case read_row read_time now r row of Inr x \<Rightarrow> x | Inl e \<Rightarrow> undefined) rs)
      else read_rows read_time now r rs)"
  by (induction rs) (auto simp: is_ok_iff)

lemma read_rows_fails:
  "\<not> (\<forall>row \<in> set rs. is_ok (read_row read_time now r row)) \<Longrightarrow>
     \<exists>e. read_rows read_time now r rs = Inl e \<and> catchable e"
proof (induction rs)
  case Nil
  then show ?case by simp
next
  case (Cons row rs)
  show ?case
  proof (cases "read_row read_time now r row")
    case (Inl e)
    then show ?thesis using read_row_catchable by auto
  next
    case (Inr x)
    with Cons obtain e where "read_rows read_time now r rs = Inl e" "catchable e" by auto
    with Inr show ?thesis by simp
  qed
qed

definition table_rows :: QueryResult where
  "table_rows =
     \<lparr>columns = [''id'', ''username'', ''problem_id'', ''language'', ''verdict_type'', ''score'', ''send_time''],
      rows = [[Some ''1'', Some ''u'', Some ''p'', Some ''cpp'', Some ''OK'', Some ''50'', Some ''t''],
              [Some ''2'', Some ''u'', Some ''p'', None, Some ''WA'', Some ''0'', Some ''t'']]\<rparr>"

definition table_executor :: "unit executor" where
  "table_executor =
     \<lparr>isPrepared = (\<lambda>n w. True),
      prepareStatements = (\<lambda>b w. (Inr (), w)),
      unprepareStatements = (\<lambda>n w. (Inr (), w)),
      execute = (\<lambda>o' n ps w. (Inr table_rows, w)),
      executeSQL = (\<lambda>o' q ps w. (Inr empty_result, w))\<rparr>"

text \<open>
  loading keeps the order of the result and is all or nothing.  On an initialised table the rows of
  the result are returned in their order when each of them can be read, and nothing is returned when
  a single field of one row is null, missing or not a number, or when the query failed.
\<close>

theorem load_all_or_nothing:
  assumes "fillWithDefaults config cred options = Inr o'" and "isPrepared ex STATEMENTS_BLOCK_NAME w"
    and "execute ex (o'\<lparr>read_only := Some True\<rparr>) ''submissions__select_by_user_problem'' [QString user, QString problem] w
         = (Inr r, w')"
  shows "loadSubmissionsByUserAndProblem read_time now ex config cred options user problem w =
    (Inr (if list_all (\<lambda>row. is_ok (read_row read_time now r row)) (rows r)
          then Some (map (\<lambda>row. case read_row read_time now r row of Inr x \<Rightarrow> x | Inl e \<Rightarrow> undefined) (rows r))
          else None), w')"
proof (cases "\<forall>row \<in> set (rows r). is_ok (read_row read_time now r row)")
  case True
  then have "read_rows read_time now r (rows r) =
      Inr (map (\<lambda>row. case read_row read_time now r row of Inr x \<Rightarrow> x | Inl e \<Rightarrow> undefined) (rows r))"
    using read_rows_outcome [of read_time now r "rows r"] by simp
  with True assms(3) show ?thesis
    by (simp add: loadSubmissionsByUserAndProblem_def table_op_prepared [OF assms(1,2)] io_catch_def io_bind_Inr
        io_basics list_all_iff)
next
  case False
  then obtain e where "read_rows read_time now r (rows r) = Inl e" "catchable e" using read_rows_fails by blast
  with False assms(3) show ?thesis
    by (simp add: loadSubmissionsByUserAndProblem_def table_op_prepared [OF assms(1,2)] io_catch_def io_bind_Inr
        io_basics list_all_iff)
qed

theorem load_all_or_nothing_witness:
  "loadSubmissionsByUserAndProblem (\<lambda>t. Some 5) 0 table_executor sample_db_config sample_db_credentials no_options ''u'' ''p'' ()
    = (Inr None, ())"
proof -
  have r: "execute table_executor (\<lparr>read_only = Some False, timeout_sec = Some 0, retries = Some 0\<rparr>\<lparr>read_only := Some True\<rparr>)
      ''submissions__select_by_user_problem'' [QString ''u'', QString ''p''] () = (Inr table_rows, ())"
    by (simp add: table_executor_def)
  have "isPrepared table_executor STATEMENTS_BLOCK_NAME ()" by (simp add: table_executor_def)
  from load_all_or_nothing [OF sample_options this r, of "\<lambda>t. Some 5" 0] show ?thesis
    by (simp add: table_rows_def read_row_def field_named_def field_at_def as_string_def is_ok_iff rbind_eq_Inr
        split: option.splits)
qed

text \<open>
  the readers of one column.  On an initialised table the first row's field is returned; no row, a
  null field and an error of the query all give nothing, and the readers do not throw.
\<close>

theorem column_readers_outcome:
  assumes "fillWithDefaults config cred options = Inr o'" and "isPrepared ex STATEMENTS_BLOCK_NAME w"
    and "execute ex (o'\<lparr>read_only := Some True\<rparr>) ''submissions__select_language'' [QString submission_id] w = (r, w')"
    and "r \<noteq> Inl UndefinedBehaviour" and "r \<noteq> Inl NeverResumes"
  shows "languageOfSubmission ex config cred options submission_id w =
    (Inr (case r of Inl e \<Rightarrow> None
          | Inr q \<Rightarrow> (case rows q of [] \<Rightarrow> None | row # more_rows \<Rightarrow> field_at row 0)), w')"
proof -
  have c: "catchable e" if "r = Inl e" for e using that assms(4,5) by (cases e) auto
  show ?thesis
  proof (cases r)
    case (Inl e)
    with c assms(3) show ?thesis
      by (simp add: languageOfSubmission_def read_column_def table_op_prepared [OF assms(1,2)] io_catch_def io_bind_def)
  next
    case (Inr q)
    with assms(3) show ?thesis
      by (auto simp: languageOfSubmission_def read_column_def table_op_prepared [OF assms(1,2)] io_catch_def io_bind_Inr
          io_basics firstRow_def as_string_def split: list.splits option.splits)
  qed
qed

theorem column_readers_outcome_witness:
  "languageOfSubmission table_executor sample_db_config sample_db_credentials no_options ''1'' () = (Inr (Some ''1''), ())"
proof -
  have "isPrepared table_executor STATEMENTS_BLOCK_NAME ()" by (simp add: table_executor_def)
  from column_readers_outcome [OF sample_options this, of "''1''"] show ?thesis
    by (simp add: table_executor_def table_rows_def field_at_def)
qed

text \<open>
  the operations do not throw.  Once the default options can be read from the configuration, an
  operation on the table answers false, or nothing, where its statement or the initialisation failed;
  what it does not answer is only a query that never comes back.  But completing the options stands
  outside the \<open>try\<close>: with an unreadable configuration the operation itself throws.
\<close>

theorem table_op_throws:
  "case fillWithDefaults config cred options of
     Inl e \<Rightarrow> addSubmission ex config cred options row w = (Inl e, w)
   | Inr o' \<Rightarrow> (case fst (addSubmission ex config cred options row w) of Inl e \<Rightarrow> \<not> catchable e | Inr b \<Rightarrow> True)"
proof (cases "fillWithDefaults config cred options")
  case (Inl e)
  then show ?thesis by (simp add: addSubmission_def table_op_def io_simps)
next
  case (Inr o2)
  have init: "\<not> catchable e" if "requireInitialized ex config cred o2 w = (Inl e, w')" for e w'
    using that fillWithDefaults_idem [OF Inr]
    by (auto simp: requireInitialized_def table_initialize_def io_simps io_catch_def split: if_splits prod.splits sum.splits)
  obtain q w1 where q: "requireInitialized ex config cred o2 w = (q, w1)" by (cases "requireInitialized ex config cred o2 w")
  show ?thesis
  proof (cases q)
    case (Inl e)
    with Inr q init show ?thesis by (simp add: addSubmission_def table_op_def io_bind_def io_lift_def)
  next
    case b: (Inr b)
    have "\<not> catchable e" if "fst (io_catch m False w1) = Inl e" for m e
      using that by (auto simp: io_catch_def split: prod.splits sum.splits if_splits)
    with Inr q b show ?thesis
      by (auto simp: addSubmission_def table_op_def io_bind_def io_lift_def io_return_def split: sum.splits)
  qed
qed

end
