(* ===== verification/Query_Binding.thy ===== *)
theory Query_Binding
  imports Awaitable_Bridge Table_Submissions Factory
begin

text \<open>
  The queries Python starts, of \<open>modules/database/python_binding/binding.cpp\<close>, and the default executor they fall back to, of
  \<open>modules/database/src/database_executor_interface.cpp\<close> and \<open>query.cpp\<close>.

  A call converts its arguments, makes a coroutine and hands it to the bridge; the coroutine does nothing before the bridge polls it.
  A coroutine is therefore a value here, the operation it will run and the arguments it holds, by value or, where the C++
  parameter is a reference, by address.  \<open>'x\<close> are the executors.
\<close>

section \<open>The default executor\<close>

record 'x executors =
  executor_types :: "(string \<Rightarrow> unit \<Rightarrow> 'x result) factory"
  types_registered :: bool
  kept_executor :: "'x option"

text \<open>\<open>make_pool\<close> is the constructor of \<open>ConnectionPool\<close>, which throws when the configuration has no database.\<close>

definition registerDatabaseExecutorTypes ::
    "'x result \<Rightarrow> (string \<Rightarrow> unit \<Rightarrow> 'x result) factory \<Rightarrow> (string \<Rightarrow> unit \<Rightarrow> 'x result) factory" where
  "registerDatabaseExecutorTypes make_pool registered = registerType registered ''connection_pool'' (\<lambda>params _. make_pool)"

definition ensureDatabaseExecutorTypesRegistered :: "'x result \<Rightarrow> 'x executors \<Rightarrow> 'x executors" where
  "ensureDatabaseExecutorTypesRegistered make_pool xs =
     (if types_registered xs then xs
      else xs\<lparr>executor_types := registerDatabaseExecutorTypes make_pool (executor_types xs), types_registered := True\<rparr>)"

definition createDatabaseExecutor :: "'x result \<Rightarrow> string \<Rightarrow> ('x executors, 'x) io" where
  "createDatabaseExecutor make_pool name xs =
     (let xs' = ensureDatabaseExecutorTypesRegistered make_pool xs
      in (create_parameterized (executor_types xs') name (), xs'))"

text \<open>A static is initialised by the first call that does not throw.\<close>

definition getDefaultExecutor :: "json \<Rightarrow> json \<Rightarrow> 'x result \<Rightarrow> ('x executors, 'x) io" where
  "getDefaultExecutor config cred make_pool xs =
     (case kept_executor xs of
        Some x \<Rightarrow> (Inr x, xs)
      | None \<Rightarrow>
          io_bind (io_lift (getDefaultExecutorName config cred)) (\<lambda>name.
          io_bind (createDatabaseExecutor make_pool name) (\<lambda>x.
          io_bind (io_do (\<lambda>ys. ys\<lparr>kept_executor := Some x\<rparr>)) (\<lambda>_. io_return x))) xs)"

lemma default_executor_kept:
  assumes "getDefaultExecutor config cred make_pool xs = (Inr x, xs')"
  shows "getDefaultExecutor config' cred' make_pool' xs' = (Inr x, xs')"
proof -
  have "kept_executor xs' = Some x"
    using assms by (auto simp: getDefaultExecutor_def io_bind_def io_do_def io_return_def split: option.splits prod.splits sum.splits)
  then show ?thesis by (simp add: getDefaultExecutor_def)
qed

section \<open>Coroutines\<close>

record 'x TableExecuteOptions =
  execute_options :: ExecuteOptions
  options_executor :: "'x option"

datatype 'x task =
    ExecuteTask 'x ExecuteOptions string "QueryParam list"
  | ExecuteSQLTask 'x ExecuteOptions string "QueryParam list"
  | QuoteTask 'x string
  | ConnectionTask 'x
  | PrepareTask 'x StatementsBlock
  | UnprepareTask 'x string
  | InitializeTask "'x TableExecuteOptions"
  | AddSubmissionTask "'x TableExecuteOptions" nat
  | LoadSubmissionsTask "'x TableExecuteOptions" string string
  | UpdateVerdictTask "'x TableExecuteOptions" string string rat
  | WhoseTask "'x TableExecuteOptions" string
  | ProblemTask "'x TableExecuteOptions" string
  | LanguageTask "'x TableExecuteOptions" string
  | VerdictTypeTask "'x TableExecuteOptions" string
  | ScoreTask "'x TableExecuteOptions" string
  | SetVerdictTypeTask "'x TableExecuteOptions" string string
  | SetScoreTask "'x TableExecuteOptions" string rat

text \<open>The functions of \<open>query.cpp\<close>, which run on the default executor.\<close>

definition query_execute ::
    "json \<Rightarrow> json \<Rightarrow> 'x result \<Rightarrow> ExecuteOptions \<Rightarrow> string \<Rightarrow> QueryParam list \<Rightarrow> ('x executors, 'x task) io" where
  "query_execute config cred make_pool options s params =
     io_bind (getDefaultExecutor config cred make_pool) (\<lambda>executor. io_return (ExecuteTask executor options s params))"

definition query_executeSQL ::
    "json \<Rightarrow> json \<Rightarrow> 'x result \<Rightarrow> ExecuteOptions \<Rightarrow> string \<Rightarrow> QueryParam list \<Rightarrow> ('x executors, 'x task) io" where
  "query_executeSQL config cred make_pool options sql params =
     io_bind (getDefaultExecutor config cred make_pool) (\<lambda>executor. io_return (ExecuteSQLTask executor options sql params))"

definition query_quote :: "json \<Rightarrow> json \<Rightarrow> 'x result \<Rightarrow> string \<Rightarrow> ('x executors, 'x task) io" where
  "query_quote config cred make_pool v =
     io_bind (getDefaultExecutor config cred make_pool) (\<lambda>executor. io_return (QuoteTask executor v))"

text \<open>
  The overloads that take the parameters one by one.  Those of \<open>query.inl\<close> without options complete them from the configuration;
  those of the executors pass none, which leaves them to the connection.
\<close>

definition query_execute_args ::
    "json \<Rightarrow> json \<Rightarrow> 'x result \<Rightarrow> string \<Rightarrow> QueryParam list \<Rightarrow> ('x executors, 'x task) io" where
  "query_execute_args config cred make_pool s args =
     io_bind (io_lift (getDefaultExecuteOptions config cred)) (\<lambda>options. query_execute config cred make_pool options s args)"

definition query_executeSQL_args ::
    "json \<Rightarrow> json \<Rightarrow> 'x result \<Rightarrow> string \<Rightarrow> QueryParam list \<Rightarrow> ('x executors, 'x task) io" where
  "query_executeSQL_args config cred make_pool sql args =
     io_bind (io_lift (getDefaultExecuteOptions config cred)) (\<lambda>options. query_executeSQL config cred make_pool options sql args)"

definition executor_execute_args :: "'x \<Rightarrow> string \<Rightarrow> QueryParam list \<Rightarrow> 'x task" where
  "executor_execute_args executor s args = ExecuteTask executor no_options s args"

definition executor_executeSQL_args :: "'x \<Rightarrow> string \<Rightarrow> QueryParam list \<Rightarrow> 'x task" where
  "executor_executeSQL_args executor sql args = ExecuteSQLTask executor no_options sql args"

lemma default_query_kept:
  assumes "query_execute_args config cred make_pool s args xs = (Inr t, xs')"
  shows "\<exists>options executor. getDefaultExecuteOptions config cred = Inr options \<and> t = ExecuteTask executor options s args
    \<and> getDefaultExecutor config' cred' make_pool' xs' = (Inr executor, xs')"
proof -
  obtain options where o: "getDefaultExecuteOptions config cred = Inr options" "query_execute config cred make_pool options s args xs = (Inr t, xs')"
    using assms by (auto simp: query_execute_args_def io_bind_def io_lift_def split: sum.splits)
  obtain executor ys where e: "getDefaultExecutor config cred make_pool xs = (Inr executor, ys)" "(Inr t, xs') = (Inr (ExecuteTask executor options s args), ys)"
    using o(2) unfolding query_execute_def by (auto elim!: io_bind_InrE simp: io_return_def)
  from default_executor_kept [OF e(1)] e(2) o(1) show ?thesis by auto
qed

section \<open>Arguments\<close>

datatype 'x pyobject = PyNone | PyBool bool | PyInt int | PyFloat rat | PyStr string | PyExecutor 'x | PyOther nat

text \<open>The conversions of pybind11, each of which may throw.\<close>

record 'x casts =
  cast_bool :: "'x pyobject \<Rightarrow> bool result"
  cast_int :: "'x pyobject \<Rightarrow> int result"
  cast_int64 :: "int \<Rightarrow> int result"

type_synonym 'x kwargs = "(string \<times> 'x pyobject) list"

fun queryParamFromPython :: "'x casts \<Rightarrow> 'x pyobject \<Rightarrow> QueryParam result" where
  "queryParamFromPython cs PyNone = Inr QNull"
| "queryParamFromPython cs (PyBool b) = Inr (QBool b)"
| "queryParamFromPython cs (PyInt i) = rbind (cast_int64 cs i) (\<lambda>n. Inr (QInt64 n))"
| "queryParamFromPython cs (PyFloat x) = Inr (QDouble x)"
| "queryParamFromPython cs (PyStr s) = Inr (QString s)"
| "queryParamFromPython cs _ = Inl (RuntimeError ''unsupported query parameter type'')"

fun paramsFromArgs :: "'x casts \<Rightarrow> 'x pyobject list \<Rightarrow> QueryParam list result" where
  "paramsFromArgs cs [] = Inr []"
| "paramsFromArgs cs (item # args) =
     rbind (queryParamFromPython cs item) (\<lambda>p. rbind (paramsFromArgs cs args) (\<lambda>ps. Inr (p # ps)))"

definition without :: "string \<Rightarrow> 'x kwargs \<Rightarrow> 'x kwargs" where
  "without key kw = filter (\<lambda>e. fst e \<noteq> key) kw"

definition popOptionalBool :: "'x casts \<Rightarrow> string \<Rightarrow> 'x kwargs \<Rightarrow> (bool option \<times> 'x kwargs) result" where
  "popOptionalBool cs key kw =
     (case map_of kw key of
        None \<Rightarrow> Inr (None, kw)
      | Some PyNone \<Rightarrow> Inr (None, without key kw)
      | Some v \<Rightarrow> rbind (cast_bool cs v) (\<lambda>b. Inr (Some b, without key kw)))"

definition popOptionalInt :: "'x casts \<Rightarrow> string \<Rightarrow> 'x kwargs \<Rightarrow> (int option \<times> 'x kwargs) result" where
  "popOptionalInt cs key kw =
     (case map_of kw key of
        None \<Rightarrow> Inr (None, kw)
      | Some PyNone \<Rightarrow> Inr (None, without key kw)
      | Some v \<Rightarrow> rbind (cast_int cs v) (\<lambda>n. Inr (Some n, without key kw)))"

definition popObject :: "string \<Rightarrow> 'x kwargs \<Rightarrow> 'x pyobject \<times> 'x kwargs" where
  "popObject key kw = (case map_of kw key of None \<Rightarrow> (PyNone, kw) | Some v \<Rightarrow> (v, without key kw))"

definition ensureNoExtraKwargs :: "'x kwargs \<Rightarrow> unit result" where
  "ensureNoExtraKwargs kw =
     (case kw of [] \<Rightarrow> Inr () | e # _ \<Rightarrow> Inl (RuntimeError (''unexpected keyword argument: '' @ fst e)))"

definition makeExecuteOptions :: "bool option \<Rightarrow> int option \<Rightarrow> int option \<Rightarrow> ExecuteOptions" where
  "makeExecuteOptions ro timeout n = \<lparr>read_only = ro, timeout_sec = timeout, retries = n\<rparr>"

text \<open>The arguments of a C++ call may be evaluated in any order; which error is thrown when two do not convert is open.\<close>

definition executeOptionsFromKwargs :: "'x casts \<Rightarrow> 'x kwargs \<Rightarrow> (ExecuteOptions \<times> 'x kwargs) result" where
  "executeOptionsFromKwargs cs kw =
     rbind (popOptionalBool cs ''read_only'' kw) (\<lambda>(ro, kw1).
     rbind (popOptionalInt cs ''timeout_sec'' kw1) (\<lambda>(timeout, kw2).
     rbind (popOptionalInt cs ''retries'' kw2) (\<lambda>(n, kw3). Inr (makeExecuteOptions ro timeout n, kw3))))"

text \<open>\<open>dflt\<close> is what \<open>getDefaultExecutor\<close> returns or throws at the call.\<close>

fun executorFromPython :: "'x result \<Rightarrow> 'x pyobject \<Rightarrow> 'x result" where
  "executorFromPython dflt PyNone = dflt"
| "executorFromPython dflt (PyExecutor x) = Inr x"
| "executorFromPython dflt _ = Inl (RuntimeError ''db must be None or a DatabaseExecutor'')"

definition popExecutor :: "'x result \<Rightarrow> 'x kwargs \<Rightarrow> ('x \<times> 'x kwargs) result" where
  "popExecutor dflt kw = (case popObject ''executor'' kw of (v, kw') \<Rightarrow> rbind (executorFromPython dflt v) (\<lambda>x. Inr (x, kw')))"

definition tableExecuteOptionsFromKwargs :: "'x casts \<Rightarrow> 'x result \<Rightarrow> 'x kwargs \<Rightarrow> 'x TableExecuteOptions result" where
  "tableExecuteOptionsFromKwargs cs dflt kw =
     rbind (executeOptionsFromKwargs cs kw) (\<lambda>(options, kw1).
     case popObject ''executor'' kw1 of (v, kw2) \<Rightarrow>
     rbind (if v = PyNone then Inr None else rbind (executorFromPython dflt v) (\<lambda>x. Inr (Some x))) (\<lambda>executor.
     rbind (ensureNoExtraKwargs kw2) (\<lambda>_. Inr \<lparr>execute_options = options, options_executor = executor\<rparr>)))"

section \<open>Calls\<close>

type_synonym ('x, 'v) py = "('x task, 'v) python"

definition awaitQueryResultAndResolve :: "(QueryResult \<Rightarrow> 'v result) \<Rightarrow> nat \<Rightarrow> QueryResult result \<Rightarrow> (('x, 'v) py, unit) io" where
  "awaitQueryResultAndResolve cast raw_future task = awaitAndResolve cast raw_future task"

definition spawnQueryResult :: "'x task \<Rightarrow> (('x, 'v) py, nat) io" where
  "spawnQueryResult task = spawn task"


definition spawnExecuteSQL ::
    "'x casts \<Rightarrow> 'x result \<Rightarrow> string \<Rightarrow> 'x pyobject list \<Rightarrow> 'x kwargs \<Rightarrow> (('x, 'v) py, nat) io" where
  "spawnExecuteSQL cs dflt sql args kw =
     io_bind (io_lift (executeOptionsFromKwargs cs kw)) (\<lambda>(options, kw1).
     io_bind (io_lift (popExecutor dflt kw1)) (\<lambda>(executor, kw2).
     io_bind (io_lift (ensureNoExtraKwargs kw2)) (\<lambda>_.
     io_bind (io_lift (paramsFromArgs cs args)) (\<lambda>params.
       spawnQueryResult (ExecuteSQLTask executor options sql params)))))"

definition spawnQuote :: "'x result \<Rightarrow> string \<Rightarrow> 'x kwargs \<Rightarrow> (('x, 'v) py, nat) io" where
  "spawnQuote dflt v kw =
     io_bind (io_lift (popExecutor dflt kw)) (\<lambda>(executor, kw1).
     io_bind (io_lift (ensureNoExtraKwargs kw1)) (\<lambda>_. spawn (QuoteTask executor v)))"

definition spawnAcquireConnection :: "'x result \<Rightarrow> (('x, 'v) py, nat) io" where
  "spawnAcquireConnection dflt = io_bind (io_lift dflt) (\<lambda>executor. spawn (ConnectionTask executor))"

text \<open>The methods of an executor object.\<close>

definition method_execute :: "'x casts \<Rightarrow> 'x \<Rightarrow> string \<Rightarrow> 'x pyobject list \<Rightarrow> 'x kwargs \<Rightarrow> (('x, 'v) py, nat) io" where
  "method_execute cs self s args kw =
     io_bind (io_lift (executeOptionsFromKwargs cs kw)) (\<lambda>(options, kw1).
     io_bind (io_lift (ensureNoExtraKwargs kw1)) (\<lambda>_.
     io_bind (io_lift (paramsFromArgs cs args)) (\<lambda>params. spawnQueryResult (ExecuteTask self options s params))))"

definition method_execute_sql :: "'x casts \<Rightarrow> 'x \<Rightarrow> string \<Rightarrow> 'x pyobject list \<Rightarrow> 'x kwargs \<Rightarrow> (('x, 'v) py, nat) io" where
  "method_execute_sql cs self sql args kw =
     io_bind (io_lift (executeOptionsFromKwargs cs kw)) (\<lambda>(options, kw1).
     io_bind (io_lift (ensureNoExtraKwargs kw1)) (\<lambda>_.
     io_bind (io_lift (paramsFromArgs cs args)) (\<lambda>params. spawnQueryResult (ExecuteSQLTask self options sql params))))"

text \<open>\<open>bindAwaitable\<close> makes a method of a member function: the coroutine is made with the object and the arguments, then spawned.\<close>

definition bindAwaitable :: "('x \<Rightarrow> 'a \<Rightarrow> 'x task) \<Rightarrow> 'x \<Rightarrow> 'a \<Rightarrow> (('x, 'v) py, nat) io" where
  "bindAwaitable fn self args = spawn (fn self args)"

definition method_get_connection :: "'x \<Rightarrow> (('x, 'v) py, nat) io" where
  "method_get_connection self = bindAwaitable (\<lambda>x _. ConnectionTask x) self ()"

definition method_quote :: "'x \<Rightarrow> string \<Rightarrow> (('x, 'v) py, nat) io" where
  "method_quote self v = bindAwaitable QuoteTask self v"

definition method_prepare_statements :: "'x \<Rightarrow> StatementsBlock \<Rightarrow> (('x, 'v) py, nat) io" where
  "method_prepare_statements self b = bindAwaitable PrepareTask self b"

definition method_unprepare_statements :: "'x \<Rightarrow> string \<Rightarrow> (('x, 'v) py, nat) io" where
  "method_unprepare_statements self n = bindAwaitable UnprepareTask self n"

definition method_prepare_statement :: "'x \<Rightarrow> Statement \<Rightarrow> (('x, 'v) py, nat) io" where
  "method_prepare_statement self s = spawn (PrepareTask self (addStatement (make_block (stmt_name s)) s))"

definition method_unprepare_statement :: "'x \<Rightarrow> string \<Rightarrow> (('x, 'v) py, nat) io" where
  "method_unprepare_statement self n = spawn (UnprepareTask self n)"

section \<open>The table of submissions\<close>

text \<open>
  The methods of \<open>TableSubmissions\<close>.  All take their arguments by value, but for the row of \<open>add_submission\<close>: the coroutine of
  \<open>addSubmission\<close> has a reference to it, the address of the row in the object Python passed.
\<close>

definition py_initialize :: "'x casts \<Rightarrow> 'x result \<Rightarrow> 'x kwargs \<Rightarrow> (('x, 'v) py, nat) io" where
  "py_initialize cs dflt kw =
     io_bind (io_lift (tableExecuteOptionsFromKwargs cs dflt kw)) (\<lambda>o1. spawn (InitializeTask o1))"

definition py_add_submission :: "'x casts \<Rightarrow> 'x result \<Rightarrow> nat \<Rightarrow> 'x kwargs \<Rightarrow> (('x, 'v) py, nat) io" where
  "py_add_submission cs dflt row kw =
     io_bind (io_lift (tableExecuteOptionsFromKwargs cs dflt kw)) (\<lambda>o1. spawn (AddSubmissionTask o1 row))"

definition py_load_submissions_by_user_and_problem :: "'x casts \<Rightarrow> 'x result \<Rightarrow> string \<Rightarrow> string \<Rightarrow> 'x kwargs \<Rightarrow> (('x, 'v) py, nat) io" where
  "py_load_submissions_by_user_and_problem cs dflt user problem kw =
     io_bind (io_lift (tableExecuteOptionsFromKwargs cs dflt kw)) (\<lambda>o1. spawn (LoadSubmissionsTask o1 user problem))"

definition py_update_submission_verdict :: "'x casts \<Rightarrow> 'x result \<Rightarrow> string \<Rightarrow> string \<Rightarrow> rat \<Rightarrow> 'x kwargs \<Rightarrow> (('x, 'v) py, nat) io" where
  "py_update_submission_verdict cs dflt submission_id verdict_type score kw =
     io_bind (io_lift (tableExecuteOptionsFromKwargs cs dflt kw)) (\<lambda>o1. spawn (UpdateVerdictTask o1 submission_id verdict_type score))"

definition py_whose_submission :: "'x casts \<Rightarrow> 'x result \<Rightarrow> string \<Rightarrow> 'x kwargs \<Rightarrow> (('x, 'v) py, nat) io" where
  "py_whose_submission cs dflt submission_id kw =
     io_bind (io_lift (tableExecuteOptionsFromKwargs cs dflt kw)) (\<lambda>o1. spawn (WhoseTask o1 submission_id))"

definition py_problem_of_submission :: "'x casts \<Rightarrow> 'x result \<Rightarrow> string \<Rightarrow> 'x kwargs \<Rightarrow> (('x, 'v) py, nat) io" where
  "py_problem_of_submission cs dflt submission_id kw =
     io_bind (io_lift (tableExecuteOptionsFromKwargs cs dflt kw)) (\<lambda>o1. spawn (ProblemTask o1 submission_id))"

definition py_language_of_submission :: "'x casts \<Rightarrow> 'x result \<Rightarrow> string \<Rightarrow> 'x kwargs \<Rightarrow> (('x, 'v) py, nat) io" where
  "py_language_of_submission cs dflt submission_id kw =
     io_bind (io_lift (tableExecuteOptionsFromKwargs cs dflt kw)) (\<lambda>o1. spawn (LanguageTask o1 submission_id))"

definition py_verdict_type_of_submission :: "'x casts \<Rightarrow> 'x result \<Rightarrow> string \<Rightarrow> 'x kwargs \<Rightarrow> (('x, 'v) py, nat) io" where
  "py_verdict_type_of_submission cs dflt submission_id kw =
     io_bind (io_lift (tableExecuteOptionsFromKwargs cs dflt kw)) (\<lambda>o1. spawn (VerdictTypeTask o1 submission_id))"

definition py_score_of_submission :: "'x casts \<Rightarrow> 'x result \<Rightarrow> string \<Rightarrow> 'x kwargs \<Rightarrow> (('x, 'v) py, nat) io" where
  "py_score_of_submission cs dflt submission_id kw =
     io_bind (io_lift (tableExecuteOptionsFromKwargs cs dflt kw)) (\<lambda>o1. spawn (ScoreTask o1 submission_id))"

definition py_set_verdict_type :: "'x casts \<Rightarrow> 'x result \<Rightarrow> string \<Rightarrow> string \<Rightarrow> 'x kwargs \<Rightarrow> (('x, 'v) py, nat) io" where
  "py_set_verdict_type cs dflt submission_id verdict_type kw =
     io_bind (io_lift (tableExecuteOptionsFromKwargs cs dflt kw)) (\<lambda>o1. spawn (SetVerdictTypeTask o1 submission_id verdict_type))"

definition py_set_score :: "'x casts \<Rightarrow> 'x result \<Rightarrow> string \<Rightarrow> rat \<Rightarrow> 'x kwargs \<Rightarrow> (('x, 'v) py, nat) io" where
  "py_set_score cs dflt submission_id score kw =
     io_bind (io_lift (tableExecuteOptionsFromKwargs cs dflt kw)) (\<lambda>o1. spawn (SetScoreTask o1 submission_id score))"

section \<open>Keyword arguments\<close>

definition option_of :: "('x pyobject \<Rightarrow> 'a result) \<Rightarrow> string \<Rightarrow> 'x kwargs \<Rightarrow> 'a option result" where
  "option_of cast key kw =
     (case map_of kw key of None \<Rightarrow> Inr None | Some v \<Rightarrow> if v = PyNone then Inr None else rbind (cast v) (\<lambda>x. Inr (Some x)))"





lemma map_of_without: "map_of (without key kw) k = (if k = key then None else map_of kw k)"
  by (induction kw) (auto simp: without_def)

lemma option_without [simp]: "k \<noteq> key \<Longrightarrow> option_of cast k (without key kw) = option_of cast k kw"
  by (simp add: option_of_def map_of_without)












end
