(* ===== verification/Ownership.thy ===== *)
theory Ownership
  imports Prelude
begin

text \<open>
  The handles of \<open>modules/database\<close> that own what has to be given back: \<open>QueryResult\<close>, of \<open>query_result.cpp\<close>, owns a result of libpq,
  \<open>ExecutionQueueLease\<close>, of \<open>libpq_connection.cpp\<close>, the turn on a connection, and \<open>PooledConnection\<close>, of
  \<open>pooled_connection.cpp\<close>, a slot of the pool.  They cannot be copied, only moved.

  Each class is what its constructor, its moves and its destructor do, a null pointer being \<open>None\<close>.  What they give back is listed:
  the calls of \<open>PQclear\<close>, of \<open>releaseExecutionQueue\<close> and of \<open>releaseSlot\<close>.
\<close>

section \<open>The classes\<close>

text \<open>A move construction yields the new handle and what is left in the old; an assignment what it releases, and the two handles.\<close>

record ('h, 'r) handle_class =
  owned :: "'h \<Rightarrow> 'r list"
  move_construct :: "'h \<Rightarrow> 'h \<times> 'h"
  move_assign :: "'h \<Rightarrow> 'h \<Rightarrow> 'r list \<times> 'h \<times> 'h"
  destruct :: "'h \<Rightarrow> 'r list"

definition pointed :: "'r option \<Rightarrow> 'r list" where
  "pointed p = (case p of None \<Rightarrow> [] | Some r \<Rightarrow> [r])"

definition result_move :: "'r option \<Rightarrow> 'r option \<times> 'r option" where
  "result_move result = (result, None)"

definition result_assign :: "'r option \<Rightarrow> 'r option \<Rightarrow> 'r list \<times> 'r option \<times> 'r option" where
  "result_assign result from = ((if result \<noteq> None then [the result] else []), from, None)"

definition result_destroy :: "'r option \<Rightarrow> 'r list" where
  "result_destroy result = (if result \<noteq> None then [the result] else [])"

definition query_result_class :: "('r option, 'r) handle_class" where
  "query_result_class = \<lparr>owned = pointed, move_construct = result_move, move_assign = result_assign, destruct = result_destroy\<rparr>"

definition lease_destroy :: "'r option \<Rightarrow> 'r list" where
  "lease_destroy owner = (case owner of None \<Rightarrow> [] | Some c \<Rightarrow> [c])"

definition lease_move :: "'r option \<Rightarrow> 'r option \<times> 'r option" where
  "lease_move owner = (owner, None)"

definition lease_assign :: "'r option \<Rightarrow> 'r option \<Rightarrow> 'r list \<times> 'r option \<times> 'r option" where
  "lease_assign owner from = (case owner of None \<Rightarrow> ([], from, None) | Some c \<Rightarrow> ([c], from, None))"

definition lease_class :: "('r option, 'r) handle_class" where
  "lease_class = \<lparr>owned = pointed, move_construct = lease_move, move_assign = lease_assign, destruct = lease_destroy\<rparr>"

text \<open>A pooled connection has its slot's index as well, which stays when the pool has been moved away.\<close>

type_synonym 'p pooled = "'p option \<times> nat"

definition pooled_slot :: "'p pooled \<Rightarrow> ('p \<times> nat) list" where
  "pooled_slot c = (case c of (None, i) \<Rightarrow> [] | (Some p, i) \<Rightarrow> [(p, i)])"

definition pooled_destroy :: "'p pooled \<Rightarrow> ('p \<times> nat) list" where
  "pooled_destroy c = (case c of (pool, slot_index) \<Rightarrow> if pool \<noteq> None then [(the pool, slot_index)] else [])"

definition pooled_move :: "'p pooled \<Rightarrow> 'p pooled \<times> 'p pooled" where
  "pooled_move c = (case c of (pool, slot_index) \<Rightarrow> ((pool, slot_index), (None, slot_index)))"

definition pooled_assign :: "'p pooled \<Rightarrow> 'p pooled \<Rightarrow> ('p \<times> nat) list \<times> 'p pooled \<times> 'p pooled" where
  "pooled_assign c from =
     (case c of (pool, slot_index) \<Rightarrow> case from of (other_pool, other_index) \<Rightarrow>
       ((if pool \<noteq> None then [(the pool, slot_index)] else []), (other_pool, other_index), (None, other_index)))"

definition pooled_class :: "('p pooled, 'p \<times> nat) handle_class" where
  "pooled_class = \<lparr>owned = pooled_slot, move_construct = pooled_move, move_assign = pooled_assign, destruct = pooled_destroy\<rparr>"

section \<open>Programs\<close>

text \<open>
  What a program does with handles: its variables are numbered as they are made, and one that has been destroyed is \<open>None\<close>.  Using
  it is undefined.  An assignment of a variable to itself is told by the addresses and does nothing.
\<close>

datatype 'h handle_op = Make 'h | MoveFrom nat | Assign nat nat | Kill nat

type_synonym ('h, 'r) handles = "'h option list \<times> 'r list"

definition variable :: "'h option list \<Rightarrow> nat \<Rightarrow> 'h option" where
  "variable vs i = (if i < length vs then vs ! i else None)"

fun handle_step :: "('h, 'r) handle_class \<Rightarrow> 'h handle_op \<Rightarrow> ('h, 'r) handles \<Rightarrow> ('h, 'r) handles result" where
  "handle_step C (Make h) (vs, released) = Inr (vs @ [Some h], released)"
| "handle_step C (MoveFrom j) (vs, released) =
     (case variable vs j of
        None \<Rightarrow> Inl UndefinedBehaviour
      | Some h \<Rightarrow> (case move_construct C h of (new, old) \<Rightarrow> Inr (vs[j := Some old] @ [Some new], released)))"
| "handle_step C (Assign i j) (vs, released) =
     (case (variable vs i, variable vs j) of
        (Some h, Some k) \<Rightarrow>
          if i = j then Inr (vs, released)
          else (case move_assign C h k of (rs, new, old) \<Rightarrow> Inr (vs[i := Some new, j := Some old], released @ rs))
      | _ \<Rightarrow> Inl UndefinedBehaviour)"
| "handle_step C (Kill i) (vs, released) =
     (case variable vs i of None \<Rightarrow> Inl UndefinedBehaviour | Some h \<Rightarrow> Inr (vs[i := None], released @ destruct C h))"

fun handle_run :: "('h, 'r) handle_class \<Rightarrow> 'h handle_op list \<Rightarrow> ('h, 'r) handles \<Rightarrow> ('h, 'r) handles result" where
  "handle_run C [] st = Inr st"
| "handle_run C (a # as) st = rbind (handle_step C a st) (handle_run C as)"

fun made :: "('h, 'r) handle_class \<Rightarrow> 'h handle_op list \<Rightarrow> 'r list" where
  "made C [] = []"
| "made C (Make h # as) = owned C h @ made C as"
| "made C (a # as) = made C as"

definition held_by :: "('h, 'r) handle_class \<Rightarrow> 'h option \<Rightarrow> 'r multiset" where
  "held_by C v = (case v of None \<Rightarrow> {#} | Some h \<Rightarrow> mset (owned C h))"

definition held_in :: "('h, 'r) handle_class \<Rightarrow> 'h option list \<Rightarrow> 'r multiset" where
  "held_in C vs = sum_list (map (held_by C) vs)"

lemma held_update:
  "i < length vs \<Longrightarrow> held_in C (vs[i := x]) + held_by C (vs ! i) = held_in C vs + held_by C x"
  unfolding held_in_def
proof (induction vs arbitrary: i)
  case (Cons v vs)
  show ?case
  proof (cases i)
    case (Suc k)
    with Cons.IH [of k] Cons.prems show ?thesis by (simp add: add.commute add.left_commute)
  qed (simp add: add.commute)
qed simp

lemma held_append: "held_in C (vs @ [x]) = held_in C vs + held_by C x"
  by (simp add: held_in_def)

text \<open>What the moves and the destructor of an owner have to do.\<close>

locale owner =
  fixes C :: "('h, 'r) handle_class"
  assumes move_hands_over: "move_construct C h = (new, old) \<Longrightarrow> owned C new = owned C h \<and> owned C old = []"
    and assign_releases: "move_assign C h k = (rs, new, old) \<Longrightarrow> rs = owned C h \<and> owned C new = owned C k \<and> owned C old = []"
    and destroy_releases: "destruct C h = owned C h"
begin

lemma step_conserves:
  assumes "handle_step C a (vs, rel) = Inr (vs', rel')"
  shows "mset rel' + held_in C vs' = mset rel + held_in C vs + mset (made C [a])"
proof (cases a)
  case (Make h)
  with assms show ?thesis by (auto simp: held_append held_by_def)
next
  case (MoveFrom j)
  obtain h where h: "variable vs j = Some h" using assms MoveFrom by (cases "variable vs j") auto
  obtain new old where mv: "move_construct C h = (new, old)" by (cases "move_construct C h")
  have j: "j < length vs" "vs ! j = Some h" using h by (auto simp: variable_def split: if_splits)
  note l = move_hands_over [OF mv]
  have "held_in C (vs[j := Some old]) + mset (owned C h) = held_in C vs"
    using held_update [OF j(1), of C "Some old"] j(2) l by (simp add: held_by_def)
  then show ?thesis using assms MoveFrom h mv l by (auto simp: held_append held_by_def)
next
  case (Assign i j)
  show ?thesis
  proof (cases "i = j")
    case True
    with assms Assign show ?thesis by (auto split: option.splits)
  next
    case False
    obtain h k where h: "variable vs i = Some h" "variable vs j = Some k"
      using assms Assign by (cases "variable vs i"; cases "variable vs j") auto
    obtain rs new old where as: "move_assign C h k = (rs, new, old)" by (cases "move_assign C h k")
    have i: "i < length vs" "vs ! i = Some h" and j: "j < length vs" "vs ! j = Some k"
      using h by (auto simp: variable_def split: if_splits)
    note l = assign_releases [OF as]
    have "held_in C (vs[i := Some new]) + mset (owned C h) = held_in C vs + mset (owned C k)"
      using held_update [OF i(1), of C "Some new"] i(2) l by (simp add: held_by_def)
    moreover have "held_in C (vs[i := Some new, j := Some old]) + mset (owned C k) = held_in C (vs[i := Some new])"
      using held_update [of j "vs[i := Some new]" C "Some old"] j False l by (simp add: held_by_def)
    ultimately have "held_in C (vs[i := Some new, j := Some old]) + mset (owned C h) + mset (owned C k)
        = held_in C vs + mset (owned C k)"
      by (metis add.assoc add.commute)
    then show ?thesis using assms Assign h as l False by (auto simp: add.assoc add.commute)
  qed
next
  case (Kill i)
  obtain h where h: "variable vs i = Some h" using assms Kill by (cases "variable vs i") auto
  have i: "i < length vs" "vs ! i = Some h" using h by (auto simp: variable_def split: if_splits)
  have "held_in C (vs[i := None]) + mset (owned C h) = held_in C vs"
    using held_update [OF i(1), of C None] i(2) by (simp add: held_by_def)
  then show ?thesis using assms Kill h destroy_releases by (auto simp: add.assoc add.commute)
qed

lemma made_Cons: "mset (made C (a # as)) = mset (made C [a]) + mset (made C as)"
  by (cases a) simp_all

lemma run_conserves:
  "handle_run C as (vs, rel) = Inr (vs', rel') \<Longrightarrow> mset rel' + held_in C vs' = mset rel + held_in C vs + mset (made C as)"
proof (induction as arbitrary: vs rel)
  case (Cons a as)
  obtain st where st: "handle_step C a (vs, rel) = Inr st" "handle_run C as st = Inr (vs', rel')"
    using Cons.prems by (auto simp: rbind_eq_Inr)
  obtain vs1 rel1 where 1: "st = (vs1, rel1)" by (cases st)
  show ?case
    using Cons.IH [of vs1 rel1] step_conserves [of a vs rel vs1 rel1] st 1 made_Cons [of a as] by (simp add: add.assoc del: made.simps)
qed simp

end

interpretation results: owner "query_result_class"
  by unfold_locales (auto simp: query_result_class_def result_move_def result_assign_def result_destroy_def pointed_def split: option.splits)

interpretation leases: owner "lease_class"
  by unfold_locales (auto simp: lease_class_def lease_move_def lease_assign_def lease_destroy_def pointed_def split: option.splits)

interpretation pooleds: owner "pooled_class"
  by unfold_locales (auto simp: pooled_class_def pooled_move_def pooled_assign_def pooled_destroy_def pooled_slot_def split: option.splits prod.splits if_splits)

text \<open>
  C29: results, turns and slots are given back exactly once.  Whatever a program does with such handles, moving out of them, assigning
  over them or to themselves and destroying them in any order, what it was given is what it has released together with what
  its handles still own; when all are destroyed, each was released once.
\<close>

theorem handles_release_once:
  assumes "handle_run query_result_class as ([], []) = Inr (vs, cleared)"
    and "handle_run lease_class bs ([], []) = Inr (ws, turns)"
    and "handle_run pooled_class cs ([], []) = Inr (xs, slots)"
  shows "mset (made query_result_class as) = mset cleared + held_in query_result_class vs
    \<and> mset (made lease_class bs) = mset turns + held_in lease_class ws
    \<and> mset (made pooled_class cs) = mset slots + held_in pooled_class xs"
  using results.run_conserves [OF assms(1)] leases.run_conserves [OF assms(2)] pooleds.run_conserves [OF assms(3)]
  by (simp add: held_in_def)

definition sample_moves :: "'h \<Rightarrow> 'h \<Rightarrow> 'h handle_op list" where
  "sample_moves h k = [Make h, MoveFrom 0, Make k, Assign 2 2, Assign 2 1, Assign 0 2, Kill 0, Kill 1]"

theorem handles_release_once_witness:
  "\<exists>vs xs cleared turns slots.
     handle_run query_result_class (sample_moves (Some (1::nat)) (Some 2)) ([], []) = Inr (vs, cleared)
     \<and> handle_run pooled_class (sample_moves (Some ''pool'', 1) (Some ''pool'', 2)) ([], []) = Inr (xs, slots)
     \<and> handle_run lease_class (sample_moves (Some (7::nat)) None) ([], []) = Inr ([None, None, Some None], turns)
     \<and> mset cleared = {#1, 2#} \<and> mset slots = {#(''pool'', 1), (''pool'', 2)#} \<and> mset turns = {#7#}"
proof -
  have q: "handle_run query_result_class (sample_moves (Some (1::nat)) (Some 2)) ([], []) = Inr ([None, None, Some None], [2, 1])"
    by (simp add: sample_moves_def variable_def query_result_class_def result_move_def result_assign_def result_destroy_def)
  have l: "handle_run lease_class (sample_moves (Some (7::nat)) None) ([], []) = Inr ([None, None, Some None], [7])"
    by (simp add: sample_moves_def variable_def lease_class_def lease_move_def lease_assign_def lease_destroy_def)
  have p: "handle_run pooled_class (sample_moves (Some ''pool'', 1) (Some ''pool'', 2)) ([], [])
      = Inr ([None, None, Some (None, 1)], [(''pool'', 2), (''pool'', 1)])"
    by (simp add: sample_moves_def variable_def pooled_class_def pooled_move_def pooled_assign_def pooled_destroy_def)
  from handles_release_once [OF q l p] q l p show ?thesis
    by (simp add: held_in_def held_by_def query_result_class_def lease_class_def pooled_class_def pointed_def pooled_slot_def sample_moves_def)
qed

end
