(* ===== verification/Crypto.thy ===== *)
theory Crypto
  imports Prelude "HOL-Library.Char_ord"
begin

text \<open>
  \<open>modules/shared/utils/src/crypto.cpp\<close>: the text of a digest, which the manifests compare, and the two ways of base 64.
  libsodium is a record of its functions.
\<close>

record sodium =
  hash_bytes :: "string \<Rightarrow> nat list"
  encoded_len :: "nat \<Rightarrow> nat"
  bin2base64 :: "string \<Rightarrow> string"
  base642bin :: "nat \<Rightarrow> string \<Rightarrow> string option"

section \<open>Digests\<close>

text \<open>A stream that is set to \<open>hex\<close> writes a number without leading zeros; the width of two fills it up.\<close>

definition hex_digit :: "nat \<Rightarrow> char" where
  "hex_digit n = ''0123456789abcdef'' ! n"

fun hex_text :: "nat \<Rightarrow> string" where
  "hex_text n = (if n < 16 then [hex_digit n] else hex_text (n div 16) @ [hex_digit (n mod 16)])"

definition hex_byte :: "nat \<Rightarrow> string" where
  "hex_byte n = replicate (2 - length (hex_text n)) (CHR ''0'') @ hex_text n"

definition sha256 :: "sodium \<Rightarrow> string \<Rightarrow> string" where
  "sha256 so input = concat (map hex_byte (hash_bytes so input))"

section \<open>Base 64\<close>

text \<open>libsodium writes the text and a null terminator into a buffer that is as long; the rest is cut off at the first null.\<close>

definition toBase64 :: "sodium \<Rightarrow> string \<Rightarrow> string" where
  "toBase64 so input =
     (let text = bin2base64 so input;
          encoded = text @ replicate (encoded_len so (length input) - length text) (CHR 0x00)
      in takeWhile (\<lambda>c. c \<noteq> CHR 0x00) encoded)"

definition fromBase64 :: "sodium \<Rightarrow> string \<Rightarrow> string result" where
  "fromBase64 so input =
     (case base642bin so (length input) input of
        None \<Rightarrow> Inl (RuntimeError ''Invalid base64 input'')
      | Some decoded \<Rightarrow> Inr decoded)"

section \<open>Properties\<close>

lemma hex_digit_inj: "m < 16 \<Longrightarrow> n < 16 \<Longrightarrow> hex_digit m = hex_digit n \<longleftrightarrow> m = n"
  unfolding hex_digit_def by (rule nth_eq_iff_index_eq) simp_all

declare hex_text.simps [simp del]

lemma hex_byte_two: "n < 256 \<Longrightarrow> hex_byte n = [hex_digit (n div 16), hex_digit (n mod 16)]"
  by (auto simp: hex_byte_def hex_text.simps [of n] hex_text.simps [of "n div 16"] hex_digit_def numeral_2_eq_2)

lemma hex_bytes_length: "\<forall>n\<in>set ns. n < 256 \<Longrightarrow> length (concat (map hex_byte ns)) = 2 * length ns"
  by (induction ns) (simp_all add: hex_byte_two)

lemma hex_bytes_inj:
  "\<forall>n\<in>set ms \<union> set ns. n < 256 \<Longrightarrow> concat (map hex_byte ms) = concat (map hex_byte ns) \<Longrightarrow> ms = ns"
proof (induction ms arbitrary: ns)
  case Nil
  then show ?case by (cases ns) (simp_all add: hex_byte_two)
next
  case (Cons m ms)
  obtain n ns' where ns: "ns = n # ns'" using Cons.prems by (cases ns) (simp_all add: hex_byte_two)
  have b: "m < 256" "n < 256" using Cons.prems(1) ns by simp_all
  have e: "hex_digit (m div 16) = hex_digit (n div 16)" "hex_digit (m mod 16) = hex_digit (n mod 16)"
    "concat (map hex_byte ms) = concat (map hex_byte ns')"
    using Cons.prems(2) b by (simp_all add: ns hex_byte_two)
  have "m div 16 = n div 16" "m mod 16 = n mod 16"
    using e(1,2) b by (simp_all add: hex_digit_inj less_mult_imp_div_less)
  then have "m = n" by (metis div_mult_mod_eq)
  moreover have "ms = ns'" using Cons.IH [OF _ e(3)] Cons.prems(1) by (simp add: ns)
  ultimately show ?case by (simp add: ns)
qed

text \<open>
  two contents have the same hash text exactly if libsodium's digests of them are the same, and every text has two characters
  for a byte: none of the leading zeros is lost that a stream leaves out by itself.
\<close>

theorem sha256_faithful:
  assumes "length (hash_bytes so x) = 32" "length (hash_bytes so y) = 32"
    and "\<forall>n\<in>set (hash_bytes so x) \<union> set (hash_bytes so y). n < 256"
  shows "length (sha256 so x) = 64 \<and> (sha256 so x = sha256 so y) = (hash_bytes so x = hash_bytes so y)"
  using hex_bytes_length [of "hash_bytes so x"] hex_bytes_inj [of "hash_bytes so x" "hash_bytes so y"] assms
  by (auto simp: sha256_def)

definition sample_sodium :: sodium where
  "sample_sodium = \<lparr>hash_bytes = (\<lambda>s. replicate 31 0 @ [length s mod 256]), encoded_len = (\<lambda>n. n + 1), bin2base64 = (\<lambda>s. s),
     base642bin = (\<lambda>n s. if length s \<le> n then Some s else None)\<rparr>"

theorem sha256_faithful_witness:
  "length (sha256 sample_sodium ''a'') = 64 \<and> sha256 sample_sodium ''a'' \<noteq> sha256 sample_sodium ''bc''"
proof -
  have h: "hash_bytes sample_sodium ''a'' = replicate 31 0 @ [1]" "hash_bytes sample_sodium ''bc'' = replicate 31 0 @ [2]"
    by (simp_all add: sample_sodium_def numeral_2_eq_2)
  have "length (sha256 sample_sodium ''a'') = 64 \<and>
      (sha256 sample_sodium ''a'' = sha256 sample_sodium ''bc'') = (hash_bytes sample_sodium ''a'' = hash_bytes sample_sodium ''bc'')"
    by (rule sha256_faithful) (simp_all only: h length_append length_replicate, auto)
  then show ?thesis by (simp add: h)
qed

text \<open>
  base 64 is read back, when libsodium decodes what it encoded: its text has no null in it, so cutting the buffer
  at the first one keeps all of it, and the size reserved for decoding, that of the text, is enough.
\<close>

theorem base64_roundtrip:
  assumes "CHR 0x00 \<notin> set (bin2base64 so x)" "length x \<le> length (bin2base64 so x)"
    and "\<And>n. length x \<le> n \<Longrightarrow> base642bin so n (bin2base64 so x) = Some x"
  shows "fromBase64 so (toBase64 so x) = Inr x"
proof -
  have "takeWhile (\<lambda>c. c \<noteq> CHR 0x00) (xs @ replicate k (CHR 0x00)) = xs" if "CHR 0x00 \<notin> set xs" for xs k
  proof -
    have "takeWhile (\<lambda>c. c \<noteq> CHR 0x00) (xs @ replicate k (CHR 0x00)) = xs @ takeWhile (\<lambda>c. c \<noteq> CHR 0x00) (replicate k (CHR 0x00))"
      using that by (intro takeWhile_append2) auto
    also have "takeWhile (\<lambda>c. c \<noteq> CHR 0x00) (replicate k (CHR 0x00)) = []" by (cases k) simp_all
    finally show ?thesis by simp
  qed
  then show ?thesis using assms by (simp add: toBase64_def fromBase64_def Let_def)
qed

theorem base64_roundtrip_witness: "fromBase64 sample_sodium (toBase64 sample_sodium ''ab'') = Inr ''ab''"
  by (rule base64_roundtrip) (simp_all add: sample_sodium_def)

end
