(* ===== verification/Polygon.thy ===== *)
theory Polygon
  imports Test_Tree
begin

text \<open>
  Converting a Polygon package to a problem of the judge:
  \<open>modules/content_service/src/problem_package_converter/polygon_converter.cpp\<close>, and what the test
  node builds from the result.  Limits are unsigned 64-bit numbers.
\<close>

section \<open>The converter\<close>

definition text_element :: "string \<Rightarrow> nat \<Rightarrow> xml" where
  "text_element t n = Element t [] [CData (nat_to_string n)]"

definition polygon_test_name :: "string \<Rightarrow> nat \<Rightarrow> string" where
  "polygon_test_name testset_name test_num =
     (if testset_name = ''tests'' then nat_to_string test_num else testset_name @ nat_to_string test_num)"

definition convert_testset :: "xml \<Rightarrow> xml list" where
  "convert_testset testset =
     (let tests_count = text_ullong (child (Some testset) ''test-count'');
          testset_name = attribute_string (Some testset) ''name'';
          time_limit = text_ullong (child (Some testset) ''time-limit'');
          memory_limit = text_ullong (child (Some testset) ''memory-limit'');
          real_time_limit = max (2 * time_limit mod 2 ^ 64) 5000;
          names = map (polygon_test_name testset_name) [1..<tests_count + 1]
      in map (\<lambda>n. Element ''test'' [(''type'', ''single''), (''name'', n)] []) names @
         [Element ''test'' [(''type'', ''testset''), (''name'', testset_name)]
            ([text_element ''time_limit'' time_limit, text_element ''memory_limit'' memory_limit,
              text_element ''real_time_limit'' real_time_limit,
              Element ''verdict_builder'' [(''type'', ''min'')] []] @
             map (\<lambda>n. Element ''test'' [(''name'', n)] []) names)])"

definition convert_problem :: "xml \<Rightarrow> xml" where
  "convert_problem problem =
     (let judging = child (Some problem) ''judging'';
          tests_node = Element ''tests'' []
            (concat (map convert_testset (children judging ''testset'')) @
             [Element ''test'' [(''type'', ''compilation''), (''name'', ''compilation'')]
                [Element ''test'' [(''name'', ''tests'')] []],
              Element ''test'' [(''type'', ''sync_result''), (''name'', ''main'')]
                [Element ''test'' [(''name'', ''compilation'')] []]])
      in Element (tag problem) (attributes problem @ [(''type'', ''open_problem'')])
           (kids problem @
            [Element ''problem_builder'' [(''type'', ''DefaultProblemBuilder'')] [],
             Element ''submission_manager'' [(''type'', ''BasicProblemSubmissionManager'')] [],
             tests_node]))"

text \<open>
  The whole conversion: \<open>load\<close> reads a document, \<open>system\<close> runs a command, \<open>save\<close> writes a document
  and tells whether it could.
\<close>

definition convertICPCProblemPackage ::
    "('w \<Rightarrow> string \<Rightarrow> xml list option) \<Rightarrow> (string \<Rightarrow> 'w \<Rightarrow> int \<times> 'w) \<Rightarrow>
     (string \<Rightarrow> xml list \<Rightarrow> 'w \<Rightarrow> bool \<times> 'w) \<Rightarrow> string \<Rightarrow> ('w, unit) io" where
  "convertICPCProblemPackage load system save path_to_package =
     io_bind (io_get (\<lambda>w. load w (path_append path_to_package ''problem.xml''))) (\<lambda>doc.
     case doc of
       None \<Rightarrow> io_lift (Inl (RuntimeError (''Can not open'' @ path_to_package @ ''/problem.xml'')))
     | Some nodes \<Rightarrow>
         (case find (is_element ''problem'') nodes of
            None \<Rightarrow> io_lift (Inl (RuntimeError ''Problem config have not child problem''))
          | Some problem \<Rightarrow>
              (let path_to_checker = path_append path_to_package
                     (attribute_string
                       (Option.bind (Option.bind (child (Some problem) ''assets'') (\<lambda>n. child (Some n) ''checker''))
                         (\<lambda>n. child (Some n) ''source'')) ''path'')
               in io_bind (io_run (system (''g++ -o '' @ path_to_package @ ''/checker '' @ path_to_checker @
                                           '' -O2 -std=c++23''))) (\<lambda>rc.
                  if rc \<noteq> 0 then io_lift (Inl (RuntimeError ''Can not compile checker''))
                  else io_bind (io_run (save (path_append path_to_package ''problem.xml'') [convert_problem problem])) (\<lambda>saved.
                    if \<not> saved then io_lift (Inl (RuntimeError ''Can not save config file''))
                    else io_return ())))))"

section \<open>Names and numbers\<close>

lemma nat_to_string_inj: "nat_to_string m = nat_to_string n \<longleftrightarrow> m = n"
  using read_digits_nat [of "[]" m] read_digits_nat [of "[]" n] by (metis list.case(1) prod.inject)

lemma nat_to_string_hd: "of_char (hd (nat_to_string n)) < (58::nat)"
  by (rule nat_to_string_Cons [of n]) (simp add: of_char_digit)

lemma nat_to_string_nonempty: "nat_to_string n \<noteq> []"
  by (rule nat_to_string_Cons [of n]) simp

lemma nat_to_string_not_word:
  "nat_to_string n \<noteq> ''tests''" "nat_to_string n \<noteq> ''compilation''" "nat_to_string n \<noteq> ''main''"
  using nat_to_string_hd [of n] by auto

lemma stod_nat: "stod (nat_to_string n) = Inr (of_nat n)"
proof -
  have "0 < length (digits n)" using digits_nonempty by simp
  with read_digits_nat [of "[]" n] read_sign_nat [of n "[]"] show ?thesis
    by (simp add: stod_def read_exponent_def ten_to_def)
qed

lemma text_double_element: "text_double (Some (text_element t n)) d = of_nat n"
  by (simp add: text_double_def text_element_def stod_nat)

lemma find_named:
  "x \<in> set xs \<Longrightarrow> distinct (map f xs) \<Longrightarrow> find (\<lambda>y. f y = f x) xs = Some x"
  by (induction xs) auto

section \<open>What the node builds from a converted package\<close>

definition built_single :: "(string \<Rightarrow> string) \<Rightarrow> string \<Rightarrow> string \<Rightarrow> string \<Rightarrow> test" where
  "built_single moved_from dir pid name =
     (let base = path_append (path_append dir pid) ''tests'';
          number = format_02 (single_test_number moved_from name)
      in SingleTest name (path_append base number) (path_append base (number @ ''.a'')))"

lemma make_single_built:
  "lookup_string config [''directories'', ''problems''] = Some dir \<Longrightarrow>
     make_single moved_from config pid name = Inr (built_single moved_from dir pid name)"
  by (simp add: make_single_def built_single_def getDirectoryPath_eq requireHasValue_def Let_def)

lemma getName_built: "getName (built_single moved_from dir pid name) = name"
  by (simp add: built_single_def Let_def)

lemma build_singles:
  assumes "\<forall>n\<in>set ns. \<exists>c. getTestConfig config load pid n = Inr (Some c) \<and> attribute_string (Some c) ''type'' = ''single''"
    and "lookup_string config [''directories'', ''problems''] = Some dir"
  shows "build_tests moved_from config load pid tests (ns @ rest) =
    build_tests moved_from config load pid
      (fold (\<lambda>n t. t(n \<mapsto> built_single moved_from dir pid n)) ns tests) rest"
  using assms(1)
proof (induction ns arbitrary: tests)
  case Nil
  then show ?case by simp
next
  case (Cons n ns)
  then obtain c where "getTestConfig config load pid n = Inr (Some c)"
    "attribute_string (Some c) ''type'' = ''single''" by auto
  then have "build_tests moved_from config load pid tests ((n # ns) @ rest) =
      build_tests moved_from config load pid (tests(n \<mapsto> built_single moved_from dir pid n)) (ns @ rest)"
    by (simp add: create_def test_factory_def registerType_def make_single_built [OF assms(2)]
        addTest_def getName_built)
  moreover have "build_tests moved_from config load pid (tests(n \<mapsto> built_single moved_from dir pid n)) (ns @ rest) =
      build_tests moved_from config load pid
        (fold (\<lambda>n t. t(n \<mapsto> built_single moved_from dir pid n)) ns
          (tests(n \<mapsto> built_single moved_from dir pid n))) rest"
    by (rule Cons.IH) (use Cons.prems in simp)
  ultimately show ?case by (simp only: fold_Cons comp_apply append_Cons)
qed

lemma fold_table:
  "(fold (\<lambda>n t. t(n \<mapsto> f n)) ns tests) m = (if m \<in> set ns then Some (f m) else tests m)"
  by (induction ns arbitrary: tests) auto

lemma find_tests_map:
  "\<forall>n\<in>set ns. tests n = Some (f n) \<Longrightarrow> find_tests tests ns = Inr (map f ns)"
  by (induction ns) auto

lemma min_builder_created:
  "create_parameterized verdict_builder_factory ''min'' n = Inr (make_builder_min n)"
  by (simp add: create_parameterized_def verdict_builder_factory_def registerType_def parseName_def
      normalizeArgument_def isspace_def Let_def)

definition polygon_names :: "nat \<Rightarrow> string list" where
  "polygon_names n = map nat_to_string [1..<n + 1]"

definition single_node :: "string \<Rightarrow> xml" where
  "single_node n = Element ''test'' [(''type'', ''single''), (''name'', n)] []"

definition testset_node :: "nat \<Rightarrow> nat \<Rightarrow> nat \<Rightarrow> xml" where
  "testset_node n time_limit memory_limit =
     Element ''test'' [(''type'', ''testset''), (''name'', ''tests'')]
       ([text_element ''time_limit'' time_limit, text_element ''memory_limit'' memory_limit,
         text_element ''real_time_limit'' (max (2 * time_limit mod 2 ^ 64) 5000),
         Element ''verdict_builder'' [(''type'', ''min'')] []] @
        map (\<lambda>n. Element ''test'' [(''name'', n)] []) (polygon_names n))"

definition compilation_node :: xml where
  "compilation_node = Element ''test'' [(''type'', ''compilation''), (''name'', ''compilation'')]
     [Element ''test'' [(''name'', ''tests'')] []]"

definition sync_node :: xml where
  "sync_node = Element ''test'' [(''type'', ''sync_result''), (''name'', ''main'')]
     [Element ''test'' [(''name'', ''compilation'')] []]"

definition polygon_nodes :: "nat \<Rightarrow> nat \<Rightarrow> nat \<Rightarrow> xml list" where
  "polygon_nodes n time_limit memory_limit =
     map single_node (polygon_names n) @ [testset_node n time_limit memory_limit, compilation_node, sync_node]"

lemmas node_defs = single_node_def testset_node_def compilation_node_def sync_node_def

abbreviation node_name :: "xml \<Rightarrow> string" where
  "node_name x \<equiv> attribute_string (Some x) ''name''"

lemma polygon_node_names:
  "map node_name (polygon_nodes n t m) = polygon_names n @ [''tests'', ''compilation'', ''main'']"
  by (simp add: polygon_nodes_def node_defs comp_def)

lemma polygon_names_word:
  "''tests'' \<notin> set (polygon_names n)" "''compilation'' \<notin> set (polygon_names n)"
  "''main'' \<notin> set (polygon_names n)"
  unfolding polygon_names_def set_map image_iff using nat_to_string_not_word by metis+

lemma polygon_names_distinct: "distinct (polygon_names n @ [''tests'', ''compilation'', ''main''])"
proof -
  have "distinct (polygon_names n)"
    by (auto simp: polygon_names_def distinct_map inj_on_def nat_to_string_inj)
  then show ?thesis using polygon_names_word by simp
qed

lemma polygon_names_nonempty: "filter (\<lambda>n. n \<noteq> []) (polygon_names n) = polygon_names n"
  by (auto simp: polygon_names_def filter_id_conv nat_to_string_nonempty)

lemma find_polygon_node:
  "x \<in> set (polygon_nodes n t m) \<Longrightarrow>
     find (\<lambda>y. node_name y = node_name x) (polygon_nodes n t m) = Some x"
  by (rule find_named) (simp_all only: polygon_node_names polygon_names_distinct)

lemma children_polygon_nodes: "filter (is_element ''test'') (polygon_nodes n t m) = polygon_nodes n t m"
  by (auto simp: polygon_nodes_def node_defs filter_id_conv)

lemma convert_problem_tests:
  assumes "child (Some (Element ''problem'' as ks)) ''tests'' = None"
    and "children (child (Some (Element ''problem'' as ks)) ''judging'') ''testset'' = [ts]"
    and "attribute_string (Some ts) ''name'' = ''tests''"
  shows "child (Some (convert_problem (Element ''problem'' as ks))) ''tests'' =
    Some (Element ''tests'' [] (polygon_nodes (text_ullong (child (Some ts) ''test-count''))
       (text_ullong (child (Some ts) ''time-limit'')) (text_ullong (child (Some ts) ''memory-limit''))))"
proof -
  have none: "find (is_element ''tests'') ks = None" using assms(1) by (simp add: child_def)
  have app: "find P (xs @ ys) = (case find P xs of None \<Rightarrow> find P ys | Some x \<Rightarrow> Some x)"
    for P and xs ys :: "xml list" by (induction xs) auto
  show ?thesis
    unfolding convert_problem_def Let_def child_def node_kids.simps xml.sel
    using none assms(2,3)
    by (simp add: app child_def convert_testset_def Let_def polygon_nodes_def node_defs
        polygon_names_def polygon_test_name_def comp_def)
qed

lemma build_step:
  "getTestConfig config load pid n = Inr c \<Longrightarrow>
   create (test_factory moved_from config load) (attribute_string c ''type'') (tests, pid, n) = Inr t \<Longrightarrow>
     build_tests moved_from config load pid tests (n # ns) =
     build_tests moved_from config load pid (addTest tests t) ns"
  by simp

lemma testset_type: "attribute_string (Some (testset_node n t m)) ''type'' = ''testset''"
  by (simp add: testset_node_def)

lemma other_types:
  "attribute_string (Some compilation_node) ''type'' = ''compilation''"
  "attribute_string (Some sync_node) ''type'' = ''sync_result''"
  by (simp_all add: compilation_node_def sync_node_def)

lemma created_compilation:
  "create (test_factory moved_from config load) ''compilation'' (tests, pid, n) =
     make_compilation config load tests pid n"
  by (simp add: create_def test_factory_def registerType_def)

lemma created_sync:
  "create (test_factory moved_from config load) ''sync_result'' (tests, pid, n) =
     make_sync_result config load tests pid n"
  by (simp add: create_def test_factory_def registerType_def)

text \<open>
  C15: what the node builds from a converted Polygon package.  For a package whose problem has exactly
  one testset, called tests, and no tests element of its own, the node builds main over compilation over
  that testset, with the minimum builder and one single test for each number from 1 to the test count.
  Two limits keep their meaning, the real time limit does not, and neither do the names of the tests:
  the time limit \<open>t\<close> in milliseconds becomes \<open>t / 1000\<close> seconds and the memory limit \<open>m\<close> in bytes
  \<open>m / 1024\<close> kibibytes; the real time limit, which the converter writes in milliseconds, is read as that many
  seconds; and the files of a single test are those of the number in its name after it was moved from.
\<close>

theorem polygon_package_builds:
  assumes "child (Some (Element ''problem'' as ks)) ''tests'' = None"
    and "children (child (Some (Element ''problem'' as ks)) ''judging'') ''testset'' = [ts]"
    and "attribute_string (Some ts) ''name'' = ''tests''"
    and "lookup_string config [''directories'', ''problems''] = Some dir"
    and "load (path_append (path_append dir pid) ''problem.xml'') = Some [convert_problem (Element ''problem'' as ks)]"
    and "n = text_ullong (child (Some ts) ''test-count'')" and "t = text_ullong (child (Some ts) ''time-limit'')"
    and "m = text_ullong (child (Some ts) ''memory-limit'')"
  shows "build moved_from config load pid =
    Inr (Some (SyncResultTest ''main'' pid (CompilationTest ''compilation'' pid
      (Testset ''tests'' (of_nat t / 1000) (of_nat m / 1024) (of_nat (max (2 * t mod 2 ^ 64) 5000))
         (make_builder_min ''tests'') (map (built_single moved_from dir pid) (polygon_names n))))))"
proof -
  let ?P = "convert_problem (Element ''problem'' as ks)"
  let ?N = "polygon_nodes n t m"
  let ?build = "build_tests moved_from config load pid"
  let ?T = "fold (\<lambda>n t. t(n \<mapsto> built_single moved_from dir pid n)) (polygon_names n) Map.empty"
  let ?set = "Testset ''tests'' (of_nat t / 1000) (of_nat m / 1024) (of_nat (max (2 * t mod 2 ^ 64) 5000))
         (make_builder_min ''tests'') (map (built_single moved_from dir pid) (polygon_names n))"
  have config: "getProblemConfig config load pid = Inr (Some ?P)"
    by (rule getProblemConfig_loaded [where load_file = load, OF assms(4) assms(5)]) (simp add: convert_problem_def Let_def)
  have tests: "child (Some ?P) ''tests'' = Some (Element ''tests'' [] ?N)"
    using convert_problem_tests [OF assms(1-3)] assms(6-8) by simp
  have names: "getAllTestNames config load pid = Inr (Some (polygon_names n @ [''tests'', ''compilation'', ''main'']))"
    by (simp add: getAllTestNames_def config tests children_def children_polygon_nodes polygon_node_names
        polygon_names_nonempty)
  have get: "getTestConfig config load pid (node_name x) = Inr (Some x)" if "x \<in> set ?N" for x
    using find_polygon_node [OF that]
    by (simp add: getTestConfig_def config tests children_def children_polygon_nodes)
  have get_set: "getTestConfig config load pid ''tests'' = Inr (Some (testset_node n t m))"
    and get_comp: "getTestConfig config load pid ''compilation'' = Inr (Some compilation_node)"
    and get_main: "getTestConfig config load pid ''main'' = Inr (Some sync_node)"
    using get [of "testset_node n t m"] get [of compilation_node] get [of sync_node]
    by (simp_all add: polygon_nodes_def node_defs)
  have singles: "\<forall>n'\<in>set (polygon_names n). \<exists>c. getTestConfig config load pid n' = Inr (Some c)
      \<and> attribute_string (Some c) ''type'' = ''single''"
  proof
    fix n' assume "n' \<in> set (polygon_names n)"
    then have "single_node n' \<in> set ?N" by (simp add: polygon_nodes_def)
    from get [OF this] show "\<exists>c. getTestConfig config load pid n' = Inr (Some c)
        \<and> attribute_string (Some c) ''type'' = ''single''" by (simp add: single_node_def)
  qed
  have kids: "children (Some (testset_node n t m)) ''test'' = map (\<lambda>n. Element ''test'' [(''name'', n)] []) (polygon_names n)"
    by (auto simp: children_def testset_node_def text_element_def filter_id_conv)
  have found: "find_tests ?T (polygon_names n) = Inr (map (built_single moved_from dir pid) (polygon_names n))"
    by (rule find_tests_map) (simp add: fold_table)
  have fields: "child (Some (testset_node n t m)) ''time_limit'' = Some (text_element ''time_limit'' t)"
    "child (Some (testset_node n t m)) ''memory_limit'' = Some (text_element ''memory_limit'' m)"
    "child (Some (testset_node n t m)) ''real_time_limit'' =
       Some (text_element ''real_time_limit'' (max (2 * t mod 2 ^ 64) 5000))"
    "attribute_string (child (Some (testset_node n t m)) ''verdict_builder'') ''type'' = ''min''"
    by (simp_all add: child_def testset_node_def text_element_def)
  have made: "make_testset config load ?T pid ''tests'' = Inr ?set"
    by (simp add: make_testset_def get_set fields text_double_element min_builder_created kids comp_def found)
  let ?comp = "CompilationTest ''compilation'' pid ?set"
  let ?main = "SyncResultTest ''main'' pid ?comp"
  have created: "create (test_factory moved_from config load) ''testset'' (?T, pid, ''tests'') = Inr ?set"
    using made by (simp add: create_def test_factory_def registerType_def del: fun_upd_apply)
       (simp add: fun_upd_apply)
  have comp: "make_compilation config load (addTest ?T ?set) pid ''compilation'' = Inr ?comp"
    by (simp add: make_compilation_def child_test_def get_comp compilation_node_def child_def addTest_def Let_def)
  have main: "make_sync_result config load (addTest (addTest ?T ?set) ?comp) pid ''main'' = Inr ?main"
    by (simp add: make_sync_result_def child_test_def get_main sync_node_def child_def addTest_def Let_def)
  have "?build Map.empty (polygon_names n @ [''tests'', ''compilation'', ''main'']) =
      ?build ?T [''tests'', ''compilation'', ''main'']"
    by (rule build_singles [OF singles assms(4)])
  also have "\<dots> = ?build (addTest ?T ?set) [''compilation'', ''main'']"
    by (rule build_step [OF get_set]) (simp only: testset_type created)
  also have "\<dots> = ?build (addTest (addTest ?T ?set) ?comp) [''main'']"
    by (rule build_step [OF get_comp])
       (simp only: other_types created_compilation comp)
  also have "\<dots> = ?build (addTest (addTest (addTest ?T ?set) ?comp) ?main) []"
    by (rule build_step [OF get_main])
       (simp only: other_types created_sync main)
  also have "\<dots> = Inr (addTest (addTest (addTest ?T ?set) ?comp) ?main)" by simp
  finally show ?thesis by (simp add: build_def names or_default_def addTest_def)
qed

definition sample_testset :: xml where
  "sample_testset = Element ''testset'' [(''name'', ''tests'')]
     [Element ''time-limit'' [] [CData ''2000''], Element ''memory-limit'' [] [CData ''1024''],
      Element ''test-count'' [] [CData ''3'']]"

definition sample_problem :: xml where
  "sample_problem = Element ''problem'' [] [Element ''judging'' [] [sample_testset]]"

theorem polygon_package_builds_witness:
  "build (\<lambda>_. []) sample_config (\<lambda>p. if p = ''/p/7/problem.xml'' then Some [convert_problem sample_problem] else None) ''7'' =
    Inr (Some (SyncResultTest ''main'' ''7'' (CompilationTest ''compilation'' ''7''
      (Testset ''tests'' (of_nat 2000 / 1000) (of_nat 1024 / 1024) (of_nat (max (2 * 2000 mod 2 ^ 64) 5000))
         (make_builder_min ''tests'') (map (built_single (\<lambda>_. []) ''/p'' ''7'') (polygon_names 3))))))"
  unfolding sample_problem_def
  by (rule polygon_package_builds [where ts = sample_testset])
     (simp_all add: sample_testset_def child_def children_def text_ullong_def string_to_ullong_def read_unsigned_def
        is_xml_blank_def digit_of_def lookup_string_def sample_config_def path_append_def)

text \<open>
  converting a package that is missing or has no problem element, whose checker does not compile,
  or that cannot be saved, throws, and the package file is written only after everything else
  succeeded.
\<close>

theorem convert_package_outcomes:
  "case convertICPCProblemPackage load system save p w of
     (Inl e, w') \<Rightarrow>
       (load w (path_append p ''problem.xml'') = None \<and> e = RuntimeError (''Can not open'' @ p @ ''/problem.xml'') \<and> w' = w)
       \<or> (e = RuntimeError ''Problem config have not child problem'' \<and> w' = w)
       \<or> (e = RuntimeError ''Can not compile checker'' \<and> (\<exists>c rc. rc \<noteq> 0 \<and> system c w = (rc, w')))
       \<or> (e = RuntimeError ''Can not save config file'')
   | (Inr u, w') \<Rightarrow>
       (\<exists>doc problem c w1. load w (path_append p ''problem.xml'') = Some doc
          \<and> find (is_element ''problem'') doc = Some problem \<and> system c w = (0, w1)
          \<and> save (path_append p ''problem.xml'') [convert_problem problem] w1 = (True, w'))"
proof -
  consider (missing) "load w (path_append p ''problem.xml'') = None"
    | (noproblem) doc where "load w (path_append p ''problem.xml'') = Some doc" "find (is_element ''problem'') doc = None"
    | (problem) doc problem where "load w (path_append p ''problem.xml'') = Some doc"
        "find (is_element ''problem'') doc = Some problem"
    by (metis option.exhaust)
  then show ?thesis
  proof cases
    case missing
    then show ?thesis by (simp add: convertICPCProblemPackage_def io_simps)
  next
    case noproblem
    then show ?thesis by (simp add: convertICPCProblemPackage_def io_simps)
  next
    case problem
    let ?c = "''g++ -o '' @ p @ ''/checker '' @ path_append p
      (attribute_string (Option.bind (Option.bind (child (Some problem) ''assets'') (\<lambda>n. child (Some n) ''checker''))
        (\<lambda>n. child (Some n) ''source'')) ''path'') @ '' -O2 -std=c++23''"
    obtain rc w1 where rc: "system ?c w = (rc, w1)" by (cases "system ?c w")
    obtain ok w2 where save: "save (path_append p ''problem.xml'') [convert_problem problem] w1 = (ok, w2)"
      by (cases "save (path_append p ''problem.xml'') [convert_problem problem] w1")
    have eq: "convertICPCProblemPackage load system save p w =
        (if rc \<noteq> 0 then (Inl (RuntimeError ''Can not compile checker''), w1)
         else if \<not> ok then (Inl (RuntimeError ''Can not save config file''), w2) else (Inr (), w2))"
      using problem rc save by (simp add: convertICPCProblemPackage_def io_simps Let_def)
    show ?thesis
    proof (cases "rc = 0")
      case False
      then show ?thesis using rc by (simp only: eq if_True) auto
    next
      case True
      show ?thesis
      proof (cases ok)
        case True
        then show ?thesis using \<open>rc = 0\<close> problem rc save by (auto simp add: eq)
      next
        case False
        then show ?thesis using \<open>rc = 0\<close> by (simp add: eq)
      qed
    qed
  qed
qed

end
