(* ===== verification/Content_Source.thy ===== *)
theory Content_Source
  imports Content_Sync
begin

text \<open>
  A node with a content is a source of it: what a scan finds (\<open>tidy\<close>, \<open>regular_entries\<close>), the manifest it
  writes and serves, the interpretation of the locale of sources on the channel to such a node, and the
  end-to-end statement on two nodes: a synchronisation converges.
\<close>

section \<open>What a scan finds\<close>

text \<open>A tree whose files below \<open>d\<close>, except the manifest, have proper names and modes of twelve bits.\<close>

definition tidy :: "fs \<Rightarrow> place \<Rightarrow> bool" where
  "tidy w d \<longleftrightarrow> tree_ok w \<and> distinct (map fst (nodes w))
     \<and> (\<forall>cs x m s. cs \<noteq> [''manifest.json''] \<longrightarrow> node_at w (d @ cs) = Some (RegularFile x m s) \<longrightarrow>
          list_all proper_name cs \<and> m < 4096)"

lemma regular_entry_iff:
  "(f, x, m, s) \<in> set (regular_entry d (k, n)) \<longleftrightarrow>
     n = RegularFile x m s \<and> f \<noteq> ''manifest.json'' \<and> (\<exists>cs. k = d @ cs \<and> cs \<noteq> [] \<and> f = join_names cs)"
  by (cases n) (auto simp: is_prefix_append)

lemma node_in_nodes:
  assumes "distinct (map fst (nodes w))" and "k \<noteq> []"
  shows "(k, n) \<in> set (nodes w) \<longleftrightarrow> node_at w k = Some n"
  using assms by (simp add: node_at_def)

lemma regular_entries_iff:
  assumes "distinct (map fst (nodes w))"
  shows "(f, x, m, s) \<in> set (regular_entries w d) \<longleftrightarrow>
     f \<noteq> ''manifest.json'' \<and> (\<exists>cs. cs \<noteq> [] \<and> f = join_names cs \<and> node_at w (d @ cs) = Some (RegularFile x m s))"
proof -
  have "(f, x, m, s) \<in> set (regular_entries w d) \<longleftrightarrow> (\<exists>k n. (k, n) \<in> set (nodes w) \<and> (f, x, m, s) \<in> set (regular_entry d (k, n)))"
    by (auto simp: regular_entries_def)
  also have "\<dots> \<longleftrightarrow> f \<noteq> ''manifest.json'' \<and> (\<exists>cs. cs \<noteq> [] \<and> f = join_names cs \<and> (d @ cs, RegularFile x m s) \<in> set (nodes w))"
    unfolding regular_entry_iff by blast
  finally show ?thesis by (auto simp: node_in_nodes [OF assms])
qed

lemma content_files_entries:
  assumes "tidy w d"
  shows "content_files w d f = Some (x, m) \<longleftrightarrow> (\<exists>s. (f, x, m, s) \<in> set (regular_entries w d))"
proof -
  have keys: "distinct (map fst (nodes w))" using assms by (simp add: tidy_def)
  have proper: "list_all proper_name cs" if "node_at w (d @ cs) = Some (RegularFile x m s)" "join_names cs \<noteq> ''manifest.json''" for cs s
    using assms that unfolding tidy_def by (metis join_names.simps(2))
  show ?thesis
  proof
    assume "content_files w d f = Some (x, m)"
    then obtain s where "proper_path f" "f \<noteq> ''manifest.json''" "node_at w (d @ comps f) = Some (RegularFile x m s)"
      by (auto simp: content_files_def split: if_splits option.splits node.splits)
    then show "\<exists>s. (f, x, m, s) \<in> set (regular_entries w d)"
      unfolding regular_entries_iff [OF keys] proper_path_def by blast
  next
    assume "\<exists>s. (f, x, m, s) \<in> set (regular_entries w d)"
    then obtain cs s where cs: "f \<noteq> ''manifest.json''" "cs \<noteq> []" "f = join_names cs" "node_at w (d @ cs) = Some (RegularFile x m s)"
      unfolding regular_entries_iff [OF keys] by blast
    then have "comps f = cs" using comps_join proper by blast
    with cs proper show "content_files w d f = Some (x, m)" by (simp add: content_files_def proper_path_def)
  qed
qed

lemma regular_entries_distinct:
  assumes "tidy w d"
  shows "distinct (map fst (regular_entries w d))"
proof -
  have "distinct (map fst ns) \<Longrightarrow> \<forall>cs. (\<exists>n. (d @ cs, n) \<in> set ns \<and> n \<noteq> Directory) \<longrightarrow> cs \<noteq> [] \<longrightarrow> cs \<noteq> [''manifest.json''] \<longrightarrow> list_all proper_name cs \<Longrightarrow>
      distinct (map fst (concat (map (regular_entry d) ns)))" for ns
  proof (induction ns)
    case Nil
    then show ?case by simp
  next
    case (Cons e ns)
    obtain k n where e: "e = (k, n)" by (cases e)
    have IH: "distinct (map fst (concat (map (regular_entry d) ns)))" using Cons by auto
    have single: "distinct (map fst (regular_entry d e))" by (cases n) (simp_all add: e)
    have "fst ` set (regular_entry d e) \<inter> fst ` set (concat (map (regular_entry d) ns)) = {}"
    proof (rule ccontr)
      assume "fst ` set (regular_entry d e) \<inter> fst ` set (concat (map (regular_entry d) ns)) \<noteq> {}"
      then obtain f a b where f: "(f, a) \<in> set (regular_entry d e)" "(f, b) \<in> set (concat (map (regular_entry d) ns))" by fastforce
      obtain x m s where a: "a = (x, m, s)" by (cases a)
      obtain y l r where b: "b = (y, l, r)" by (cases b)
      from f(1) obtain cs where cs: "n = RegularFile x m s" "k = d @ cs" "cs \<noteq> []" "f = join_names cs" "f \<noteq> ''manifest.json''"
        unfolding a e regular_entry_iff by blast
      from f(2) obtain k' n' where k': "(k', n') \<in> set ns" "(f, y, l, r) \<in> set (regular_entry d (k', n'))"
        unfolding b by auto
      then obtain ds where ds: "n' = RegularFile y l r" "k' = d @ ds" "ds \<noteq> []" "f = join_names ds"
        unfolding regular_entry_iff by blast
      have "cs \<noteq> [''manifest.json'']" "ds \<noteq> [''manifest.json'']" using cs(4,5) ds(4) by auto
      moreover have "(d @ cs, n) \<in> set (e # ns)" "(d @ ds, n') \<in> set (e # ns)" using e cs(2) ds(2) k'(1) by simp_all
      ultimately have "list_all proper_name cs" "list_all proper_name ds"
        using Cons.prems(2) cs(1,3) ds(1,3) by (metis node.distinct(1))+
      then have "cs = ds" using join_names_inject cs(4) ds(4) by blast
      then have "k \<in> fst ` set ns" using cs(2) ds(2) k'(1) by force
      with Cons.prems(1) e show False by simp
    qed
    then have "distinct (map fst (regular_entry d e) @ map fst (concat (map (regular_entry d) ns)))"
      unfolding distinct_append set_map using single IH by blast
    then show ?case by simp
  qed
  moreover have "\<forall>cs. (\<exists>n. (d @ cs, n) \<in> set (nodes w) \<and> n \<noteq> Directory) \<longrightarrow> cs \<noteq> [] \<longrightarrow> cs \<noteq> [''manifest.json''] \<longrightarrow> list_all proper_name cs"
  proof clarify
    fix cs n assume n: "(d @ cs, n) \<in> set (nodes w)" "n \<noteq> Directory" "cs \<noteq> []" "cs \<noteq> [''manifest.json'']"
    moreover have "distinct (map fst (nodes w))" using assms by (simp add: tidy_def)
    ultimately have "node_at w (d @ cs) = Some n" using node_in_nodes [of w "d @ cs" n] by simp
    moreover obtain x m s where "n = RegularFile x m s" using n(2) by (cases n) auto
    ultimately show "list_all proper_name cs" using assms n(4) unfolding tidy_def by blast
  qed
  ultimately show ?thesis using assms unfolding regular_entries_def tidy_def by blast
qed

lemma ascending_put_member:
  fixes m :: "(string \<times> json) list"
  shows "sorted_wrt (<) (map fst m) \<Longrightarrow> sorted_wrt (<) (map fst (put_member k v m))"
proof (induction k v m rule: put_member.induct)
  case (2 k v l w m)
  then show ?case
    using fst_put_member [of k v m] by (auto simp: image_iff)
qed simp

lemma ascending_full: "sorted_wrt (<) (map fst (full_files env es))"
proof -
  have "sorted_wrt (<) (map fst acc) \<Longrightarrow> sorted_wrt (<) (map fst (fold (\<lambda>e m. put_member (fst e) (g e) m) es acc))"
    for g :: "string \<times> string \<times> nat \<times> int \<Rightarrow> json" and acc
    by (induction es arbitrary: acc) (simp_all add: ascending_put_member)
  from this [of "[]"] show ?thesis by (simp add: full_files_def)
qed

lemma distinct_full: "distinct (map fst (full_files env es))"
  using ascending_full strict_sorted_iff by blast

section \<open>A manifest describes what was scanned\<close>

lemma files_object_iff: "files_object j \<longleftrightarrow> (\<forall>f. files_of j = Some f \<longrightarrow> (\<exists>a. f = JObject a \<and> distinct (map fst a)))"
  by (auto simp: files_object_def split: option.splits json.splits)

lemma files_object_norm:
  assumes "json_norm i = json_norm j" and "files_object j"
  shows "files_object i"
  unfolding files_object_iff
proof (intro allI impI)
  fix f
  assume f: "files_of i = Some f"
  then obtain g where g: "files_of j = Some g" "json_norm f = json_norm g"
    using json_norm_members [OF assms(1), of "''files''"] unfolding files_of_def
    by (cases "map_of (members j) ''files''") auto
  then obtain b where b: "g = JObject b" "distinct (map fst b)" using assms(2) unfolding files_object_iff by blast
  then obtain a where a: "f = JObject a" using g(2) json_norm_object [of f] by auto
  have "map fst (map (\<lambda>e. (fst e, json_norm (snd e))) a) = map fst (map (\<lambda>e. (fst e, json_norm (snd e))) b)"
    using g(2) unfolding a b(1) by simp
  then have "map fst a = map fst b" by (simp add: comp_def)
  with a b(2) show "\<exists>a. f = JObject a \<and> distinct (map fst a)" by simp
qed

lemma uint32_mode:
  assumes "json_norm v = json_norm (JUnsigned m)" and "m < 4096"
  shows "rbind (get_uint32 v) (\<lambda>k. Inr (unat k)) = Inr m"
proof -
  have mode: "unat (of_nat m :: uint32) = m" using assms(2) by (simp add: unat_of_nat take_bit_nat_eq_self)
  have "get_uint32 v = Inr (of_nat m)"
  proof (cases v)
    case (JInteger i)
    with assms(1) have "i = int m" by simp
    with JInteger show ?thesis by simp
  next
    case (JFloat x)
    with assms(1) have "x = of_nat m" by simp
    then have "truncate_rat x = int m" by (simp add: truncate_rat_def)
    with JFloat show ?thesis by simp
  qed (use assms(1) in simp_all)
  with mode show ?thesis by simp
qed

lemma stored_scan: "stored_file (manifest_of (full_files env es)) f = map_of (full_files env es) f"
  by (rule stored_full)

lemma describes_scan:
  assumes norm: "json_norm j = json_norm (manifest_of (full_files env es))" and distinct: "distinct (map fst es)"
    and files: "\<And>f x m. files f = Some (x, m) \<longleftrightarrow> (\<exists>s. (f, x, m, s) \<in> set es)"
    and modes: "\<And>f x m. files f = Some (x, m) \<Longrightarrow> m < 4096"
  shows "describes (sha256 env) j files"
  unfolding describes_def
proof (intro conjI allI impI)
  have "files_object (manifest_of (full_files env es))"
    using distinct_full by (auto simp: files_object_iff files_of_def manifest_of_def)
  then show "files_object j" using files_object_norm norm by blast
next
  fix f
  have same: "map_option json_norm (stored_file j f) = map_option json_norm (map_of (full_files env es) f)"
    using stored_file_norm [OF norm, of f] by (simp add: stored_full)
  have entry: "\<exists>info s. stored_file j f = Some info \<and> json_norm info = json_norm (file_json x m s (JString (sha256 env x)))"
    if "files f = Some (x, m)" for x m
  proof -
    from that have "\<exists>s. (f, x, m, s) \<in> set es" unfolding files .
    then obtain s where "(f, x, m, s) \<in> set es" by blast
    then have "map_of (full_files env es) f = Some (file_json x m s (JString (sha256 env x)))"
      using full_files_lookup [OF distinct] by blast
    with same show ?thesis by auto
  qed
  have field: "map_option json_norm (map_of (members info) k) = map_option json_norm (map_of (members (file_json x m s h)) k)"
    if "json_norm info = json_norm (file_json x m s h)" for info x m s h k
    using json_norm_members [OF that] .
  show "entry_ok (sha256 env) (files f) (stored_file j f)"
  proof (cases "files f")
    case None
    have "map_of (full_files env es) f = None"
    proof (rule ccontr)
      assume "map_of (full_files env es) f \<noteq> None"
      then obtain x m s where "(f, x, m, s) \<in> set es" using full_files_lookup [OF distinct] by blast
      with files None show False by (metis option.distinct(1))
    qed
    with same None show ?thesis by (simp add: entry_ok_None)
  next
    case (Some xm)
    obtain x m where xm: "xm = (x, m)" by (cases xm)
    from entry [of x m] Some xm obtain info s where info: "stored_file j f = Some info"
      "json_norm info = json_norm (file_json x m s (JString (sha256 env x)))" by blast
    have "map_option json_norm (map_of (members info) ''sha256'') = Some (JString (sha256 env x))"
      "map_option json_norm (map_of (members info) ''permissions'') = Some (json_norm (JUnsigned m))"
      unfolding field [OF info(2)] by (simp_all add: file_json_def)
    then show ?thesis using info(1) unfolding Some xm entry_ok_Some
      by (auto simp: getEntryField_def json_eq_def)
  qed
  show "getPermissionsFromManifest j f = Inr m" if "files f = Some (x, m)" for x m
  proof -
    from entry [OF that] obtain info s where info: "stored_file j f = Some info"
      "json_norm info = json_norm (file_json x m s (JString (sha256 env x)))" by blast
    have "map_option json_norm (map_of (members info) ''permissions'') = Some (json_norm (JUnsigned m))"
      unfolding field [OF info(2)] by (simp add: file_json_def)
    then obtain v where "map_of (members info) ''permissions'' = Some v" "json_norm v = json_norm (JUnsigned m)" by blast
    then show ?thesis using info(1) uint32_mode modes [OF that] by (simp add: getPermissionsFromManifest_def)
  qed
qed

lemma keys_put: "distinct (map fst (nodes w)) \<Longrightarrow> distinct (map fst (nodes (put_node k x w)))"
  by (auto simp: put_node_def distinct_map_filter)

lemma keys_create_dirs: "distinct (map fst (nodes w)) \<Longrightarrow> distinct (map fst (nodes (snd (create_dirs w made k cs))))"
  by (induction w made k cs rule: create_dirs.induct) (simp_all add: keys_put)

lemma keys_createDirectory:
  assumes "distinct (map fst (nodes w))"
  shows "distinct (map fst (nodes (snd (createDirectoryIfNotExists p w))))"
proof -
  obtain r v where "create_dirs w False (origin w p) (names p) = (r, v)" by fastforce
  moreover from this have "distinct (map fst (nodes v))" using keys_create_dirs [OF assms, of False "origin w p" "names p"] by simp
  ultimately show ?thesis using assms
    by (simp add: createDirectoryIfNotExists_def create_directories_def split: option.split)
qed

lemma keys_store:
  assumes "distinct (map fst (nodes w))"
  shows "distinct (map fst (nodes (snd (storeFile p content w))))"
proof -
  obtain q v where v: "createDirectoryIfNotExists (parent_path p) w = (q, v)" by fastforce
  have kv: "distinct (map fst (nodes v))" using keys_createDirectory [OF assms, of "parent_path p"] v by simp
  have open_keys: "distinct (map fst (nodes (snd (open_new p v))))"
    by (auto simp: open_new_def kv keys_put split: option.split node.split)
  obtain q' u where u: "createFileIfNotExists p w = (q', u)" by fastforce
  have ku: "distinct (map fst (nodes u))"
    using u v kv open_keys assms
    by (auto simp: createFileIfNotExists_def io_bind_def io_return_def split: sum.splits if_splits)
  have "distinct (map fst (nodes (snd (write_file p content u))))"
    by (auto simp: write_file_def ku keys_put split: option.split node.split)
  with u ku show ?thesis by (simp add: storeFile_def io_bind_def io_lift_def split: sum.split)
qed

section \<open>A node with a content\<close>

text \<open>The manifest of the files below \<open>d\<close>, and that its text reads back as a value that compares equal.\<close>

definition scan_of :: "content_env \<Rightarrow> fs \<Rightarrow> place \<Rightarrow> json" where
  "scan_of env w d = manifest_of (full_files env (regular_entries w d))"

definition reads_back :: "content_env \<Rightarrow> json \<Rightarrow> bool" where
  "reads_back env j \<longleftrightarrow> (\<exists>i. parse_json env (dump_json env j) = Some i \<and> json_norm i = json_norm j)"

lemma full_files_same:
  assumes "distinct (map fst es)" and "distinct (map fst es')" and "set es = set es'"
  shows "full_files env es = full_files env es'"
proof -
  have keys: "sorted (map fst (full_files env e))" "distinct (map fst (full_files env e))" for e
    using ascending_full strict_sorted_iff by blast+
  have same: "set (full_files env es) = set (full_files env es')"
  proof (intro set_eqI)
    fix e :: "string \<times> json"
    obtain f v where e: "e = (f, v)" by (cases e)
    have "map_of (full_files env es) f = Some v \<longleftrightarrow> map_of (full_files env es') f = Some v"
      using full_files_lookup [OF assms(1)] full_files_lookup [OF assms(2)] assms(3) by metis
    then show "e \<in> set (full_files env es) \<longleftrightarrow> e \<in> set (full_files env es')"
      unfolding e map_of_eq_Some_iff [OF keys(2)] .
  qed
  have "inj_on fst (set (full_files env es) \<union> set (full_files env es'))"
    using keys(2) [of es] unfolding same by (simp add: same [symmetric] distinct_map)
  then show ?thesis by (rule map_sorted_distinct_set_unique [OF _ keys keys same])
qed

text \<open>The hashes a cached scan would copy are those of the files.\<close>

definition stored_valid :: "content_env \<Rightarrow> string \<Rightarrow> string \<Rightarrow> fs \<Rightarrow> place \<Rightarrow> bool" where
  "stored_valid env t c w d \<longleftrightarrow>
     (\<forall>(f, x, m, s) \<in> set (regular_entries w d).
        cached_hash env (storedManifestToJson env w t c) f x s = Inr (JString (sha256 env x)))"

text \<open>
  A node where the content \<open>c\<close> of type \<open>t\<close> is in the directory \<open>d\<close>, and the next scan is a full one or
  may rely on the stored manifest.
\<close>

definition content_ready :: "content_env \<Rightarrow> string \<Rightarrow> string \<Rightarrow> content_node \<Rightarrow> place \<Rightarrow> bool" where
  "content_ready env t c n d \<longleftrightarrow>
     (\<exists>p. getPathToContentDirectory env t c = Inr p \<and> locate (node_files n) p = Some d \<and> ''..'' \<notin> set (comps p))
     \<and> node_at (node_files n) d = Some Directory \<and> tidy (node_files n) d
     \<and> node_at (node_files n) (d @ [''manifest.json'']) \<noteq> Some Directory
     \<and> reads_back env (scan_of env (node_files n) d)
     \<and> (\<exists>key sc. getManifest env (node_manifests n) t c = Inr (key, sc) \<and> scanner_type sc = t \<and> scanner_id sc = c
          \<and> (clock (node_files n) - last_full_rescan sc \<ge> truncate_rat (full_rescan_interval sc * 1000)
             \<or> stored_valid env t c (node_files n) d))"

lemma scan_ready:
  assumes "getPathToContentDirectory env (scanner_type sc) (scanner_id sc) = Inr p" and "locate w p = Some d"
    and "node_at w d = Some Directory"
    and "clock w - last_full_rescan sc \<ge> truncate_rat (full_rescan_interval sc * 1000)
      \<or> stored_valid env (scanner_type sc) (scanner_id sc) w d"
  shows "\<exists>sc'. scanContent env sc w = (Inr (manifest_of (full_files env (regular_entries w d))), sc', w)
    \<and> scanner_type sc' = scanner_type sc \<and> scanner_id sc' = scanner_id sc"
proof -
  have made: "createDirectoryIfNotExists p w = (Inr True, w)"
    using assms(2) by (simp add: createDirectoryIfNotExists_def fs_exists_def)
  have scan: "scan_directory env hash sc w =
      (rbind (collect_files (hash w) (regular_entries w d) []) (\<lambda>files. Inr (manifest_of files)), w)" for hash
    using assms(1-3) made by (simp add: scan_directory_def io_bind_def io_lift_def)
  have full: "collect_files (\<lambda>rel t s. Inr (JString (sha256 env t))) (regular_entries w d) [] = Inr (full_files env (regular_entries w d))"
    unfolding full_files_def by (rule collect_files_Inr) simp
  have cached: "collect_files (cached_hash env (storedManifestToJson env w (scanner_type sc) (scanner_id sc))) (regular_entries w d) [] =
      Inr (full_files env (regular_entries w d))" if "stored_valid env (scanner_type sc) (scanner_id sc) w d"
    unfolding full_files_def by (rule collect_files_Inr) (use that in \<open>auto simp: stored_valid_def\<close>)
  show ?thesis
  proof (cases "clock w - last_full_rescan sc \<ge> truncate_rat (full_rescan_interval sc * 1000)")
    case True
    then show ?thesis by (simp add: scanContent_def fullContentScan_def scan full)
  next
    case False
    then show ?thesis using assms(4) cached by (simp add: scanContent_def scanContentWithCache_def scan)
  qed
qed

text \<open>Writing the manifest changes nothing but the manifest.\<close>

lemma store_manifest:
  assumes "locate w p = Some d" and "node_at w d = Some Directory" and "tidy w d"
    and "node_at w (d @ [''manifest.json'']) \<noteq> Some Directory"
  obtains w' m where "storeFile (path_append p ''manifest.json'') content w = (Inr (), w')" "locate w' p = Some d"
    "node_at w' (d @ [''manifest.json'']) = Some (RegularFile content m (clock w))" "tidy w' d"
    "\<And>l. l \<noteq> d @ [''manifest.json''] \<Longrightarrow> node_at w' l = node_at w l" "clock w' = clock w"
proof -
  have name: "list_all proper_name ([] @ [''manifest.json''])" by (simp add: proper_name_def)
  have tree: "tree_ok w" using assms(3) by (simp add: tidy_def)
  have free: "free_way w d []" "node_at w (d @ [] @ [''manifest.json'']) \<noteq> Some Directory"
    using assms(2,4) by (auto simp: free_way_def is_prefix_append)
  show ?thesis
  proof (rule storeFile_proper [OF tree assms(1,2) name free, of content])
    fix w' m
    assume w': "storeFile (path_append p (join_names ([] @ [''manifest.json'']))) content w = (Inr (), w')"
      "node_at w' (d @ [] @ [''manifest.json'']) = Some (RegularFile content m (clock w))" "tree_ok w'" "locate w' p = Some d"
      "clock w' = clock w"
      and other: "\<And>l. l \<noteq> d @ [] @ [''manifest.json''] \<Longrightarrow> node_at w' l = node_at w l
        \<or> (is_prefix l (d @ [] @ [''manifest.json'']) \<and> node_at w l = None \<and> node_at w' l = Some Directory)"
    have same: "node_at w' l = node_at w l" if "l \<noteq> d @ [''manifest.json'']" for l
    proof (rule ccontr)
      assume "node_at w' l \<noteq> node_at w l"
      with other [of l] that have l: "is_prefix l (d @ [''manifest.json''])" "node_at w l = None" by auto
      then have "is_prefix l d" using that by (auto simp: is_prefix_append append_eq_append_conv2 append_eq_Cons_conv Cons_eq_append_conv)
      then obtain r where "d = l @ r" by (auto simp: is_prefix_append)
      with tree_ok_none_below [OF tree l(2), of r] assms(2) show False by simp
    qed
    have "distinct (map fst (nodes w'))"
      using keys_store [of w "path_append p ''manifest.json''" content] assms(3) w'(1) by (simp add: tidy_def)
    moreover have "list_all proper_name cs \<and> k < 4096"
      if "cs \<noteq> [''manifest.json'']" "node_at w' (d @ cs) = Some (RegularFile x k s)" for cs x k s
    proof -
      have "node_at w (d @ cs) = Some (RegularFile x k s)" using same [of "d @ cs"] that by simp
      with assms(3) that(1) show ?thesis unfolding tidy_def by blast
    qed
    ultimately have "tidy w' d" unfolding tidy_def using w'(3) by blast
    with w' same show ?thesis using that [of w' m] by simp
  qed
qed


lemma manifest_written:
  assumes "content_ready env t c n d" and "getManifest env (node_manifests n) t c = Inr (key, sc)"
  obtains sc' w' p i where
    "updateManifest env sc (node_files n) = (Inr (), sc', w')"
    "getPathToManifestFile env sc' = Inr (path_append p ''manifest.json'')"
    "loadFile w' (path_append p ''manifest.json'') =
       Inr (dump_json env (scan_of env (node_files n) d))"
    "storedManifestToJson env w' (scanner_type sc') (scanner_id sc') = i"
    "parse_json env (dump_json env (scan_of env (node_files n) d)) = Some i"
    "json_norm i = json_norm (scan_of env (node_files n) d)"
    "content_ready env t c (n\<lparr>node_files := w', node_manifests := (node_manifests n)(key \<mapsto> sc')\<rparr>) d"
    "content_files w' d = content_files (node_files n) d"
    "\<And>l. l \<noteq> d @ [''manifest.json''] \<Longrightarrow> node_at w' l = node_at (node_files n) l"
proof -
  let ?w = "node_files n" and ?j = "scan_of env (node_files n) d"
  from assms(1) obtain p where p: "getPathToContentDirectory env t c = Inr p" "locate ?w p = Some d" "''..'' \<notin> set (comps p)"
    and dir: "node_at ?w d = Some Directory" "tidy ?w d" "node_at ?w (d @ [''manifest.json'']) \<noteq> Some Directory"
    and json: "reads_back env ?j"
    unfolding content_ready_def by blast
  from assms have sc: "scanner_type sc = t" "scanner_id sc = c"
    "clock ?w - last_full_rescan sc \<ge> truncate_rat (full_rescan_interval sc * 1000) \<or> stored_valid env t c ?w d"
    unfolding content_ready_def by auto
  have valid: "clock ?w - last_full_rescan sc \<ge> truncate_rat (full_rescan_interval sc * 1000)
      \<or> stored_valid env (scanner_type sc) (scanner_id sc) ?w d" using sc by simp
  have at: "getPathToContentDirectory env (scanner_type sc) (scanner_id sc) = Inr p" using p(1) sc by simp
  obtain sc' where sc': "scanContent env sc ?w = (Inr ?j, sc', ?w)" "scanner_type sc' = t" "scanner_id sc' = c"
    using scan_ready [OF at p(2) dir(1) valid] sc unfolding scan_of_def by auto
  obtain i where i: "parse_json env (dump_json env ?j) = Some i" "json_norm i = json_norm ?j"
    using json unfolding reads_back_def by blast
  show ?thesis
  proof (rule store_manifest [OF p(2) dir, of "dump_json env ?j"])
    fix w' m
    assume w': "storeFile (path_append p ''manifest.json'') (dump_json env ?j) ?w = (Inr (), w')" "locate w' p = Some d"
      "node_at w' (d @ [''manifest.json'']) = Some (RegularFile (dump_json env ?j) m (clock ?w))" "tidy w' d"
      and same: "\<And>l. l \<noteq> d @ [''manifest.json''] \<Longrightarrow> node_at w' l = node_at ?w l"
      and clk: "clock w' = clock ?w"
    have update: "updateManifest env sc ?w = (Inr (), sc', w')"
      using p(1) sc(1,2) sc'(1) w'(1) by (simp add: updateManifest_def getPathToManifestFile_def)
    have path: "getPathToManifestFile env sc' = Inr (path_append p ''manifest.json'')"
      using p(1) sc'(2,3) by (simp add: getPathToManifestFile_def)
    have name: "list_all proper_name [''manifest.json'']" by (simp add: proper_name_def)
    have "locate w' (path_append p ''manifest.json'') = Some (d @ [''manifest.json''])"
      using locate_below [OF w'(2) _ name] w'(3,4) by (simp add: tidy_def)
    then have load: "loadFile w' (path_append p ''manifest.json'') = Inr (dump_json env ?j)"
      using w'(3) by (simp add: loadFile_def node_of_def)
    have stored: "storedManifestToJson env w' (scanner_type sc') (scanner_id sc') = i"
      using p(1) sc'(2,3) load i(1) by (simp add: storedManifestToJson_def)
    have files: "content_files w' d = content_files ?w d"
    proof
      fix f
      have "d @ comps f \<noteq> d @ [''manifest.json'']" if "proper_path f" "f \<noteq> ''manifest.json''"
        using that by (auto simp: proper_path_def)
      then show "content_files w' d f = content_files ?w d f" using same by (simp add: content_files_def)
    qed
    have keys: "distinct (map fst (nodes w'))" "distinct (map fst (nodes ?w))" using w'(4) dir(2) by (simp_all add: tidy_def)
    have entries: "(f, x, m, s) \<in> set (regular_entries w' d) \<longleftrightarrow> (f, x, m, s) \<in> set (regular_entries ?w d)" for f x m s
    proof -
      have "node_at w' (d @ cs) = node_at ?w (d @ cs)" if "f \<noteq> ''manifest.json''" "f = join_names cs" for cs
      proof -
        have "cs \<noteq> [''manifest.json'']"
        proof
          assume "cs = [''manifest.json'']"
          then have "join_names cs = ''manifest.json''" by simp
          with that show False by blast
        qed
        then have "d @ cs \<noteq> d @ [''manifest.json'']" by blast
        then show ?thesis by (rule same)
      qed
      then show ?thesis unfolding regular_entries_iff [OF keys(1)] regular_entries_iff [OF keys(2)] by metis
    qed
    have "set (regular_entries w' d) = set (regular_entries ?w d)"
    proof (intro set_eqI)
      fix e :: "string \<times> string \<times> nat \<times> int"
      obtain f x m s where "e = (f, x, m, s)" by (cases e)
      then show "e \<in> set (regular_entries w' d) \<longleftrightarrow> e \<in> set (regular_entries ?w d)" using entries by blast
    qed
    then have "scan_of env w' d = ?j"
      unfolding scan_of_def using full_files_same regular_entries_distinct [OF dir(2)] regular_entries_distinct [OF w'(4)] by metis
    have "changes_visible (regular_entries ?w d) (regular_entries w' d)"
      unfolding changes_visible_def
    proof clarify
      fix f x m s y k r
      assume "(f, x, m, s) \<in> set (regular_entries ?w d)" "(f, y, k, r) \<in> set (regular_entries w' d)"
      then have "(f, y, k, r) \<in> set (regular_entries ?w d)" using entries by blast
      with \<open>(f, x, m, s) \<in> set (regular_entries ?w d)\<close> regular_entries_distinct [OF dir(2)] show "x = y"
        by (metis eq_key_imp_eq_value fst_conv)
    qed
    then have "stored_valid env t c w' d"
      unfolding stored_valid_def using cached_hash_visible [OF regular_entries_distinct [OF dir(2)]] i(2) stored sc'(2,3)
      unfolding scan_of_def by auto
    moreover have "getManifest env ((node_manifests n)(key \<mapsto> sc')) t c = Inr (key, sc')"
      using assms(2) by (auto simp: getManifest_def rbind_eq_Inr split: option.splits)
    moreover have "node_at w' d = Some Directory" using same [of d] dir(1) by simp
    ultimately have ready: "content_ready env t c (n\<lparr>node_files := w', node_manifests := (node_manifests n)(key \<mapsto> sc')\<rparr>) d"
      unfolding content_ready_def using p(1,3) w'(2,3,4) json sc'(2,3) \<open>scan_of env w' d = ?j\<close> by simp
    show ?thesis by (rule that [OF update path load stored i ready files same])
  qed
qed

lemma content_files_describes:
  assumes "tidy w d" and "json_norm j = json_norm (scan_of env w d)"
  shows "describes (sha256 env) j (content_files w d)"
proof (rule describes_scan [OF assms(2) [unfolded scan_of_def] regular_entries_distinct [OF assms(1)]])
  fix f x m
  show "content_files w d f = Some (x, m) \<longleftrightarrow> (\<exists>s. (f, x, m, s) \<in> set (regular_entries w d))"
    by (rule content_files_entries [OF assms(1)])
  assume "content_files w d f = Some (x, m)"
  then obtain s where "proper_path f" "f \<noteq> ''manifest.json''" "node_at w (d @ comps f) = Some (RegularFile x m s)"
    by (auto simp: content_files_def split: if_splits option.splits node.splits)
  then have "comps f \<noteq> [''manifest.json'']" by (auto simp: proper_path_def)
  with assms(1) \<open>node_at w (d @ comps f) = _\<close> show "m < 4096" unfolding tidy_def by blast
qed

lemma content_files_ok:
  assumes "tidy w d"
  shows "served_ok (content_files w d)"
  unfolding served_ok_def
proof (intro ballI conjI impI)
  fix f
  assume "f \<in> dom (content_files w d)"
  then obtain x m s where f: "proper_path f" "f \<noteq> ''manifest.json''" "content_files w d f = Some (x, m)"
    "node_at w (d @ comps f) = Some (RegularFile x m s)"
    by (auto simp: content_files_def split: if_splits option.splits node.splits)
  show "proper_path f" by (rule f(1))
  show "f \<noteq> ''manifest.json''" by (rule f(2))
  have "comps f \<noteq> [''manifest.json'']" using f(1,2) by (auto simp: proper_path_def)
  with assms f(4) have "m < 4096" unfolding tidy_def by blast
  with f(3) show "snd (the (content_files w d f)) < 4096" by simp
  fix g
  assume "g \<in> dom (content_files w d)" and below: "is_prefix (comps f) (comps g)"
  then obtain y k r where g: "proper_path g" "node_at w (d @ comps g) = Some (RegularFile y k r)"
    by (auto simp: content_files_def split: if_splits option.splits node.splits)
  obtain rs where rs: "comps g = comps f @ rs" using below by (auto simp: is_prefix_append)
  have "rs = []"
  proof (rule ccontr)
    assume "rs \<noteq> []"
    have "tree_ok w" using assms by (simp add: tidy_def)
    from tree_ok_file_above [OF this f(4) \<open>rs \<noteq> []\<close>] g(2) rs show False by simp
  qed
  then show "f = g" using proper_path_inject f(1) g(1) rs by simp
qed

text \<open>The two calls on the manifest of a content that is ready.\<close>

lemma ready_manifest:
  assumes "content_ready env t c n d"
  obtains n' i where "with_manifest env t c manifest_toString n = (Inr (dump_json env (scan_of env (node_files n) d)), n')"
    "with_manifest env t c manifest_toJson n = (Inr i, n')"
    "parse_json env (dump_json env (scan_of env (node_files n) d)) = Some i"
    "describes (sha256 env) i (content_files (node_files n) d)"
    "content_ready env t c n' d" "content_files (node_files n') d = content_files (node_files n) d"
    "\<And>l. l \<noteq> d @ [''manifest.json''] \<Longrightarrow> node_at (node_files n') l = node_at (node_files n) l"
proof -
  obtain key sc where get: "getManifest env (node_manifests n) t c = Inr (key, sc)"
    using assms unfolding content_ready_def by blast
  show ?thesis
  proof (rule manifest_written [OF assms get])
    fix sc' w' p i
    assume w': "updateManifest env sc (node_files n) = (Inr (), sc', w')"
      "getPathToManifestFile env sc' = Inr (path_append p ''manifest.json'')"
      "loadFile w' (path_append p ''manifest.json'') = Inr (dump_json env (scan_of env (node_files n) d))"
      "storedManifestToJson env w' (scanner_type sc') (scanner_id sc') = i"
      and i: "parse_json env (dump_json env (scan_of env (node_files n) d)) = Some i"
      "json_norm i = json_norm (scan_of env (node_files n) d)"
      and ready: "content_ready env t c (n\<lparr>node_files := w', node_manifests := (node_manifests n)(key \<mapsto> sc')\<rparr>) d"
      and files: "content_files w' d = content_files (node_files n) d"
      and same: "\<And>l. l \<noteq> d @ [''manifest.json''] \<Longrightarrow> node_at w' l = node_at (node_files n) l"
    let ?n = "n\<lparr>node_files := w', node_manifests := (node_manifests n)(key \<mapsto> sc')\<rparr>"
    have "with_manifest env t c manifest_toString n = (Inr (dump_json env (scan_of env (node_files n) d)), ?n)"
      using get w'(1-3) by (simp add: with_manifest_def manifest_toString_def)
    moreover have "with_manifest env t c manifest_toJson n = (Inr i, ?n)"
      using get w'(1,4) by (simp add: with_manifest_def manifest_toJson_def)
    moreover have "describes (sha256 env) i (content_files (node_files n) d)"
      using assms i(2) by (intro content_files_describes) (simp_all add: content_ready_def)
    ultimately show ?thesis using that [of ?n i] i(1) ready files same by simp
  qed
qed

section \<open>Requests for a file of the content\<close>

lemma content_directory_path:
  assumes "getPathToContentDirectory env t c = Inr p" and "locate w p = Some d"
  shows "getPathToContent env w t c = Inr (Some p)"
proof -
  from assms(1) obtain r base where "getContentDirectory (content_config env) t = Inr r" "required r = Inr base" "p = path_append base c"
    by (auto simp: getPathToContentDirectory_def rbind_eq_Inr)
  moreover from this have "r = Some base" by (cases r) (simp_all add: requireHasValue_def)
  ultimately show ?thesis using assms(2) by (simp add: getPathToContent_def fs_exists_def Let_def)
qed

lemma check_proper:
  assumes "getPathToContent env w t c = Inr (Some p)" and "locate w p = Some d" and "t \<noteq> []" and "c \<noteq> []"
    and "tree_ok w" and "proper_path f"
    and "b \<Longrightarrow> \<exists>x m s. node_at w (d @ comps f) = Some (RegularFile x m s)"
  shows "checkFullFilePath env w t c f b = Inr StatusOK"
    and "b \<Longrightarrow> getFullPath env w t c f = Inr (Some (path_append p f))"
    and "locate w (path_append p f) = (if node_at w (d @ comps f) = None then None else Some (d @ comps f))"
proof -
  obtain ds y where f: "comps f = ds @ [y]" "list_all proper_name (ds @ [y])" "f = join_names (ds @ [y])"
    using assms(6) by (rule proper_pathE)
  show place: "locate w (path_append p f) = (if node_at w (d @ comps f) = None then None else Some (d @ comps f))"
    using locate_below [OF assms(2,5) f(2)] f(1,3) by simp
  have canonical: "weakly_canonical w (path_append p f) = d @ comps f" "weakly_canonical w p = d"
    using canonical_below [OF assms(2) f(2)] f(1,3) locate_canonical [OF assms(2)] by simp_all
  have names: "f \<noteq> []" "\<not> is_absolute f" using join_names_ends [OF f(2)] f(3) by simp_all
  show full: "getFullPath env w t c f = Inr (Some (path_append p f))" if b
    using assms(1) assms(7) [OF that] place by (auto simp: getFullPath_def fs_exists_def)
  show "checkFullFilePath env w t c f b = Inr StatusOK"
  proof (cases b)
    case True
    with full assms(7) place have "is_regular_file w (path_append p f)" by (auto simp: is_regular_file_def node_of_def)
    with True full show ?thesis using assms(1,3,4) names canonical by (simp add: checkFullFilePath_def Let_def is_prefix_append)
  next
    case False
    then show ?thesis using assms(1,3,4) names canonical by (simp add: checkFullFilePath_def Let_def is_prefix_append)
  qed
qed

section \<open>The channel to a node with a content\<close>

definition serves_content :: "content_env \<Rightarrow> string \<Rightarrow> string \<Rightarrow> content_node \<Rightarrow> files \<Rightarrow> bool" where
  "serves_content env t c n srv \<longleftrightarrow>
     t \<noteq> [] \<and> c \<noteq> [] \<and> (\<exists>d. content_ready env t c n d \<and> srv = content_files (node_files n) d)"

lemma ready_path:
  assumes "content_ready env t c n d"
  obtains p where "getPathToContent env (node_files n) t c = Inr (Some p)" "locate (node_files n) p = Some d"
  using assms content_directory_path that unfolding content_ready_def by blast

lemma channel_manifest:
  assumes "serves_content env t c n srv"
  shows "\<exists>M n'. channel_getManifest env (parse_json env) t c n = (Inr (Inr M), n')
    \<and> describes (sha256 env) M srv \<and> serves_content env t c n' srv"
proof -
  obtain d where d: "content_ready env t c n d" "srv = content_files (node_files n) d" "t \<noteq> []" "c \<noteq> []"
    using assms unfolding serves_content_def by blast
  obtain p where p: "getPathToContent env (node_files n) t c = Inr (Some p)" using ready_path [OF d(1)] by blast
  show ?thesis
  proof (rule ready_manifest [OF d(1)])
    fix n' i
    assume n': "with_manifest env t c manifest_toString n = (Inr (dump_json env (scan_of env (node_files n) d)), n')"
      "parse_json env (dump_json env (scan_of env (node_files n) d)) = Some i"
      "describes (sha256 env) i (content_files (node_files n) d)"
      "content_ready env t c n' d" "content_files (node_files n') d = content_files (node_files n) d"
    have "getManifestHandler env t c n = (Inr (read_buffers CHUNK_SIZE (dump_json env (scan_of env (node_files n) d)), StatusOK), n')"
      using d(3,4) p n'(1) by (simp add: getManifestHandler_def finish_internal_def io_bind_def io_return_def)
    then have "channel_getManifest env (parse_json env) t c n = (Inr (Inr i), n')"
      using n'(2) by (simp add: channel_getManifest_def call_def io_bind_def io_lift_def concat_read_buffers)
    moreover have "serves_content env t c n' srv" using n'(4,5) d by (auto simp: serves_content_def)
    ultimately show ?thesis using n'(3) d(2) by blast
  qed
qed

lemma channel_file:
  assumes "serves_content env t c n srv" and "srv f = Some (x, m)"
  shows "channel_getFile env t c f n = (Inr (Inr x), n)"
proof -
  obtain d where d: "content_ready env t c n d" "srv = content_files (node_files n) d" "t \<noteq> []" "c \<noteq> []"
    using assms(1) unfolding serves_content_def by blast
  let ?w = "node_files n"
  obtain p where p: "getPathToContent env ?w t c = Inr (Some p)" "locate ?w p = Some d" using ready_path [OF d(1)] by blast
  obtain s where f: "proper_path f" "node_at ?w (d @ comps f) = Some (RegularFile x m s)"
    using assms(2) unfolding d(2) by (auto simp: content_files_def split: if_splits option.splits node.splits)
  have tree: "tree_ok ?w" using d(1) unfolding content_ready_def tidy_def by blast
  note request = check_proper [OF p d(3,4) tree f(1)]
  have place: "locate ?w (path_append p f) = Some (d @ comps f)" using request(3) [of False] f(2) by simp
  have "checkFullFilePath env ?w t c f True = Inr StatusOK" by (rule request(1)) (use f(2) in simp)
  moreover have "getFullPath env ?w t c f = Inr (Some (path_append p f))"
    by (rule request(2) [of True]) (use f(2) in simp_all)
  moreover have "loadFile ?w (path_append p f) = Inr x" using place f(2) by (simp add: loadFile_def node_of_def)
  ultimately have "getFileHandler env t c f n = (Inr (read_buffers CHUNK_SIZE x, StatusOK), n)"
    by (simp add: getFileHandler_def checked_def finish_internal_def on_files_def deref_def)
  then show ?thesis by (simp add: channel_getFile_def call_def io_bind_def io_return_def concat_read_buffers)
qed

interpretation channel: content_source "channel_stub env (parse_json env)" t c "sha256 env" "serves_content env t c" for env t c
proof
  fix n srv
  assume serves: "serves_content env t c n srv"
  then show "served_ok srv" by (auto simp: serves_content_def content_ready_def content_files_ok)
  from channel_manifest [OF serves]
  show "\<exists>M n'. stub_getManifest (channel_stub env (parse_json env)) t c n = (Inr (Inr M), n')
      \<and> describes (sha256 env) M srv \<and> serves_content env t c n' srv" by (simp add: channel_stub_def)
  fix f x m
  assume "srv f = Some (x, m)"
  from channel_file [OF serves this]
  show "stub_getFile (channel_stub env (parse_json env)) t c f n = (Inr (Inr x), n)" by (simp add: channel_stub_def)
qed

section \<open>A synchronisation from a server\<close>

lemma served_not_manifest:
  assumes "serves_content env t c n srv" and "f \<in> dom srv"
  shows "\<not> is_prefix [''manifest.json''] (comps f)"
proof
  assume "is_prefix [''manifest.json''] (comps f)"
  then obtain r where r: "comps f = [''manifest.json''] @ r" by (auto simp: is_prefix_append)
  obtain d where d: "content_ready env t c n d" "srv = content_files (node_files n) d"
    using assms(1) unfolding serves_content_def by blast
  from assms(2) obtain x m s where f: "proper_path f" "f \<noteq> ''manifest.json''"
    "node_at (node_files n) (d @ [''manifest.json''] @ r) = Some (RegularFile x m s)"
    unfolding d(2) by (auto simp: content_files_def r split: if_splits option.splits node.splits)
  have "r \<noteq> []" using f(1,2) r by (auto simp: proper_path_def)
  moreover have "tree_ok (node_files n)" "node_at (node_files n) (d @ [''manifest.json'']) \<noteq> Some Directory"
    using d(1) unfolding content_ready_def tidy_def by blast+
  ultimately show False using tree_ok_above [of "node_files n" "d @ [''manifest.json'']" r] f(3) by simp
qed

lemma can_store_manifest:
  assumes "can_store w d f" and "\<not> is_prefix [''manifest.json''] (comps f)"
    and same: "\<And>l. l \<noteq> d @ [''manifest.json''] \<Longrightarrow> node_at v l = node_at w l"
  shows "can_store v d f"
proof -
  have other: "node_at v (d @ r) = node_at w (d @ r)" if "is_prefix r (comps f)" for r
    using same [of "d @ r"] assms(2) that by auto
  have "is_prefix r (comps f)" if "is_prefix r (butlast (comps f))" for r
    using that by (metis is_prefix_append append.assoc append_butlast_last_id butlast.simps(1))
  moreover have "is_prefix (comps f) (comps f)" by (simp add: is_prefix_append)
  ultimately show ?thesis using assms(1) other unfolding can_store_def free_way_def by metis
qed

text \<open>
  C5: a synchronisation converges.  For a server with the content and a client that has its directory,
  where nothing of the client stands in the way of a file of the server and texts with equal hashes are
  equal, \<open>syncContent\<close> over the channel returns, and then the files of the client (their paths, texts and
  modes) are those of the server, which still has them.
\<close>

theorem sync_converges:
  assumes "serves_content env t c s srv" and "content_ready cenv t c n d" and "sha256 cenv = sha256 env"
    and "\<And>f. f \<in> dom srv \<Longrightarrow> can_store (node_files n) d f"
    and "\<And>f x m y k. srv f = Some (x, m) \<Longrightarrow> content_files (node_files n) d f = Some (y, k) \<Longrightarrow>
      sha256 env x = sha256 env y \<Longrightarrow> x = y"
  shows "\<exists>n' s'. syncContent cenv (channel_stub env (parse_json env)) t c (n, s) = (Inr (), (n', s'))
    \<and> content_files (node_files n') d = srv \<and> serves_content env t c s' srv"
proof -
  obtain n1 J where n1: "with_manifest cenv t c manifest_toJson n = (Inr J, n1)"
    "describes (sha256 cenv) J (content_files (node_files n) d)" "content_ready cenv t c n1 d"
    "content_files (node_files n1) d = content_files (node_files n) d"
    and same: "\<And>l. l \<noteq> d @ [''manifest.json''] \<Longrightarrow> node_at (node_files n1) l = node_at (node_files n) l"
    by (rule ready_manifest [OF assms(2)]) blast
  obtain p where p: "getPathToContentDirectory cenv t c = Inr p" "locate (node_files n1) p = Some d"
    "''..'' \<notin> set (comps p)" "node_at (node_files n1) d = Some Directory" "tree_ok (node_files n1)"
    using n1(3) unfolding content_ready_def tidy_def by blast
  have room: "can_store (node_files n1) d f" if "f \<in> dom srv" for f
    by (rule can_store_manifest [OF assms(4) [OF that] served_not_manifest [OF assms(1) that] same])
  have J: "describes (sha256 env) J (content_files (node_files n1) d)" using n1(2,4) assms(3) by simp
  have inj: "srv f = Some (x, m) \<Longrightarrow> content_files (node_files n1) d f = Some (y, k) \<Longrightarrow> sha256 env x = sha256 env y \<Longrightarrow> x = y"
    for f x m y k using assms(5) unfolding n1(4) by blast
  show ?thesis
    by (rule channel.sync_reaches [OF assms(1) p(1) n1(1) J p(5,2,4,3) room inj])
qed

definition sync_env :: "(string \<times> string \<times> nat \<times> int) list \<Rightarrow> content_env" where
  "sync_env es = sample_content_env\<lparr>parse_json := \<lambda>x. Some (manifest_of (full_files sample_content_env es))\<rparr>"

definition sync_fs :: "(place \<times> node) list \<Rightarrow> fs" where
  "sync_fs fs = \<lparr>nodes = [([''c''], Directory), ([''c'', ''p''], Directory)] @ fs, cwd = [], clock = 9500, new_permissions = 420\<rparr>"

definition sync_scanner :: scanner where
  "sync_scanner = \<lparr>scanner_type = ''package'', scanner_id = ''p'', full_rescan_interval = 60, last_full_rescan = -100000\<rparr>"

definition sync_server :: content_node where
  "sync_server = \<lparr>node_files = sync_fs [([''c'', ''p'', ''a''], RegularFile ''x'' 420 1500), ([''c'', ''p'', ''b''], RegularFile ''z'' 493 9000)],
     node_manifests = [''/c/p'' \<mapsto> sync_scanner]\<rparr>"

definition sync_client :: content_node where
  "sync_client = \<lparr>node_files = sync_fs [([''c'', ''p'', ''a''], RegularFile ''w'' 420 1500), ([''c'', ''p'', ''old''], RegularFile ''z'' 493 9000)],
     node_manifests = [''/c/p'' \<mapsto> sync_scanner]\<rparr>"

lemma tidy_at:
  assumes at: "\<And>l. node_at w l = (if l = [] \<or> l = [''c''] \<or> l = [''c'', ''p''] then Some Directory
      else if l = [''c'', ''p'', a] then Some (RegularFile x m s) else if l = [''c'', ''p'', b] then Some (RegularFile y k r) else None)"
    and "distinct (map fst (nodes w))" and "proper_name a" "proper_name b" "m < 4096" "k < 4096"
  shows "tidy w [''c'', ''p'']"
proof -
  have "tree_ok w" unfolding tree_ok_def
  proof (intro allI impI)
    fix l c assume "node_at w (l @ [c]) \<noteq> None"
    then have "l @ [c] \<in> {[''c''], [''c'', ''p''], [''c'', ''p'', a], [''c'', ''p'', b]}"
      unfolding at by (auto split: if_splits)
    then have "l \<in> {[], [''c''], [''c'', ''p'']}" by (auto simp: append_eq_Cons_conv)
    then show "node_at w l = Some Directory" unfolding at by auto
  qed
  moreover have "list_all proper_name cs \<and> mode < 4096"
    if "node_at w ([''c'', ''p''] @ cs) = Some (RegularFile u mode z)" for cs u mode z
    using that assms(3-6) unfolding at by (auto split: if_splits)
  ultimately show ?thesis using assms(2) unfolding tidy_def by blast
qed

lemma sync_fs_tidy:
  assumes "fs = [([''c'', ''p'', a], RegularFile x m s), ([''c'', ''p'', b], RegularFile y k r)]" and "a \<noteq> b"
    and "proper_name a" "proper_name b" "m < 4096" "k < 4096"
  shows "tidy (sync_fs fs) [''c'', ''p'']"
  by (rule tidy_at [of _ a x m s b y k r]) (use assms(2-6) in \<open>simp_all add: node_at_def sync_fs_def assms(1)\<close>)

lemma sync_room:
  assumes "proper_name f" and "fs = [([''c'', ''p'', a], RegularFile x m s), ([''c'', ''p'', b], RegularFile y k r)]"
  shows "can_store (sync_fs fs) [''c'', ''p''] f"
proof -
  have "comps f = [f]" using assms(1) by (simp add: comps_single proper_name_def)
  then show ?thesis by (auto simp: can_store_def free_way_def is_prefix_def node_at_def sync_fs_def assms(2))
qed

lemma content_ready_at:
  assumes "tidy (node_files n) [''c'', ''p'']" and "regular_entries (node_files n) [''c'', ''p''] = es"
    and "locate (node_files n) ''/c/p'' = Some [''c'', ''p'']" and "node_at (node_files n) [''c'', ''p''] = Some Directory"
    and "node_at (node_files n) [''c'', ''p'', ''manifest.json''] = None"
    and "node_manifests n = [''/c/p'' \<mapsto> sync_scanner\<lparr>scanner_type := t\<rparr>]" and "clock (node_files n) = 9500"
    and path: "getPathToContentDirectory env t ''p'' = Inr ''/c/p''"
    and "parse_json env = (\<lambda>x. Some (manifest_of (full_files env es)))"
  shows "content_ready env t ''p'' n [''c'', ''p'']"
proof -
  have down: "''..'' \<notin> set (comps ''/c/p'')" by code_simp
  have manifest: "node_at (node_files n) ([''c'', ''p''] @ [''manifest.json'']) \<noteq> Some Directory" using assms(5) by simp
  have readable: "reads_back env (scan_of env (node_files n) [''c'', ''p''])"
    unfolding reads_back_def scan_of_def assms(2) by (simp add: assms(9))
  have found: "getManifest env (node_manifests n) t ''p'' = Inr (''/c/p'', sync_scanner\<lparr>scanner_type := t\<rparr>)"
    using path by (simp add: getManifest_def getManifestSignature_def assms(6))
  have "full_rescan_interval (sync_scanner\<lparr>scanner_type := t\<rparr>) = full_rescan_interval sync_scanner"
    "last_full_rescan (sync_scanner\<lparr>scanner_type := t\<rparr>) = last_full_rescan sync_scanner" by simp_all
  moreover have "9500 - last_full_rescan sync_scanner \<ge> truncate_rat (full_rescan_interval sync_scanner * 1000)" by code_simp
  ultimately have rescan: "clock (node_files n) - last_full_rescan (sync_scanner\<lparr>scanner_type := t\<rparr>)
      \<ge> truncate_rat (full_rescan_interval (sync_scanner\<lparr>scanner_type := t\<rparr>) * 1000)"
    unfolding assms(7) by metis
  have ids: "scanner_type (sync_scanner\<lparr>scanner_type := t\<rparr>) = t" "scanner_id (sync_scanner\<lparr>scanner_type := t\<rparr>) = ''p''"
    by (simp_all add: sync_scanner_def)
  show ?thesis unfolding content_ready_def
    using path assms(1,3,4) down manifest readable found rescan ids by blast
qed

lemma sync_ready:
  assumes "tidy (node_files n) [''c'', ''p'']" and "regular_entries (node_files n) [''c'', ''p''] = es"
    and "locate (node_files n) ''/c/p'' = Some [''c'', ''p'']" and "node_at (node_files n) [''c'', ''p''] = Some Directory"
    and "node_at (node_files n) [''c'', ''p'', ''manifest.json''] = None"
    and "node_manifests n = [''/c/p'' \<mapsto> sync_scanner]" and "clock (node_files n) = 9500"
  shows "content_ready (sync_env es) ''package'' ''p'' n [''c'', ''p'']"
proof (rule content_ready_at [OF assms(1-5) _ assms(7)])
  show "node_manifests n = [''/c/p'' \<mapsto> sync_scanner\<lparr>scanner_type := ''package''\<rparr>]"
    using assms(6) by (simp add: sync_scanner_def)
  show "getPathToContentDirectory (sync_env es) ''package'' ''p'' = Inr ''/c/p''"
    by (simp add: sync_env_def getPathToContentDirectory_def) code_simp
  show "parse_json (sync_env es) = (\<lambda>x. Some (manifest_of (full_files (sync_env es) es)))"
    by (simp add: sync_env_def full_files_def)
qed

lemma sync_server_ready:
  "content_ready (sync_env [(''a'', ''x'', 420, 1500), (''b'', ''z'', 493, 9000)]) ''package'' ''p'' sync_server [''c'', ''p'']"
proof (rule sync_ready)
  show "tidy (node_files sync_server) [''c'', ''p'']" unfolding sync_server_def content_node.simps
    by (rule sync_fs_tidy [OF refl]) (simp_all add: proper_name_def)
qed (code_simp, code_simp, code_simp, code_simp, simp_all add: sync_server_def sync_fs_def)

lemma sync_client_ready:
  "content_ready (sync_env [(''a'', ''w'', 420, 1500), (''old'', ''z'', 493, 9000)]) ''package'' ''p'' sync_client [''c'', ''p'']"
proof (rule sync_ready)
  show "tidy (node_files sync_client) [''c'', ''p'']" unfolding sync_client_def content_node.simps
    by (rule sync_fs_tidy [OF refl]) (simp_all add: proper_name_def)
qed (code_simp, code_simp, code_simp, code_simp, simp_all add: sync_client_def sync_fs_def)

definition sync_files :: files where
  "sync_files = content_files (node_files sync_server) [''c'', ''p'']"

lemma sync_files_at: "sync_files f = Some (x, m) \<longleftrightarrow> (f = ''a'' \<and> x = ''x'' \<and> m = 420) \<or> (f = ''b'' \<and> x = ''z'' \<and> m = 493)"
proof -
  have tidy: "tidy (node_files sync_server) [''c'', ''p'']" using sync_server_ready unfolding content_ready_def by blast
  have entries: "regular_entries (node_files sync_server) [''c'', ''p''] = [(''a'', ''x'', 420, 1500), (''b'', ''z'', 493, 9000)]" by code_simp
  show ?thesis unfolding sync_files_def content_files_entries [OF tidy] entries by auto
qed

theorem sync_converges_witness:
  "\<exists>n' s'. syncContent (sync_env [(''a'', ''w'', 420, 1500), (''old'', ''z'', 493, 9000)])
       (channel_stub (sync_env [(''a'', ''x'', 420, 1500), (''b'', ''z'', 493, 9000)])
          (\<lambda>x. Some (manifest_of (full_files sample_content_env [(''a'', ''x'', 420, 1500), (''b'', ''z'', 493, 9000)]))))
       ''package'' ''p'' (sync_client, sync_server) = (Inr (), (n', s'))
     \<and> content_files (node_files n') [''c'', ''p''] ''a'' = Some (''x'', 420)
     \<and> content_files (node_files n') [''c'', ''p''] ''b'' = Some (''z'', 493)
     \<and> content_files (node_files n') [''c'', ''p''] ''old'' = None"
proof -
  let ?senv = "sync_env [(''a'', ''x'', 420, 1500), (''b'', ''z'', 493, 9000)]"
    and ?cenv = "sync_env [(''a'', ''w'', 420, 1500), (''old'', ''z'', 493, 9000)]"
  have serves: "serves_content ?senv ''package'' ''p'' sync_server sync_files"
    unfolding serves_content_def sync_files_def using sync_server_ready by blast
  have sha: "sha256 ?cenv = sha256 ?senv" by (simp add: sync_env_def)
  have room: "can_store (node_files sync_client) [''c'', ''p''] f" if "f \<in> dom sync_files" for f
    using that sync_files_at sync_room [of f "[([''c'', ''p'', ''a''], RegularFile ''w'' 420 1500), ([''c'', ''p'', ''old''], RegularFile ''z'' 493 9000)]"]
    by (auto simp: sync_client_def proper_name_def)
  have inj: "x = y" if "sha256 ?senv x = sha256 ?senv y" for x y
    using that by (simp add: sync_env_def sample_content_env_def)
  have parse: "parse_json ?senv = (\<lambda>x. Some (manifest_of (full_files sample_content_env [(''a'', ''x'', 420, 1500), (''b'', ''z'', 493, 9000)])))"
    by (simp add: sync_env_def)
  obtain n' s' where n': "syncContent ?cenv (channel_stub ?senv (parse_json ?senv)) ''package'' ''p'' (sync_client, sync_server) = (Inr (), (n', s'))"
    "content_files (node_files n') [''c'', ''p''] = sync_files"
    using sync_converges [OF serves sync_client_ready sha room inj] by blast
  have "sync_files ''old'' = None" using sync_files_at [of "''old''"] by (cases "sync_files ''old''") auto
  then show ?thesis using n'(1) unfolding parse by (intro exI [of _ n'] exI [of _ s']) (simp add: n'(2) sync_files_at)
qed

end
