(* ===== verification/Sync_Conflict.thy ===== *)
theory Sync_Conflict
  imports Content_Source
begin

text \<open>
  When a synchronisation fails: a step of it on any file system, and the conflict between a file of the
  client and a directory of the server, which no number of attempts resolves.
\<close>

section \<open>A synchronisation that can never end\<close>

lemma setPermissions_step:
  assumes "tree_ok w" and "locate w p = Some d" and "proper_path f" and "m < 4096"
  obtains w' where "setPermissions (path_append p f) m w = (Inr (), w')" "tree_ok w'" "locate w' p = Some d"
    "only_dirs_above {d @ comps f} w w'"
proof -
  obtain ds y where f: "comps f = ds @ [y]" "list_all proper_name (ds @ [y])" "f = join_names (ds @ [y])"
    using assms(3) by (rule proper_pathE)
  have place: "locate w (path_append p f) = (if node_at w (d @ comps f) = None then None else Some (d @ comps f))"
    using locate_below [OF assms(2,1) f(2)] f(1,3) by simp
  show ?thesis
  proof (cases "\<exists>x k s. node_at w (d @ comps f) = Some (RegularFile x k s)")
    case True
    then obtain x k s where "node_at w (d @ comps f) = Some (RegularFile x k s)" by blast
    from setPermissions_below [OF assms(1-3) this assms(4)] that show ?thesis by blast
  next
    case False
    then have "setPermissions (path_append p f) m w = (Inr (), w)"
      using place by (auto simp: setPermissions_def split: option.split node.split)
    then show ?thesis using that [of w] assms(1,2) by (simp add: only_dirs_above_def)
  qed
qed

lemma storeFile_step:
  assumes "tree_ok w" and "locate w p = Some d" and "proper_path f"
  obtains r w' where "storeFile (path_append p f) content w = (r, w')" "tree_ok w'" "locate w' p = Some d"
    "only_dirs_above {d @ comps f} w w'"
    "r = Inr () \<Longrightarrow> \<exists>y m z. node_at w' (d @ comps f) = Some (RegularFile y m z)"
proof -
  obtain ds y where f: "comps f = ds @ [y]" "list_all proper_name (ds @ [y])" "f = join_names (ds @ [y])"
    using assms(3) by (rule proper_pathE)
  obtain r w' where run: "storeFile (path_append p f) content w = (r, w')" by fastforce
  have place: "weakly_canonical w (path_append p f) = d @ comps f"
    using canonical_below [OF assms(2) f(2)] f(1,3) by simp
  have stores: "stores_at (d @ comps f) w w'" and ok: "r = Inr () \<Longrightarrow> \<exists>y m z. node_at w' (d @ comps f) = Some (RegularFile y m z)"
    using storeFile_effect [OF run] place by auto
  have "only_dirs_above {d @ comps f} w w'"
    unfolding only_dirs_above_def
  proof (intro allI impI)
    fix l assume "l \<notin> {d @ comps f}"
    then have "node_at w' l = node_at w l \<or> (node_at w l = None \<and> node_at w' l = Some Directory)"
      using stores_at_other [OF stores, of l] by auto
    moreover have "node_at w' l = node_at w l \<or> is_prefix l (d @ comps f)"
      using storeFile_below [OF assms(2) f(2), of content r w' l] run f(1,3) by simp
    ultimately show "node_at w' l = node_at w l \<or> (node_at w l = None \<and> node_at w' l = Some Directory \<and> (\<exists>k \<in> {d @ comps f}. is_prefix l k))"
      by auto
  qed
  moreover have "tree_ok w'" using tree_ok_store [OF assms(1), of "path_append p f" content] run by simp
  ultimately show ?thesis using that run locate_stores [OF stores assms(2)] ok by blast
qed

text \<open>A change that is not a removal, whether it succeeds or not.\<close>

lemma sync_step_any:
  assumes "tree_ok (node_files n)" and "locate (node_files n) p = Some d" and "served_ok srv"
    and serves: "serves_now stub t c M srv s" and "h \<in> dom srv" and "k \<noteq> REMOVED"
  shows "\<exists>r w'. sync_change stub t c p M (k, h) (n, s) = (r, (n\<lparr>node_files := w'\<rparr>, s)) \<and> tree_ok w' \<and> locate w' p = Some d
    \<and> only_dirs_above {d @ comps h} (node_files n) w'
    \<and> (r = Inr () \<longrightarrow> k = ADDED \<longrightarrow> (\<exists>y m z. node_at w' (d @ comps h) = Some (RegularFile y m z)))"
proof -
  let ?w = "node_files n"
  obtain x m where h: "srv h = Some (x, m)" using assms(5) by auto
  from assms(3,5) have "proper_path h \<and> snd (the (srv h)) < 4096" unfolding served_ok_def by blast
  then have proper: "proper_path h" "m < 4096" unfolding h option.sel snd_conv by blast+
  have perm: "getPermissionsFromManifest M h = Inr m" and get: "stub_getFile stub t c h s = (Inr (Inr x), s)"
    using serves h unfolding serves_now_def by blast+
  have fetch: "\<exists>r w'. fetch_file stub t c p M h (n, s) = (r, (n\<lparr>node_files := w'\<rparr>, s)) \<and> tree_ok w' \<and> locate w' p = Some d
    \<and> only_dirs_above {d @ comps h} ?w w' \<and> (r = Inr () \<longrightarrow> (\<exists>y m z. node_at w' (d @ comps h) = Some (RegularFile y m z)))"
  proof (rule storeFile_step [OF assms(1,2) proper(1), of x])
    fix q v
    assume v: "storeFile (path_append p h) x ?w = (q, v)" "tree_ok v" "locate v p = Some d" "only_dirs_above {d @ comps h} ?w v"
      and ok: "q = Inr () \<Longrightarrow> \<exists>y m z. node_at v (d @ comps h) = Some (RegularFile y m z)"
    note run = fetch_file_def getFileFromServer_def io_bind_def remote_def expect_def io_lift_def locally_def on_files_def
    show ?thesis
    proof (cases q)
      case (Inl e)
      then have "fetch_file stub t c p M h (n, s) = (Inl e, (n\<lparr>node_files := v\<rparr>, s))"
        using v(1) get by (simp add: run)
      with v(2-4) show ?thesis by blast
    next
      case (Inr u)
      then obtain y a z where "node_at v (d @ comps h) = Some (RegularFile y a z)" using ok by auto
      obtain w' where
        w': "setPermissions (path_append p h) m v = (Inr (), w')" "tree_ok w'" "locate w' p = Some d"
        "node_at w' (d @ comps h) = Some (RegularFile y m z)" "only_dirs_above {d @ comps h} v w'"
        by (rule setPermissions_below [OF v(2,3) proper(1) \<open>node_at v (d @ comps h) = _\<close> proper(2)])
      have "fetch_file stub t c p M h (n, s) = (Inr (), (n\<lparr>node_files := w'\<rparr>, s))"
        using v(1) w'(1) get perm Inr by (simp add: run)
      moreover have "only_dirs_above {d @ comps h} ?w w'" using only_dirs_above_trans [OF v(4) w'(5)] by simp
      ultimately show ?thesis using w'(2-4) by blast
    qed
  qed
  show ?thesis
  proof (cases k)
    case ATTRIBUTES_CHANGED
    obtain w' where w': "setPermissions (path_append p h) m ?w = (Inr (), w')" "tree_ok w'" "locate w' p = Some d"
      "only_dirs_above {d @ comps h} ?w w'" by (rule setPermissions_step [OF assms(1,2) proper])
    then have "sync_change stub t c p M (k, h) (n, s) = (Inr (), (n\<lparr>node_files := w'\<rparr>, s))"
      using perm ATTRIBUTES_CHANGED by (simp add: io_bind_def io_lift_def locally_def on_files_def)
    with w'(2-4) ATTRIBUTES_CHANGED show ?thesis by blast
  next
    case REMOVED
    with assms(6) show ?thesis by simp
  next
    case ADDED
    show ?thesis unfolding ADDED sync_change.simps using fetch by blast
  next
    case MODIFIED
    show ?thesis unfolding MODIFIED sync_change.simps using fetch by blast
  qed
qed

lemma sync_steps_blocked:
  assumes "served_ok srv" and serves: "serves_now stub t c M srv s"
    and f: "f \<in> dom srv" "is_prefix gs (comps f)" "gs \<noteq> comps f"
  shows "tree_ok (node_files n) \<Longrightarrow> locate (node_files n) p = Some d \<Longrightarrow>
    node_at (node_files n) (d @ gs) = Some (RegularFile x m z) \<Longrightarrow>
    \<forall>ch \<in> set cs. fst ch \<noteq> REMOVED \<and> snd ch \<in> dom srv \<Longrightarrow> (ADDED, f) \<in> set cs \<Longrightarrow>
    \<exists>e w'. do_all (sync_change stub t c p M) cs (n, s) = (Inl e, (n\<lparr>node_files := w'\<rparr>, s))
      \<and> node_at w' (d @ gs) = Some (RegularFile x m z)"
proof (induction cs arbitrary: n)
  case Nil
  then show ?case by simp
next
  case (Cons ch cs)
  obtain k h where ch: "ch = (k, h)" by (cases ch)
  have h: "h \<in> dom srv" "k \<noteq> REMOVED" using Cons.prems(4) ch by auto
  from sync_step_any [OF Cons.prems(1,2) assms(1) serves h] obtain r v where
    v: "sync_change stub t c p M ch (n, s) = (r, (n\<lparr>node_files := v\<rparr>, s))" "tree_ok v" "locate v p = Some d"
    "only_dirs_above {d @ comps h} (node_files n) v"
    and ok: "r = Inr () \<Longrightarrow> k = ADDED \<Longrightarrow> \<exists>y m z. node_at v (d @ comps h) = Some (RegularFile y m z)"
    unfolding ch by blast
  have "comps h \<noteq> gs"
  proof
    assume "comps h = gs"
    then have "h = f" using assms(1) h(1) f(1,2) unfolding served_ok_def by blast
    with \<open>comps h = gs\<close> f(3) show False by simp
  qed
  then have kept: "node_at v (d @ gs) = Some (RegularFile x m z)"
    using only_dirs_other [OF v(4), of "d @ gs"] Cons.prems(3) by simp
  show ?case
  proof (cases r)
    case (Inl e)
    then show ?thesis using v(1) kept by (auto simp: io_bind_def)
  next
    case (Inr u)
    have "ch \<noteq> (ADDED, f)"
    proof
      assume "ch = (ADDED, f)"
      then obtain y a b where file_f: "node_at v (d @ comps f) = Some (RegularFile y a b)" using ok ch Inr by auto
      obtain rs where rs: "comps f = gs @ rs" "rs \<noteq> []" using f(2,3) by (auto simp: is_prefix_append)
      with tree_ok_file_above [OF v(2) kept rs(2)] file_f show False by simp
    qed
    then have rest: "(ADDED, f) \<in> set cs" "\<forall>ch \<in> set cs. fst ch \<noteq> REMOVED \<and> snd ch \<in> dom srv" using Cons.prems(4,5) by auto
    have "\<exists>e w'. do_all (sync_change stub t c p M) cs (n\<lparr>node_files := v\<rparr>, s) = (Inl e, ((n\<lparr>node_files := v\<rparr>)\<lparr>node_files := w'\<rparr>, s))
      \<and> node_at w' (d @ gs) = Some (RegularFile x m z)"
      by (rule Cons.IH) (use v(2,3) kept rest in simp_all)
    then show ?thesis using v(1) Inr by (simp add: io_bind_def)
  qed
qed

context content_source
begin

lemma sync_blocked:
  assumes "serves s srv" and "getPathToContentDirectory env t c = Inr p"
    and manifest: "with_manifest env t c manifest_toJson n = (Inr J, n1)"
    and J: "describes sha J (content_files (node_files n1) d)"
    and place: "tree_ok (node_files n1)" "locate (node_files n1) p = Some d"
    and f: "f \<in> dom srv" "is_prefix gs (comps f)" "gs \<noteq> comps f"
    and here: "node_at (node_files n1) (d @ gs) = Some (RegularFile x m z)"
  shows "\<exists>e n2 s2. syncContent env stub t c (n, s) = (Inl e, (n2, s2))
    \<and> node_at (node_files n2) (d @ gs) = Some (RegularFile x m z)"
proof -
  let ?w = "node_files n1" and ?loc = "content_files (node_files n1) d"
  obtain M s1 where M: "stub_getManifest stub t c s = (Inr (Inr M), s1)" "describes sha M srv" "serves s1 srv"
    using source_manifest [OF assms(1)] by blast
  have ok: "served_ok srv" using source_ok [OF assms(1)] .
  have now: "serves_now stub t c M srv s1"
    using M(2) source_file [OF M(3)] unfolding serves_now_def describes_def by blast
  obtain news gone where changes: "compareManifests J M = news @ gone" "\<forall>ch \<in> set news. fst ch \<noteq> REMOVED"
    "\<forall>ch \<in> set gone. fst ch = REMOVED"
    using changes_order J M(2) unfolding describes_def by metis
  have needed: "(ch, f) \<in> set (news @ gone) \<longleftrightarrow> needed_change sha (?loc f) (srv f) = Some ch" for ch f
    using changes_needed [OF J M(2), of ch f] changes(1) by simp
  have new: "fst ch \<noteq> REMOVED \<and> snd ch \<in> dom srv" if "ch \<in> set news" for ch
  proof -
    have "needed_change sha (?loc (snd ch)) (srv (snd ch)) = Some (fst ch)" using needed [of "fst ch" "snd ch"] that by simp
    then show ?thesis using changes(2) that by (auto simp: needed_change_def split: option.splits)
  qed
  obtain rs where rs: "comps f = gs @ rs" "rs \<noteq> []" using f(2,3) by (auto simp: is_prefix_append)
  have "?loc f = None" using tree_ok_file_above [OF place(1) here rs(2)] rs(1) by (simp add: content_files_def)
  then have "(ADDED, f) \<in> set (news @ gone)" unfolding needed using f(1) by (auto simp: needed_change_def split: option.split)
  then have "(ADDED, f) \<in> set news" using changes(3) by fastforce
  from sync_steps_blocked [OF ok now f place here _ this] new obtain e w' where
    w': "do_all (sync_change stub t c p M) news (n1, s1) = (Inl e, (n1\<lparr>node_files := w'\<rparr>, s1))"
    "node_at w' (d @ gs) = Some (RegularFile x m z)" by blast
  have "syncContent env stub t c (n, s) = do_all (sync_change stub t c p M) (news @ gone) (n1, s1)"
    using assms(2) M(1) manifest changes(1)
    by (simp add: syncContent_def local_content_path_def getPathToContentDirectory_def getManifestFromServer_def
        local_manifest_def io_bind_def io_lift_def remote_def expect_def locally_def)
  also have "\<dots> = (Inl e, (n1\<lparr>node_files := w'\<rparr>, s1))"
    unfolding do_all_append using w'(1) by (simp add: io_bind_def)
  finally show ?thesis using w'(2) by auto
qed

end

text \<open>
  C28: a file in the way of a directory blocks a synchronisation.  When the server has a file below a name
  that is a regular file on the client, the additions come first and fail at it: \<open>syncContent\<close> throws and
  the file in the way, which the same synchronisation was to remove, is still there for the next attempt.
\<close>

theorem sync_blocked_by_file:
  assumes "serves_content env t c s srv" and "content_ready cenv t c n d" and "sha256 cenv = sha256 env"
    and "f \<in> dom srv" and "is_prefix gs (comps f)" and "gs \<noteq> comps f"
    and "node_at (node_files n) (d @ gs) = Some (RegularFile x m z)"
  shows "\<exists>e n' s'. syncContent cenv (channel_stub env (parse_json env)) t c (n, s) = (Inl e, (n', s'))
    \<and> node_at (node_files n') (d @ gs) = Some (RegularFile x m z)"
proof -
  obtain n1 J where n1: "with_manifest cenv t c manifest_toJson n = (Inr J, n1)"
    "describes (sha256 cenv) J (content_files (node_files n) d)" "content_ready cenv t c n1 d"
    "content_files (node_files n1) d = content_files (node_files n) d"
    and same: "\<And>l. l \<noteq> d @ [''manifest.json''] \<Longrightarrow> node_at (node_files n1) l = node_at (node_files n) l"
    by (rule ready_manifest [OF assms(2)]) blast
  obtain p where p: "getPathToContentDirectory cenv t c = Inr p" "tree_ok (node_files n1)" "locate (node_files n1) p = Some d"
    using n1(3) unfolding content_ready_def tidy_def by blast
  have J: "describes (sha256 env) J (content_files (node_files n1) d)" using n1(2,4) assms(3) by simp
  have "gs \<noteq> [''manifest.json'']" using served_not_manifest [OF assms(1,4)] assms(5) by auto
  then have here: "node_at (node_files n1) (d @ gs) = Some (RegularFile x m z)" using same [of "d @ gs"] assms(7) by simp
  show ?thesis by (rule channel.sync_blocked [OF assms(1) p(1) n1(1) J p(2,3) assms(4-6) here])
qed

definition nested_server :: content_node where
  "nested_server = \<lparr>node_files = sync_fs [([''c'', ''p'', ''a''], Directory), ([''c'', ''p'', ''a'', ''b''], RegularFile ''z'' 493 9000)],
     node_manifests = [''/c/p'' \<mapsto> sync_scanner]\<rparr>"

lemma nested_tidy: "tidy (node_files nested_server) [''c'', ''p'']"
proof -
  let ?w = "node_files nested_server"
  have at: "node_at ?w l = (if l = [] \<or> l = [''c''] \<or> l = [''c'', ''p''] \<or> l = [''c'', ''p'', ''a''] then Some Directory
      else if l = [''c'', ''p'', ''a'', ''b''] then Some (RegularFile ''z'' 493 9000) else None)" for l
    by (simp add: node_at_def sync_fs_def nested_server_def)
  have "tree_ok ?w" unfolding tree_ok_def
  proof (intro allI impI)
    fix l c assume "node_at ?w (l @ [c]) \<noteq> None"
    then have "l @ [c] \<in> {[''c''], [''c'', ''p''], [''c'', ''p'', ''a''], [''c'', ''p'', ''a'', ''b'']}"
      unfolding at by (auto split: if_splits)
    then have "l \<in> {[], [''c''], [''c'', ''p''], [''c'', ''p'', ''a'']}" by (auto simp: append_eq_Cons_conv)
    then show "node_at ?w l = Some Directory" unfolding at by auto
  qed
  moreover have "distinct (map fst (nodes ?w))" by (simp add: sync_fs_def nested_server_def)
  moreover have "list_all proper_name cs \<and> mode < 4096"
    if "node_at ?w ([''c'', ''p''] @ cs) = Some (RegularFile u mode z)" for cs u mode z
    using that unfolding at by (auto simp: proper_name_def split: if_splits)
  ultimately show ?thesis unfolding tidy_def by blast
qed

lemma nested_server_ready:
  "content_ready (sync_env [(''a/b'', ''z'', 493, 9000)]) ''package'' ''p'' nested_server [''c'', ''p'']"
  by (rule sync_ready [OF nested_tidy], code_simp, code_simp, code_simp, code_simp) (simp_all add: nested_server_def sync_fs_def)

theorem sync_blocked_by_file_witness:
  "\<exists>e n' s'. syncContent (sync_env [(''a'', ''w'', 420, 1500), (''old'', ''z'', 493, 9000)])
       (channel_stub (sync_env [(''a/b'', ''z'', 493, 9000)]) (parse_json (sync_env [(''a/b'', ''z'', 493, 9000)])))
       ''package'' ''p'' (sync_client, nested_server) = (Inl e, (n', s'))
     \<and> node_at (node_files n') [''c'', ''p'', ''a''] = Some (RegularFile ''w'' 420 1500)"
proof -
  let ?srv = "content_files (node_files nested_server) [''c'', ''p'']"
  have serves: "serves_content (sync_env [(''a/b'', ''z'', 493, 9000)]) ''package'' ''p'' nested_server ?srv"
    unfolding serves_content_def using nested_server_ready by blast
  have sha: "sha256 (sync_env [(''a'', ''w'', 420, 1500), (''old'', ''z'', 493, 9000)]) = sha256 (sync_env [(''a/b'', ''z'', 493, 9000)])"
    by (simp add: sync_env_def)
  have "regular_entries (node_files nested_server) [''c'', ''p''] = [(''a/b'', ''z'', 493, 9000)]" by code_simp
  then have dom: "''a/b'' \<in> dom ?srv" using content_files_entries [OF nested_tidy, of "''a/b''" "''z''" 493] by auto
  have above: "is_prefix [''a''] (comps ''a/b'')" "[''a''] \<noteq> comps ''a/b''" by code_simp+
  have here: "node_at (node_files sync_client) ([''c'', ''p''] @ [''a'']) = Some (RegularFile ''w'' 420 1500)" by code_simp
  from sync_blocked_by_file [OF serves sync_client_ready sha dom above here] show ?thesis by simp
qed

end
