(* ===== verification/Content_Transfer.thy ===== *)
theory Content_Transfer
  imports Content_Source
begin

text \<open>
  Uploads and downloads over the channel: what a client stored on the server is what it gets back.
\<close>

section \<open>What was uploaded can be downloaded\<close>

lemma storeFile_readable:
  assumes "storeFile p x w = (Inr (), w')"
  obtains k m where "locate w' p = Some k" "node_at w' k = Some (RegularFile x m (clock w'))" "weakly_canonical w' p = weakly_canonical w p"
    "\<And>q j. locate w q = Some j \<Longrightarrow> locate w' q = Some j"
proof -
  obtain r v where v: "createFileIfNotExists p w = (r, v)" by fastforce
  with assms have wr: "write_file p x v = (Inr (), w')"
    by (auto simp: storeFile_def io_bind_def io_lift_def split: sum.splits if_splits)
  then obtain k y m s where k: "locate v p = Some k" "node_at v k = Some (RegularFile y m s)"
    "w' = put_node k (RegularFile x m (clock v)) v"
    by (auto simp: write_file_def split: option.splits node.splits)
  have "k \<noteq> []" using node_at_root [OF k(1,2)] .
  have "stores_at (weakly_canonical w p) w w'" using storeFile_effect [OF assms] by blast
  moreover have "locate w' p = Some k" unfolding k(3) by (rule locate_rewrite_file [OF k(2,1)])
  moreover have "node_at w' k = Some (RegularFile x m (clock w'))"
    using \<open>k \<noteq> []\<close> unfolding k(3) by (simp add: node_at_put)
  ultimately show ?thesis using that locate_stores stores_at_canonical by metis
qed

lemma getFile_after_store:
  assumes "checkFullFilePath env (node_files n) t c f b = Inr StatusOK"
    and "getPathToContent env (node_files n) t c = Inr (Some p)"
    and "storeFile (path_append p f) x (node_files n) = (Inr (), w')"
  shows "channel_getFile env t c f (n\<lparr>node_files := w'\<rparr>) = (Inr (Inr x), n\<lparr>node_files := w'\<rparr>)"
proof -
  let ?w = "node_files n"
  obtain k m where k: "locate w' (path_append p f) = Some k" "node_at w' k = Some (RegularFile x m (clock w'))"
    "weakly_canonical w' (path_append p f) = weakly_canonical ?w (path_append p f)"
    and kept: "\<And>q j. locate ?w q = Some j \<Longrightarrow> locate w' q = Some j"
    using storeFile_readable [OF assms(3)] by metis
  have "\<exists>d. locate ?w p = Some d" using getPathToContent_located [OF assms(2)] by blast
  then obtain d where d: "locate ?w p = Some d" "locate w' p = Some d" using kept by blast
  have content: "getPathToContent env w' t c = Inr (Some p)"
  proof -
    from assms(2) obtain base where "getContentDirectory (content_config env) t = Inr (Some base)" "p = path_append base c"
      by (auto simp: getPathToContent_def rbind_eq_Inr Let_def split: option.splits if_splits)
    with d(2) show ?thesis by (simp add: getPathToContent_def fs_exists_def Let_def)
  qed
  have names: "t \<noteq> []" "c \<noteq> []" "f \<noteq> []" "\<not> is_absolute f"
    using assms(1) by (auto simp: checkFullFilePath_def split: if_splits)
  have "is_prefix (weakly_canonical ?w p) (weakly_canonical ?w (path_append p f))"
    using assms(1,2) by (auto simp: checkFullFilePath_def Let_def split: if_splits)
  then have "is_prefix (weakly_canonical w' p) (weakly_canonical w' (path_append p f))"
    using locate_canonical [OF d(1)] locate_canonical [OF d(2)] k(3) by simp
  then have "checkFullFilePath env w' t c f True = Inr StatusOK"
    using names content k(1,2)
    by (simp add: checkFullFilePath_def getFullPath_def Let_def fs_exists_def is_regular_file_def node_of_def)
  moreover have "getFullPath env w' t c f = Inr (Some (path_append p f))"
    using content k(1) by (simp add: getFullPath_def fs_exists_def)
  moreover have "loadFile w' (path_append p f) = Inr x" using k(1,2) by (simp add: loadFile_def node_of_def)
  ultimately have "getFileHandler env t c f (n\<lparr>node_files := w'\<rparr>) = (Inr (read_buffers CHUNK_SIZE x, StatusOK), n\<lparr>node_files := w'\<rparr>)"
    by (simp add: getFileHandler_def checked_def finish_internal_def on_files_def deref_def)
  then show ?thesis by (simp add: channel_getFile_def call_def io_bind_def io_return_def concat_read_buffers)
qed

lemma call_Inr: "call h s = (Inr (Inr x), s') \<Longrightarrow> h s = (Inr (x, StatusOK), s')"
  by (auto simp: call_def split: prod.splits sum.splits if_splits)

lemma checked_OK:
  assumes "checked check none body n = (Inr (x, StatusOK), n')"
  shows "check (node_files n) = Inr StatusOK \<and> body n = (Inr (x, StatusOK), n')"
  using assms by (auto simp: checked_def split: sum.splits if_splits)

lemma finish_internal_OK:
  assumes "finish_internal none body n = (Inr (x, StatusOK), n')"
  shows "body n = (Inr (x, StatusOK), n')"
  using assms by (auto simp: finish_internal_def split: prod.splits sum.splits if_splits)

lemma on_files_Inr: "on_files m n = (Inr x, n') \<Longrightarrow> \<exists>w. m (node_files n) = (Inr x, w) \<and> n' = n\<lparr>node_files := w\<rparr>"
  by (auto simp: on_files_def split: prod.splits)

lemma upload_stores:
  assumes "channel_createFile env t c f x n = (Inr (Inr ()), n') \<or> channel_updateFile env t c f x n = (Inr (Inr ()), n')"
  obtains b p w' where "checkFullFilePath env (node_files n) t c f b = Inr StatusOK"
    "getPathToContent env (node_files n) t c = Inr (Some p)"
    "storeFile (path_append p f) x (node_files n) = (Inr (), w')" "n' = n\<lparr>node_files := w'\<rparr>"
proof -
  have chunks: "read_chunks (map UploadChunk (read_buffers CHUNK_SIZE x)) [] = Some x"
    by (simp add: read_chunks_all concat_read_buffers)
  from assms show ?thesis
  proof
    assume "channel_createFile env t c f x n = (Inr (Inr ()), n')"
    then have "createFileHandler env (upload_messages t c f x) n = (Inr ((), StatusOK), n')"
      unfolding channel_createFile_def by (rule call_Inr)
    then show ?thesis
      using that chunks unfolding createFileHandler_def upload_messages_def
      by (auto dest!: checked_OK finish_internal_OK on_files_Inr
          simp: io_bind_def io_return_def deref_def rbind_eq_Inr split: sum.splits prod.splits option.splits if_splits)
  next
    assume "channel_updateFile env t c f x n = (Inr (Inr ()), n')"
    then have "updateFileHandler env (upload_messages t c f x) n = (Inr ((), StatusOK), n')"
      unfolding channel_updateFile_def by (rule call_Inr)
    then show ?thesis
      using that chunks unfolding updateFileHandler_def upload_messages_def
      by (auto dest!: checked_OK finish_internal_OK on_files_Inr
          simp: io_bind_def io_return_def deref_def rbind_eq_Inr split: sum.splits prod.splits option.splits if_splits)
  qed
qed

text \<open>
  C12: an upload that succeeds can be downloaded.  When creating or updating a file over the channel returns
  well, getting the same file from the server as it is then returns the content that was sent, whatever
  the path was and however many chunks it took.
\<close>

theorem upload_download:
  assumes "channel_createFile env t c f x n = (Inr (Inr ()), n') \<or> channel_updateFile env t c f x n = (Inr (Inr ()), n')"
  shows "channel_getFile env t c f n' = (Inr (Inr x), n')"
  by (rule upload_stores [OF assms]) (simp add: getFile_after_store)

theorem upload_download_witness:
  "\<exists>n'. channel_updateFile sample_content_env ''package'' ''p'' ''./a'' ''hi'' sample_node = (Inr (Inr ()), n')
    \<and> channel_getFile sample_content_env ''package'' ''p'' ''./a'' n' = (Inr (Inr ''hi''), n')"
proof -
  have "read_buffers CHUNK_SIZE ''hi'' = [''hi'']" by (simp add: read_buffers.simps CHUNK_SIZE_def)
  then have messages: "upload_messages ''package'' ''p'' ''./a'' ''hi'' = [UploadInfo ''package'' ''p'' ''./a'', UploadChunk ''hi'']"
    by (simp add: upload_messages_def)
  have "fst (updateFileHandler sample_content_env [UploadInfo ''package'' ''p'' ''./a'', UploadChunk ''hi''] sample_node) = Inr ((), StatusOK)"
    by code_simp
  then obtain n' where "updateFileHandler sample_content_env [UploadInfo ''package'' ''p'' ''./a'', UploadChunk ''hi''] sample_node = (Inr ((), StatusOK), n')"
    by (metis prod.collapse)
  then have run: "channel_updateFile sample_content_env ''package'' ''p'' ''./a'' ''hi'' sample_node = (Inr (Inr ()), n')"
    by (simp add: channel_updateFile_def messages call_def)
  then show ?thesis using upload_download [OF disjI2 [OF run]] by blast
qed

end
