(* ===== verification/Manifest_Types.thy ===== *)
theory Manifest_Types
  imports Content_Source
begin

text \<open>
  The shape of manifests: what a scan returns has it, and relies on stored manifests that have it.
\<close>

definition typed_entry :: "json \<Rightarrow> bool" where
  "typed_entry e \<longleftrightarrow> (\<exists>s m h z. e = JObject [(''last_modified'', JInteger s), (''permissions'', JUnsigned m),
     (''sha256'', JString h), (''size'', JUnsigned z)])"

definition typed_manifest :: "json \<Rightarrow> bool" where
  "typed_manifest j \<longleftrightarrow> j = JNull
     \<or> (\<exists>fs. j = JObject [(''files'', JObject fs)] \<and> fs \<noteq> [] \<and> sorted_wrt (<) (map fst fs) \<and> (\<forall>(f, e) \<in> set fs. typed_entry e))"

definition typed_hashes :: "json \<Rightarrow> bool" where
  "typed_hashes j \<longleftrightarrow> (\<forall>f info. stored_file j f = Some info \<longrightarrow> (\<exists>h. jmember info ''sha256'' = Inr (JString h)))"

lemma put_member_typed:
  "\<forall>(f, e) \<in> set fs. P e \<Longrightarrow> P v \<Longrightarrow> \<forall>(f, e) \<in> set (put_member k v fs). P e"
  by (induction k v fs rule: put_member.induct) auto

lemma collect_typed:
  assumes "\<And>rel x s h. hash rel x s = Inr h \<Longrightarrow> \<exists>y. h = JString y"
  shows "collect_files hash es acc = Inr fs \<Longrightarrow> sorted_wrt (<) (map fst acc) \<Longrightarrow> \<forall>(f, e) \<in> set acc. typed_entry e \<Longrightarrow>
    sorted_wrt (<) (map fst fs) \<and> (\<forall>(f, e) \<in> set fs. typed_entry e)"
proof (induction es arbitrary: acc)
  case Nil
  then show ?case by simp
next
  case (Cons e es)
  obtain rel x m s where e: "e = (rel, x, m, s)" by (cases e)
  from Cons.prems(1) obtain h where h: "hash rel x s = Inr h" "collect_files hash es (put_member rel (file_json x m s h) acc) = Inr fs"
    unfolding e by (auto simp: rbind_eq_Inr)
  obtain y where "h = JString y" using assms [OF h(1)] by blast
  then have "typed_entry (file_json x m s h)" by (simp add: typed_entry_def file_json_def)
  then have "\<forall>(f, e) \<in> set (put_member rel (file_json x m s h) acc). typed_entry e"
    by (rule put_member_typed [OF Cons.prems(3)])
  from Cons.IH [OF h(2) ascending_put_member [OF Cons.prems(2)] this] show ?case .
qed

lemma cached_hash_typed:
  assumes "typed_hashes stored" and "cached_hash env stored rel x s = Inr h"
  shows "\<exists>y. h = JString y"
proof (cases "stored_file stored rel")
  case None
  with assms(2) show ?thesis by (auto simp: cached_hash_def)
next
  case (Some info)
  with assms(1) obtain y where "jmember info ''sha256'' = Inr (JString y)" unfolding typed_hashes_def by blast
  with Some assms(2) show ?thesis by (auto simp: cached_hash_def rbind_eq_Inr split: if_splits)
qed

lemma typed_manifest_hashes: "typed_manifest j \<Longrightarrow> typed_hashes j"
proof -
  assume j: "typed_manifest j"
  show "typed_hashes j" unfolding typed_hashes_def
  proof (intro allI impI)
    fix f info
    assume f: "stored_file j f = Some info"
    with j obtain fs where "j = JObject [(''files'', JObject fs)]" "\<forall>(f, e) \<in> set fs. typed_entry e"
      by (auto simp: typed_manifest_def stored_file_def)
    then have "typed_entry info" using f by (auto simp: stored_file_def dest: map_of_SomeD)
    then show "\<exists>h. jmember info ''sha256'' = Inr (JString h)" by (auto simp: typed_entry_def)
  qed
qed

lemma scan_directory_typed:
  assumes "scan_directory env hash sc w = (Inr j, w')"
    and "\<And>rel x s h. hash w' rel x s = Inr h \<Longrightarrow> \<exists>y. h = JString y"
  shows "typed_manifest j"
proof -
  from assms(1) obtain es fs where fs: "collect_files (hash w') es [] = Inr fs" "j = manifest_of fs"
    by (auto simp: scan_directory_def io_bind_def io_lift_def rbind_eq_Inr split: prod.splits sum.splits option.splits if_splits)
  from collect_typed [OF assms(2) fs(1)] have "sorted_wrt (<) (map fst fs) \<and> (\<forall>(f, e) \<in> set fs. typed_entry e)" by simp
  then show ?thesis by (auto simp: fs(2) typed_manifest_def manifest_of_def)
qed

text \<open>
  C37: what a scan returns is a manifest: null, or an object with only \<open>files\<close>, whose members ascend and are
  each an entry with a time, permissions, a hash that is a string, and a size.  A scan that copies hashes
  relies on the manifest it finds stored having strings for hashes, and a manifest has them.
\<close>

theorem scan_returns_manifest:
  assumes "scanContent env sc w = (Inr j, sc', w')"
    and "typed_hashes (storedManifestToJson env w' (scanner_type sc) (scanner_id sc))"
  shows "typed_manifest j \<and> typed_hashes j"
proof -
  have "typed_manifest j"
  proof (cases "clock w - last_full_rescan sc \<ge> truncate_rat (full_rescan_interval sc * 1000)")
    case True
    with assms(1) have "scan_directory env (\<lambda>w rel t s. Inr (JString (sha256 env t))) sc w = (Inr j, w')"
      by (auto simp: scanContent_def fullContentScan_def split: prod.splits sum.splits)
    then show ?thesis by (rule scan_directory_typed) auto
  next
    case False
    with assms(1) have "scan_directory env
        (\<lambda>w. cached_hash env (storedManifestToJson env w (scanner_type sc) (scanner_id sc))) sc w = (Inr j, w')"
      by (auto simp: scanContent_def scanContentWithCache_def split: prod.splits)
    then show ?thesis by (rule scan_directory_typed) (rule cached_hash_typed [OF assms(2)])
  qed
  then show ?thesis using typed_manifest_hashes by blast
qed

theorem scan_returns_manifest_witness:
  "\<exists>j sc' w'. scanContent sample_content_env sample_scanner sample_content_fs = (Inr j, sc', w') \<and> typed_manifest j"
proof -
  let ?old = "[(''a'', ''x'', 420, 1000), (''b'', ''y'', 420, 2000)] :: (string \<times> string \<times> nat \<times> int) list"
  have run: "scanContent sample_content_env sample_scanner sample_content_fs =
      (Inr (manifest_of (full_files sample_content_env [(''a'', ''x'', 420, 1500), (''b'', ''z'', 493, 9000)])), sample_scanner, sample_content_fs)"
    by code_simp
  have "storedManifestToJson sample_content_env sample_content_fs (scanner_type sample_scanner) (scanner_id sample_scanner) =
      manifest_of (full_files sample_content_env ?old)" by code_simp
  moreover have "typed_manifest (manifest_of (full_files sample_content_env ?old))"
    by (auto simp: typed_manifest_def manifest_of_def full_files_def typed_entry_def file_json_def sample_content_env_def)
  ultimately have "typed_hashes (storedManifestToJson sample_content_env sample_content_fs (scanner_type sample_scanner) (scanner_id sample_scanner))"
    using typed_manifest_hashes by simp
  from scan_returns_manifest [OF run this] run show ?thesis by blast
qed

end
