(* ===== verification/Content_Upload.thy ===== *)
theory Content_Upload
  imports Content_Source
begin

text \<open>
  Updating a content on the server: the calls of the channel step by step, that the changes of an upload
  apply to the files of the server, and that an upload converges.
\<close>

text \<open>The calls of the channel on a server where the content is at \<open>d\<close>.\<close>

lemmas handler_simps = checked_def finish_internal_def on_files_def io_bind_def io_return_def deref_def call_def

lemma channel_create:
  assumes "getPathToContent env w t c = Inr (Some p)" and "locate w p = Some d" and "t \<noteq> []" and "c \<noteq> []"
    and "tree_ok w" and "proper_path f" and "node_at w (d @ comps f) = None"
    and "storeFile (path_append p f) x w = (Inr (), v)"
  shows "channel_createFile env t c f x (s\<lparr>node_files := w\<rparr>) = (Inr (Inr ()), s\<lparr>node_files := v\<rparr>)"
proof -
  have check: "checkFullFilePath env w t c f False = Inr StatusOK" by (rule check_proper(1) [OF assms(1-6)]) simp
  have "locate w (path_append p f) = None" using check_proper(3) [OF assms(1-6), of False] assms(7) by simp
  then have "\<not> fs_exists w (path_append p f)" by (simp add: fs_exists_def)
  then show ?thesis using check assms(1,8)
    by (simp add: channel_createFile_def createFileHandler_def upload_messages_def read_chunks_all concat_read_buffers handler_simps)
qed

lemma channel_update:
  assumes "getPathToContent env w t c = Inr (Some p)" and "locate w p = Some d" and "t \<noteq> []" and "c \<noteq> []"
    and "tree_ok w" and "proper_path f" and "node_at w (d @ comps f) = Some (RegularFile y m z)"
    and "storeFile (path_append p f) x w = (Inr (), v)"
  shows "channel_updateFile env t c f x (s\<lparr>node_files := w\<rparr>) = (Inr (Inr ()), s\<lparr>node_files := v\<rparr>)"
proof -
  have check: "checkFullFilePath env w t c f True = Inr StatusOK" by (rule check_proper(1) [OF assms(1-6)]) (use assms(7) in simp)
  then show ?thesis using assms(1,8)
    by (simp add: channel_updateFile_def updateFileHandler_def upload_messages_def read_chunks_all concat_read_buffers handler_simps)
qed

lemma channel_permissions:
  assumes "getPathToContent env w t c = Inr (Some p)" and "locate w p = Some d" and "t \<noteq> []" and "c \<noteq> []"
    and "tree_ok w" and "proper_path f" and "node_at w (d @ comps f) = Some (RegularFile y m z)"
    and "setPermissions (path_append p f) k w = (Inr (), v)"
  shows "channel_setPermissions env t c f k (s\<lparr>node_files := w\<rparr>) = (Inr (Inr ()), s\<lparr>node_files := v\<rparr>)"
proof -
  have check: "checkFullFilePath env w t c f True = Inr StatusOK" by (rule check_proper(1) [OF assms(1-6)]) (use assms(7) in simp)
  moreover have "getFullPath env w t c f = Inr (Some (path_append p f))"
    by (rule check_proper(2) [OF assms(1-6), of True]) (use assms(7) in simp_all)
  ultimately show ?thesis using assms(8)
    by (simp add: channel_setPermissions_def setPermissionsHandler_def on_checked_file_def handler_simps)
qed

lemma channel_delete:
  assumes "getPathToContent env w t c = Inr (Some p)" and "locate w p = Some d" and "t \<noteq> []" and "c \<noteq> []"
    and "tree_ok w" and "proper_path f" and "node_at w (d @ comps f) = Some (RegularFile y m z)"
  shows "channel_deleteFile env t c f (s\<lparr>node_files := w\<rparr>) = (Inr (Inr ()), s\<lparr>node_files := drop_tree (d @ comps f) w\<rparr>)"
proof -
  have check: "checkFullFilePath env w t c f True = Inr StatusOK" by (rule check_proper(1) [OF assms(1-6)]) (use assms(7) in simp)
  moreover have "getFullPath env w t c f = Inr (Some (path_append p f))"
    by (rule check_proper(2) [OF assms(1-6), of True]) (use assms(7) in simp_all)
  moreover have "locate w (path_append p f) = Some (d @ comps f)" using check_proper(3) [OF assms(1-6), of False] assms(7) by simp
  ultimately show ?thesis using assms(7)
    by (simp add: channel_deleteFile_def deleteFileHandler_def on_checked_file_def fs_remove_def handler_simps)
qed

section \<open>The changes of an upload\<close>

lemma upload_applies:
  assumes "getPathToContentDirectory env t c = Inr p" and "t \<noteq> []" and "c \<noteq> []" and "served_ok goal"
    and here: "\<And>f x m. goal f = Some (x, m) \<Longrightarrow> loadFile (node_files n) (path_append q f) = Inr x \<and> getPermissionsFromManifest M f = Inr m"
  shows "applies (upload_change (channel_stub env parse) t c q M) (\<lambda>w. (n, s\<lparr>node_files := w\<rparr>)) p d goal"
  unfolding applies_def
proof (intro conjI allI impI)
  fix w ch
  assume w: "tree_ok w" "locate w p = Some d" "node_at w d = Some Directory" "step_ready w d goal ch"
  obtain k f where ch: "ch = (k, f)" by (cases ch)
  have "f \<in> dom goal" using w(4) unfolding ch step_ready_def snd_conv by blast
  then obtain x m where f: "goal f = Some (x, m)" by (metis domD prod.exhaust)
  from \<open>f \<in> dom goal\<close> assms(4) have "proper_path f \<and> snd (the (goal f)) < 4096" unfolding served_ok_def by blast
  then have proper: "proper_path f" "m < 4096" unfolding f option.sel snd_conv by blast+
  have store: "can_store w d f" using w(4) unfolding ch step_ready_def snd_conv by blast
  have load: "loadFile (node_files n) (path_append q f) = Inr x" and perm: "getPermissionsFromManifest M f = Inr m"
    using here [OF f] by blast+
  have path: "getPathToContent env w t c = Inr (Some p)" by (rule content_directory_path [OF assms(1) w(2)])
  obtain v mode where v: "storeFile (path_append p f) x w = (Inr (), v)" "tree_ok v" "locate v p = Some d"
    "node_at v (d @ comps f) = Some (RegularFile x mode (clock w))" "only_dirs_above {d @ comps f} w v"
    by (rule storeFile_content [OF w(1-3) proper(1) store, of x])
  have path_v: "getPathToContent env v t c = Inr (Some p)" by (rule content_directory_path [OF assms(1) v(3)])
  obtain u where u: "setPermissions (path_append p f) m v = (Inr (), u)" "tree_ok u" "locate u p = Some d"
    "node_at u (d @ comps f) = Some (RegularFile x m (clock w))" "only_dirs_above {d @ comps f} v u"
    by (rule setPermissions_below [OF v(2,3) proper(1) v(4) proper(2)])
  have above: "only_dirs_above {d @ comps f} w u" using only_dirs_above_trans [OF v(5) u(5)] by simp
  have set: "channel_setPermissions env t c f m (s\<lparr>node_files := v\<rparr>) = (Inr (Inr ()), s\<lparr>node_files := u\<rparr>)"
    by (rule channel_permissions [OF path_v v(3) assms(2,3) v(2) proper(1) v(4) u(1)])
  note run = io_bind_def io_lift_def io_return_def locally_def on_files_def remote_def expect_def upload_permissions_def
    setPermissionsOnServer_def createFileOnServer_def updateFileOnServer_def removeFileOnServer_def channel_stub_def
  show "\<exists>w' z. upload_change (channel_stub env parse) t c q M ch (n, s\<lparr>node_files := w\<rparr>) = (Inr (), (n, s\<lparr>node_files := w'\<rparr>))
    \<and> tree_ok w' \<and> locate w' p = Some d \<and> only_dirs_above {d @ comps (snd ch)} w w'
    \<and> node_at w' (d @ comps (snd ch)) = Some (RegularFile (fst (the (goal (snd ch)))) (snd (the (goal (snd ch)))) z)"
  proof (cases k)
    case ADDED
    then have "node_at w (d @ comps f) = None" using w(4) unfolding ch step_ready_def fst_conv snd_conv by blast
    from channel_create [OF path w(2) assms(2,3) w(1) proper(1) this v(1)] set load perm
    have "upload_change (channel_stub env parse) t c q M ch (n, s\<lparr>node_files := w\<rparr>) = (Inr (), (n, s\<lparr>node_files := u\<rparr>))"
      unfolding ch ADDED by (simp add: run)
    with u(2-4) above show ?thesis unfolding ch snd_conv f option.sel fst_conv by blast
  next
    case MODIFIED
    then obtain y a b where "node_at w (d @ comps f) = Some (RegularFile y a b)"
      using w(4) unfolding ch step_ready_def fst_conv snd_conv by blast
    from channel_update [OF path w(2) assms(2,3) w(1) proper(1) this v(1)] set load perm
    have "upload_change (channel_stub env parse) t c q M ch (n, s\<lparr>node_files := w\<rparr>) = (Inr (), (n, s\<lparr>node_files := u\<rparr>))"
      unfolding ch MODIFIED by (simp add: run)
    with u(2-4) above show ?thesis unfolding ch snd_conv f option.sel fst_conv by blast
  next
    case ATTRIBUTES_CHANGED
    then obtain a b where at: "node_at w (d @ comps f) = Some (RegularFile x a b)"
      using w(4) unfolding ch step_ready_def fst_conv snd_conv f option.sel by blast
    obtain u where u: "setPermissions (path_append p f) m w = (Inr (), u)" "tree_ok u" "locate u p = Some d"
      "node_at u (d @ comps f) = Some (RegularFile x m b)" "only_dirs_above {d @ comps f} w u"
      by (rule setPermissions_below [OF w(1,2) proper(1) at proper(2)])
    from channel_permissions [OF path w(2) assms(2,3) w(1) proper(1) at u(1)] perm
    have "upload_change (channel_stub env parse) t c q M ch (n, s\<lparr>node_files := w\<rparr>) = (Inr (), (n, s\<lparr>node_files := u\<rparr>))"
      unfolding ch ATTRIBUTES_CHANGED by (simp add: run)
    with u(2-5) show ?thesis unfolding ch snd_conv f option.sel fst_conv by blast
  next
    case REMOVED
    with w(4) ch show ?thesis by (simp add: step_ready_def)
  qed
next
  fix w f x m a
  assume w: "tree_ok w" "locate w p = Some d" "proper_path f" "node_at w (d @ comps f) = Some (RegularFile x m a)"
  have path: "getPathToContent env w t c = Inr (Some p)" by (rule content_directory_path [OF assms(1) w(2)])
  from channel_delete [OF path w(2) assms(2,3) w(1,3,4)]
  show "upload_change (channel_stub env parse) t c q M (REMOVED, f) (n, s\<lparr>node_files := w\<rparr>) =
      (Inr (), (n, s\<lparr>node_files := drop_tree (d @ comps f) w\<rparr>))"
    by (simp add: removeFileOnServer_def io_bind_def io_lift_def remote_def expect_def channel_stub_def)
qed

section \<open>Updating a content on a server\<close>

lemma ready_local_file:
  assumes "content_ready env t c n d" and "getPathToContentDirectory env t c = Inr p"
    and "content_files (node_files n) d f = Some (x, m)"
  shows "loadFile (node_files n) (path_append p f) = Inr x"
proof -
  from assms(1,2) have p: "locate (node_files n) p = Some d" "tree_ok (node_files n)"
    unfolding content_ready_def tidy_def by auto
  from assms(3) obtain z where f: "proper_path f" "node_at (node_files n) (d @ comps f) = Some (RegularFile x m z)"
    by (auto simp: content_files_def split: if_splits option.splits node.splits)
  obtain ds y where parts: "comps f = ds @ [y]" "list_all proper_name (ds @ [y])" "f = join_names (ds @ [y])"
    using f(1) by (rule proper_pathE)
  from locate_below [OF p parts(2)] f(2) parts(1,3) have "locate (node_files n) (path_append p f) = Some (d @ comps f)" by simp
  with f(2) show ?thesis by (simp add: loadFile_def node_of_def)
qed

text \<open>
  C8: an upload converges.  For a client with the content and a server that has it, where nothing of the
  server stands in the way of a file of the client and texts with equal hashes are equal,
  \<open>updateContentOnServer\<close> over the channel returns, and then the files of the server are those of the client:
  also the files that only the server had are gone.
\<close>

theorem upload_converges:
  assumes "content_ready env t c s d" and "content_ready cenv t c n e" and "t \<noteq> []" and "c \<noteq> []"
    and "sha256 cenv = sha256 env"
    and "\<And>f. f \<in> dom (content_files (node_files n) e) \<Longrightarrow> can_store (node_files s) d f"
    and "\<And>f x m y k. content_files (node_files n) e f = Some (x, m) \<Longrightarrow> content_files (node_files s) d f = Some (y, k) \<Longrightarrow>
      sha256 env x = sha256 env y \<Longrightarrow> x = y"
  shows "\<exists>n' s'. updateContentOnServer cenv (channel_stub env (parse_json env)) t c (n, s) = (Inr (), (n', s'))
    \<and> content_files (node_files s') d = content_files (node_files n) e
    \<and> content_files (node_files n') e = content_files (node_files n) e"
proof -
  let ?goal = "content_files (node_files n) e"
  have serves: "serves_content cenv t c n ?goal" using assms(2-4) unfolding serves_content_def by blast
  obtain q where q: "getPathToContentDirectory cenv t c = Inr q" "locate (node_files n) q = Some e"
    using assms(2) unfolding content_ready_def by blast
  obtain s1 M where s1: "with_manifest env t c manifest_toString s = (Inr (dump_json env (scan_of env (node_files s) d)), s1)"
    "parse_json env (dump_json env (scan_of env (node_files s) d)) = Some M"
    "describes (sha256 env) M (content_files (node_files s) d)" "content_ready env t c s1 d"
    "content_files (node_files s1) d = content_files (node_files s) d"
    and same: "\<And>l. l \<noteq> d @ [''manifest.json''] \<Longrightarrow> node_at (node_files s1) l = node_at (node_files s) l"
    by (rule ready_manifest [OF assms(1)]) blast
  obtain n1 J where n1: "with_manifest cenv t c manifest_toJson n = (Inr J, n1)"
    "describes (sha256 cenv) J ?goal" "content_ready cenv t c n1 e" "content_files (node_files n1) e = ?goal"
    by (rule ready_manifest [OF assms(2)]) blast
  obtain p0 where p0: "getPathToContent env (node_files s) t c = Inr (Some p0)" using ready_path [OF assms(1)] by blast
  have manifest: "channel_getManifest env (parse_json env) t c s = (Inr (Inr M), s1)"
    using assms(3,4) p0 s1(1,2)
    by (simp add: channel_getManifest_def getManifestHandler_def call_def finish_internal_def io_bind_def io_return_def io_lift_def
        concat_read_buffers)
  obtain p where p: "getPathToContentDirectory env t c = Inr p" "locate (node_files s1) p = Some d"
    "''..'' \<notin> set (comps p)" "node_at (node_files s1) d = Some Directory" "tree_ok (node_files s1)"
    using s1(4) unfolding content_ready_def tidy_def by blast
  have ok: "served_ok ?goal" using assms(2) by (auto simp: content_ready_def content_files_ok)
  have here: "loadFile (node_files n1) (path_append q f) = Inr x \<and> getPermissionsFromManifest J f = Inr m"
    if "?goal f = Some (x, m)" for f x m
    using ready_local_file [OF n1(3) q(1), of f x m] n1(2,4) that unfolding describes_def by simp
  have room: "can_store (node_files s1) d f" if "f \<in> dom ?goal" for f
    by (rule can_store_manifest [OF assms(6) [OF that] served_not_manifest [OF serves that] same])
  have M: "describes (sha256 env) M (content_files (node_files s1) d)" and J: "describes (sha256 env) J ?goal"
    using s1(3,5) n1(2) assms(5) by simp_all
  have inj: "x = y" if "?goal f = Some (x, m)" "content_files (node_files s1) d f = Some (y, k)" "sha256 env x = sha256 env y"
    for f x m y k by (rule assms(7) [OF that(1) _ that(3)]) (use that(2) s1(5) in simp)
  obtain u where u: "do_all (upload_change (channel_stub env (parse_json env)) t c q J) (compareManifests M J)
      (n1, s1\<lparr>node_files := node_files s1\<rparr>) = (Inr (), (n1, s1\<lparr>node_files := u\<rparr>))" "content_files u d = ?goal"
    by (rule changes_applied [OF upload_applies [OF p(1) assms(3,4) ok here] p(3) ok M J p(5,2,4) room inj])
  have exists: "fs_exists (node_files n) q" using q(2) by (simp add: fs_exists_def)
  have "updateContentOnServer cenv (channel_stub env (parse_json env)) t c (n, s) =
      do_all (upload_change (channel_stub env (parse_json env)) t c q J) (compareManifests M J) (n1, s1)"
    using q(1) exists manifest n1(1)
    by (simp add: updateContentOnServer_def local_content_path_def getPathToContentDirectory_def getManifestFromServer_def
        local_manifest_def io_bind_def io_lift_def remote_def expect_def locally_def on_files_def channel_stub_def)
  with u n1(4) show ?thesis by auto
qed

theorem upload_converges_witness:
  "\<exists>n' s'. updateContentOnServer (sync_env [(''a'', ''w'', 420, 1500), (''old'', ''z'', 493, 9000)])
       (channel_stub (sync_env [(''a'', ''x'', 420, 1500), (''b'', ''z'', 493, 9000)])
          (parse_json (sync_env [(''a'', ''x'', 420, 1500), (''b'', ''z'', 493, 9000)])))
       ''package'' ''p'' (sync_client, sync_server) = (Inr (), (n', s'))
     \<and> content_files (node_files s') [''c'', ''p''] ''a'' = Some (''w'', 420)
     \<and> content_files (node_files s') [''c'', ''p''] ''b'' = None"
proof -
  let ?goal = "content_files (node_files sync_client) [''c'', ''p'']" and ?srv = "content_files (node_files sync_server) [''c'', ''p'']"
  have tidy: "tidy (node_files sync_client) [''c'', ''p'']" using sync_client_ready unfolding content_ready_def by blast
  have entries: "regular_entries (node_files sync_client) [''c'', ''p''] = [(''a'', ''w'', 420, 1500), (''old'', ''z'', 493, 9000)]" by code_simp
  have goal: "?goal f = Some (x, m) \<longleftrightarrow> (f = ''a'' \<and> x = ''w'' \<and> m = 420) \<or> (f = ''old'' \<and> x = ''z'' \<and> m = 493)" for f x m
    unfolding content_files_entries [OF tidy] entries by auto
  have room: "can_store (node_files sync_server) [''c'', ''p''] f" if "f \<in> dom ?goal" for f
    using that goal sync_room [of f "[([''c'', ''p'', ''a''], RegularFile ''x'' 420 1500), ([''c'', ''p'', ''b''], RegularFile ''z'' 493 9000)]"]
    by (auto simp: sync_server_def proper_name_def)
  have inj: "x = y" if "sha256 (sync_env [(''a'', ''x'', 420, 1500), (''b'', ''z'', 493, 9000)]) x
      = sha256 (sync_env [(''a'', ''x'', 420, 1500), (''b'', ''z'', 493, 9000)]) y" for x y
    using that by (simp add: sync_env_def sample_content_env_def)
  have sha: "sha256 (sync_env [(''a'', ''w'', 420, 1500), (''old'', ''z'', 493, 9000)])
      = sha256 (sync_env [(''a'', ''x'', 420, 1500), (''b'', ''z'', 493, 9000)])" by (simp add: sync_env_def)
  have ids: "''package'' \<noteq> []" "''p'' \<noteq> []" by simp_all
  obtain n' s' where n': "updateContentOnServer (sync_env [(''a'', ''w'', 420, 1500), (''old'', ''z'', 493, 9000)])
       (channel_stub (sync_env [(''a'', ''x'', 420, 1500), (''b'', ''z'', 493, 9000)])
          (parse_json (sync_env [(''a'', ''x'', 420, 1500), (''b'', ''z'', 493, 9000)])))
       ''package'' ''p'' (sync_client, sync_server) = (Inr (), (n', s'))" "content_files (node_files s') [''c'', ''p''] = ?goal"
    using upload_converges [OF sync_server_ready sync_client_ready ids sha room inj] by blast
  have "?goal ''b'' = None" using goal [of "''b''"] by (cases "?goal ''b''") auto
  with n' goal show ?thesis by (intro exI [of _ n'] exI [of _ s']) simp
qed

end
