(* ===== verification/Node_Content.thy ===== *)
theory Node_Content
  imports Test_Node Content_Upload
begin

text \<open>
  A test node with its content client: what giving up on a submission does to the content of the
  submission on the server.
\<close>

section \<open>The world of a node with a content client\<close>

text \<open>Besides a database: the files of the node and the server behind its channel.\<close>

definition on_content :: "(content_node \<times> content_node, 'a) io \<Rightarrow> ('d \<times> content_node \<times> content_node, 'a) io" where
  "on_content m w = (case m (snd w) of (r, v) \<Rightarrow> (r, (fst w, v)))"

definition with_content ::
    "content_env \<Rightarrow> content_env \<Rightarrow> ('d \<times> content_node \<times> content_node) test_node \<Rightarrow> ('d \<times> content_node \<times> content_node) test_node" where
  "with_content cenv env node =
     node\<lparr>node_syncContent := \<lambda>t c. on_content (syncContent cenv (channel_stub env (parse_json env)) t c),
          node_updateContentOnServer := \<lambda>t c. on_content (updateContentOnServer cenv (channel_stub env (parse_json env)) t c),
          node_storeFile := \<lambda>p x. on_content (locally (on_files (storeFile p x)))\<rparr>"

text \<open>
  C7: giving up on a submission deletes it.  When a node that has not brought the files of a submission
  cannot find its test, it stores a \<open>protocol.json\<close> and updates the content of the submission on the
  server, which thereby has no other file: the source that was to be tested is gone.
\<close>

theorem giving_up_erases_submission:
  assumes "env_setVerdictType (run_env node) c ''FAIL'' (db, n, s) = (Inr a, (db1, n, s))"
    and "env_setScore (run_env node) c 0 (db1, n, s) = (Inr b, (db2, n, s))"
    and "getContentDirectory (env_config (run_env node)) ''submission'' = Inr (Some directory)"
    and "storeFile (path_append (path_append directory c) ''protocol.json'') (error_json message) (node_files n) = (Inr (), w)"
    and "content_ready cenv ''submission'' c (n\<lparr>node_files := w\<rparr>) e"
    and "content_files w e = [''protocol.json'' \<mapsto> (error_json message, m)]"
    and "content_ready env ''submission'' c s d" and "c \<noteq> []" and "sha256 cenv = sha256 env"
    and "can_store (node_files s) d ''protocol.json''"
    and "\<And>y k. content_files (node_files s) d ''protocol.json'' = Some (y, k) \<Longrightarrow>
      sha256 env (error_json message) = sha256 env y \<Longrightarrow> error_json message = y"
  shows "\<exists>db' n' s'. failSubmission (with_content cenv env node) c message (db, n, s) = (Inr (), (db', n', s'))
    \<and> content_files (node_files s') d = [''protocol.json'' \<mapsto> (error_json message, m)]"
proof -
  let ?n = "n\<lparr>node_files := w\<rparr>"
  have goal: "content_files (node_files ?n) e = [''protocol.json'' \<mapsto> (error_json message, m)]" using assms(6) by simp
  have room: "can_store (node_files s) d f" if "f \<in> dom (content_files (node_files ?n) e)" for f
    using that assms(10) unfolding goal by (simp split: if_splits)
  have inj: "\<And>f x i y k. content_files (node_files ?n) e f = Some (x, i) \<Longrightarrow> content_files (node_files s) d f = Some (y, k) \<Longrightarrow>
      sha256 env x = sha256 env y \<Longrightarrow> x = y"
    using assms(11) unfolding goal by (simp split: if_splits)
  have kind: "''submission'' \<noteq> []" by simp
  have "\<exists>n' s'. updateContentOnServer cenv (channel_stub env (parse_json env)) ''submission'' c (?n, s) = (Inr (), (n', s'))
    \<and> content_files (node_files s') d = content_files (node_files ?n) e
    \<and> content_files (node_files n') e = content_files (node_files ?n) e"
    by (rule upload_converges [OF assms(7,5) kind assms(8,9)], erule room, erule (2) inj)
  then obtain n' s' where
    up: "updateContentOnServer cenv (channel_stub env (parse_json env)) ''submission'' c (?n, s) = (Inr (), (n', s'))"
    "content_files (node_files s') d = content_files (node_files ?n) e" by blast
  have "failSubmission (with_content cenv env node) c message (db, n, s) = (Inr (), (db2, n', s'))"
    using assms(1-4) up(1)
    by (simp add: failSubmission_def with_content_def on_content_def io_bind_def io_lift_def locally_def on_files_def requireHasValue_def)
  with up(2) show ?thesis unfolding goal by blast
qed

definition sub_env :: "(string \<times> string \<times> nat \<times> int) list \<Rightarrow> content_env" where
  "sub_env es = (sync_env es)\<lparr>content_config := JObject [(''directories'', JObject [(''submissions'', JString ''/c'')])]\<rparr>"

definition sub_node :: "(place \<times> node) list \<Rightarrow> content_node" where
  "sub_node fs = \<lparr>node_files = sync_fs fs, node_manifests = [''/c/p'' \<mapsto> sync_scanner\<lparr>scanner_type := ''submission''\<rparr>]\<rparr>"

lemma sub_ready:
  assumes "tidy (node_files n) [''c'', ''p'']" and "regular_entries (node_files n) [''c'', ''p''] = es"
    and "locate (node_files n) ''/c/p'' = Some [''c'', ''p'']" and "node_at (node_files n) [''c'', ''p''] = Some Directory"
    and "node_at (node_files n) [''c'', ''p'', ''manifest.json''] = None"
    and "node_manifests n = [''/c/p'' \<mapsto> sync_scanner\<lparr>scanner_type := ''submission''\<rparr>]" and "clock (node_files n) = 9500"
  shows "content_ready (sub_env es) ''submission'' ''p'' n [''c'', ''p'']"
proof (rule content_ready_at [OF assms])
  show "getPathToContentDirectory (sub_env es) ''submission'' ''p'' = Inr ''/c/p''"
    by (simp add: sub_env_def getPathToContentDirectory_def) code_simp
  show "parse_json (sub_env es) = (\<lambda>x. Some (manifest_of (full_files (sub_env es) es)))"
    by (simp add: sub_env_def sync_env_def full_files_def)
qed

abbreviation sub_files :: "(place \<times> node) list" where
  "sub_files \<equiv> [([''c'', ''p'', ''source.cpp''], RegularFile ''int main'' 420 1500), ([''c'', ''p'', ''b''], RegularFile ''z'' 493 9000)]"

definition sub_test_node :: "(unit \<times> content_node \<times> content_node) test_node" where
  "sub_test_node =
     \<lparr>run_env = \<lparr>env_config = JObject [(''directories'', JObject [(''submissions'', JString ''/c'')])],
        env_system = (\<lambda>c w. (0, w)), env_lines = (\<lambda>p w. []), env_write = (\<lambda>p x w. w),
        env_language = (\<lambda>s. io_return (Some ''cpp'')), env_setScore = (\<lambda>s x. io_return True),
        env_setVerdictType = (\<lambda>s v. io_return True), env_dump = (\<lambda>j. ''{}'')\<rparr>,
      node_syncContent = (\<lambda>t c. io_return ()), node_updateContentOnServer = (\<lambda>t c. io_return ()),
      node_problemOfSubmission = (\<lambda>s. io_return None), node_storeFile = (\<lambda>p x. io_return ()),
      node_load_file = (\<lambda>w p. None), node_moved_from = (\<lambda>s. s)\<rparr>"

definition given_up_fs :: fs where
  "given_up_fs = \<lparr>nodes = [([''c'', ''p'', ''protocol.json''], RegularFile (error_json ''no'') 420 9500), ([''c''], Directory), ([''c'', ''p''], Directory)],
      cwd = [], clock = 9500, new_permissions = 420\<rparr>"

lemma sub_store:
  "storeFile (path_append (path_append ''/c'' ''p'') ''protocol.json'') (error_json ''no'') (node_files (sub_node [])) = (Inr (), given_up_fs)"
  unfolding sub_node_def content_node.simps by code_simp

lemma sub_client_ready:
  "content_ready (sub_env [(''protocol.json'', error_json ''no'', 420, 9500)]) ''submission'' ''p''
     ((sub_node [])\<lparr>node_files := given_up_fs\<rparr>) [''c'', ''p'']"
proof (rule sub_ready)
  show "tidy (node_files ((sub_node [])\<lparr>node_files := given_up_fs\<rparr>)) [''c'', ''p'']"
    by (rule tidy_at [of _ "''protocol.json''" "error_json ''no''" 420 9500 "''protocol.json''" "error_json ''no''" 420 9500])
      (simp_all add: given_up_fs_def node_at_def proper_name_def)
qed (code_simp, code_simp, code_simp, code_simp, simp_all add: sub_node_def given_up_fs_def)

lemma sub_server_ready:
  "content_ready (sub_env [(''source.cpp'', ''int main'', 420, 1500), (''b'', ''z'', 493, 9000)]) ''submission'' ''p'' (sub_node sub_files) [''c'', ''p'']"
proof (rule sub_ready)
  show "tidy (node_files (sub_node sub_files)) [''c'', ''p'']" unfolding sub_node_def content_node.simps
    by (rule sync_fs_tidy [OF refl]) (simp_all add: proper_name_def)
qed (code_simp, code_simp, code_simp, code_simp, simp_all add: sub_node_def sync_fs_def)

theorem giving_up_erases_submission_witness:
  "\<exists>db' n' s'. failSubmission (with_content (sub_env [(''protocol.json'', error_json ''no'', 420, 9500)])
        (sub_env [(''source.cpp'', ''int main'', 420, 1500), (''b'', ''z'', 493, 9000)]) sub_test_node) ''p'' ''no''
        ((), sub_node [], sub_node sub_files) = (Inr (), (db', n', s'))
    \<and> content_files (node_files (sub_node sub_files)) [''c'', ''p''] ''source.cpp'' = Some (''int main'', 420)
    \<and> content_files (node_files s') [''c'', ''p''] ''source.cpp'' = None"
proof -
  let ?env = "sub_env [(''source.cpp'', ''int main'', 420, 1500), (''b'', ''z'', 493, 9000)]"
    and ?cenv = "sub_env [(''protocol.json'', error_json ''no'', 420, 9500)]" and ?d = "[''c'', ''p'']"
    and ?s = "sub_node sub_files"
  have tidy: "tidy given_up_fs ?d" "tidy (node_files ?s) ?d"
    using sub_client_ready sub_server_ready unfolding content_ready_def by auto
  have "regular_entries given_up_fs ?d = [(''protocol.json'', error_json ''no'', 420, 9500)]" by code_simp
  then have only: "content_files given_up_fs ?d f = Some (x, m) \<longleftrightarrow> f = ''protocol.json'' \<and> x = error_json ''no'' \<and> m = 420" for f x m
    using content_files_entries [OF tidy(1)] by auto
  have goal: "content_files given_up_fs ?d = [''protocol.json'' \<mapsto> (error_json ''no'', 420)]"
  proof
    fix f
    show "content_files given_up_fs ?d f = [''protocol.json'' \<mapsto> (error_json ''no'', 420)] f"
      using only [of f] only [of "''protocol.json''" "error_json ''no''" 420] by (cases "content_files given_up_fs ?d f") auto
  qed
  have "regular_entries (node_files ?s) ?d = [(''source.cpp'', ''int main'', 420, 1500), (''b'', ''z'', 493, 9000)]" by code_simp
  then have srv: "content_files (node_files ?s) ?d f = Some (x, m) \<longleftrightarrow>
      (f = ''source.cpp'' \<and> x = ''int main'' \<and> m = 420) \<or> (f = ''b'' \<and> x = ''z'' \<and> m = 493)" for f x m
    using content_files_entries [OF tidy(2)] by auto
  have sha: "sha256 ?cenv = sha256 ?env" by (simp add: sub_env_def sync_env_def)
  have room: "can_store (node_files ?s) ?d ''protocol.json''"
    using sync_room [of "''protocol.json''" sub_files] by (simp add: sub_node_def proper_name_def)
  have db: "env_setVerdictType (run_env sub_test_node) ''p'' ''FAIL'' ((), sub_node [], ?s) = (Inr True, ((), sub_node [], ?s))"
    "env_setScore (run_env sub_test_node) ''p'' 0 ((), sub_node [], ?s) = (Inr True, ((), sub_node [], ?s))"
    by (simp_all add: sub_test_node_def io_return_def)
  have dir: "getContentDirectory (env_config (run_env sub_test_node)) ''submission'' = Inr (Some ''/c'')" by code_simp
  have id: "''p'' \<noteq> []" by simp
  have no: "error_json ''no'' = y" if "content_files (node_files ?s) ?d ''protocol.json'' = Some (y, k)" for y k
    using that by (simp add: srv)
  have "\<exists>db' n' s'. failSubmission (with_content ?cenv ?env sub_test_node) ''p'' ''no'' ((), sub_node [], ?s) = (Inr (), (db', n', s'))
    \<and> content_files (node_files s') ?d = [''protocol.json'' \<mapsto> (error_json ''no'', 420)]"
    by (rule giving_up_erases_submission [OF db dir sub_store sub_client_ready goal sub_server_ready id sha room]) (erule no)
  then obtain db' n' s' where
    run: "failSubmission (with_content ?cenv ?env sub_test_node) ''p'' ''no'' ((), sub_node [], ?s) = (Inr (), (db', n', s'))"
    "content_files (node_files s') ?d = [''protocol.json'' \<mapsto> (error_json ''no'', 420)]" by blast
  have "content_files (node_files ?s) ?d ''source.cpp'' = Some (''int main'', 420)" by (simp add: srv)
  moreover have "content_files (node_files s') ?d ''source.cpp'' = None" by (simp add: run(2))
  ultimately show ?thesis using run(1) by blast
qed

end
