(* ===== verification/Spec2Isabelle.thy ===== *)
theory Spec2Isabelle
  imports Judge Libpq_Socket Zip Starter Query_Binding Ownership Crypto Logger Polygon Table_Submissions Sync_Conflict Content_Transfer Manifest_Types Node_Content Plugin_Manager Grpc_Types
begin

text \<open>
  A verification library of the judge, the C++ of \<open>src/modules\<close>.

  \<^bold>\<open>The program.\<close>  Three programs talk over gRPC.  The \<^emph>\<open>dispatcher\<close> accepts submissions, keeps a queue of them and of the test
  nodes that are connected, and sends each node one submission at a time.  A \<^emph>\<open>test node\<close> holds one stream to the dispatcher: for
  each submission it is sent, it asks the database for the problem, builds the tree of tests of that problem, brings the files of
  the submission from the content service, runs the tests, sends the files back and answers.  The \<^emph>\<open>content service\<close> keeps
  directories of files with a manifest of their hashes, by which its clients synchronise.  All three are built on the
  same modules: configuration, logging, factories that build objects from specifications such as \<open>Channel(host, Ssl(...))\<close>, plugins, and a
  pool of connections to PostgreSQL, which Python reaches as well, over a bridge from coroutines to event loops.

  \<^bold>\<open>How it is modelled.\<close>  A C++ function is an executable HOL function of the same name.  What may throw returns \<open>exn + 'a\<close>; what has
  effects is an \<open>('w, 'a) io\<close>, state passing with that result (\<open>Prelude\<close>), so that an exception keeps the effects
  made before it.  \<open>UndefinedBehaviour\<close> and \<open>NeverResumes\<close> are outcomes no handler catches.  Structs are records, enums and variants
  datatypes, 32-bit integers words where they can wrap, scores and times exact rationals, addresses and descriptors natural
  numbers.  Coroutines that run concurrently are steps between two suspensions: step relations with any order of the steps
  (\<open>Dispatcher\<close>, \<open>Pool\<close>, \<open>Judge\<close>, \<open>Awaitable_Bridge\<close>).  Libraries that are not in the repository are parameters: records of their functions
  (libpq, libzip, gRPC, libsodium, the dynamic linker, the conversions of pybind11) or of the text functions of the standard
  library that depend on a locale or a clock.

  \<^bold>\<open>The theories\<close>, and the code they model:
  \<^item> \<open>Prelude\<close>, \<open>Text\<close>, \<open>Json\<close>: exceptions, effects, searches; \<open>std::stoi\<close>, \<open>std::format\<close> and numbers as text; the values of nlohmann::json.
  \<^item> \<open>Factory\<close> (\<open>shared/factory\<close>), \<open>Config\<close> and \<open>Problem_Config\<close> (\<open>config\<close>), \<open>Logger\<close> (\<open>logger\<close>), \<open>Plugin_Manager\<close> (\<open>plugin_manager\<close>), \<open>Grpc_Types\<close>
    (\<open>shared/utils/grpc\<close>), \<open>Crypto\<close> (\<open>shared/utils/src/crypto.cpp\<close>): what all programs share.
  \<^item> \<open>Filesystem\<close>, \<open>File_Tree\<close>, \<open>Zip\<close> (\<open>shared/utils/src/filesystem.cpp\<close>): \<open>std::filesystem\<close> without symbolic links, the operations on files, that they keep
    file systems trees, and archives.
  \<^item> \<open>Testing_Queue\<close>, \<open>Dispatcher\<close> (\<open>dispatcher\<close>): the queue; the two services and their loops.
  \<^item> \<open>Verdicts\<close>, \<open>Verdict_Utils\<close>, \<open>Test_Tree\<close>, \<open>Test_Node\<close> (\<open>test_node\<close>): verdicts and their builders, how the outcome of a run is read, the tests of
    a problem and how they run, the session.  \<open>Polygon\<close>: the conversion of Polygon packages, and what the node builds from one.
  \<^item> \<open>Content_Manifest\<close>, \<open>Content_Server\<close>, \<open>Content_Client\<close> (\<open>content_service\<close>): manifests, the handlers, the storage of a client and its stub.
    \<open>Content_Sync\<close>, \<open>Content_Source\<close>, \<open>Content_Upload\<close>, \<open>Content_Transfer\<close>, \<open>Sync_Conflict\<close>, \<open>Manifest_Types\<close>: client and server together.
  \<^item> \<open>Statements\<close>, \<open>Libpq\<close>, \<open>Libpq_Socket\<close>, \<open>Pool\<close>, \<open>Table_Submissions\<close>, \<open>Ownership\<close> (\<open>database\<close>): prepared statements and their log, the connection, its
    socket, the pool, the table of submissions, and the handles that are moved.
  \<^item> \<open>Awaitable_Bridge\<close> (\<open>shared/python_binding/awaitable_support\<close>), \<open>Query_Binding\<close> (\<open>database/python_binding\<close>): queries from Python.
  \<^item> \<open>Judge\<close>, \<open>Node_Content\<close>, \<open>Starter\<close>: the components together: the dispatcher with its nodes and their streams, a node with
    the content service, the three \<open>main\<close> functions.

  \<^bold>\<open>What is shown.\<close>
  \<^item> No submission is lost: over any run of the queue, and of the dispatcher with its streams, as long as clients and nodes
    keep to what the code does not check (\<open>orderly_event\<close>: non-empty submissions, distinct nodes, no unsolicited answers), the accepted ones are
    those in the system and those answered; an idle node and a submission it could test do not wait for each other, except
    after a disconnect; and the judge as a whole answers every submission after finitely many of its own steps, as
    long as no node is lost and no test throws.
  \<^item> Synchronising and uploading a content return and make the files equal, uploads are downloaded as they were, a cached scan is a full
    scan, the handlers of files change nothing that exists outside the content they are asked for; and where this ends: a missing directory
    on the path of a new file, a file in the place of a directory, a content identifier that is a path, a stream that is cut.
  \<^item> A testset with the minimum builder gives the minimum and runs nothing after the first zero; one with the sum builder runs nothing; the
    status of the sandbox comes before the checker; a session deals with its requests in order and answers each once, up to the
    first that throws; a converted package is built with its tests and limits, except for the real time limit.
  \<^item> Statements are replayed exactly on each connection, the execution queue is a fair lock, slots are leased to one
    holder, the socket's duplicate is opened and closed once, every handle's resource is released once; and the ways the
    pool stops working, a rejected query, an acquire that throws, or outgrows its maximal size, coroutines that start together.
  \<^item> Bridges are a stack when used in order, every spawned coroutine settles its future with the right number of references; cancelled
    futures are released twice.
  \<^item> Packing and unpacking restores files and modes; entries can escape the directory.  Specifications are read back; tokens are accepted
    exactly when they agree; a server starts with the interceptors of the array in its configuration, and without an array with none.

  \<^bold>\<open>Interfaces.\<close>  \<open>conserving\<close> (\<open>Prelude\<close>), operations that keep what is in a system, is interpreted on the queue; \<open>early_stop\<close> on the minimum
  builder; \<open>fair_lock\<close> on the execution queue; \<open>executor_contract\<close>, what the table relies on, on the pool; \<open>content_source\<close>, what a
  synchronisation relies on, on the channel to a server; \<open>owner\<close> on the three classes of handles.

  \<^bold>\<open>Bounds.\<close>  There is no fuel: loops are structural or have a measure.  Streams and the answers of libpq are finite
  lists; when one ends before the code stops waiting the result is \<open>NeverResumes\<close>, and properties that say a call returns exclude it.

  \<^bold>\<open>Not modelled.\<close>
  \<^item> Log calls inside the components, timers and timeouts, and data races between threads: each component is run by the coroutines of one
    executor.
  \<^item> Symbolic links and the modes of directories; files and the clock of the system share one clock.
  \<^item> The bindings to Python other than those of the database, the registrations of types and the code generated from \<open>.proto\<close> files: declarations
    and calls of what is modelled.  \<open>problem_table.cpp\<close> is in no target and includes a header that does not exist; the verdict aggregators have empty bodies;
    the only operation of \<open>async.cpp\<close> is unused and its effect is commented out.
  \<^item> The web application, in Python.
  \<^item> A node that is only cut off by the network goes on testing; what it does to files and the database then is a step of others in \<open>Judge\<close>.
\<close>

end
